(* ===== verification/Prelude.thy ===== *)
theory Prelude
  imports Complex_Main "HOL-Library.Word" "HOL-Library.Code_Target_Nat"
begin

unbundle bit_operations_syntax

text \<open>
  Shared vocabulary of the development: the status/result type of \<^verbatim>\<open>td::Status\<close> and
  \<^verbatim>\<open>td::Result\<close>, the ranges of the fixed-width integers, byte codes of characters, the
  position functions of \<^verbatim>\<open>td::Slice\<close>, and the generic list and map lemmas that the components
  use.  A failed \<^verbatim>\<open>CHECK\<close> aborts the process; definitions in which one can fail return the
  outcome type \<open>'a checked\<close>.
\<close>

named_theorems stream_defs \<open>definitions of the streaming state machine, for case analysis\<close>
named_theorems byte_defs \<open>character classification of td/utils/misc.h\<close>

section \<open>Status and Result\<close>

text \<open>\<^verbatim>\<open>td::Status\<close>: an error carries a code and a message; \<^verbatim>\<open>Status::Error(message)\<close> has code 0.\<close>

datatype status = Status (status_code: int) (status_message: string)

type_synonym 'a result = "status + 'a"
type_synonym status_result = "unit result"

abbreviation Error :: "int \<Rightarrow> string \<Rightarrow> 'a result" where
  "Error c m \<equiv> Inl (Status c m)"

abbreviation Ok :: "'a \<Rightarrow> 'a result" where
  "Ok x \<equiv> Inr x"

definition is_ok :: "'a result \<Rightarrow> bool" where
  "is_ok r = (case r of Inl _ \<Rightarrow> False | Inr _ \<Rightarrow> True)"

lemma is_ok_simps [simp]: "is_ok (Inr x)" "\<not> is_ok (Inl e)"
  by (simp_all add: is_ok_def)

lemma is_ok_iff: "is_ok r \<longleftrightarrow> (\<exists>x. r = Inr x)"
  by (cases r) simp_all

text \<open>The outcome of code guarded by \<^verbatim>\<open>CHECK\<close>: the process aborts, or a value is returned.\<close>

datatype 'a checked = CheckFailed | Checked 'a

section \<open>Fixed-width integers\<close>

abbreviation int64_max :: int where
  "int64_max \<equiv> 9223372036854775807"

definition in_int64 :: "int \<Rightarrow> bool" where
  "in_int64 x \<longleftrightarrow> - 9223372036854775808 \<le> x \<and> x \<le> int64_max"

definition in_int32 :: "int \<Rightarrow> bool" where
  "in_int32 x \<longleftrightarrow> - 2147483648 \<le> x \<and> x \<le> 2147483647"

section \<open>Characters as bytes\<close>

text \<open>
  The byte of a character.  The sources compare \<^verbatim>\<open>char\<close> values only with ASCII bounds, for which
  the signed and the unsigned reading agree.
\<close>

definition code :: "char \<Rightarrow> nat" where
  "code c = of_char c"

lemma code_less [simp]: "code c < 256"
  by (simp add: code_def of_char_def split: char.splits)

lemma char_of_code [simp]: "char_of (code c) = c"
  by (simp add: code_def)

lemma code_char_of [simp]: "code (char_of n) = n mod 256"
  by (simp add: code_def)

lemma code_inject [simp]: "code c = code d \<longleftrightarrow> c = d"
  by (metis char_of_code)

lemma all_char_by_code:
  assumes "\<forall>n \<in> {0..<256::nat}. P (char_of n)"
  shows "P c"
proof -
  have "P (char_of (code c))"
    using assms by (rule bspec) simp
  then show ?thesis by simp
qed

section \<open>Positions in strings\<close>

text \<open>\<^verbatim>\<open>Slice::find(char)\<close>: the first position; \<open>None\<close> stands for \<^verbatim>\<open>npos\<close>.\<close>

fun find_char :: "string \<Rightarrow> char \<Rightarrow> nat option" where
  "find_char [] c = None"
| "find_char (x # xs) c = (if x = c then Some 0 else map_option Suc (find_char xs c))"

text \<open>\<^verbatim>\<open>Slice::rfind(char)\<close>: the last position.\<close>

fun rfind_char :: "string \<Rightarrow> char \<Rightarrow> nat option" where
  "rfind_char [] c = None"
| "rfind_char (x # xs) c =
     (case rfind_char xs c of
        Some p \<Rightarrow> Some (Suc p)
      | None \<Rightarrow> (if x = c then Some 0 else None))"

lemma find_char_None [simp]: "find_char s c = None \<longleftrightarrow> c \<notin> set s"
  by (induction s) auto

lemma rfind_char_None [simp]: "rfind_char s c = None \<longleftrightarrow> c \<notin> set s"
  by (induction s) (auto split: option.splits)

lemma find_char_Some:
  "find_char s c = Some p \<Longrightarrow> p < length s \<and> s ! p = c \<and> c \<notin> set (take p s)"
  by (induction s arbitrary: p) (auto split: if_splits)

lemma find_char_length: "find_char s c = Some p \<Longrightarrow> p < length s"
  by (simp add: find_char_Some)

lemma find_char_append: "c \<notin> set xs \<Longrightarrow> find_char (xs @ c # ys) c = Some (length xs)"
  by (induction xs) auto

lemma find_char_split:
  "find_char s c = Some p \<Longrightarrow> s = take p s @ c # drop (Suc p) s"
  by (metis find_char_Some id_take_nth_drop)

lemma rfind_char_Some:
  "rfind_char s c = Some p \<Longrightarrow> p < length s \<and> s ! p = c \<and> c \<notin> set (drop (Suc p) s)"
  by (induction s arbitrary: p) (auto split: if_splits option.splits)

lemma rfind_char_append: "c \<notin> set ys \<Longrightarrow> rfind_char (xs @ c # ys) c = Some (length xs)"
  by (induction xs) (simp_all add: rfind_char_None [THEN iffD2])

text \<open>\<^verbatim>\<open>begins_with\<close> and \<^verbatim>\<open>ends_with\<close> of \<^verbatim>\<open>td/utils/misc.h\<close> compare sizes first.\<close>

definition begins_with :: "string \<Rightarrow> string \<Rightarrow> bool" where
  "begins_with str prefix \<longleftrightarrow> length prefix \<le> length str \<and> prefix = take (length prefix) str"

definition ends_with :: "string \<Rightarrow> string \<Rightarrow> bool" where
  "ends_with str suffix \<longleftrightarrow>
     length suffix \<le> length str \<and> suffix = drop (length str - length suffix) str"

lemma begins_with_append [simp]: "begins_with (p @ s) p"
  by (simp add: begins_with_def)

lemma begins_with_iff: "begins_with s p \<longleftrightarrow> (\<exists>r. s = p @ r)"
  by (auto simp: begins_with_def) (metis append_take_drop_id)

lemma ends_with_iff: "ends_with s p \<longleftrightarrow> (\<exists>r. s = r @ p)"
  by (auto simp: ends_with_def) (metis append_take_drop_id)

section \<open>Lists and maps\<close>

lemma takeWhile_append_stop:
  "\<forall>x \<in> set xs. P x \<Longrightarrow> \<not> P y \<Longrightarrow> takeWhile P (xs @ y # ys) = xs"
  by (induction xs) auto

lemma dropWhile_append_stop:
  "\<forall>x \<in> set xs. P x \<Longrightarrow> \<not> P y \<Longrightarrow> dropWhile P (xs @ y # ys) = y # ys"
  by (induction xs) auto

lemma replicate_takeWhile_eq:
  "takeWhile (\<lambda>x. x = c) xs = replicate (length (takeWhile (\<lambda>x. x = c) xs)) c"
  by (induction xs) auto

lemma take_run_replicate:
  assumes "k \<le> length (takeWhile (\<lambda>x. x = c) xs)"
  shows "take k xs = replicate k c"
  using assms by (induction xs arbitrary: k) (auto simp: take_Cons' split: if_splits nat.splits, metis Suc_pred replicate_Suc)

lemma take_add_drop: "take (m + n) xs = take m xs @ take n (drop m xs)"
  by (rule take_add)

end
