(* ===== verification/Td_Misc.thy ===== *)
theory Td_Misc
  imports Prelude
begin

unbundle bit_operations_syntax

text \<open>
  The string helpers of \<^verbatim>\<open>td/tdutils/td/utils/misc.h\<close> and \<^verbatim>\<open>misc.cpp\<close>, the integer printer of
  \<^verbatim>\<open>StringBuilder.cpp\<close> that \<^verbatim>\<open>to_integer_safe\<close> compares with, and \<^verbatim>\<open>check_utf8\<close> of
  \<^verbatim>\<open>utf8.cpp\<close>.  Slices and strings are lists of characters.  The four codecs are shown to be
  instances of one interface, \<open>codec\<close>.
\<close>

section \<open>Character classes\<close>

definition is_space :: "char \<Rightarrow> bool" where
  "is_space c \<longleftrightarrow> code c \<in> {32, 9, 13, 10, 0, 11}"

definition is_digit :: "char \<Rightarrow> bool" where
  "is_digit c \<longleftrightarrow> 48 \<le> code c \<and> code c \<le> 57"

text \<open>\<^verbatim>\<open>c |= 0x20\<close>\<close>

definition or_0x20 :: "char \<Rightarrow> nat" where
  "or_0x20 c = code c OR 32"

definition is_alpha :: "char \<Rightarrow> bool" where
  "is_alpha c \<longleftrightarrow> 97 \<le> or_0x20 c \<and> or_0x20 c \<le> 122"

definition is_alnum :: "char \<Rightarrow> bool" where
  "is_alnum c \<longleftrightarrow> is_alpha c \<or> is_digit c"

definition is_hex_digit :: "char \<Rightarrow> bool" where
  "is_hex_digit c \<longleftrightarrow> is_digit c \<or> (97 \<le> or_0x20 c \<and> or_0x20 c \<le> 102)"

definition to_lower_char :: "char \<Rightarrow> char" where
  "to_lower_char c = (if 65 \<le> code c \<and> code c \<le> 90 then char_of (code c - 65 + 97) else c)"

definition to_upper_char :: "char \<Rightarrow> char" where
  "to_upper_char c = (if 97 \<le> code c \<and> code c \<le> 122 then char_of (code c - 97 + 65) else c)"

definition to_lower :: "string \<Rightarrow> string" where
  "to_lower s = map to_lower_char s"

definition to_upper :: "string \<Rightarrow> string" where
  "to_upper s = map to_upper_char s"

definition hex_to_int :: "char \<Rightarrow> nat" where
  "hex_to_int c =
     (if is_digit c then code c - 48
      else if 97 \<le> or_0x20 c \<and> or_0x20 c \<le> 102 then or_0x20 c - 97 + 10
      else 16)"

section \<open>Trimming, splitting, padding\<close>

definition trim :: "string \<Rightarrow> string" where
  "trim s = rev (dropWhile is_space (rev (dropWhile is_space s)))"

text \<open>\<^verbatim>\<open>split\<close>: at the first delimiter; without one, the second part is empty.\<close>

definition split_at_char :: "string \<Rightarrow> char \<Rightarrow> string \<times> string" where
  "split_at_char s d =
     (case find_char s d of
        None \<Rightarrow> (s, [])
      | Some p \<Rightarrow> (take p s, drop (p + 1) s))"

text \<open>\<^verbatim>\<open>full_split\<close>: the loop carries the number of parts already pushed.\<close>

function full_split_loop :: "string \<Rightarrow> char \<Rightarrow> nat \<Rightarrow> nat \<Rightarrow> string list" where
  "full_split_loop s d max_parts n =
     (if n + 1 < max_parts then
        (case find_char s d of
           None \<Rightarrow> [s]
         | Some p \<Rightarrow> take p s # full_split_loop (drop (p + 1) s) d max_parts (n + 1))
      else [s])"
  by pat_completeness auto
termination
  by (relation "measure (\<lambda>(s, d, m, n). length s)")
    (auto dest: find_char_length)

declare full_split_loop.simps [simp del]

definition full_split :: "string \<Rightarrow> char \<Rightarrow> nat \<Rightarrow> string list" where
  "full_split s d max_parts = (if s = [] then [] else full_split_loop s d max_parts 0)"

fun implode :: "string list \<Rightarrow> char \<Rightarrow> string" where
  "implode [] d = []"
| "implode [v] d = v"
| "implode (v # w # vs) d = v @ d # implode (w # vs) d"

definition lpad :: "string \<Rightarrow> nat \<Rightarrow> char \<Rightarrow> string" where
  "lpad s n c = (if length s \<ge> n then s else replicate (n - length s) c @ s)"

definition rpad :: "string \<Rightarrow> nat \<Rightarrow> char \<Rightarrow> string" where
  "rpad s n c = (if length s \<ge> n then s else s @ replicate (n - length s) c)"

text \<open>\<^verbatim>\<open>oneline\<close>: the loop state is the flag \<^verbatim>\<open>after_new_line\<close>; trailing spaces go at the end.\<close>

fun oneline_loop :: "bool \<Rightarrow> string \<Rightarrow> string" where
  "oneline_loop after_new_line [] = []"
| "oneline_loop after_new_line (c # cs) =
     (if code c \<noteq> 10 \<and> code c \<noteq> 13 then
        (if after_new_line \<and> code c = 32 then oneline_loop True cs
         else c # oneline_loop False cs)
      else if \<not> after_new_line then CHR 0x20 # oneline_loop True cs
      else oneline_loop True cs)"

definition oneline :: "string \<Rightarrow> string" where
  "oneline s = rev (dropWhile (\<lambda>c. c = CHR 0x20) (rev (oneline_loop True s)))"

definition replace_with_spaces :: "string \<Rightarrow> string \<Rightarrow> string" where
  "replace_with_spaces s chars =
     map (\<lambda>c. if find_char chars c \<noteq> None then CHR 0x20 else c) s"

definition clamp :: "'a::linorder \<Rightarrow> 'a \<Rightarrow> 'a \<Rightarrow> 'a" where
  "clamp v lo hi = (if v < lo then lo else if v > hi then hi else v)"

section \<open>Integers\<close>

text \<open>
  \<^verbatim>\<open>to_integer<T>\<close> for a \<open>w\<close>-bit type: the accumulator is unsigned and wraps; a value above the
  signed maximum is negated modulo \<open>2 ^ w\<close> and flips the sign.
\<close>

definition accumulate_digits :: "nat \<Rightarrow> string \<Rightarrow> nat" where
  "accumulate_digits w s =
     foldl (\<lambda>v c. (v * 10 + (code c - 48)) mod 2 ^ w) 0 (takeWhile is_digit s)"

definition to_integer_unsigned :: "nat \<Rightarrow> string \<Rightarrow> nat" where
  "to_integer_unsigned w s = accumulate_digits w s"

definition to_integer_signed :: "nat \<Rightarrow> string \<Rightarrow> int" where
  "to_integer_signed w s =
     (let is_negative = (s \<noteq> [] \<and> hd s = CHR ''-'');
          v = accumulate_digits w (if is_negative then tl s else s);
          smax = 2 ^ (w - 1) - 1
      in if v > smax then
           (let v2 = (2 ^ w - v) mod 2 ^ w
            in if v2 > smax then - (2 ^ (w - 1))
               else if \<not> is_negative then - int v2 else int v2)
         else if is_negative then - int v else int v)"

text \<open>\<^verbatim>\<open>print_uint\<close> and \<^verbatim>\<open>print_int\<close> of \<^verbatim>\<open>StringBuilder.cpp\<close>.\<close>

function print_digits_reversed :: "nat \<Rightarrow> string" where
  "print_digits_reversed x =
     char_of (48 + x mod 10) # (if x div 10 > 0 then print_digits_reversed (x div 10) else [])"
  by pat_completeness auto
termination
  by (relation "measure id") auto

declare print_digits_reversed.simps [simp del]

definition print_uint :: "nat \<Rightarrow> string" where
  "print_uint x =
     (if x < 100 then
        (if x < 10 then [char_of (48 + x)] else [char_of (48 + x div 10), char_of (48 + x mod 10)])
      else rev (print_digits_reversed x))"

definition increment_last :: "string \<Rightarrow> string" where
  "increment_last s = butlast s @ [char_of (code (last s) + 1)]"

definition print_int :: "nat \<Rightarrow> int \<Rightarrow> string" where
  "print_int w x =
     (if x < 0 then
        (if x = - (2 ^ (w - 1)) then increment_last (CHR ''-'' # print_uint (nat (- (x + 1))))
         else CHR ''-'' # print_uint (nat (- x)))
      else print_uint (nat x))"

text \<open>\<^verbatim>\<open>check_utf8\<close> reads the terminating zero byte; the list is the string followed by it.\<close>

fun check_utf8_bytes :: "nat list \<Rightarrow> bool" where
  "check_utf8_bytes [] = False"
| "check_utf8_bytes (a # r1) =
     (if a AND 0x80 = 0 then (if r1 = [] then True else check_utf8_bytes r1)
      else if a AND 0x40 = 0 then False
      else (case r1 of [] \<Rightarrow> False | b # r2 \<Rightarrow>
        if b AND 0xc0 \<noteq> 0x80 then False
        else if a AND 0x20 = 0 then (if a AND 0x1e > 0 then check_utf8_bytes r2 else False)
        else (case r2 of [] \<Rightarrow> False | c # r3 \<Rightarrow>
          if c AND 0xc0 \<noteq> 0x80 then False
          else if a AND 0x10 = 0 then
            (let x = (push_bit 6 (a AND 0x0f)) OR (b AND 0x20)
             in if x \<noteq> 0 \<and> x \<noteq> 0x360 then check_utf8_bytes r3 else False)
          else (case r3 of [] \<Rightarrow> False | d # r4 \<Rightarrow>
            if d AND 0xc0 \<noteq> 0x80 then False
            else if a AND 0x08 = 0 then
              (let t = (push_bit 6 (a AND 0x07)) OR (b AND 0x30)
               in if 0 < t \<and> t < 0x110 then check_utf8_bytes r4 else False)
            else False))))"

definition check_utf8 :: "string \<Rightarrow> bool" where
  "check_utf8 s = check_utf8_bytes (map code s @ [0])"

definition get_to_integer_safe_error :: "string \<Rightarrow> status" where
  "get_to_integer_safe_error s =
     (let error_message = ''Can'' @ [CHR 0x27] @ ''t parse as an integer string '' @ [CHR 0x22] @ s @ [CHR 0x22]
      in if \<not> check_utf8 error_message then Status 0 ''Strings must be encoded in UTF-8''
         else Status 0 error_message)"

definition to_integer_safe :: "nat \<Rightarrow> string \<Rightarrow> int result" where
  "to_integer_safe w s =
     (let res = to_integer_signed w s
      in if print_int w res \<noteq> s then Inl (get_to_integer_safe_error s) else Inr res)"

definition to_integer_safe_unsigned :: "nat \<Rightarrow> string \<Rightarrow> nat result" where
  "to_integer_safe_unsigned w s =
     (let res = to_integer_unsigned w s
      in if print_uint res \<noteq> s then Inl (get_to_integer_safe_error s) else Inr res)"

definition hex_to_integer :: "nat \<Rightarrow> string \<Rightarrow> nat" where
  "hex_to_integer w s =
     foldl (\<lambda>v c. (v * 16 + hex_to_int c) mod 2 ^ w) 0 (takeWhile is_hex_digit s)"

fun hex_to_integer_safe_loop :: "nat \<Rightarrow> nat \<Rightarrow> string \<Rightarrow> nat result" where
  "hex_to_integer_safe_loop w v [] = Ok v"
| "hex_to_integer_safe_loop w v (c # cs) =
     (if hex_to_int c = 16 then Error 0 ''String contains non-hex digit''
      else if v > (2 ^ w - 1) div 16 then Error 0 ''String hex number overflows''
      else hex_to_integer_safe_loop w (v * 16 + hex_to_int c) cs)"

definition hex_to_integer_safe :: "nat \<Rightarrow> string \<Rightarrow> nat result" where
  "hex_to_integer_safe w s =
     (if s = [] then Error 0 ''String is empty'' else hex_to_integer_safe_loop w 0 s)"

section \<open>Codecs\<close>

definition hex_digit_lower :: "nat \<Rightarrow> char" where
  "hex_digit_lower n = ''0123456789abcdef'' ! n"

definition hex_digit_upper :: "nat \<Rightarrow> char" where
  "hex_digit_upper n = ''0123456789ABCDEF'' ! n"

fun hex_decode_pairs :: "string \<Rightarrow> string result" where
  "hex_decode_pairs (a # b # s) =
     (if hex_to_int a = 16 \<or> hex_to_int b = 16 then Error 0 ''Wrong hex string''
      else (case hex_decode_pairs s of
              Inl e \<Rightarrow> Inl e
            | Inr r \<Rightarrow> Ok (char_of (hex_to_int a * 16 + hex_to_int b) # r)))"
| "hex_decode_pairs _ = Ok []"

definition hex_decode :: "string \<Rightarrow> string result" where
  "hex_decode s =
     (if length s mod 2 \<noteq> 0 then Error 0 ''Wrong hex string length'' else hex_decode_pairs s)"

definition hex_encode :: "string \<Rightarrow> string" where
  "hex_encode s =
     concat (map (\<lambda>c. [hex_digit_lower (drop_bit 4 (code c)), hex_digit_lower (code c AND 15)]) s)"

definition buffer_to_hex :: "string \<Rightarrow> string" where
  "buffer_to_hex s =
     concat (map (\<lambda>c. [hex_digit_upper (code c AND 15), hex_digit_upper (drop_bit 4 (code c))]) s)"

definition is_url_char :: "char \<Rightarrow> bool" where
  "is_url_char c \<longleftrightarrow> is_alnum c \<or> c \<in> {CHR ''-'', CHR ''.'', CHR ''_'', CHR ''~''}"

definition url_encode_char :: "char \<Rightarrow> string" where
  "url_encode_char c =
     (if is_url_char c then [c]
      else [CHR ''%'', hex_digit_upper (code c div 16), hex_digit_upper (code c mod 16)])"

definition url_encoded_length :: "string \<Rightarrow> nat" where
  "url_encoded_length s = foldl (\<lambda>n c. n - 2 * (if is_url_char c then 1 else 0)) (3 * length s) s"

definition url_encode :: "string \<Rightarrow> string" where
  "url_encode s =
     (if url_encoded_length s = length s then s else concat (map url_encode_char s))"

fun url_decode :: "bool \<Rightarrow> string \<Rightarrow> string" where
  "url_decode plus_as_space [] = []"
| "url_decode plus_as_space (c # s) =
     (case s of
        a # b # r \<Rightarrow>
          (if c = CHR ''%'' \<and> hex_to_int a < 16 \<and> hex_to_int b < 16
           then char_of (hex_to_int a * 16 + hex_to_int b) # url_decode plus_as_space r
           else (if plus_as_space \<and> c = CHR ''+'' then CHR 0x20 else c) # url_decode plus_as_space s)
      | _ \<Rightarrow> (if plus_as_space \<and> c = CHR ''+'' then CHR 0x20 else c) # url_decode plus_as_space s)"

text \<open>
  The run-length codecs.  \<open>zero_run c s\<close> is the value of \<^verbatim>\<open>cnt\<close> after the inner loop, started
  at the character \<open>c\<close> with the rest \<open>s\<close> behind it.
\<close>

definition zero_run :: "char \<Rightarrow> string \<Rightarrow> nat" where
  "zero_run c s = 1 + min 249 (length (takeWhile (\<lambda>x. x = c) s))"

function run_encode :: "(char \<Rightarrow> bool) \<Rightarrow> string \<Rightarrow> string" where
  "run_encode p [] = []"
| "run_encode p (c # s) =
     (if p c then c # char_of (zero_run c s) # run_encode p (drop (zero_run c s - 1) s)
      else c # run_encode p s)"
  by pat_completeness auto
termination
  by (relation "measure (\<lambda>(p, s). length s)") auto

fun run_decode :: "(char \<Rightarrow> bool) \<Rightarrow> string \<Rightarrow> string" where
  "run_decode p [] = []"
| "run_decode p [c] = [c]"
| "run_decode p (c # n # s) =
     (if p c then replicate (code n) c @ run_decode p s else c # run_decode p (n # s))"

definition is_zero_byte :: "char \<Rightarrow> bool" where
  "is_zero_byte c \<longleftrightarrow> code c = 0"

definition is_zero_or_one_byte :: "char \<Rightarrow> bool" where
  "is_zero_or_one_byte c \<longleftrightarrow> code c = 0 \<or> code c = 0xff"

definition zero_encode :: "string \<Rightarrow> string" where
  "zero_encode = run_encode is_zero_byte"

definition zero_decode :: "string \<Rightarrow> string" where
  "zero_decode = run_decode is_zero_byte"

definition zero_one_encode :: "string \<Rightarrow> string" where
  "zero_one_encode = run_encode is_zero_or_one_byte"

definition zero_one_decode :: "string \<Rightarrow> string" where
  "zero_one_decode = run_decode is_zero_or_one_byte"

section \<open>Facts about characters\<close>

lemmas char_class_defs = is_space_def is_digit_def or_0x20_def is_alpha_def is_alnum_def
  is_hex_digit_def hex_to_int_def is_url_char_def to_lower_char_def to_upper_char_def

text \<open>Facts on single bytes are checked on all 256 of them.\<close>

lemma hex_to_int_upper:
  "n < 16 \<Longrightarrow> hex_to_int (hex_digit_upper n) = n"
proof -
  have "\<forall>n \<in> set [0..<16]. hex_to_int (hex_digit_upper n) = n"
    by code_simp
  then show "n < 16 \<Longrightarrow> ?thesis" by simp
qed

lemma hex_to_int_lower:
  "n < 16 \<Longrightarrow> hex_to_int (hex_digit_lower n) = n"
proof -
  have "\<forall>n \<in> set [0..<16]. hex_to_int (hex_digit_lower n) = n"
    by code_simp
  then show "n < 16 \<Longrightarrow> ?thesis" by simp
qed

lemma or_0x20_eq: "or_0x20 c = code c + (if odd (code c div 32) then 0 else 32)"
proof -
  have "code c OR 32 = set_bit 5 (code c)"
    by (simp add: set_bit_eq_or push_bit_eq_mult)
  then show ?thesis
    by (simp add: or_0x20_def set_bit_eq bit_iff_odd)
qed

lemma odd_div_32:
  assumes "n < (256::nat)"
  shows "odd (n div 32) \<longleftrightarrow> (32 \<le> n \<and> n < 64) \<or> (96 \<le> n \<and> n < 128) \<or> (160 \<le> n \<and> n < 192) \<or> 224 \<le> n"
proof -
  define k where "k = n div 32"
  have "k < 8" using assms by (simp add: k_def less_mult_imp_div_less)
  moreover have lo: "32 * k \<le> n" and hi: "n < 32 * k + 32"
    by (simp_all add: k_def)
  ultimately have "k = 0 \<or> k = 1 \<or> k = 2 \<or> k = 3 \<or> k = 4 \<or> k = 5 \<or> k = 6 \<or> k = 7" by arith
  with lo hi show ?thesis unfolding k_def [symmetric]
    by (elim disjE) auto
qed

lemma is_alpha_iff:
  "is_alpha c \<longleftrightarrow> (65 \<le> code c \<and> code c \<le> 90) \<or> (97 \<le> code c \<and> code c \<le> 122)"
  unfolding is_alpha_def or_0x20_eq using odd_div_32 [OF code_less [of c]] by auto

lemma hex_letter_iff:
  "97 \<le> or_0x20 c \<and> or_0x20 c \<le> 102 \<longleftrightarrow>
     (65 \<le> code c \<and> code c \<le> 70) \<or> (97 \<le> code c \<and> code c \<le> 102)"
  unfolding or_0x20_eq using odd_div_32 [OF code_less [of c]] by auto

lemma hex_to_int_le: "hex_to_int c \<le> 16"
  by (auto simp: hex_to_int_def is_digit_def)

lemma hex_to_int_less_iff: "hex_to_int c < 16 \<longleftrightarrow> is_hex_digit c"
  by (auto simp: hex_to_int_def is_hex_digit_def is_digit_def)

lemma code_literals [simp]:
  "code CHR ''%'' = 37" "code CHR ''+'' = 43" "code CHR ''/'' = 47" "code CHR ''-'' = 45"
  "code CHR ''.'' = 46" "code CHR ''_'' = 95" "code CHR ''~'' = 126" "code CHR '','' = 44"
  "code CHR '':'' = 58" "code CHR 0x20 = 32" "code CHR ''='' = 61"
  by (simp_all add: code_def)

lemma url_char_not_special:
  "is_url_char c \<Longrightarrow> c \<noteq> CHR ''%'' \<and> c \<noteq> CHR ''+'' \<and> c \<noteq> CHR ''/''"
  by (auto simp: is_url_char_def is_alnum_def is_alpha_iff is_digit_def)

lemma hex_digit_upper_class:
  "n < 16 \<Longrightarrow> is_digit (hex_digit_upper n) \<or> 65 \<le> code (hex_digit_upper n) \<and> code (hex_digit_upper n) \<le> 70"
proof -
  have "\<forall>n \<in> set [0..<16]. is_digit (hex_digit_upper n) \<or> 65 \<le> code (hex_digit_upper n) \<and> code (hex_digit_upper n) \<le> 70"
    by code_simp
  then show "n < 16 \<Longrightarrow> ?thesis" by simp
qed

lemma and_15: "n AND 15 = (n::nat) mod 16"
  using take_bit_eq_mask [of 4 n] by (simp add: mask_eq_exp_minus_1 take_bit_eq_mod)

lemma drop_bit_4: "drop_bit 4 n = (n::nat) div 16"
  by (simp add: drop_bit_eq_div)

section \<open>Splitting and trimming\<close>

lemma full_split_loop_nonempty: "full_split_loop s d m n \<noteq> []"
  by (subst full_split_loop.simps) (auto split: option.splits)

lemma implode_Cons: "vs \<noteq> [] \<Longrightarrow> implode (v # vs) d = v @ d # implode vs d"
  by (cases vs) auto

lemma implode_full_split_loop: "implode (full_split_loop s d m n) d = s"
proof (induction s d m n rule: full_split_loop.induct)
  case (1 s d m n)
  show ?case
  proof (cases "n + 1 < m \<and> find_char s d \<noteq> None")
    case True
    then obtain p where p: "find_char s d = Some p" and lt: "n + 1 < m" by blast
    have "implode (full_split_loop (drop (p + 1) s) d m (n + 1)) d = drop (p + 1) s"
      using "1.IH" [OF lt p] .
    then show ?thesis
      using lt p find_char_split [OF p]
      by (subst full_split_loop.simps) (simp add: implode_Cons full_split_loop_nonempty)
  next
    case False
    then show ?thesis
      by (subst full_split_loop.simps) (auto split: option.splits simp del: find_char_None)
  qed
qed

lemma implode_full_split: "implode (full_split s d m) d = s"
  by (simp add: full_split_def implode_full_split_loop)

lemma full_split_loop_parts:
  "n + 1 \<le> m \<Longrightarrow> length (full_split_loop s d m n) \<le> m - n"
proof (induction s d m n rule: full_split_loop.induct)
  case (1 s d m n)
  then show ?case
    by (subst full_split_loop.simps) (fastforce split: option.splits)
qed

lemma dropWhile_hd: "s = [] \<or> \<not> P (hd s) \<Longrightarrow> dropWhile P s = s"
  by (cases s) auto

lemma trim_no_space: "\<not> is_space (hd s) \<Longrightarrow> \<not> is_space (last s) \<Longrightarrow> trim s = s"
  by (cases "s = []") (simp_all add: trim_def dropWhile_hd hd_rev)

lemma trim_ends: "trim s \<noteq> [] \<Longrightarrow> \<not> is_space (hd (trim s)) \<and> \<not> is_space (last (trim s))"
proof -
  let ?t = "dropWhile is_space s"
  assume ne: "trim s \<noteq> []"
  then have "dropWhile is_space (rev ?t) \<noteq> []" by (simp add: trim_def)
  then have last: "\<not> is_space (last (trim s))"
    using hd_dropWhile [of is_space "rev ?t"] by (simp add: trim_def last_rev)
  have "?t \<noteq> []"
  proof
    assume "?t = []"
    then have "trim s = []" unfolding trim_def by (simp only: rev.simps dropWhile.simps)
    with ne show False by simp
  qed
  then have hd_t: "\<not> is_space (hd ?t)" by (rule hd_dropWhile)
  have "?t = trim s @ rev (takeWhile is_space (rev ?t))"
    by (metis trim_def takeWhile_dropWhile_id rev_append rev_rev_ident)
  then have "hd (trim s) = hd ?t" using ne by (metis hd_append2)
  with hd_t last show ?thesis by simp
qed

lemma trim_idem [simp]: "trim (trim s) = trim s"
  using trim_ends [of s] trim_no_space [of "trim s"]
  by (cases "trim s = []") (auto, simp add: trim_def)

lemma trim_Nil [simp]: "trim [] = []"
  by (simp add: trim_def)

section \<open>Decimal integers\<close>

lemma is_digit_char_of [simp]: "is_digit (char_of (48 + n mod 10 :: nat))"
  using mod_less_divisor [of 10 n] by (simp add: is_digit_def del: mod_less_divisor)

lemma code_digit [simp]: "code (char_of (48 + n mod 10 :: nat)) - 48 = n mod 10"
  using mod_less_divisor [of 10 n] by (simp del: mod_less_divisor)

lemma print_uint_eq: "print_uint x = rev (print_digits_reversed x)"
  by (auto simp: print_uint_def print_digits_reversed.simps [of x]
      print_digits_reversed.simps [of "x div 10"])

lemma print_digits_all_digits: "c \<in> set (print_digits_reversed x) \<Longrightarrow> is_digit c"
proof (induction x rule: print_digits_reversed.induct)
  case (1 x)
  then show ?case
    by (subst (asm) print_digits_reversed.simps) (auto split: if_splits)
qed

definition digits_value :: "string \<Rightarrow> nat" where
  "digits_value s = foldl (\<lambda>v c. v * 10 + (code c - 48)) 0 s"

lemma digits_value_snoc [simp]: "digits_value (s @ [c]) = digits_value s * 10 + (code c - 48)"
  by (simp add: digits_value_def)

lemma digits_value_print: "digits_value (rev (print_digits_reversed x)) = x"
proof (induction x rule: print_digits_reversed.induct)
  case (1 x)
  show ?case
  proof (cases "x div 10 > 0")
    case True
    then show ?thesis
      using "1.IH" by (subst print_digits_reversed.simps) simp
  next
    case False
    then have "x < 10" by simp
    then show ?thesis
      by (subst print_digits_reversed.simps) (simp add: digits_value_def)
  qed
qed

lemma foldl_mod_digits:
  "foldl (\<lambda>v c. (v * 10 + (code c - 48)) mod m) (a mod m) s
   = foldl (\<lambda>v c. v * 10 + (code c - 48)) a s mod (m::nat)"
proof (induction s arbitrary: a)
  case (Cons c s)
  have "((a mod m) * 10 + (code c - 48)) mod m = (a * 10 + (code c - 48)) mod m"
    by (metis mod_add_left_eq mod_mult_left_eq)
  then show ?case using Cons by simp
qed simp

lemma accumulate_digits_value:
  "\<forall>c \<in> set s. is_digit c \<Longrightarrow> accumulate_digits w s = digits_value s mod 2 ^ w"
  using foldl_mod_digits [of "2 ^ w" 0 s]
  by (simp add: accumulate_digits_def digits_value_def takeWhile_eq_all_conv [THEN iffD2])

lemma accumulate_print_uint: "n < 2 ^ w \<Longrightarrow> accumulate_digits w (print_uint n) = n"
  by (simp add: print_uint_eq accumulate_digits_value print_digits_all_digits digits_value_print)

lemma print_uint_nonempty [simp]: "print_uint n \<noteq> []"
  by (simp add: print_uint_def print_digits_reversed.simps [of n])

lemma print_uint_digits: "c \<in> set (print_uint n) \<Longrightarrow> is_digit c"
  by (auto simp: print_uint_eq dest: print_digits_all_digits)

lemma print_uint_hd: "hd (print_uint n) \<noteq> CHR ''-''"
  using print_uint_digits [of "hd (print_uint n)" n] by (auto simp: is_digit_def)

text \<open>The last digit of \<open>2 ^ (w - 1) - 1\<close> is never 9, so \<^verbatim>\<open>print_int\<close> may increment it.\<close>

lemma print_digits_Suc:
  assumes "x mod 10 < 9"
  shows "print_digits_reversed (Suc x) =
    char_of (code (hd (print_digits_reversed x)) + 1) # tl (print_digits_reversed x)"
proof -
  have m: "Suc x mod 10 = Suc (x mod 10)" and d: "Suc x div 10 = x div 10"
    using assms by (simp_all add: mod_Suc div_Suc)
  show ?thesis
    using assms by (subst (1 2 3) print_digits_reversed.simps) (simp add: m d)
qed

lemma increment_last_print:
  assumes "x mod 10 < 9"
  shows "increment_last (print_uint x) = print_uint (Suc x)"
proof -
  have "print_digits_reversed x \<noteq> []" by (subst print_digits_reversed.simps) simp
  then obtain c cs where "print_digits_reversed x = c # cs" by (meson list.exhaust)
  then show ?thesis
    using print_digits_Suc [OF assms] by (simp add: print_uint_eq increment_last_def)
qed

lemma two_pow_mod_10: "2 ^ n mod 10 \<in> {1, 2, 4, 6, 8::nat}"
proof (induction n)
  case (Suc n)
  have "2 ^ Suc n mod 10 = 2 * (2 ^ n mod 10) mod (10::nat)"
    by (simp add: mod_mult_right_eq)
  with Suc show ?case by auto
qed simp

lemma two_pow_minus_one_mod_10: "(2 ^ n - 1) mod 10 < (9::nat)"
proof -
  have pred_mod: "(m - 1) mod 10 < 9" if "m mod 10 \<noteq> 0" for m :: nat
    using that mod_less_divisor [of 10 "m - 1"]
    by (cases m) (auto simp: mod_Suc split: if_splits)
  have "2 ^ n mod 10 \<noteq> (0::nat)"
    using two_pow_mod_10 [of n] by auto
  then show ?thesis by (rule pred_mod)
qed

definition print_signed :: "int \<Rightarrow> string" where
  "print_signed x = (if x < 0 then CHR ''-'' # print_uint (nat (- x)) else print_uint (nat x))"

lemma increment_last_Cons: "s \<noteq> [] \<Longrightarrow> increment_last (c # s) = c # increment_last s"
  by (simp add: increment_last_def)

text \<open>\<^verbatim>\<open>print_int\<close>, with its special case for the minimum, prints the plain decimal form.\<close>

lemma print_int_eq: "print_int w x = print_signed x"
proof (cases "x < 0 \<and> x = - (2 ^ (w - 1))")
  case True
  let ?n = "nat (- (x + 1))"
  have n: "?n = 2 ^ (w - 1) - 1" and s: "nat (- x) = Suc ?n"
    using True by (auto simp: nat_diff_distrib nat_power_eq)
  have "increment_last (CHR ''-'' # print_uint ?n) = CHR ''-'' # print_uint (Suc ?n)"
    using two_pow_minus_one_mod_10 [of "w - 1"]
    by (simp only: n increment_last_Cons [OF print_uint_nonempty] increment_last_print)
  then show ?thesis using True s by (simp add: print_int_def print_signed_def)
next
  case False
  then show ?thesis by (auto simp: print_int_def print_signed_def)
qed

definition in_signed :: "nat \<Rightarrow> int \<Rightarrow> bool" where
  "in_signed w x \<longleftrightarrow> - (2 ^ (w - 1)) \<le> x \<and> x < 2 ^ (w - 1)"

lemma print_signed_shape:
  "(print_signed x \<noteq> [] \<and> hd (print_signed x) = CHR ''-'') \<longleftrightarrow> x < 0"
  using print_uint_hd [of "nat x"] by (auto simp: print_signed_def)

text \<open>The signed maximum is \<open>P - 1\<close> for \<open>P = 2 ^ (w - 1)\<close>; the proofs below use \<open>P\<close> only.\<close>

lemma signed_bounds:
  assumes "0 < w"
  obtains P :: nat where "(2::nat) ^ (w - 1) = P" "(2::nat) ^ w = 2 * P" "(2::int) ^ (w - 1) = int P" "0 < P"
proof (rule that [of "2 ^ (w - 1)"])
  show "(2::nat) ^ w = 2 * 2 ^ (w - 1)" using assms by (cases w) auto
qed simp_all

lemma to_integer_print:
  assumes w: "0 < w" and x: "in_signed w x"
  shows "to_integer_signed w (print_signed x) = x"
proof -
  obtain P :: nat where P: "(2::nat) ^ (w - 1) = P" "(2::nat) ^ w = 2 * P" "(2::int) ^ (w - 1) = int P" "0 < P"
    using signed_bounds [OF w] by metis
  let ?n = "nat \<bar>x\<bar>"
  have rng: "- int P \<le> x" "x < int P" using x unfolding in_signed_def P by simp_all
  then have acc: "accumulate_digits w (print_uint ?n) = ?n"
    using P(2,4) by (intro accumulate_print_uint) simp
  show ?thesis
  proof (cases "x < 0")
    case True
    then have s: "print_signed x = CHR ''-'' # print_uint ?n" by (simp add: print_signed_def)
    have v: "to_integer_signed w (print_signed x) =
        (if ?n > P - 1 then (let v2 = (2 * P - ?n) mod (2 * P) in if v2 > P - 1 then - int P else int v2)
         else - int ?n)"
      unfolding to_integer_signed_def P by (simp add: s acc Let_def)
    show ?thesis
    proof (cases "?n = P")
      case True
      then have "(2 * P - ?n) mod (2 * P) = P" using P(4) by simp
      then show ?thesis using v True P(4) \<open>x < 0\<close> by (simp add: Let_def)
    next
      case False
      then have "?n \<le> P - 1" using rng \<open>x < 0\<close> by linarith
      then show ?thesis using v \<open>x < 0\<close> by simp
    qed
  next
    case False
    then have s: "print_signed x = print_uint ?n" by (simp add: print_signed_def)
    have "?n \<le> P - 1" using rng False P(4) by linarith
    then show ?thesis
      unfolding to_integer_signed_def P
      using acc False print_uint_hd [of ?n] by (simp add: s Let_def)
  qed
qed

lemma to_integer_in_range:
  assumes "0 < w"
  shows "in_signed w (to_integer_signed w s)"
proof -
  obtain P :: nat where P: "(2::nat) ^ (w - 1) = P" "(2::nat) ^ w = 2 * P" "(2::int) ^ (w - 1) = int P" "0 < P"
    using signed_bounds [OF assms] by metis
  have bound: "in_signed w (if v > P - 1 then (let v2 = (2 * P - v) mod (2 * P)
      in if v2 > P - 1 then - int P else if \<not> b then - int v2 else int v2) else if b then - int v else int v)" for v b
    unfolding in_signed_def P using P(4) by (auto simp: Let_def)
  show ?thesis
    unfolding to_integer_signed_def P Let_def by (rule bound [unfolded Let_def])
qed

lemma to_integer_safe_iff:
  "0 < w \<Longrightarrow> to_integer_safe w s = Inr x \<longleftrightarrow> in_signed w x \<and> s = print_signed x"
  using to_integer_print [of w x] to_integer_in_range [of w s]
  by (auto simp: to_integer_safe_def print_int_eq Let_def)

lemma to_integer_safe_print [simp]:
  "in_signed w x \<Longrightarrow> 0 < w \<Longrightarrow> to_integer_safe w (print_signed x) = Inr x"
  by (simp add: to_integer_safe_iff)

lemma to_integer_safe_unsigned_iff:
  "to_integer_safe_unsigned w s = Inr n \<longleftrightarrow> n < 2 ^ w \<and> s = print_uint n"
proof -
  have "to_integer_unsigned w s < 2 ^ w"
  proof -
    have "foldl (\<lambda>v c. (v * 10 + (code c - 48)) mod 2 ^ w) a cs < 2 ^ w" if "a < 2 ^ w" for a and cs :: string
      using that by (induction cs arbitrary: a) auto
    then show ?thesis by (simp add: to_integer_unsigned_def accumulate_digits_def)
  qed
  then show ?thesis
    using accumulate_print_uint [of n w]
    by (auto simp: to_integer_safe_unsigned_def to_integer_unsigned_def Let_def)
qed

section \<open>The codec interface\<close>

text \<open>
  What the users of an encoding rely on: decoding what was encoded gives it back.  The encoding is
  then injective, so encoded strings can serve as keys and path segments.
\<close>

locale codec =
  fixes enc :: "'a \<Rightarrow> 'b" and dec :: "'b \<Rightarrow> 'a option"
  assumes dec_enc: "dec (enc x) = Some x"
begin

lemma enc_inj: "enc x = enc y \<longleftrightarrow> x = y"
  by (metis dec_enc option.inject)

lemma dec_image: "y \<in> range enc \<Longrightarrow> \<exists>x. dec y = Some x \<and> enc x = y"
  using dec_enc by auto

end

definition result_opt :: "'a result \<Rightarrow> 'a option" where
  "result_opt r = (case r of Inl _ \<Rightarrow> None | Inr x \<Rightarrow> Some x)"

lemma result_opt_simps [simp]: "result_opt (Inr x) = Some x" "result_opt (Inl e) = None"
  by (simp_all add: result_opt_def)

lemma hex_decode_pairs_encode: "hex_decode_pairs (hex_encode s) = Inr s"
proof (induction s)
  case (Cons c s)
  have n: "code c div 16 < 16" using code_less [of c] by (simp add: less_mult_imp_div_less)
  have "code c div 16 * 16 + code c mod 16 = code c" by simp
  then show ?case
    using Cons n by (simp add: hex_encode_def and_15 drop_bit_4 hex_to_int_lower)
qed (simp add: hex_encode_def)

lemma hex_decode_encode: "hex_decode (hex_encode s) = Inr s"
proof -
  have "length (hex_encode s) = 2 * length s"
    by (induction s) (simp_all add: hex_encode_def)
  then show ?thesis by (simp add: hex_decode_def hex_decode_pairs_encode)
qed

lemma url_decode_encode_char: "url_decode b (url_encode_char c @ s) = c # url_decode b s"
proof (cases "is_url_char c")
  case True
  then show ?thesis
    using url_char_not_special [OF True] by (auto simp: url_encode_char_def split: list.splits)
next
  case False
  have n: "code c div 16 < 16" using code_less [of c] by (simp add: less_mult_imp_div_less)
  have "code c div 16 * 16 + code c mod 16 = code c" by simp
  then show ?thesis using False n by (simp add: url_encode_char_def hex_to_int_upper)
qed

lemma url_decode_concat: "url_decode b (concat (map url_encode_char s)) = s"
  by (induction s) (simp_all add: url_decode_encode_char)

text \<open>The length that \<^verbatim>\<open>url_encode\<close> computes in advance is the length it produces (its \<^verbatim>\<open>CHECK\<close>).\<close>

lemma url_encoded_length_foldl:
  "n \<ge> 2 * length s \<Longrightarrow>
   foldl (\<lambda>n c. n - 2 * (if is_url_char c then 1 else 0)) n s = n - 2 * length (filter is_url_char s)"
  by (induction s arbitrary: n) auto

lemma length_concat_url: "length (concat (map url_encode_char s)) = 3 * length s - 2 * length (filter is_url_char s)"
proof (induction s)
  case (Cons c s)
  have le: "length (filter is_url_char s) \<le> length s" by (rule length_filter_le)
  then have le3: "2 * length (filter is_url_char s) \<le> 3 * length s" by linarith
  have "length (url_encode_char c) = (if is_url_char c then 1 else 3)" by (simp add: url_encode_char_def)
  with Cons le3 show ?case by (simp add: Suc_diff_le)
qed simp

lemma url_encoded_length_ok: "url_encoded_length s = length (concat (map url_encode_char s))"
  by (simp add: url_encoded_length_def url_encoded_length_foldl length_concat_url)

lemma url_encode_eq: "url_encode s = concat (map url_encode_char s)"
proof (cases "url_encoded_length s = length s")
  case True
  have le: "length (filter is_url_char s) \<le> length s" by (rule length_filter_le)
  have "length (filter is_url_char s) = length s"
    using True le unfolding url_encoded_length_ok length_concat_url by linarith
  then have "\<forall>c \<in> set s. is_url_char c"
    by (metis filter_id_conv length_filter_less less_irrefl)
  then have "concat (map url_encode_char s) = s"
    by (induction s) (auto simp: url_encode_char_def)
  then show ?thesis using True by (simp add: url_encode_def)
qed (simp add: url_encode_def)

lemma url_decode_encode: "url_decode b (url_encode s) = s"
  by (simp add: url_encode_eq url_decode_concat)

lemma run_decode_encode: "run_decode p (run_encode p s) = s"
proof (induction p s rule: run_encode.induct)
  case (2 p c s)
  show ?case
  proof (cases "p c")
    case True
    let ?k = "zero_run c s - 1"
    have k: "?k \<le> length (takeWhile (\<lambda>x. x = c) s)" "zero_run c s < 256" "zero_run c s = Suc ?k"
      by (auto simp: zero_run_def)
    have "run_decode p (run_encode p (c # s)) = replicate (Suc ?k) c @ run_decode p (run_encode p (drop ?k s))"
      using True k(2,3) by simp
    also have "\<dots> = c # take ?k s @ drop ?k s"
      using "2.IH"(1) [OF True] take_run_replicate [OF k(1)] by simp
    finally show ?thesis by simp
  next
    case False
    then show ?thesis
      using "2.IH"(2) by (cases "run_encode p s") auto
  qed
qed simp

interpretation hex: codec hex_encode "\<lambda>s. result_opt (hex_decode s)"
  by unfold_locales (simp add: hex_decode_encode)

interpretation url: codec url_encode "\<lambda>s. Some (url_decode b s)" for b
  by unfold_locales (simp add: url_decode_encode)

interpretation zero: codec zero_encode "\<lambda>s. Some (zero_decode s)"
  by unfold_locales (simp add: zero_encode_def zero_decode_def run_decode_encode)

interpretation zero_one: codec zero_one_encode "\<lambda>s. Some (zero_one_decode s)"
  by unfold_locales (simp add: zero_one_encode_def zero_one_decode_def run_decode_encode)

section \<open>Properties of the conversions\<close>

text \<open>
  \<^verbatim>\<open>to_integer_safe\<close> accepts exactly the canonical decimal form of the integers of the type, and returns the
  number that is printed: in particular the smallest value, whose absolute value overflows, is accepted, and a plus
  sign, leading zeros, spaces and values that wrap around are refused.
\<close>

theorem integer_roundtrip:
  assumes "0 < w"
  shows "to_integer_safe w s = Inr x \<longleftrightarrow> in_signed w x \<and> s = print_int w x"
  using to_integer_safe_iff [OF assms] by (simp add: print_int_eq)

theorem integer_roundtrip_witness:
  "to_integer_safe 32 ''-2147483648'' = Inr (- 2147483648)"
proof -
  have "''-2147483648'' = print_int 32 (- 2147483648)" by code_simp
  then show ?thesis using integer_roundtrip [of 32 "''-2147483648''" "- 2147483648"] by (simp add: in_signed_def)
qed

text \<open>
  Each of the four byte codecs decodes what it encoded: hexadecimal, percent-encoding (with and without the plus
  sign as a space), runs of zero bytes, and runs of 0 and 255.
\<close>

theorem codecs_roundtrip:
  "hex_decode (hex_encode s) = Ok s \<and> url_decode b (url_encode s) = s \<and>
   zero_decode (zero_encode s) = s \<and> zero_one_decode (zero_one_encode s) = s"
  using hex_decode_encode [of s] url.dec_enc [of b s] zero.dec_enc [of s] zero_one.dec_enc [of s] by simp

end
