(* ===== verification/FileStreamCursor.thy ===== *)
theory FileStreamCursor
  imports Td_Misc
begin

text \<open>
  \<^verbatim>\<open>FileStreamCursor\<close> of \<^verbatim>\<open>server/FileStreamCore.h\<close> and \<^verbatim>\<open>server/FileStreamCursor.cpp\<close>: the
  position of a response inside a file of which a prefix has been downloaded.  The offsets are
  \<^verbatim>\<open>int64\<close>; they are integers here and \<open>update_progress_in_int64\<close>, \<open>next_read_size_in_int64\<close> and
  \<open>commit_in_int64\<close> show that no intermediate value of the code leaves the range of \<^verbatim>\<open>int64\<close>.  The
  locale \<open>block_cursor\<close> is the contract by which a transfer loop uses a cursor.
\<close>

record file_stream_cursor =
  total_size :: int
  start_offset :: int
  end_offset :: int
  next_offset :: int
  contiguous_end :: int

definition new_cursor :: file_stream_cursor where
  "new_cursor = \<lparr>total_size = - 1, start_offset = 0, end_offset = - 1, next_offset = 0, contiguous_end = 0\<rparr>"

definition set_range :: "int \<Rightarrow> int \<Rightarrow> file_stream_cursor \<Rightarrow> file_stream_cursor" where
  "set_range start fin c = c\<lparr>start_offset := start, end_offset := fin, next_offset := start\<rparr>"

definition is_complete :: "file_stream_cursor \<Rightarrow> bool" where
  "is_complete c \<longleftrightarrow>
     total_size c = 0 \<or>
     (total_size c > 0 \<and> end_offset c \<ge> start_offset c \<and> next_offset c = end_offset c + 1)"

definition update_progress ::
  "int \<Rightarrow> int \<Rightarrow> bool \<Rightarrow> file_stream_cursor \<Rightarrow> file_stream_cursor result" where
  "update_progress download_offset downloaded_prefix_size is_completed c =
     (if total_size c < 0 \<or> download_offset < 0 \<or> downloaded_prefix_size < 0 \<or>
         download_offset > total_size c \<or> downloaded_prefix_size > total_size c - download_offset
      then Error 500 ''Inconsistent file download progress''
      else
        (let c1 = (if end_offset c < start_offset c \<and> total_size c > 0 \<and> start_offset c = 0
                   then c\<lparr>end_offset := total_size c - 1\<rparr> else c);
             c2 = (if download_offset = 0 \<and> downloaded_prefix_size > contiguous_end c1
                   then c1\<lparr>contiguous_end := downloaded_prefix_size\<rparr> else c1);
             c3 = (if is_completed \<and> download_offset = 0 \<and> downloaded_prefix_size = total_size c2
                   then c2\<lparr>contiguous_end := total_size c2\<rparr> else c2)
         in Ok c3))"

definition next_read_size :: "int \<Rightarrow> file_stream_cursor \<Rightarrow> int" where
  "next_read_size chunk_size c =
     (if chunk_size \<le> 0 \<or> total_size c < 0 \<or> end_offset c < start_offset c \<or>
         next_offset c > end_offset c \<or> next_offset c \<ge> contiguous_end c
      then 0
      else min chunk_size (min (contiguous_end c - next_offset c) (end_offset c + 1 - next_offset c)))"

definition commit :: "int \<Rightarrow> int \<Rightarrow> file_stream_cursor \<Rightarrow> file_stream_cursor result" where
  "commit offset sz c =
     (if offset \<noteq> next_offset c \<or> sz \<le> 0 \<or> sz > contiguous_end c - next_offset c \<or>
         sz > end_offset c + 1 - next_offset c
      then Error 500 ''Out-of-order, duplicate, or incomplete file stream block''
      else Ok (c\<lparr>next_offset := next_offset c + sz\<rparr>))"

section \<open>The invariant of a cursor\<close>

text \<open>
  Once the range is set, the range lies in the file, the position lies in the range and the
  downloaded prefix does not exceed the file.  The empty file has the range \<open>0 .. -1\<close>.
\<close>

definition cursor_inv :: "file_stream_cursor \<Rightarrow> bool" where
  "cursor_inv c \<longleftrightarrow>
     0 \<le> total_size c \<and> total_size c \<le> int64_max \<and>
     0 \<le> start_offset c \<and> start_offset c \<le> end_offset c + 1 \<and> end_offset c < total_size c \<and>
     (total_size c > 0 \<longrightarrow> start_offset c \<le> end_offset c) \<and>
     start_offset c \<le> next_offset c \<and> next_offset c \<le> end_offset c + 1 \<and>
     0 \<le> contiguous_end c \<and> contiguous_end c \<le> total_size c \<and>
     (next_offset c \<le> contiguous_end c \<or> next_offset c = start_offset c)"

lemma cursor_inv_set_range:
  assumes "0 \<le> total_size c" "total_size c \<le> int64_max" "0 \<le> start" "start \<le> fin + 1" "fin < total_size c"
    and "total_size c > 0 \<Longrightarrow> start \<le> fin" and "0 \<le> contiguous_end c" "contiguous_end c \<le> total_size c"
  shows "cursor_inv (set_range start fin c)"
  using assms by (simp add: cursor_inv_def set_range_def)

lemma update_progress_iff:
  "is_ok (update_progress off n b c) \<longleftrightarrow> 0 \<le> off \<and> 0 \<le> n \<and> off + n \<le> total_size c \<and> 0 \<le> total_size c"
  by (auto simp: update_progress_def Let_def)

text \<open>Once a range is set, only the downloaded prefix moves, and only forward.\<close>

lemma update_progress_eq:
  assumes "cursor_inv c"
  shows "update_progress off n b c =
     (if 0 \<le> off \<and> 0 \<le> n \<and> off + n \<le> total_size c
      then Ok (c\<lparr>contiguous_end := (if off = 0 then max n (contiguous_end c) else contiguous_end c)\<rparr>)
      else Error 500 ''Inconsistent file download progress'')"
proof (cases "0 \<le> off \<and> 0 \<le> n \<and> off + n \<le> total_size c")
  case True
  have range: "\<not> (end_offset c < start_offset c \<and> total_size c > 0 \<and> start_offset c = 0)"
    using assms by (auto simp: cursor_inv_def)
  have same: "c\<lparr>contiguous_end := contiguous_end c\<rparr> = c"
    by simp
  have bound: "contiguous_end c \<le> total_size c"
    using assms by (simp add: cursor_inv_def)
  show ?thesis
  proof (cases "off = 0")
    case zero: True
    with True bound range show ?thesis
      by (cases "n > contiguous_end c"; cases "n = total_size c") (auto simp: update_progress_def Let_def max_def)
  next
    case False
    with True range same show ?thesis
      by (auto simp: update_progress_def Let_def)
  qed
qed (auto simp: update_progress_def)

lemma update_progress_keeps:
  assumes "update_progress off n b c = Ok c'" "cursor_inv c"
  shows "cursor_inv c' \<and> total_size c' = total_size c \<and> start_offset c' = start_offset c \<and>
         end_offset c' = end_offset c \<and> next_offset c' = next_offset c \<and>
         contiguous_end c \<le> contiguous_end c'"
proof -
  from assms have "0 \<le> off" "0 \<le> n" "off + n \<le> total_size c"
    and c': "c' = c\<lparr>contiguous_end := (if off = 0 then max n (contiguous_end c) else contiguous_end c)\<rparr>"
    by (auto simp: update_progress_eq split: if_split_asm)
  with assms(2) show ?thesis
    unfolding c' by (auto simp: cursor_inv_def)
qed

lemma next_read_size_nonneg: "0 \<le> next_read_size k c"
  by (auto simp: next_read_size_def)

lemma next_read_size_fits:
  assumes "0 < next_read_size k c"
  shows "next_read_size k c \<le> k \<and> next_offset c + next_read_size k c \<le> contiguous_end c \<and>
         next_offset c + next_read_size k c \<le> end_offset c + 1"
  using assms by (auto simp: next_read_size_def split: if_splits)

lemma commit_keeps:
  assumes "commit off n c = Ok c'" "cursor_inv c"
  shows "cursor_inv c' \<and> next_offset c' = next_offset c + n \<and> off = next_offset c \<and> 0 < n \<and>
         total_size c' = total_size c \<and> start_offset c' = start_offset c \<and>
         end_offset c' = end_offset c \<and> contiguous_end c' = contiguous_end c"
  using assms by (auto simp: commit_def cursor_inv_def split: if_splits)

text \<open>A block of the size that the cursor proposed is committed, also after further progress.\<close>

lemma commit_read_size:
  assumes "0 < next_read_size k c" "next_offset c' = next_offset c" "end_offset c' = end_offset c"
    "contiguous_end c \<le> contiguous_end c'"
  shows "commit (next_offset c) (next_read_size k c) c' =
         Ok (c'\<lparr>next_offset := next_offset c + next_read_size k c\<rparr>)"
  using next_read_size_fits [OF assms(1)] assms by (auto simp: commit_def)

lemma next_read_size_0_iff:
  assumes "cursor_inv c" "0 < k"
  shows "next_read_size k c = 0 \<longleftrightarrow> is_complete c \<or> contiguous_end c \<le> next_offset c"
  using assms by (auto simp: next_read_size_def cursor_inv_def is_complete_def min_def split: if_splits)

lemma update_progress_in_int64:
  assumes "0 \<le> total_size c" "total_size c \<le> int64_max" "0 \<le> off" "off \<le> total_size c"
  shows "in_int64 (total_size c - off) \<and> in_int64 (total_size c - 1)"
  using assms by (simp add: in_int64_def)

lemma next_read_size_in_int64:
  assumes "cursor_inv c"
  shows "in_int64 (contiguous_end c - next_offset c) \<and> in_int64 (end_offset c + 1) \<and>
         in_int64 (end_offset c + 1 - next_offset c) \<and> in_int64 (next_read_size k c)"
  using assms by (auto simp: in_int64_def cursor_inv_def next_read_size_def)

lemma commit_in_int64:
  assumes "cursor_inv c" "commit off n c = Ok c'"
  shows "in_int64 (next_offset c + n)"
  using assms by (auto simp: in_int64_def cursor_inv_def commit_def split: if_splits)

section \<open>The contract of a cursor and the transfer loop\<close>

text \<open>
  The transfer loop that the connection drives: ask for the size of the next block, send that many
  bytes at the position, commit them, until the cursor proposes nothing.
\<close>

fun pump :: "(int \<Rightarrow> 's \<Rightarrow> int) \<Rightarrow> (int \<Rightarrow> int \<Rightarrow> 's \<Rightarrow> 's result) \<Rightarrow> ('s \<Rightarrow> int) \<Rightarrow> int \<Rightarrow> string \<Rightarrow> nat \<Rightarrow> 's \<Rightarrow> string result \<times> 's" where
  "pump size_of commit_to pos k content 0 s = (Ok [], s)"
| "pump size_of commit_to pos k content (Suc fuel) s =
     (let n = size_of k s
      in if n = 0 then (Ok [], s)
         else (case commit_to (pos s) n s of
                 Inl e \<Rightarrow> (Inl e, s)
               | Inr s' \<Rightarrow>
                   (let (r, s'') = pump size_of commit_to pos k content fuel s'
                    in (map_sum id (\<lambda>rest. take (nat n) (drop (nat (pos s)) content) @ rest) r, s''))))"

locale block_cursor =
  fixes inv :: "'s \<Rightarrow> bool"
    and size_of :: "int \<Rightarrow> 's \<Rightarrow> int"
    and commit_to :: "int \<Rightarrow> int \<Rightarrow> 's \<Rightarrow> 's result"
    and pos :: "'s \<Rightarrow> int"
    and limit :: "'s \<Rightarrow> int"
  assumes size_nonneg: "inv s \<Longrightarrow> 0 \<le> size_of k s"
    and pos_nonneg: "inv s \<Longrightarrow> 0 \<le> pos s"
    and size_commit: "inv s \<Longrightarrow> 0 < size_of k s \<Longrightarrow>
      \<exists>s'. commit_to (pos s) (size_of k s) s = Ok s' \<and> inv s' \<and> pos s' = pos s + size_of k s \<and>
           pos s' \<le> limit s \<and> limit s' = limit s"
    and size_0: "inv s \<Longrightarrow> 0 < k \<Longrightarrow> size_of k s = 0 \<Longrightarrow> limit s \<le> pos s"
begin

lemma pump_bytes:
  assumes "inv s" "pump size_of commit_to pos k content fuel s = (r, s')"
  shows "inv s' \<and> limit s' = limit s \<and> pos s \<le> pos s' \<and>
         r = Ok (take (nat (pos s' - pos s)) (drop (nat (pos s)) content))"
  using assms
proof (induction fuel arbitrary: s s' r)
  case 0
  then show ?case by simp
next
  case (Suc fuel)
  show ?case
  proof (cases "size_of k s = 0")
    case True
    with Suc.prems show ?thesis by simp
  next
    case False
    with Suc.prems(1) have pos: "0 < size_of k s"
      using size_nonneg [of s k] by simp
    then obtain s1 where s1: "commit_to (pos s) (size_of k s) s = Ok s1" "inv s1"
        "pos s1 = pos s + size_of k s" "limit s1 = limit s"
      using size_commit [OF Suc.prems(1) pos] by blast
    obtain r2 where r2: "pump size_of commit_to pos k content fuel s1 = (r2, s')"
      and r: "r = map_sum id (\<lambda>rest. take (nat (size_of k s)) (drop (nat (pos s)) content) @ rest) r2"
      using Suc.prems(2) False s1(1) by (auto simp: Let_def split: prod.splits)
    have IH: "inv s' \<and> limit s' = limit s1 \<and> pos s1 \<le> pos s' \<and>
       r2 = Ok (take (nat (pos s' - pos s1)) (drop (nat (pos s1)) content))"
      by (rule Suc.IH [OF s1(2) r2])
    have split: "nat (pos s' - pos s) = nat (size_of k s) + nat (pos s' - pos s1)"
      using IH s1(3) pos by (simp add: nat_add_distrib [symmetric])
    have at: "nat (pos s1) = nat (size_of k s) + nat (pos s)"
      using s1(3) pos pos_nonneg [OF Suc.prems(1)] by (simp add: nat_add_distrib)
    show ?thesis
      using IH r s1(3,4) pos unfolding split at take_add by (simp add: add.commute)
  qed
qed

lemma pump_exhausts:
  assumes "inv s" "0 < k" "nat (limit s - pos s) \<le> fuel"
  shows "limit s \<le> pos (snd (pump size_of commit_to pos k content fuel s))"
  using assms
proof (induction fuel arbitrary: s)
  case 0
  then show ?case by simp
next
  case (Suc fuel)
  show ?case
  proof (cases "size_of k s = 0")
    case True
    with Suc.prems size_0 show ?thesis by simp
  next
    case False
    with Suc.prems(1) have pos: "0 < size_of k s"
      using size_nonneg [of s k] by simp
    then obtain s1 where s1: "commit_to (pos s) (size_of k s) s = Ok s1" "inv s1"
        "pos s1 = pos s + size_of k s" "limit s1 = limit s"
      using size_commit [OF Suc.prems(1) pos] by blast
    have "nat (limit s1 - pos s1) \<le> fuel"
      using Suc.prems(3) s1(3,4) pos by simp
    from Suc.IH [OF s1(2) Suc.prems(2) this] show ?thesis
      using False s1 by (auto simp: Let_def split: prod.splits)
  qed
qed

end

text \<open>The position up to which the cursor can go: the end of the range or of the downloaded prefix.\<close>

definition read_limit :: "file_stream_cursor \<Rightarrow> int" where
  "read_limit c = max (next_offset c) (min (contiguous_end c) (end_offset c + 1))"

interpretation cur: block_cursor cursor_inv next_read_size commit next_offset read_limit
proof
  fix s k assume "cursor_inv s" "0 < next_read_size k s"
  then show "\<exists>s'. commit (next_offset s) (next_read_size k s) s = Ok s' \<and> cursor_inv s' \<and>
      next_offset s' = next_offset s + next_read_size k s \<and> next_offset s' \<le> read_limit s \<and>
      read_limit s' = read_limit s"
    using next_read_size_fits [of k s] commit_read_size [of k s s]
    by (auto simp: cursor_inv_def read_limit_def)
next
  fix s k assume "cursor_inv s" "0 < k" "next_read_size k s = 0"
  then show "read_limit s \<le> next_offset s"
    by (auto simp: next_read_size_def cursor_inv_def read_limit_def min_def split: if_splits)
qed (auto simp: next_read_size_nonneg cursor_inv_def)

section \<open>Properties of the cursor\<close>

text \<open>
  The transfer loop over the cursor sends exactly the available part of the range: with fuel for every
  byte it ends at the end of the range or of the downloaded prefix, no commit fails, and the blocks put
  together are the bytes of the file between the two positions, whatever the block size is.
\<close>

theorem cursor_transfers_range:
  assumes "cursor_inv c" "0 < k" "nat (read_limit c - next_offset c) \<le> fuel"
  shows "\<exists>c'. pump next_read_size commit next_offset k content fuel c =
           (Ok (take (nat (read_limit c - next_offset c)) (drop (nat (next_offset c)) content)), c') \<and>
         next_offset c' = read_limit c \<and> cursor_inv c'"
proof -
  obtain r c' where p: "pump next_read_size commit next_offset k content fuel c = (r, c')" by fastforce
  note b = cur.pump_bytes [OF assms(1) p]
  have "read_limit c \<le> next_offset c'" using cur.pump_exhausts [OF assms, of content] p by simp
  moreover have "next_offset c' \<le> read_limit c'" by (simp add: read_limit_def)
  ultimately have "next_offset c' = read_limit c" using b by simp
  then show ?thesis using b p by simp
qed

definition demo_cursor :: file_stream_cursor where
  "demo_cursor = \<lparr>total_size = 11, start_offset = 2, end_offset = 8, next_offset = 2, contiguous_end = 6\<rparr>"

theorem cursor_transfers_range_witness:
  "fst (pump next_read_size commit next_offset 3 ''hello world'' 4 demo_cursor) = Ok ''llo ''"
proof -
  have "cursor_inv demo_cursor" "nat (read_limit demo_cursor - next_offset demo_cursor) \<le> 4"
    by (simp_all add: demo_cursor_def cursor_inv_def read_limit_def)
  from cursor_transfers_range [OF this(1) _ this(2), of 3 "''hello world''"] show ?thesis
    by (auto simp: demo_cursor_def read_limit_def numeral_nat)
qed

text \<open>
  Every step of the cursor keeps its invariant, only moves forward, and computes within \<^verbatim>\<open>int64\<close>: a
  progress report that is accepted extends the downloaded prefix only, a commit that is accepted advances the
  position by the size of the block, and the intermediate values of both are representable.
\<close>

theorem cursor_steps_safe:
  assumes "cursor_inv c"
  shows "(update_progress off n b c = Ok c' \<longrightarrow>
           cursor_inv c' \<and> contiguous_end c \<le> contiguous_end c' \<and> next_offset c' = next_offset c \<and> end_offset c' = end_offset c) \<and>
         (commit pos k c = Ok c' \<longrightarrow>
           cursor_inv c' \<and> pos = next_offset c \<and> next_offset c' = next_offset c + k \<and> next_offset c < next_offset c' \<and>
           next_offset c' \<le> contiguous_end c \<and> next_offset c' \<le> end_offset c + 1 \<and> in_int64 (next_offset c + k))"
proof (intro conjI [of "update_progress off n b c = Ok c' \<longrightarrow> _"] impI)
  show "update_progress off n b c = Ok c' \<Longrightarrow>
      cursor_inv c' \<and> contiguous_end c \<le> contiguous_end c' \<and> next_offset c' = next_offset c \<and> end_offset c' = end_offset c"
    using update_progress_keeps assms by blast
  assume c: "commit pos k c = Ok c'"
  have "k \<le> contiguous_end c - next_offset c" "k \<le> end_offset c + 1 - next_offset c"
    using c by (auto simp: commit_def split: if_splits)
  then show "cursor_inv c' \<and> pos = next_offset c \<and> next_offset c' = next_offset c + k \<and> next_offset c < next_offset c' \<and>
      next_offset c' \<le> contiguous_end c \<and> next_offset c' \<le> end_offset c + 1 \<and> in_int64 (next_offset c + k)"
    using commit_keeps [OF c assms] commit_in_int64 [OF assms c] by auto
qed

theorem cursor_steps_safe_witness:
  "cursor_inv (demo_cursor\<lparr>next_offset := 5\<rparr>) \<and> in_int64 (next_offset demo_cursor + 3)"
proof -
  have "cursor_inv demo_cursor" "commit 2 3 demo_cursor = Ok (demo_cursor\<lparr>next_offset := 5\<rparr>)"
    by (simp_all add: demo_cursor_def cursor_inv_def commit_def)
  from this cursor_steps_safe [of demo_cursor 0 0 False "demo_cursor\<lparr>next_offset := 5\<rparr>" 2 3] show ?thesis by (simp add: demo_cursor_def)
qed

end
