(* ===== verification/Td_Parser.thy ===== *)
theory Td_Parser
  imports Td_Misc
begin

text \<open>
  \<^verbatim>\<open>ParserImpl\<close> of \<^verbatim>\<open>td/tdutils/td/utils/Parser.h\<close>: the state is the unread data between
  \<^verbatim>\<open>ptr_\<close> and \<^verbatim>\<open>end_\<close> and the sticky status.  Every operation returns its result and the new
  state.
\<close>

record parser =
  data_of :: string
  status_of :: "status option"

definition new_parser :: "string \<Rightarrow> parser" where
  "new_parser s = \<lparr>data_of = s, status_of = None\<rparr>"

definition parser_empty :: "parser \<Rightarrow> bool" where
  "parser_empty p \<longleftrightarrow> data_of p = []"

definition parser_clear :: "parser \<Rightarrow> parser" where
  "parser_clear p = \<lparr>data_of = [], status_of = None\<rparr>"

definition read_till_nofail :: "char \<Rightarrow> parser \<Rightarrow> string \<times> parser" where
  "read_till_nofail c p =
     (if status_of p \<noteq> None then ([], p)
      else (let n = (case find_char (data_of p) c of None \<Rightarrow> length (data_of p) | Some k \<Rightarrow> k)
            in (take n (data_of p), p\<lparr>data_of := drop n (data_of p)\<rparr>)))"

text \<open>\<^verbatim>\<open>read_till_nofail(Slice)\<close>: the nearest of the given characters.\<close>

definition best_till :: "string \<Rightarrow> string \<Rightarrow> nat" where
  "best_till s cs =
     foldl (\<lambda>best c. case find_char s c of None \<Rightarrow> best | Some k \<Rightarrow> if k < best then k else best)
       (length s) cs"

definition read_till_any_nofail :: "string \<Rightarrow> parser \<Rightarrow> string \<times> parser" where
  "read_till_any_nofail cs p =
     (if status_of p \<noteq> None then ([], p)
      else (let n = best_till (data_of p) cs
            in (take n (data_of p), p\<lparr>data_of := drop n (data_of p)\<rparr>)))"

definition read_while :: "(char \<Rightarrow> bool) \<Rightarrow> parser \<Rightarrow> string \<times> parser" where
  "read_while f p = (takeWhile f (data_of p), p\<lparr>data_of := dropWhile f (data_of p)\<rparr>)"

definition read_all :: "parser \<Rightarrow> string \<times> parser" where
  "read_all p = (data_of p, p\<lparr>data_of := []\<rparr>)"

definition read_till :: "char \<Rightarrow> parser \<Rightarrow> string \<times> parser" where
  "read_till c p =
     (if status_of p \<noteq> None then ([], p)
      else (let (res, p') = read_till_nofail c p
            in if data_of p' = [] \<or> hd (data_of p') \<noteq> c
               then ([], p'\<lparr>status_of := Some (Status 0 (''Read till '' @ [CHR 0x27, c, CHR 0x27] @ '' failed''))\<rparr>)
               else (res, p')))"

definition peek_char :: "parser \<Rightarrow> char" where
  "peek_char p = (case data_of p of [] \<Rightarrow> CHR 0x00 | c # _ \<Rightarrow> c)"

definition skip_nofail :: "char \<Rightarrow> parser \<Rightarrow> parser" where
  "skip_nofail c p =
     (if data_of p \<noteq> [] \<and> hd (data_of p) = c then p\<lparr>data_of := tl (data_of p)\<rparr> else p)"

definition skip :: "char \<Rightarrow> parser \<Rightarrow> parser" where
  "skip c p =
     (if status_of p \<noteq> None then p
      else if data_of p = [] \<or> hd (data_of p) \<noteq> c
      then p\<lparr>status_of := Some (Status 0 (''Skip '' @ [CHR 0x27, c, CHR 0x27] @ '' failed''))\<rparr>
      else p\<lparr>data_of := tl (data_of p)\<rparr>)"

definition try_skip_char :: "char \<Rightarrow> parser \<Rightarrow> bool \<times> parser" where
  "try_skip_char c p =
     (if data_of p \<noteq> [] \<and> hd (data_of p) = c then (True, p\<lparr>data_of := tl (data_of p)\<rparr>) else (False, p))"

definition try_skip :: "string \<Rightarrow> parser \<Rightarrow> bool \<times> parser" where
  "try_skip prefix p =
     (if length prefix > length (data_of p) \<or> prefix \<noteq> take (length prefix) (data_of p)
      then (False, p)
      else (True, p\<lparr>data_of := drop (length prefix) (data_of p)\<rparr>))"

definition skip_till_not :: "string \<Rightarrow> parser \<Rightarrow> parser" where
  "skip_till_not cs p = p\<lparr>data_of := dropWhile (\<lambda>c. c \<in> set cs) (data_of p)\<rparr>"

definition whitespaces :: string where
  "whitespaces = [CHR 0x20, CHR 0x09, CHR 0x0D, CHR 0x0A]"

definition skip_whitespaces :: "parser \<Rightarrow> parser" where
  "skip_whitespaces p = skip_till_not whitespaces p"

definition read_word :: "parser \<Rightarrow> string \<times> parser" where
  "read_word p = read_till_any_nofail whitespaces (skip_whitespaces p)"

section \<open>What the operations read\<close>

lemma new_parser_simps [simp]:
  "data_of (new_parser s) = s" "status_of (new_parser s) = None"
  by (simp_all add: new_parser_def)

lemma read_till_nofail_hit:
  "status_of p = None \<Longrightarrow> data_of p = xs @ c # ys \<Longrightarrow> c \<notin> set xs \<Longrightarrow>
   read_till_nofail c p = (xs, p\<lparr>data_of := c # ys\<rparr>)"
  by (simp add: read_till_nofail_def find_char_append Let_def)

lemma read_till_nofail_miss:
  "status_of p = None \<Longrightarrow> c \<notin> set (data_of p) \<Longrightarrow>
   read_till_nofail c p = (data_of p, p\<lparr>data_of := []\<rparr>)"
  by (simp add: read_till_nofail_def find_char_None [THEN iffD2] Let_def)

lemma read_till_hit:
  "status_of p = None \<Longrightarrow> data_of p = xs @ c # ys \<Longrightarrow> c \<notin> set xs \<Longrightarrow>
   read_till c p = (xs, p\<lparr>data_of := c # ys\<rparr>)"
  by (simp add: read_till_def read_till_nofail_hit)

lemma read_till_miss:
  "status_of p = None \<Longrightarrow> c \<notin> set (data_of p) \<Longrightarrow>
   fst (read_till c p) = [] \<and> status_of (snd (read_till c p)) \<noteq> None"
  by (simp add: read_till_def read_till_nofail_miss)

lemma skip_hit [simp]:
  "status_of p = None \<Longrightarrow> data_of p = c # s \<Longrightarrow> skip c p = p\<lparr>data_of := s\<rparr>"
  by (simp add: skip_def)

lemma try_skip_hit: "data_of p = prefix @ s \<Longrightarrow> try_skip prefix p = (True, p\<lparr>data_of := s\<rparr>)"
  by (simp add: try_skip_def)

lemma try_skip_miss: "\<not> begins_with (data_of p) prefix \<Longrightarrow> try_skip prefix p = (False, p)"
  by (auto simp: try_skip_def begins_with_def)

lemma try_skip_iff: "fst (try_skip prefix p) \<longleftrightarrow> begins_with (data_of p) prefix"
  by (auto simp: try_skip_def begins_with_def)

text \<open>No operation looks back: each one leaves a suffix of the data it was given.\<close>

lemma read_till_nofail_consumes:
  "status_of p = None \<Longrightarrow>
   fst (read_till_nofail c p) @ data_of (snd (read_till_nofail c p)) = data_of p"
  by (simp add: read_till_nofail_def Let_def)

lemma best_till_le: "best_till s cs \<le> length s"
proof -
  have "foldl (\<lambda>best c. case find_char s c of None \<Rightarrow> best | Some k \<Rightarrow> if k < best then k else best) b cs \<le> b" for b
  proof (induction cs arbitrary: b)
    case (Cons c cs)
    have "(case find_char s c of None \<Rightarrow> b | Some k \<Rightarrow> if k < b then k else b) \<le> b"
      by (auto split: option.splits)
    with Cons [of "case find_char s c of None \<Rightarrow> b | Some k \<Rightarrow> if k < b then k else b"] show ?case
      by simp
  qed simp
  then show ?thesis by (simp add: best_till_def)
qed

end
