(* ===== verification/Td_Net.thy ===== *)
theory Td_Net
  imports Td_Parser
begin

unbundle bit_operations_syntax

text \<open>
  \<^verbatim>\<open>td::IPAddress\<close> of \<^verbatim>\<open>td/tdutils/td/utils/port/IPAddress.cpp\<close>.  An address is invalid, an
  IPv4 address or an IPv6 address with a port.  \<^verbatim>\<open>inet_pton\<close> and \<^verbatim>\<open>inet_ntop\<close> belong to the
  operating system: they are the fields of the parameter \<open>inet\<close>.
\<close>

datatype ip_address =
    Invalid
  | IPv4 (ipv4_addr: "32 word") (ipv4_port: nat)
  | IPv6 (ipv6_addr: "8 word list") (ipv6_port: nat)

record inet =
  pton4 :: "string \<Rightarrow> 32 word option"
  pton6 :: "string \<Rightarrow> 8 word list option"
  ntop4 :: "32 word \<Rightarrow> string"
  ntop6 :: "8 word list \<Rightarrow> string"

definition is_valid :: "ip_address \<Rightarrow> bool" where
  "is_valid a \<longleftrightarrow> a \<noteq> Invalid"

definition is_ipv4 :: "ip_address \<Rightarrow> bool" where
  "is_ipv4 a = (case a of IPv4 _ _ \<Rightarrow> True | _ \<Rightarrow> False)"

definition is_ipv6 :: "ip_address \<Rightarrow> bool" where
  "is_ipv6 a = (case a of IPv6 _ _ \<Rightarrow> True | _ \<Rightarrow> False)"

text \<open>\<^verbatim>\<open>c_str()\<close>: the callee sees the characters before the first zero byte.\<close>

definition c_str :: "string \<Rightarrow> string" where
  "c_str s = takeWhile (\<lambda>c. c \<noteq> CHR 0x00) s"

definition port_error :: "string \<Rightarrow> int \<Rightarrow> status" where
  "port_error family port = Status 0 (''Invalid ['' @ family @ '' address port='' @ print_int 32 port @ '']'')"

definition init_ipv4_port :: "inet \<Rightarrow> string \<Rightarrow> int \<Rightarrow> ip_address result" where
  "init_ipv4_port os s port =
     (if port \<le> 0 \<or> port \<ge> 65536 then Inl (port_error ''IPv4'' port)
      else (case pton4 os (c_str s) of
              None \<Rightarrow> Error 0 (''Failed inet_pton(AF_INET, '' @ s @ '')'')
            | Some a \<Rightarrow> Ok (IPv4 a (nat port))))"

definition init_ipv6_port :: "inet \<Rightarrow> string \<Rightarrow> int \<Rightarrow> ip_address result" where
  "init_ipv6_port os s port =
     (if port \<le> 0 \<or> port \<ge> 65536 then Inl (port_error ''IPv6'' port)
      else (let s' = (if length s > 2 \<and> hd s = CHR ''['' \<and> last s = CHR '']''
                      then butlast (tl s) else s)
            in case pton6 os (c_str s') of
                 None \<Rightarrow> Error 0 (''Failed inet_pton(AF_INET6, '' @ s' @ '')'')
               | Some a \<Rightarrow> Ok (IPv6 a (nat port))))"

text \<open>\<^verbatim>\<open>get_ip_address\<close>; \<open>inet_addr\<close> is the function of the operating system, \<open>None\<close> for \<^verbatim>\<open>INADDR_NONE\<close>.\<close>

definition get_ipv4_address :: "(string \<Rightarrow> 32 word option) \<Rightarrow> inet \<Rightarrow> string \<Rightarrow> ip_address result" where
  "get_ipv4_address inet_addr os host =
     (case inet_addr (c_str host) of
        None \<Rightarrow> Error 0 ([CHR 0x22] @ host @ [CHR 0x22] @ '' is not a valid IPv4 address'')
      | Some a \<Rightarrow> init_ipv4_port os (ntop4 os a) 1)"

definition get_ipv6_address :: "inet \<Rightarrow> string \<Rightarrow> ip_address result" where
  "get_ipv6_address os host =
     (case init_ipv6_port os host 1 of
        Inl _ \<Rightarrow> Error 0 ([CHR 0x22] @ host @ [CHR 0x22] @ '' is not a valid IPv6 address'')
      | Inr a \<Rightarrow> Ok a)"

definition get_ip_address :: "(string \<Rightarrow> 32 word option) \<Rightarrow> inet \<Rightarrow> string \<Rightarrow> ip_address result" where
  "get_ip_address inet_addr os host =
     (if is_ok (get_ipv4_address inet_addr os host) then get_ipv4_address inet_addr os host
      else if is_ok (get_ipv6_address os host) then get_ipv6_address os host
      else Error 0 ([CHR 0x22] @ host @ [CHR 0x22] @ '' is not a valid IP address''))"

definition clear_ipv6_interface :: "ip_address \<Rightarrow> ip_address" where
  "clear_ipv6_interface a =
     (case a of IPv6 b p \<Rightarrow> IPv6 (take 8 b @ replicate 8 0) p | _ \<Rightarrow> a)"

definition get_ip_str :: "inet \<Rightarrow> ip_address \<Rightarrow> string" where
  "get_ip_str os a =
     (case a of Invalid \<Rightarrow> ''0.0.0.0'' | IPv4 b _ \<Rightarrow> ntop4 os b | IPv6 b _ \<Rightarrow> ntop6 os b)"

definition get_ip_host :: "inet \<Rightarrow> ip_address \<Rightarrow> string" where
  "get_ip_host os a =
     (case a of Invalid \<Rightarrow> ''0.0.0.0'' | IPv4 b _ \<Rightarrow> ntop4 os b | IPv6 b _ \<Rightarrow> ''['' @ ntop6 os b @ '']'')"

definition get_port :: "ip_address \<Rightarrow> nat" where
  "get_port a = (case a of Invalid \<Rightarrow> 0 | IPv4 _ p \<Rightarrow> p | IPv6 _ p \<Rightarrow> p)"

definition set_port :: "ip_address \<Rightarrow> int \<Rightarrow> ip_address checked" where
  "set_port a port =
     (case a of
        Invalid \<Rightarrow> CheckFailed
      | IPv4 b _ \<Rightarrow> Checked (IPv4 b (nat (port mod 65536)))
      | IPv6 b _ \<Rightarrow> Checked (IPv6 b (nat (port mod 65536))))"

text \<open>The reserved IPv4 blocks; each literal goes through \<^verbatim>\<open>init_ipv4_port(block.ip, 80).ensure()\<close>.\<close>

definition reserved_blocks :: "(string \<times> nat) list" where
  "reserved_blocks =
     [(''0.0.0.0'', 8), (''10.0.0.0'', 8), (''100.64.0.0'', 10), (''127.0.0.0'', 8),
      (''169.254.0.0'', 16), (''172.16.0.0'', 12), (''192.0.0.0'', 24), (''192.0.2.0'', 24),
      (''192.88.99.0'', 24), (''192.168.0.0'', 16), (''198.18.0.0'', 15), (''198.51.100.0'', 24),
      (''203.0.113.0'', 24), (''224.0.0.0'', 3)]"

definition reserved_mask :: "nat \<Rightarrow> 32 word" where
  "reserved_mask m = push_bit (32 - m) (drop_bit (32 - m) (- 1))"

fun in_reserved_blocks :: "inet \<Rightarrow> 32 word \<Rightarrow> (string \<times> nat) list \<Rightarrow> bool checked" where
  "in_reserved_blocks os ip [] = Checked False"
| "in_reserved_blocks os ip ((b, m) # bs) =
     (case init_ipv4_port os b 80 of
        Inr (IPv4 blk _) \<Rightarrow>
          (if ip AND reserved_mask m = blk AND reserved_mask m then Checked True
           else in_reserved_blocks os ip bs)
      | _ \<Rightarrow> CheckFailed)"

definition is_reserved :: "inet \<Rightarrow> ip_address \<Rightarrow> bool checked" where
  "is_reserved os a =
     (case a of
        Invalid \<Rightarrow> CheckFailed
      | IPv6 _ _ \<Rightarrow> Checked True
      | IPv4 ip _ \<Rightarrow> in_reserved_blocks os ip reserved_blocks)"

section \<open>Dotted quads\<close>

text \<open>
  What the sources rely on from \<^verbatim>\<open>inet_pton(AF_INET, \<dots>)\<close>: the dotted decimal form of four bytes is
  parsed to the address with these bytes, the first one most significant.
\<close>

definition quad :: "nat \<Rightarrow> nat \<Rightarrow> nat \<Rightarrow> nat \<Rightarrow> 32 word" where
  "quad a b c d = of_nat (((a * 256 + b) * 256 + c) * 256 + d)"

definition dotted :: "nat \<Rightarrow> nat \<Rightarrow> nat \<Rightarrow> nat \<Rightarrow> string" where
  "dotted a b c d = print_uint a @ ''.'' @ print_uint b @ ''.'' @ print_uint c @ ''.'' @ print_uint d"

definition parses_quads :: "inet \<Rightarrow> bool" where
  "parses_quads os \<longleftrightarrow>
     (\<forall>a b c d. a < 256 \<longrightarrow> b < 256 \<longrightarrow> c < 256 \<longrightarrow> d < 256 \<longrightarrow> pton4 os (dotted a b c d) = Some (quad a b c d))"

lemma init_ipv4_port_zero: "\<not> is_ok (init_ipv4_port os s 0)"
  by (simp add: init_ipv4_port_def)

lemma init_ipv6_port_zero: "\<not> is_ok (init_ipv6_port os s 0)"
  by (simp add: init_ipv6_port_def)

lemma reserved_blocks_dotted:
  "reserved_blocks =
     [(dotted 0 0 0 0, 8), (dotted 10 0 0 0, 8), (dotted 100 64 0 0, 10), (dotted 127 0 0 0, 8),
      (dotted 169 254 0 0, 16), (dotted 172 16 0 0, 12), (dotted 192 0 0 0, 24), (dotted 192 0 2 0, 24),
      (dotted 192 88 99 0, 24), (dotted 192 168 0 0, 16), (dotted 198 18 0 0, 15), (dotted 198 51 100 0, 24),
      (dotted 203 0 113 0, 24), (dotted 224 0 0 0, 3)]"
  by code_simp

lemma c_str_dotted: "c_str (dotted a b c d) = dotted a b c d"
proof -
  have "x \<noteq> CHR 0x00" if "x \<in> set (dotted a b c d)" for x
    using that print_uint_digits [of x] by (auto simp: dotted_def is_digit_def code_def)
  then show ?thesis by (simp add: c_str_def takeWhile_eq_all_conv)
qed

lemma init_ipv4_port_dotted:
  assumes "parses_quads os" "a < 256" "b < 256" "c < 256" "d < 256" "0 < port" "port < 65536"
  shows "init_ipv4_port os (dotted a b c d) port = Ok (IPv4 (quad a b c d) (nat port))"
  using assms by (simp add: init_ipv4_port_def c_str_dotted parses_quads_def)

text \<open>The blocks as addresses.\<close>

definition reserved_quads :: "(32 word \<times> nat) list" where
  "reserved_quads =
     [(quad 0 0 0 0, 8), (quad 10 0 0 0, 8), (quad 100 64 0 0, 10), (quad 127 0 0 0, 8),
      (quad 169 254 0 0, 16), (quad 172 16 0 0, 12), (quad 192 0 0 0, 24), (quad 192 0 2 0, 24),
      (quad 192 88 99 0, 24), (quad 192 168 0 0, 16), (quad 198 18 0 0, 15), (quad 198 51 100 0, 24),
      (quad 203 0 113 0, 24), (quad 224 0 0 0, 3)]"

lemma is_reserved_ipv4:
  assumes "parses_quads os"
  shows "is_reserved os (IPv4 ip p) =
         Checked (\<exists>(q, m) \<in> set reserved_quads. ip AND reserved_mask m = q AND reserved_mask m)"
  unfolding is_reserved_def reserved_blocks_dotted reserved_quads_def
  by (simp add: init_ipv4_port_dotted [OF assms])

text \<open>An instance of these operations with which the hypothesis on \<^verbatim>\<open>inet_pton\<close> holds.\<close>

definition quad_pton :: "string \<Rightarrow> 32 word option" where
  "quad_pton s =
     (let (a, s1) = split_at_char s (CHR ''.''); (b, s2) = split_at_char s1 (CHR ''.''); (c, d) = split_at_char s2 (CHR ''.'')
      in Some (quad (to_integer_unsigned 32 a) (to_integer_unsigned 32 b) (to_integer_unsigned 32 c) (to_integer_unsigned 32 d)))"

definition quad_inet :: inet where
  "quad_inet = \<lparr>pton4 = quad_pton, pton6 = (\<lambda>_. None), ntop4 = (\<lambda>_. ''0.0.0.0''), ntop6 = (\<lambda>_. ''::'')\<rparr>"

lemma quad_inet_parses: "parses_quads quad_inet"
proof -
  have split: "split_at_char (print_uint n @ CHR ''.'' # s) (CHR ''.'') = (print_uint n, s)" for n s
  proof -
    have "CHR ''.'' \<notin> set (print_uint n)" using print_uint_digits [of "CHR ''.''" n] by (auto simp: is_digit_def code_def)
    then show ?thesis by (simp add: split_at_char_def find_char_append)
  qed
  have digits: "to_integer_unsigned 32 (print_uint n) = n" if "n < 256" for n
    using to_integer_safe_unsigned_iff [of 32 "print_uint n" n] that
    by (auto simp: to_integer_safe_unsigned_def Let_def split: if_splits)
  show ?thesis
    using split by (simp add: parses_quads_def quad_inet_def quad_pton_def dotted_def digits)
qed

end
