(* ===== verification/FileStreamRoute.thy ===== *)
theory FileStreamRoute
  imports Td_Net
begin

unbundle bit_operations_syntax

text \<open>
  \<^verbatim>\<open>server/FileStreamRoute.cpp\<close>: which peers may use the streaming endpoint, the route and the
  headers of a streaming request, and the byte range it asks for.  The allow list is read from a
  string with a terminating zero byte; a slice of it is its text and the text that follows it in the
  buffer, because \<^verbatim>\<open>CSlice(begin, end)\<close> checks the byte behind the slice.
\<close>

record ip_prefix =
  prefix_ipv4 :: "32 word"
  prefix_ipv6 :: "8 word list"
  prefix_is_ipv4 :: bool
  prefix_len :: int

definition new_ip_prefix :: ip_prefix where
  "new_ip_prefix = \<lparr>prefix_ipv4 = 0, prefix_ipv6 = replicate 16 0, prefix_is_ipv4 = False, prefix_len = 0\<rparr>"

record file_stream_route =
  route_token :: string
  route_file_id :: string
  route_is_test_dc :: bool
  route_expected_size :: int
  route_no_cache :: bool
  route_range :: string
  route_head_only :: bool

record file_stream_range =
  range_is_partial :: bool
  range_start :: int
  range_end :: int

section \<open>The allow list\<close>

text \<open>\<^verbatim>\<open>CSlice(begin, end)\<close>: the byte at \<^verbatim>\<open>end\<close> must be zero.\<close>

definition cslice :: "string \<Rightarrow> string \<Rightarrow> string checked" where
  "cslice text rest = (if rest = [] \<or> hd rest = CHR 0x00 then Checked text else CheckFailed)"

text \<open>\<^verbatim>\<open>trim\<close> on a slice leaves the stripped tail in front of the text that follows.\<close>

definition trimmed_tail :: "string \<Rightarrow> string" where
  "trimmed_tail s = rev (takeWhile is_space (rev (dropWhile is_space s)))"

definition parse_ipv6_prefix :: "inet \<Rightarrow> string \<Rightarrow> string \<Rightarrow> 8 word list option checked" where
  "parse_ipv6_prefix os text rest =
     (case cslice text rest of
        CheckFailed \<Rightarrow> CheckFailed
      | Checked s \<Rightarrow>
          (case init_ipv6_port os s 0 of
             Inr (IPv6 v6 _) \<Rightarrow> Checked (if length v6 \<noteq> 16 then None else Some v6)
           | _ \<Rightarrow> Checked None))"

definition parse_prefix_part :: "string \<Rightarrow> int option" where
  "parse_prefix_part prefix_part =
     (if prefix_part = [] then None
      else if \<exists>c \<in> set prefix_part. code c < 48 \<or> code c > 57 then None
      else (case to_integer_safe 32 prefix_part of Inl _ \<Rightarrow> None | Inr n \<Rightarrow> Some n))"

text \<open>The address part in front of the last \<^verbatim>\<open>/\<close>, what follows it, and the prefix length or \<open>- 1\<close>.\<close>

definition split_allow_ip_entry :: "string \<Rightarrow> string \<Rightarrow> (string \<times> string \<times> int) option" where
  "split_allow_ip_entry entry rest =
     (case rfind_char entry (CHR ''/'') of
        None \<Rightarrow> Some (entry, rest, - 1)
      | Some slash_pos \<Rightarrow>
          (case parse_prefix_part (drop (slash_pos + 1) entry) of
             None \<Rightarrow> None
           | Some n \<Rightarrow> Some (take slash_pos entry, drop slash_pos entry @ rest, n)))"

definition parse_allow_ip_entry :: "inet \<Rightarrow> string \<Rightarrow> string \<Rightarrow> ip_prefix option checked" where
  "parse_allow_ip_entry os entry0 rest0 =
     (let entry = trim entry0; rest = trimmed_tail entry0 @ rest0
      in if entry = [] then Checked None
         else (case split_allow_ip_entry entry rest of
           None \<Rightarrow> Checked None
         | Some (addr_part, addr_rest, n) \<Rightarrow>
             (case cslice addr_part addr_rest of
                CheckFailed \<Rightarrow> CheckFailed
              | Checked s \<Rightarrow>
                  (case init_ipv4_port os s 0 of
                     Inr a \<Rightarrow>
                       (let p = new_ip_prefix\<lparr>prefix_is_ipv4 := True, prefix_ipv4 := ipv4_addr a,
                                               prefix_len := (if n < 0 then 32 else n)\<rparr>
                        in Checked (if prefix_len p \<ge> 0 \<and> prefix_len p \<le> 32 then Some p else None))
                   | Inl _ \<Rightarrow>
                       (case parse_ipv6_prefix os addr_part addr_rest of
                          CheckFailed \<Rightarrow> CheckFailed
                        | Checked None \<Rightarrow> Checked None
                        | Checked (Some v6) \<Rightarrow>
                            (let p = new_ip_prefix\<lparr>prefix_is_ipv4 := False, prefix_ipv6 := v6,
                                                    prefix_len := (if n < 0 then 128 else n)\<rparr>
                             in Checked (if prefix_len p \<ge> 0 \<and> prefix_len p \<le> 128 then Some p else None)))))))"

definition is_private_or_loopback :: "ip_address \<Rightarrow> bool" where
  "is_private_or_loopback addr =
     (case addr of
        Invalid \<Rightarrow> False
      | IPv4 ip _ \<Rightarrow>
          drop_bit 24 ip = 0 \<or> drop_bit 24 ip = 10 \<or> drop_bit 24 ip = 127 \<or> drop_bit 16 ip = 0xA9FE \<or>
          drop_bit 20 ip AND 0xFFF = 0xAC1 \<or> drop_bit 16 ip = 0xC0A8
      | IPv6 v6 _ \<Rightarrow>
          (if length v6 \<noteq> 16 then False
           else if (\<forall>b \<in> set (take 15 v6). b = 0) \<and> v6 ! 15 = 1 then True
           else v6 ! 0 AND 0xFE = 0xFC))"

definition ipv4_matches :: "ip_prefix \<Rightarrow> 32 word \<Rightarrow> bool" where
  "ipv4_matches p ip =
     (let mask = (if prefix_len p = 0 then 0 else push_bit (nat (32 - prefix_len p)) (0xFFFFFFFF :: 32 word))
      in prefix_ipv4 p AND mask = ip AND mask)"

definition ipv6_matches :: "ip_prefix \<Rightarrow> 8 word list \<Rightarrow> bool" where
  "ipv6_matches p ip =
     (let full_bytes = nat (prefix_len p div 8);
          rem_bits = nat (prefix_len p mod 8);
          mask = push_bit (8 - rem_bits) (0xFF :: 8 word)
      in (\<forall>i \<in> set [0..<full_bytes]. prefix_ipv6 p ! i = ip ! i) \<and>
         (rem_bits > 0 \<longrightarrow> prefix_ipv6 p ! full_bytes AND mask = ip ! full_bytes AND mask))"

definition prefix_admits :: "ip_prefix \<Rightarrow> ip_address \<Rightarrow> bool" where
  "prefix_admits p peer =
     (case peer of
        Invalid \<Rightarrow> False
      | IPv4 ip _ \<Rightarrow> prefix_is_ipv4 p \<and> ipv4_matches p ip
      | IPv6 v6 _ \<Rightarrow> \<not> prefix_is_ipv4 p \<and> length v6 = 16 \<and> ipv6_matches p v6)"

text \<open>One round of the loop reads an entry and the comma behind it.\<close>

definition next_entry :: "string \<Rightarrow> string \<times> string \<times> string" where
  "next_entry s =
     (let (entry, p) = read_till_nofail (CHR '','') (new_parser s)
      in (entry, data_of p, data_of (skip_nofail (CHR '','') p)))"

lemma next_entry_shorter:
  assumes "s \<noteq> []"
  shows "length (snd (snd (next_entry s))) < length s"
proof (cases "CHR '','' \<in> set s")
  case True
  then obtain xs ys where s: "s = xs @ CHR '','' # ys" "CHR '','' \<notin> set xs"
    by (metis split_list_first)
  then show ?thesis
    by (simp add: next_entry_def read_till_nofail_hit [of _ xs _ ys] skip_nofail_def)
next
  case False
  with assms show ?thesis
    by (simp add: next_entry_def read_till_nofail_miss skip_nofail_def)
qed

function allow_ip_loop :: "inet \<Rightarrow> ip_address \<Rightarrow> string \<Rightarrow> bool checked" where
  "allow_ip_loop os peer s =
     (if s = [] then Checked False
      else (let (entry, rest, s') = next_entry s
            in case parse_allow_ip_entry os entry rest of
                 CheckFailed \<Rightarrow> CheckFailed
               | Checked None \<Rightarrow> allow_ip_loop os peer s'
               | Checked (Some p) \<Rightarrow>
                   (if prefix_admits p peer then Checked True else allow_ip_loop os peer s')))"
  by pat_completeness auto
termination
  by (relation "measure (\<lambda>(os, peer, s). length s)")
    (auto dest: arg_cong [where f = "\<lambda>t. length (snd (snd t))"] simp: next_entry_shorter intro: next_entry_shorter [THEN order.strict_trans2])

declare allow_ip_loop.simps [simp del]

definition is_file_stream_ip_allowed :: "inet \<Rightarrow> ip_address \<Rightarrow> string \<Rightarrow> bool checked" where
  "is_file_stream_ip_allowed os peer allow_ip =
     (if \<not> is_valid peer then Checked False
      else if allow_ip = [] then Checked (is_private_or_loopback peer)
      else allow_ip_loop os peer allow_ip)"

section \<open>The request\<close>

definition is_hex :: "char \<Rightarrow> bool" where
  "is_hex c \<longleftrightarrow> (48 \<le> code c \<and> code c \<le> 57) \<or> (97 \<le> code c \<and> code c \<le> 102) \<or> (65 \<le> code c \<and> code c \<le> 70)"

fun validate_url_encoding :: "string \<Rightarrow> status_result" where
  "validate_url_encoding [] = Ok ()"
| "validate_url_encoding (c # s) =
     (if c = CHR ''%''
      then (case s of
              a # b # r \<Rightarrow> (if \<not> is_hex a \<or> \<not> is_hex b then Error 400 ''Invalid percent-encoding in file_id''
                            else validate_url_encoding r)
            | _ \<Rightarrow> Error 400 ''Invalid percent-encoding in file_id'')
      else validate_url_encoding s)"

definition parse_file_stream_size_hint :: "string \<Rightarrow> int result" where
  "parse_file_stream_size_hint value =
     (if value = [] then Ok (- 1)
      else if \<exists>c \<in> set value. code c < 48 \<or> code c > 57
      then Error 400 ''Invalid X-Telegram-File-Size header''
      else (case to_integer_safe 64 value of
              Inl _ \<Rightarrow> Error 400 ''Invalid X-Telegram-File-Size header''
            | Inr n \<Rightarrow> (if n \<le> 0 then Error 400 ''Invalid X-Telegram-File-Size header'' else Ok n)))"

definition parse_file_stream_no_cache :: "string \<Rightarrow> bool" where
  "parse_file_stream_no_cache value0 =
     (let value = trim value0 in value = ''1'' \<or> to_lower value = ''true'')"

abbreviation range_error :: "'a result" where
  "range_error \<equiv> Error 416 ''Range Not Satisfiable''"

definition parse_suffix_range :: "string \<Rightarrow> int \<Rightarrow> file_stream_range result" where
  "parse_suffix_range end_value tsize =
     (case to_integer_safe 64 end_value of
        Inl _ \<Rightarrow> range_error
      | Inr suffix_size \<Rightarrow>
          (if suffix_size \<le> 0 \<or> tsize = 0 then range_error
           else (let len = min suffix_size tsize
                 in Ok \<lparr>range_is_partial = True, range_start = tsize - len, range_end = tsize - 1\<rparr>)))"

definition parse_start_range :: "string \<Rightarrow> string \<Rightarrow> int \<Rightarrow> file_stream_range result" where
  "parse_start_range start_value end_value tsize =
     (case to_integer_safe 64 start_value of
        Inl _ \<Rightarrow> range_error
      | Inr start \<Rightarrow>
          (if start < 0 \<or> start \<ge> tsize then range_error
           else if end_value = []
           then Ok \<lparr>range_is_partial = True, range_start = start, range_end = tsize - 1\<rparr>
           else (case to_integer_safe 64 end_value of
                   Inl _ \<Rightarrow> range_error
                 | Inr parsed_end \<Rightarrow>
                     (if parsed_end < start then range_error
                      else Ok \<lparr>range_is_partial = True, range_start = start,
                               range_end = min parsed_end (tsize - 1)\<rparr>))))"

definition parse_file_stream_range :: "string \<Rightarrow> int \<Rightarrow> file_stream_range result" where
  "parse_file_stream_range value0 tsize =
     (if tsize < 0 then range_error
      else (let value = trim value0
            in if value = [] then Ok \<lparr>range_is_partial = False, range_start = 0, range_end = tsize - 1\<rparr>
               else if \<not> begins_with value ''bytes='' then range_error
               else (let ranges = drop 6 value
                     in if ranges = [] \<or> find_char ranges (CHR '','') \<noteq> None then range_error
                        else (case find_char ranges (CHR ''-'') of
                          None \<Rightarrow> range_error
                        | Some dash_pos \<Rightarrow>
                            (let start_value = trim (take dash_pos ranges);
                                 end_value = trim (drop (dash_pos + 1) ranges)
                             in if start_value = [] \<and> end_value = [] then range_error
                                else if start_value = [] then parse_suffix_range end_value tsize
                                else parse_start_range start_value end_value tsize)))))"

definition resolve_file_stream_size :: "int \<Rightarrow> int \<Rightarrow> int result" where
  "resolve_file_stream_size tdlib_size expected_size =
     (if tdlib_size > 0 then Ok tdlib_size
      else Error 502 ''Exact file size is unavailable from Telegram'')"

definition new_route :: "string \<Rightarrow> string \<Rightarrow> bool \<Rightarrow> file_stream_route" where
  "new_route token file_id is_test_dc =
     \<lparr>route_token = token, route_file_id = file_id, route_is_test_dc = is_test_dc, route_expected_size = - 1,
      route_no_cache = False, route_range = [], route_head_only = False\<rparr>"

definition parse_file_stream_file_id :: "string \<Rightarrow> string result" where
  "parse_file_stream_file_id encoded_file_id =
     (if encoded_file_id = [] \<or> find_char encoded_file_id (CHR ''/'') \<noteq> None
      then Error 400 ''Invalid file_id path''
      else (case validate_url_encoding encoded_file_id of
        Inl e \<Rightarrow> Inl e
      | Inr _ \<Rightarrow>
          (let file_id = url_decode False encoded_file_id
           in if file_id = [] \<or> length file_id > 4096 \<or> find_char file_id (CHR ''/'') \<noteq> None \<or>
                 find_char file_id (CHR 0x00) \<noteq> None
              then Error 400 ''Invalid file_id specified''
              else Ok file_id)))"

definition parse_file_stream_route :: "string \<Rightarrow> file_stream_route result" where
  "parse_file_stream_route path =
     (let (is_stream, p1) = try_skip ''/stream/file/bot'' (new_parser path)
      in if \<not> is_stream then Error 404 ''Not Found''
         else (let (token, p2) = read_till (CHR ''/'') p1
               in if token = [] then Error 400 ''Token is empty''
                  else (let p3 = skip (CHR ''/'') p2
                        in if status_of p3 \<noteq> None then Error 400 ''file_id is missing''
                           else (let (is_test_dc, p4) = try_skip ''test/'' p3
                                 in map_sum id (\<lambda>file_id. new_route token file_id is_test_dc)
                                      (parse_file_stream_file_id (data_of p4))))))"

section \<open>Ranges\<close>

text \<open>What a range has to satisfy to be served from a file of the given size.\<close>

definition range_within :: "file_stream_range \<Rightarrow> int \<Rightarrow> bool" where
  "range_within r tsize \<longleftrightarrow>
     0 \<le> range_start r \<and> range_end r < tsize \<and> range_start r \<le> range_end r + 1 \<and>
     (tsize > 0 \<longrightarrow> range_start r \<le> range_end r) \<and> (range_is_partial r \<longrightarrow> tsize > 0)"

lemma in_signed_64: "in_signed 64 x \<longleftrightarrow> - 9223372036854775808 \<le> x \<and> x \<le> int64_max"
  by (auto simp: in_signed_def)

lemma parse_suffix_range_within:
  "parse_suffix_range v tsize = Ok r \<Longrightarrow> 0 \<le> tsize \<Longrightarrow> range_within r tsize"
  by (auto simp: parse_suffix_range_def range_within_def Let_def split: sum.splits if_splits)

lemma parse_start_range_within:
  "parse_start_range v w tsize = Ok r \<Longrightarrow> range_within r tsize"
  by (auto simp: parse_start_range_def range_within_def split: sum.splits if_splits)

lemma parse_range_within:
  assumes "parse_file_stream_range v tsize = Ok r"
  shows "range_within r tsize \<and> 0 \<le> tsize"
  using assms parse_start_range_within parse_suffix_range_within
  by (auto simp: parse_file_stream_range_def Let_def range_within_def split: if_splits option.splits)

lemma parse_range_error:
  assumes "parse_file_stream_range v tsize = Inl e"
  shows "e = Status 416 ''Range Not Satisfiable''"
  using assms
  by (auto simp: parse_file_stream_range_def parse_start_range_def parse_suffix_range_def Let_def
        split: if_splits option.splits sum.splits)

text \<open>The three forms of a single range, as a client prints them.\<close>

lemma trim_all: "\<forall>c \<in> set s. \<not> is_space c \<Longrightarrow> trim s = s"
  by (cases "s = []") (simp_all add: trim_no_space)

lemma print_uint_no_space: "c \<in> set (print_uint n) \<Longrightarrow> \<not> is_space c"
  using print_uint_digits [of c n] by (auto simp: is_digit_def is_space_def)

lemma digit_not: "is_digit c \<Longrightarrow> c \<noteq> CHR '','' \<and> c \<noteq> CHR ''-'' \<and> c \<noteq> CHR ''/'' \<and> c \<noteq> CHR 0x00"
  by (auto simp: is_digit_def code_def)

lemma print_uint_chars:
  "CHR '','' \<notin> set (print_uint n)" "CHR ''-'' \<notin> set (print_uint n)"
  using print_uint_digits digit_not by blast+

lemma to_integer_safe_uint: "int n \<le> int64_max \<Longrightarrow> to_integer_safe 64 (print_uint n) = Ok (int n)"
  by (simp add: to_integer_safe_iff in_signed_64 print_signed_def)

lemma bytes_unit: "\<forall>c \<in> set ''bytes=''. \<not> is_space c" "length ''bytes='' = 6"
  by (simp_all add: is_space_def code_def)

lemma range_header_split:
  assumes ab: "\<forall>c \<in> set a \<union> set b. \<not> is_space c \<and> c \<noteq> CHR '',''" and dash: "CHR ''-'' \<notin> set a"
    and ne: "a \<noteq> [] \<or> b \<noteq> []" and sz: "0 \<le> tsize"
  shows "parse_file_stream_range (''bytes='' @ a @ CHR ''-'' # b) tsize =
     (if a = [] then parse_suffix_range b tsize else parse_start_range a b tsize)"
proof -
  define unit :: string where "unit = ''bytes=''"
  let ?r = "a @ CHR ''-'' # b"
  have u: "\<forall>c \<in> set unit. \<not> is_space c" "length unit = 6"
    unfolding unit_def by (fact bytes_unit)+
  have "\<not> is_space (CHR ''-'')" by (simp add: is_space_def)
  then have v: "trim (unit @ ?r) = unit @ ?r"
    using ab u(1) by (intro trim_all) auto
  have a: "trim a = a" and b: "trim b = b"
    using ab by (simp_all add: trim_all)
  have d: "find_char ?r (CHR ''-'') = Some (length a)"
    using dash by (rule find_char_append)
  have c: "find_char ?r (CHR '','') = None"
    using ab by auto
  have r: "drop 6 (unit @ ?r) = ?r" "begins_with (unit @ ?r) unit" "unit @ ?r \<noteq> []" "?r \<noteq> []"
    using u(2) by simp_all
  have "parse_file_stream_range (unit @ ?r) tsize =
     (if a = [] then parse_suffix_range b tsize else parse_start_range a b tsize)"
    using sz ne unfolding parse_file_stream_range_def Let_def v unit_def [symmetric] r(1) c d
    by (simp add: r a b)
  then show ?thesis by (simp only: unit_def)
qed

lemma range_header_chars:
  "\<forall>c \<in> set (print_uint m) \<union> set (print_uint n). \<not> is_space c \<and> c \<noteq> CHR '',''"
  "\<forall>c \<in> set (print_uint m) \<union> set []. \<not> is_space c \<and> c \<noteq> CHR '',''"
  "\<forall>c \<in> set [] \<union> set (print_uint m). \<not> is_space c \<and> c \<noteq> CHR '',''"
  using print_uint_no_space print_uint_chars(1) by auto

lemma parse_range_first_last:
  assumes "a \<le> b" "int a < tsize" "tsize \<le> int64_max" "int b \<le> int64_max"
  shows "parse_file_stream_range (''bytes='' @ print_uint a @ CHR ''-'' # print_uint b) tsize =
         Ok \<lparr>range_is_partial = True, range_start = int a, range_end = min (int b) (tsize - 1)\<rparr>"
  using assms
  by (subst range_header_split [OF range_header_chars(1) print_uint_chars(2)])
     (auto simp: to_integer_safe_uint parse_start_range_def)

lemma parse_range_first:
  assumes "int a < tsize" "tsize \<le> int64_max"
  shows "parse_file_stream_range (''bytes='' @ print_uint a @ CHR ''-'' # []) tsize =
         Ok \<lparr>range_is_partial = True, range_start = int a, range_end = tsize - 1\<rparr>"
  using assms
  by (subst range_header_split [OF range_header_chars(2) print_uint_chars(2)])
     (auto simp: to_integer_safe_uint parse_start_range_def)

lemma parse_range_suffix:
  assumes "0 < n" "int n \<le> int64_max" "0 < tsize"
  shows "parse_file_stream_range (''bytes='' @ [] @ CHR ''-'' # print_uint n) tsize =
         Ok \<lparr>range_is_partial = True, range_start = tsize - min (int n) tsize, range_end = tsize - 1\<rparr>"
  using assms
  by (subst range_header_split [OF range_header_chars(3)])
     (auto simp: to_integer_safe_uint parse_suffix_range_def Let_def)

section \<open>File identifiers\<close>

text \<open>The percent-encoded strings: plain characters and triples with two hexadecimal digits.\<close>

inductive well_encoded :: "string \<Rightarrow> bool" where
  well_encoded_Nil: "well_encoded []"
| well_encoded_char: "c \<noteq> CHR ''%'' \<Longrightarrow> well_encoded s \<Longrightarrow> well_encoded (c # s)"
| well_encoded_triple: "is_hex a \<Longrightarrow> is_hex b \<Longrightarrow> well_encoded s \<Longrightarrow> well_encoded (CHR ''%'' # a # b # s)"

inductive_cases well_encoded_ConsE: "well_encoded (c # s)"

lemma validate_url_encoding_iff: "is_ok (validate_url_encoding s) \<longleftrightarrow> well_encoded s"
proof (induction s rule: validate_url_encoding.induct)
  case 1
  show ?case by (simp add: well_encoded_Nil)
next
  case (2 c s)
  then show ?case
    by (auto split: list.splits if_splits elim!: well_encoded_ConsE intro: well_encoded.intros)
qed

lemma well_encoded_append: "well_encoded s \<Longrightarrow> well_encoded t \<Longrightarrow> well_encoded (s @ t)"
  by (induction rule: well_encoded.induct) (auto intro: well_encoded.intros)

lemma is_hex_iff: "is_hex c \<longleftrightarrow> is_hex_digit c"
  by (auto simp: is_hex_def is_hex_digit_def hex_letter_iff is_digit_def)

lemma url_encode_char_wf:
  "well_encoded (url_encode_char c) \<and> CHR ''/'' \<notin> set (url_encode_char c) \<and> url_encode_char c \<noteq> []"
proof (cases "is_url_char c")
  case True
  then show ?thesis
    using url_char_not_special [OF True]
    by (auto simp: url_encode_char_def is_url_char_def is_alnum_def is_alpha_iff is_digit_def intro!: well_encoded.intros)
next
  case False
  have d: "is_hex_digit (hex_digit_upper n)" "hex_digit_upper n \<noteq> CHR ''/''" if "n < 16" for n
  proof -
    show h: "is_hex_digit (hex_digit_upper n)"
      using hex_to_int_upper [OF that] that by (simp add: hex_to_int_less_iff [symmetric])
    have "\<not> is_hex_digit (CHR ''/'')"
      by (simp add: is_hex_digit_def hex_letter_iff is_digit_def)
    with h show "hex_digit_upper n \<noteq> CHR ''/''" by metis
  qed
  have "code c div 16 < 16" by (simp add: div_less_iff_less_mult)
  then have "is_hex (hex_digit_upper (code c div 16))" "is_hex (hex_digit_upper (code c mod 16))"
      "hex_digit_upper (code c div 16) \<noteq> CHR ''/''" "hex_digit_upper (code c mod 16) \<noteq> CHR ''/''"
    using d by (simp_all add: is_hex_iff)
  moreover have "url_encode_char c = [CHR ''%'', hex_digit_upper (code c div 16), hex_digit_upper (code c mod 16)]"
    using False by (simp add: url_encode_char_def)
  ultimately show ?thesis
    using well_encoded_triple [OF _ _ well_encoded_Nil] by simp
qed

lemma url_encode_wf: "well_encoded (url_encode s) \<and> CHR ''/'' \<notin> set (url_encode s)"
  unfolding url_encode_eq
  by (induction s) (auto simp: well_encoded_Nil url_encode_char_wf intro: well_encoded_append)

lemma url_encode_Nil_iff: "url_encode s = [] \<longleftrightarrow> s = []"
  by (cases s) (auto simp: url_encode_eq url_encode_char_wf)

text \<open>The identifiers that may reach the client: not empty, of bounded length, no separator, no zero byte.\<close>

definition valid_file_id :: "string \<Rightarrow> bool" where
  "valid_file_id s \<longleftrightarrow> s \<noteq> [] \<and> length s \<le> 4096 \<and> CHR ''/'' \<notin> set s \<and> CHR 0x00 \<notin> set s"

lemma parse_file_id_valid:
  "parse_file_stream_file_id s = Ok f \<Longrightarrow>
   valid_file_id f \<and> f = url_decode False s \<and> well_encoded s \<and> CHR ''/'' \<notin> set s"
  by (auto simp: parse_file_stream_file_id_def valid_file_id_def Let_def validate_url_encoding_iff [symmetric]
        split: if_splits sum.splits)

lemma parse_file_id_encode:
  "valid_file_id f \<Longrightarrow> parse_file_stream_file_id (url_encode f) = Ok f"
  using url_encode_wf [of f] validate_url_encoding_iff [of "url_encode f"]
  by (auto simp: parse_file_stream_file_id_def valid_file_id_def url_encode_Nil_iff url_decode_encode is_ok_iff)

definition stream_path :: "string \<Rightarrow> bool \<Rightarrow> string \<Rightarrow> string" where
  "stream_path token is_test_dc file_id =
     ''/stream/file/bot'' @ token @ CHR ''/'' # (if is_test_dc then ''test/'' else []) @ file_id"

lemma parse_route_path:
  assumes "token \<noteq> []" "CHR ''/'' \<notin> set token" "\<not> is_test_dc \<longrightarrow> CHR ''/'' \<notin> set s"
  shows "parse_file_stream_route (stream_path token is_test_dc s) =
         map_sum id (\<lambda>file_id. new_route token file_id is_test_dc) (parse_file_stream_file_id s)"
proof -
  define pre :: string where "pre = ''/stream/file/bot''"
  define tst :: string where "tst = ''test/''"
  have tst: "CHR ''/'' \<in> set tst" by (simp add: tst_def)
  let ?rest = "(if is_test_dc then tst else []) @ s"
  have 1: "try_skip pre (new_parser (pre @ token @ CHR ''/'' # ?rest)) =
      (True, new_parser (token @ CHR ''/'' # ?rest))"
    by (simp add: try_skip_hit new_parser_def)
  have 2: "read_till (CHR ''/'') (new_parser (token @ CHR ''/'' # ?rest)) = (token, new_parser (CHR ''/'' # ?rest))"
    using read_till_hit [of "new_parser (token @ CHR ''/'' # ?rest)" token _ ?rest] assms(2)
    by (simp add: new_parser_def)
  have 3: "skip (CHR ''/'') (new_parser (CHR ''/'' # ?rest)) = new_parser ?rest"
    by (simp add: new_parser_def skip_def)
  have 4: "try_skip tst (new_parser ?rest) = (is_test_dc, new_parser s)"
  proof (cases is_test_dc)
    case True
    then show ?thesis by (simp add: try_skip_hit new_parser_def)
  next
    case False
    then have "\<not> begins_with s tst"
      using assms(3) tst by (auto simp: begins_with_iff)
    with False show ?thesis by (simp add: try_skip_miss new_parser_def)
  qed
  show ?thesis
    unfolding parse_file_stream_route_def stream_path_def pre_def [symmetric] tst_def [symmetric] Let_def
    by (simp add: 1 2 3 4 assms(1))
qed

text \<open>Every accepted route is the path of its own parts.\<close>

lemma parse_route_sound:
  assumes "parse_file_stream_route path = Ok r"
  shows "\<exists>s. path = stream_path (route_token r) (route_is_test_dc r) s \<and>
             route_token r \<noteq> [] \<and> CHR ''/'' \<notin> set (route_token r) \<and> parse_file_stream_file_id s = Ok (route_file_id r)"
proof -
  define pre :: string where "pre = ''/stream/file/bot''"
  define tst :: string where "tst = ''test/''"
  note d = assms [unfolded parse_file_stream_route_def Let_def, folded pre_def tst_def]
  obtain r1 where r1: "path = pre @ r1" "try_skip pre (new_parser path) = (True, new_parser r1)"
    using d by (auto simp: try_skip_def new_parser_def split: if_splits) (metis append_take_drop_id)
  have "CHR ''/'' \<in> set r1"
  proof (rule ccontr)
    assume "CHR ''/'' \<notin> set r1"
    then have "fst (read_till (CHR ''/'') (new_parser r1)) = []" by (simp add: read_till_miss)
    then show False using d r1 by (simp split: prod.splits)
  qed
  then obtain t r2 where t: "r1 = t @ CHR ''/'' # r2" "CHR ''/'' \<notin> set t"
    by (metis split_list_first)
  have 2: "read_till (CHR ''/'') (new_parser r1) = (t, new_parser (CHR ''/'' # r2))"
    using read_till_hit [of "new_parser r1" t _ r2] t by (simp add: new_parser_def)
  have 3: "skip (CHR ''/'') (new_parser (CHR ''/'' # r2)) = new_parser r2"
    by (simp add: new_parser_def skip_def)
  have ne: "t \<noteq> []" using d r1 2 by auto
  obtain b s where b: "try_skip tst (new_parser r2) = (b, new_parser s)" "r2 = (if b then tst else []) @ s"
  proof (cases "begins_with r2 tst")
    case True
    then obtain s where s: "r2 = tst @ s" by (auto simp: begins_with_iff)
    show ?thesis by (rule that [of True s]) (simp_all add: s try_skip_hit new_parser_def)
  next
    case False
    show ?thesis by (rule that [of False r2]) (simp_all add: False try_skip_miss)
  qed
  have "map_sum id (\<lambda>f. new_route t f b) (parse_file_stream_file_id s) = Ok r"
    using d r1(2) 2 3 b(1) ne by simp
  then obtain f where "parse_file_stream_file_id s = Ok f" "r = new_route t f b"
    by (cases "parse_file_stream_file_id s") auto
  then show ?thesis
    using r1(1) t b(2) ne by (intro exI [of _ s]) (simp add: stream_path_def new_route_def pre_def tst_def)
qed

section \<open>Address prefixes\<close>

lemma word_and_mask_eq_iff:
  fixes a b :: "'a::len word"
  shows "a AND push_bit m (- 1) = b AND push_bit m (- 1) \<longleftrightarrow> (\<forall>i < LENGTH('a). m \<le> i \<longrightarrow> bit a i = bit b i)"
  by (auto simp: bit_eq_iff bit_simps bit_imp_le_length)

lemma ipv4_matches_iff:
  assumes "0 \<le> prefix_len p" "prefix_len p \<le> 32"
  shows "ipv4_matches p ip \<longleftrightarrow> (\<forall>i < 32. nat (32 - prefix_len p) \<le> i \<longrightarrow> bit (prefix_ipv4 p) i = bit ip i)"
proof -
  have m: "(0xFFFFFFFF :: 32 word) = - 1" by simp
  show ?thesis
  proof (cases "prefix_len p = 0")
    case True
    then show ?thesis by (auto simp: ipv4_matches_def)
  next
    case False
    then show ?thesis
      using word_and_mask_eq_iff [of "prefix_ipv4 p" "nat (32 - prefix_len p)" ip]
      by (simp add: ipv4_matches_def m)
  qed
qed

text \<open>The bit of an IPv6 address at a position counted from the most significant one.\<close>

definition ipv6_bit :: "8 word list \<Rightarrow> nat \<Rightarrow> bool" where
  "ipv6_bit v i = bit (v ! (i div 8)) (7 - i mod 8)"

lemma byte_eq_iff_bits: "(a :: 8 word) = b \<longleftrightarrow> (\<forall>j < 8. bit a (7 - j) = bit b (7 - j))"
proof
  assume *: "\<forall>j < 8. bit a (7 - j) = bit b (7 - j)"
  show "a = b"
  proof (rule bit_word_eqI)
    fix n assume "n < LENGTH(8)"
    with * [rule_format, of "7 - n"] show "bit a n = bit b n" by simp
  qed
qed simp

lemma byte_mask_eq_iff:
  assumes "0 < r" "r < 8"
  shows "(a :: 8 word) AND push_bit (8 - r) 0xFF = b AND push_bit (8 - r) 0xFF \<longleftrightarrow>
         (\<forall>j < r. bit a (7 - j) = bit b (7 - j))"
proof -
  have m: "(0xFF :: 8 word) = - 1" by simp
  have "(\<forall>i < 8. 8 - r \<le> i \<longrightarrow> bit a i = bit b i) \<longleftrightarrow> (\<forall>j < r. bit a (7 - j) = bit b (7 - j))"
  proof
    assume *: "\<forall>j < r. bit a (7 - j) = bit b (7 - j)"
    show "\<forall>i < 8. 8 - r \<le> i \<longrightarrow> bit a i = bit b i"
    proof (intro allI impI)
      fix i :: nat assume "i < 8" "8 - r \<le> i"
      with assms * [rule_format, of "7 - i"] show "bit a i = bit b i" by simp
    qed
  qed (use assms in auto)
  then show ?thesis
    using word_and_mask_eq_iff [of a "8 - r" b] by (simp add: m)
qed

lemma ipv6_matches_iff:
  assumes "0 \<le> prefix_len p"
  shows "ipv6_matches p ip \<longleftrightarrow> (\<forall>i < nat (prefix_len p). ipv6_bit (prefix_ipv6 p) i = ipv6_bit ip i)"
proof -
  obtain n where n: "prefix_len p = int n"
    using assms nonneg_int_cases by blast
  define q r where "q = n div 8" and "r = n mod 8"
  have split: "n = 8 * q + r" "r < 8" by (simp_all add: q_def r_def)
  have whole: "(\<forall>i \<in> set [0..<q]. prefix_ipv6 p ! i = ip ! i) \<longleftrightarrow>
      (\<forall>i < 8 * q. ipv6_bit (prefix_ipv6 p) i = ipv6_bit ip i)"
  proof
    assume "\<forall>i \<in> set [0..<q]. prefix_ipv6 p ! i = ip ! i"
    then show "\<forall>i < 8 * q. ipv6_bit (prefix_ipv6 p) i = ipv6_bit ip i"
      by (auto simp: ipv6_bit_def)
  next
    assume *: "\<forall>i < 8 * q. ipv6_bit (prefix_ipv6 p) i = ipv6_bit ip i"
    show "\<forall>i \<in> set [0..<q]. prefix_ipv6 p ! i = ip ! i"
    proof
      fix i assume "i \<in> set [0..<q]"
      then have "bit (prefix_ipv6 p ! i) (7 - j) = bit (ip ! i) (7 - j)" if "j < 8" for j
        using * [rule_format, of "8 * i + j"] that by (simp add: ipv6_bit_def)
      then show "prefix_ipv6 p ! i = ip ! i" by (simp add: byte_eq_iff_bits)
    qed
  qed
  have partial: "(r > 0 \<longrightarrow> prefix_ipv6 p ! q AND push_bit (8 - r) 0xFF = ip ! q AND push_bit (8 - r) 0xFF) \<longleftrightarrow>
      (\<forall>j < r. ipv6_bit (prefix_ipv6 p) (8 * q + j) = ipv6_bit ip (8 * q + j))"
    using split(2) by (cases "r = 0") (auto simp: byte_mask_eq_iff ipv6_bit_def)
  have all: "(\<forall>i < n. P i) \<longleftrightarrow> (\<forall>i < 8 * q. P i) \<and> (\<forall>j < r. P (8 * q + j))" for P
    unfolding split(1)
    by auto (metis add_diff_inverse_nat nat_add_left_cancel_less)
  have "nat (prefix_len p div 8) = q" "nat (prefix_len p mod 8) = r"
    by (simp_all add: n q_def r_def nat_div_distrib nat_mod_distrib)
  then show ?thesis
    unfolding ipv6_matches_def Let_def
    using whole partial all [of "\<lambda>i. ipv6_bit (prefix_ipv6 p) i = ipv6_bit ip i"] by (simp add: n)
qed

section \<open>Who is admitted\<close>

text \<open>
  \<^verbatim>\<open>parse_allow_ip_entry\<close> passes the port 0, which \<^verbatim>\<open>init_ipv4_port\<close> and \<^verbatim>\<open>init_ipv6_port\<close> refuse:
  no entry of the allow list is ever accepted.
\<close>

lemma parse_ipv6_prefix_never:
  "parse_ipv6_prefix os s r = (case cslice s r of CheckFailed \<Rightarrow> CheckFailed | Checked _ \<Rightarrow> Checked None)"
  by (simp add: parse_ipv6_prefix_def init_ipv6_port_def split: checked.splits)

lemma parse_allow_ip_entry_None: "parse_allow_ip_entry os s r \<in> {CheckFailed, Checked None}"
  by (simp add: parse_allow_ip_entry_def parse_ipv6_prefix_never init_ipv4_port_def Let_def
        split: checked.splits option.splits prod.splits)

lemma allow_ip_loop_never: "allow_ip_loop os peer s \<in> {CheckFailed, Checked False}"
proof (induction os peer s rule: allow_ip_loop.induct)
  case (1 os peer s)
  show ?case
  proof (cases "s = []")
    case True
    then show ?thesis by (simp add: allow_ip_loop.simps)
  next
    case False
    obtain e r s' where n: "next_entry s = (e, r, s')" by (metis prod_cases3)
    show ?thesis
      using parse_allow_ip_entry_None [of os e r] 1(1) [OF False n [symmetric] refl]
      by (auto simp: allow_ip_loop.simps [of os peer s] False n)
  qed
qed

text \<open>An entry with a prefix length makes \<^verbatim>\<open>CSlice\<close> look at the slash: the process aborts.\<close>

lemma cidr_entry_aborts:
  assumes "a \<noteq> []" "\<not> is_space (hd a)" "n \<le> 2147483647"
  shows "parse_allow_ip_entry os (a @ CHR ''/'' # print_uint n) rest = CheckFailed"
proof -
  let ?e = "a @ CHR ''/'' # print_uint n"
  have "\<not> is_space (last (print_uint n))"
    by (rule print_uint_no_space [of _ n]) simp
  then have trim: "trim ?e = ?e"
    using assms(1,2) by (intro trim_no_space) simp_all
  have slash: "rfind_char ?e (CHR ''/'') = Some (length a)"
    using print_uint_digits digit_not by (intro rfind_char_append) blast
  have "\<not> (code c < 48 \<or> 57 < code c)" if "c \<in> set (print_uint n)" for c
    using print_uint_digits [OF that] by (simp add: is_digit_def)
  moreover have "to_integer_safe 32 (print_uint n) = Ok (int n)"
    using assms(3) by (simp add: to_integer_safe_iff in_signed_def print_signed_def)
  ultimately have "parse_prefix_part (print_uint n) = Some (int n)"
    by (auto simp: parse_prefix_part_def)
  then show ?thesis
    by (simp add: parse_allow_ip_entry_def Let_def trim slash split_allow_ip_entry_def cslice_def)
qed

text \<open>The default policy admits reserved addresses only.\<close>

lemma drop_bit_eq_iff_mask:
  fixes a b :: "'a::len word"
  assumes "k \<le> LENGTH('a)"
  shows "drop_bit k a = drop_bit k b \<longleftrightarrow> a AND push_bit k (- 1) = b AND push_bit k (- 1)"
proof -
  have "drop_bit k a = drop_bit k b \<longleftrightarrow> (\<forall>i < LENGTH('a). k \<le> i \<longrightarrow> bit a i = bit b i)"
  proof
    assume *: "drop_bit k a = drop_bit k b"
    show "\<forall>i < LENGTH('a). k \<le> i \<longrightarrow> bit a i = bit b i"
    proof (intro allI impI)
      fix i assume "i < LENGTH('a)" "k \<le> i"
      with arg_cong [OF *, where f = "\<lambda>w. bit w (i - k)"] show "bit a i = bit b i"
        by (simp add: bit_simps)
    qed
  next
    assume *: "\<forall>i < LENGTH('a). k \<le> i \<longrightarrow> bit a i = bit b i"
    show "drop_bit k a = drop_bit k b"
    proof (rule bit_word_eqI)
      fix n
      show "bit (drop_bit k a) n = bit (drop_bit k b) n"
        using * [rule_format, of "k + n"] by (cases "k + n < LENGTH('a)") (auto simp: bit_simps dest: bit_imp_le_length)
    qed
  qed
  then show ?thesis by (simp only: word_and_mask_eq_iff)
qed

lemma reserved_mask_eq: "m \<le> 32 \<Longrightarrow> reserved_mask m = push_bit (32 - m) (- 1)"
  unfolding reserved_mask_def by (rule bit_word_eqI) (auto simp: bit_simps)


lemma is_reserved_block:
  assumes "parses_quads os" "(q, m) \<in> set reserved_quads" "m \<le> 32" "drop_bit (32 - m) ip = drop_bit (32 - m) q"
  shows "is_reserved os (IPv4 ip p) = Checked True"
proof -
  have "ip AND reserved_mask m = q AND reserved_mask m"
    using assms(3,4) drop_bit_eq_iff_mask [of "32 - m" ip q] by (simp only: reserved_mask_eq) simp
  then show ?thesis
    using assms(2) by (auto simp: is_reserved_ipv4 [OF assms(1)])
qed

lemma private_quads:
  "drop_bit 24 (quad 0 0 0 0) = 0" "drop_bit 24 (quad 10 0 0 0) = 10" "drop_bit 24 (quad 127 0 0 0) = 127"
  "drop_bit 16 (quad 169 254 0 0) = 0xA9FE" "drop_bit 20 (quad 172 16 0 0) = 0xAC1"
  "drop_bit 16 (quad 192 168 0 0) = 0xC0A8"
  by (simp_all add: quad_def)

lemma drop_20_and: "drop_bit 20 (ip :: 32 word) AND 0xFFF = drop_bit 20 ip"
proof -
  have "drop_bit 20 ip AND mask 12 = drop_bit 20 ip"
    unfolding take_bit_eq_mask [symmetric]
    by (rule bit_word_eqI) (auto simp: bit_simps dest: bit_imp_le_length)
  then show ?thesis by (simp add: mask_eq_exp_minus_1)
qed

lemma private_is_reserved:
  assumes "parses_quads os" "is_private_or_loopback a"
  shows "is_reserved os a = Checked True"
proof (cases a)
  case (IPv4 ip p)
  have block: "is_reserved os (IPv4 ip p) = Checked True"
    if "drop_bit k ip = v" "drop_bit k q = v" "(q, 32 - k) \<in> set reserved_quads" "k \<le> 32" for k v q
    using is_reserved_block [OF assms(1) that(3)] that by simp
  show ?thesis
    using assms(2) unfolding IPv4 is_private_or_loopback_def drop_20_and ip_address.case
    by (elim disjE) (rule block, assumption, rule private_quads, simp add: reserved_quads_def, simp)+
qed (use assms in \<open>simp_all add: is_private_or_loopback_def is_reserved_def\<close>)

section \<open>Properties of the endpoint's parsers\<close>

text \<open>
  A range that is accepted lies inside the file and is not empty unless the file is; every rejection is the
  status 416.
\<close>

theorem range_inside_file:
  "(\<forall>r. parse_file_stream_range v tsize = Ok r \<longrightarrow>
      0 \<le> range_start r \<and> range_end r < tsize \<and> range_start r \<le> range_end r + 1 \<and>
      (tsize > 0 \<longrightarrow> range_start r \<le> range_end r)) \<and>
   (\<forall>e. parse_file_stream_range v tsize = Inl e \<longrightarrow> e = Status 416 ''Range Not Satisfiable'')"
  using parse_range_within parse_range_error by (auto simp: range_within_def)

theorem range_inside_file_witness:
  "(parse_file_stream_range ''bytes=-4'' 11 = Ok \<lparr>range_is_partial = True, range_start = 7, range_end = 10\<rparr> \<and> (7::int) \<le> 10) \<and>
   parse_file_stream_range ''bytes=11-'' 11 = Inl (Status 416 ''Range Not Satisfiable'')"
proof -
  have p: "parse_file_stream_range ''bytes=-4'' 11 = Ok \<lparr>range_is_partial = True, range_start = 7, range_end = 10\<rparr>" by code_simp
  have "\<not> is_ok (parse_file_stream_range ''bytes=11-'' 11)" by code_simp
  then obtain e where "parse_file_stream_range ''bytes=11-'' 11 = Inl e"
    by (cases "parse_file_stream_range ''bytes=11-'' 11") (auto simp: is_ok_def)
  then show ?thesis
    using p range_inside_file [of "''bytes=-4''" 11] range_inside_file [of "''bytes=11-''" 11] by simp
qed

text \<open>
  C26: the three forms of a \<^verbatim>\<open>Range\<close> header, printed for any positions, select exactly the bytes they name, cut off at
  the end of the file.
\<close>

theorem range_forms:
  assumes "a \<le> b" "int a < tsize" "tsize \<le> int64_max" "int b \<le> int64_max" "0 < n" "int n \<le> int64_max"
  shows "parse_file_stream_range (''bytes='' @ print_uint a @ CHR ''-'' # print_uint b) tsize =
           Ok \<lparr>range_is_partial = True, range_start = int a, range_end = min (int b) (tsize - 1)\<rparr> \<and>
         parse_file_stream_range (''bytes='' @ print_uint a @ ''-'') tsize =
           Ok \<lparr>range_is_partial = True, range_start = int a, range_end = tsize - 1\<rparr> \<and>
         parse_file_stream_range (''bytes=-'' @ print_uint n) tsize =
           Ok \<lparr>range_is_partial = True, range_start = tsize - min (int n) tsize, range_end = tsize - 1\<rparr>"
  using parse_range_first_last [OF assms(1-4)] parse_range_first [OF assms(2,3)] parse_range_suffix [OF assms(5,6), of tsize] assms(2)
  by simp

theorem range_forms_witness:
  "parse_file_stream_range (''bytes='' @ print_uint 2 @ CHR ''-'' # print_uint 99) 11 =
     Ok \<lparr>range_is_partial = True, range_start = 2, range_end = 10\<rparr>"
  using range_forms [of 2 99 11 1] by simp

text \<open>
  C27: a streaming path that is built from a token, the data centre and a percent-encoded file identifier is parsed
  back to exactly these three values.
\<close>

theorem route_roundtrip:
  assumes "token \<noteq> []" "CHR ''/'' \<notin> set token" "valid_file_id f"
  shows "parse_file_stream_route (stream_path token is_test_dc (url_encode f)) = Ok (new_route token f is_test_dc)"
  using parse_route_path [OF assms(1,2), of is_test_dc "url_encode f"] url_encode_wf [of f] parse_file_id_encode [OF assms(3)]
  by simp

theorem route_roundtrip_witness:
  "parse_file_stream_route ''/stream/file/bot12:ab/test/A%20b'' = Ok (new_route ''12:ab'' ''A b'' True)"
proof -
  have e: "url_encode ''A b'' = ''A%20b''" by code_simp
  have "valid_file_id ''A b''" by code_simp
  from route_roundtrip [OF _ _ this, of "''12:ab''" True] e show ?thesis by (simp add: stream_path_def)
qed

text \<open>
  A path is accepted only if it has the form of a streaming path, with a well-formed percent-encoding and a file
  identifier that is not empty, at most 4096 bytes long and free of slashes and zero bytes.
\<close>

theorem route_accepts_only_valid:
  assumes "parse_file_stream_route path = Ok r"
  shows "\<exists>s. path = stream_path (route_token r) (route_is_test_dc r) s \<and> well_encoded s \<and>
             route_file_id r = url_decode False s \<and> valid_file_id (route_file_id r) \<and>
             route_token r \<noteq> [] \<and> CHR ''/'' \<notin> set (route_token r)"
  using parse_route_sound [OF assms] parse_file_id_valid by blast

theorem route_accepts_only_valid_witness:
  "\<exists>s. ''/stream/file/bot1:a/f%2B'' = stream_path ''1:a'' False s \<and> well_encoded s \<and> url_decode False s = ''f+''"
proof -
  have p: "parse_file_stream_route ''/stream/file/bot1:a/f%2B'' = Ok (new_route ''1:a'' ''f+'' False)" by code_simp
  from route_accepts_only_valid [OF p] show ?thesis by (auto simp: new_route_def)
qed

text \<open>
  A network prefix matches an address exactly when the first \<^verbatim>\<open>prefix_len\<close> bits agree: the masks of the IPv4 and of
  the IPv6 comparison implement the bitwise definition for every length.
\<close>

theorem prefix_match_bitwise:
  "(0 \<le> prefix_len p \<and> prefix_len p \<le> 32 \<longrightarrow>
      ipv4_matches p a = (\<forall>i < 32. nat (32 - prefix_len p) \<le> i \<longrightarrow> bit (prefix_ipv4 p) i = bit a i)) \<and>
   (0 \<le> prefix_len p \<longrightarrow>
      ipv6_matches p b = (\<forall>i < nat (prefix_len p). ipv6_bit (prefix_ipv6 p) i = ipv6_bit b i))"
  using ipv4_matches_iff ipv6_matches_iff by blast

theorem prefix_match_bitwise_witness:
  "ipv4_matches \<lparr>prefix_ipv4 = 0x0A000000, prefix_ipv6 = [], prefix_is_ipv4 = True, prefix_len = 8\<rparr> 0x0A010203 \<and>
   bit (0x0A000000 :: 32 word) 25 = bit (0x0A010203 :: 32 word) 25"
proof -
  let ?p = "\<lparr>prefix_ipv4 = 0x0A000000, prefix_ipv6 = [], prefix_is_ipv4 = True, prefix_len = 8\<rparr>"
  have m: "ipv4_matches ?p 0x0A010203" by code_simp
  then have "\<forall>i < 32. (24::nat) \<le> i \<longrightarrow> bit (0x0A000000 :: 32 word) i = bit (0x0A010203 :: 32 word) i"
    using prefix_match_bitwise [of ?p "0x0A010203" "[]"] by simp
  from this [rule_format, of 25] m show ?thesis by simp
qed

text \<open>
  C38: an address list given with \<^verbatim>\<open>--file-stream-allow-ip\<close> admits nobody: every entry is parsed with the port 0, which
  \<^verbatim>\<open>init_ipv4_port\<close> and \<^verbatim>\<open>init_ipv6_port\<close> reject.
\<close>

theorem allow_list_admits_nobody:
  assumes "allow_ip \<noteq> []"
  shows "is_file_stream_ip_allowed os peer allow_ip \<noteq> Checked True"
  using allow_ip_loop_never [of os peer allow_ip] assms by (auto simp: is_file_stream_ip_allowed_def)

definition any_inet :: inet where
  "any_inet = \<lparr>pton4 = (\<lambda>_. Some 0x7F000001), pton6 = (\<lambda>_. None), ntop4 = (\<lambda>_. ''127.0.0.1''), ntop6 = (\<lambda>_. ''::1'')\<rparr>"

theorem allow_list_admits_nobody_witness:
  "is_file_stream_ip_allowed any_inet (IPv4 0x7F000001 5000) ''127.0.0.1'' \<noteq> Checked True \<and>
   pton4 any_inet ''127.0.0.1'' = Some 0x7F000001"
  using allow_list_admits_nobody [of "''127.0.0.1''" any_inet "IPv4 0x7F000001 5000"] by (simp add: any_inet_def)

text \<open>
  A list entry with a prefix length aborts the process: the address part is turned into a \<^verbatim>\<open>CSlice\<close> although the
  byte behind it is the slash and not a zero byte.
\<close>

theorem cidr_entry_aborts_process:
  assumes "a \<noteq> []" "\<not> is_space (hd a)" "n \<le> 2147483647"
  shows "parse_allow_ip_entry os (a @ CHR ''/'' # print_uint n) rest = CheckFailed"
  using assms by (rule cidr_entry_aborts)

theorem cidr_entry_aborts_process_witness:
  "parse_allow_ip_entry any_inet ''10.0.0.0/8'' [] = CheckFailed"
proof -
  have e: "''10.0.0.0'' @ CHR ''/'' # print_uint 8 = ''10.0.0.0/8''" by code_simp
  have "\<not> is_space (hd ''10.0.0.0'')" by code_simp
  from cidr_entry_aborts_process [OF _ this, of 8 any_inet "[]"] show ?thesis unfolding e by simp
qed

text \<open>
  The default policy admits only addresses that \<^verbatim>\<open>IPAddress::is_reserved\<close> calls reserved, so no public IPv4 address
  reaches the endpoint without an allow list.
\<close>

theorem default_policy_only_reserved:
  assumes "parses_quads os" "is_file_stream_ip_allowed os (IPv4 ip port) [] = Checked True"
  shows "is_reserved os (IPv4 ip port) = Checked True"
  using private_is_reserved assms by (auto simp: is_file_stream_ip_allowed_def split: if_splits)

theorem default_policy_only_reserved_witness:
  "is_reserved quad_inet (IPv4 0x0A010203 443) = Checked True"
proof -
  have "is_file_stream_ip_allowed quad_inet (IPv4 0x0A010203 443) [] = Checked True" by code_simp
  then show ?thesis by (rule default_policy_only_reserved [OF quad_inet_parses])
qed

end
