(* ===== verification/Td_Builder.thy ===== *)
theory Td_Builder
  imports Td_Misc
begin

text \<open>
  \<^verbatim>\<open>td::StringBuilder\<close> of \<^verbatim>\<open>td/tdutils/td/utils/StringBuilder.cpp\<close>.  The bytes between
  \<^verbatim>\<open>begin_ptr_\<close> and \<^verbatim>\<open>current_ptr_\<close> are \<open>sb_text\<close>, the distance from \<^verbatim>\<open>begin_ptr_\<close> to \<^verbatim>\<open>end_ptr_\<close>
  is \<open>sb_capacity\<close>; the buffer has \<open>RESERVED_SIZE\<close> more bytes behind \<^verbatim>\<open>end_ptr_\<close>.  The lemmas show
  that no operation writes behind the buffer and that a builder without its error flag holds exactly
  what was appended.
\<close>

record string_builder =
  sb_text :: string
  sb_capacity :: nat
  sb_error :: bool
  sb_use_buffer :: bool

abbreviation RESERVED_SIZE :: nat where
  "RESERVED_SIZE \<equiv> 30"

abbreviation size_t_max :: nat where
  "size_t_max \<equiv> 18446744073709551615"

definition new_string_builder :: "nat \<Rightarrow> bool \<Rightarrow> string_builder" where
  "new_string_builder slice_size use_buffer =
     \<lparr>sb_text = [],
      sb_capacity = (if slice_size \<le> RESERVED_SIZE then 100 else slice_size - RESERVED_SIZE),
      sb_error = False, sb_use_buffer = use_buffer\<rparr>"

definition sb_clear :: "string_builder \<Rightarrow> string_builder" where
  "sb_clear sb = sb\<lparr>sb_text := [], sb_error := False\<rparr>"

definition sb_pop_back :: "string_builder \<Rightarrow> string_builder checked" where
  "sb_pop_back sb = (if sb_text sb = [] then CheckFailed else Checked (sb\<lparr>sb_text := butlast (sb_text sb)\<rparr>))"

definition on_error :: "string_builder \<Rightarrow> string_builder" where
  "on_error sb = sb\<lparr>sb_error := True\<rparr>"

text \<open>\<^verbatim>\<open>reserve_inner\<close>: \<open>None\<close> is the result \<^verbatim>\<open>false\<close>; the contents are copied to the new buffer.\<close>

definition reserve_inner :: "nat \<Rightarrow> string_builder \<Rightarrow> string_builder option" where
  "reserve_inner n sb =
     (if \<not> sb_use_buffer sb then None
      else if int n \<ge> int size_t_max - int RESERVED_SIZE - int (length (sb_text sb)) - 1 then None
      else if sb_capacity sb \<ge> (size_t_max - RESERVED_SIZE) div 2 - 2 then None
      else (let need_data_size = length (sb_text sb) + n;
                new_buffer_size = max 100 (max ((sb_capacity sb + 1) * 2) need_data_size)
            in Some (sb\<lparr>sb_capacity := new_buffer_size\<rparr>)))"

definition reserve :: "string_builder \<Rightarrow> string_builder option" where
  "reserve sb =
     (if sb_capacity sb > length (sb_text sb) then Some sb else reserve_inner RESERVED_SIZE sb)"

definition reserve_size :: "nat \<Rightarrow> string_builder \<Rightarrow> string_builder option" where
  "reserve_size n sb =
     (if sb_capacity sb > length (sb_text sb) \<and> sb_capacity sb - length (sb_text sb) \<ge> n then Some sb
      else reserve_inner n sb)"

definition write_text :: "string \<Rightarrow> string_builder \<Rightarrow> string_builder" where
  "write_text s sb = sb\<lparr>sb_text := sb_text sb @ s\<rparr>"

definition push_back :: "char \<Rightarrow> string_builder \<Rightarrow> string_builder" where
  "push_back c sb =
     (if sb_capacity sb \<le> length (sb_text sb)
      then (case reserve_inner RESERVED_SIZE sb of None \<Rightarrow> on_error sb | Some sb' \<Rightarrow> write_text [c] sb')
      else write_text [c] sb)"

text \<open>\<^verbatim>\<open>operator<<(Slice)\<close>: without room the slice is cut at the last byte of the reserve.\<close>

definition append_slice :: "string \<Rightarrow> string_builder \<Rightarrow> string_builder" where
  "append_slice s sb =
     (case reserve_size (length s) sb of
        Some sb' \<Rightarrow> write_text s sb'
      | None \<Rightarrow>
          (if sb_capacity sb < length (sb_text sb) then on_error sb
           else (let available = sb_capacity sb + RESERVED_SIZE - 1 - length (sb_text sb)
                 in if length s > available then write_text (take available s) (on_error sb)
                    else write_text s sb)))"

definition append_char :: "nat \<Rightarrow> char \<Rightarrow> string_builder \<Rightarrow> string_builder" where
  "append_char count c sb =
     (case reserve_size count sb of
        Some sb' \<Rightarrow> write_text (replicate count c) sb'
      | None \<Rightarrow>
          (if sb_capacity sb < length (sb_text sb) then on_error sb
           else (let available = sb_capacity sb + RESERVED_SIZE - 1 - length (sb_text sb)
                 in if count > available then write_text (replicate available c) (on_error sb)
                    else write_text (replicate count c) sb)))"

definition put_char :: "char \<Rightarrow> string_builder \<Rightarrow> string_builder" where
  "put_char c sb = (case reserve sb of None \<Rightarrow> on_error sb | Some sb' \<Rightarrow> write_text [c] sb')"

definition put_bool :: "bool \<Rightarrow> string_builder \<Rightarrow> string_builder" where
  "put_bool b = append_slice (if b then ''true'' else ''false'')"

text \<open>The signed and unsigned integer operators; \<open>w\<close> is the width of the operand.\<close>

definition put_int :: "nat \<Rightarrow> int \<Rightarrow> string_builder \<Rightarrow> string_builder" where
  "put_int w x sb = (case reserve sb of None \<Rightarrow> on_error sb | Some sb' \<Rightarrow> write_text (print_int w x) sb')"

definition put_uint :: "nat \<Rightarrow> string_builder \<Rightarrow> string_builder" where
  "put_uint x sb = (case reserve sb of None \<Rightarrow> on_error sb | Some sb' \<Rightarrow> write_text (print_uint x) sb')"

text \<open>\<^verbatim>\<open>as_cslice\<close> writes the terminating zero byte and aborts when that is behind the buffer.\<close>

definition as_cslice :: "string_builder \<Rightarrow> string checked" where
  "as_cslice sb =
     (if length (sb_text sb) \<ge> sb_capacity sb + RESERVED_SIZE then CheckFailed else Checked (sb_text sb))"

section \<open>No write leaves the buffer\<close>

definition sb_inv :: "string_builder \<Rightarrow> bool" where
  "sb_inv sb \<longleftrightarrow> length (sb_text sb) < sb_capacity sb + RESERVED_SIZE"

lemma sb_inv_simps [simp]:
  "sb_inv (new_string_builder n b)" "sb_inv (sb_clear sb)" "sb_inv (on_error sb) = sb_inv sb"
  by (simp_all add: sb_inv_def new_string_builder_def sb_clear_def on_error_def)

lemma reserve_inner_room:
  "reserve_inner n sb = Some sb' \<Longrightarrow>
   sb_text sb' = sb_text sb \<and> length (sb_text sb) + n \<le> sb_capacity sb' \<and> sb_error sb' = sb_error sb"
  by (auto simp: reserve_inner_def Let_def split: if_splits)

lemma reserve_room:
  "reserve sb = Some sb' \<Longrightarrow>
   sb_text sb' = sb_text sb \<and> length (sb_text sb) < sb_capacity sb' \<and> sb_error sb' = sb_error sb"
  by (auto simp: reserve_def dest: reserve_inner_room split: if_splits)

lemma reserve_size_room:
  "reserve_size n sb = Some sb' \<Longrightarrow>
   sb_text sb' = sb_text sb \<and> length (sb_text sb) + n \<le> sb_capacity sb' \<and> sb_error sb' = sb_error sb"
  by (auto simp: reserve_size_def dest: reserve_inner_room split: if_splits)

lemma write_text_simps [simp]:
  "sb_text (write_text s sb) = sb_text sb @ s" "sb_capacity (write_text s sb) = sb_capacity sb"
  "sb_error (write_text s sb) = sb_error sb" "sb_text (on_error sb) = sb_text sb"
  "sb_capacity (on_error sb) = sb_capacity sb" "sb_error (on_error sb)"
  by (simp_all add: write_text_def on_error_def)

lemma print_uint_length: "n < 10 ^ k \<Longrightarrow> 0 < k \<Longrightarrow> length (print_uint n) \<le> k"
proof (induction k arbitrary: n)
  case (Suc k)
  show ?case
  proof (cases "n < 10")
    case True
    then show ?thesis by (simp add: print_uint_eq print_digits_reversed.simps [of n])
  next
    case False
    have "n div 10 < 10 ^ k" using Suc.prems by (simp add: div_less_iff_less_mult mult.commute)
    moreover have "k \<noteq> 0"
      using False Suc.prems(1) by (cases k) simp_all
    ultimately have "length (print_uint (n div 10)) \<le> k"
      using Suc.IH by simp
    moreover have "length (print_uint n) = Suc (length (print_uint (n div 10)))"
      using False by (simp add: print_uint_eq print_digits_reversed.simps [of n] div_eq_0_iff)
    ultimately show ?thesis by simp
  qed
qed simp

lemma print_int_length:
  assumes "in_signed 64 x"
  shows "length (print_int w x) \<le> 20"
proof -
  have "nat (- x) < 10 ^ 19" "nat x < 10 ^ 19"
    using assms unfolding in_signed_def by (simp_all, linarith+)
  from this [THEN print_uint_length] show ?thesis
    by (simp add: print_int_eq print_signed_def)
qed

lemma append_slice_inv: "sb_inv sb \<Longrightarrow> sb_inv (append_slice s sb)"
  by (auto simp: append_slice_def sb_inv_def Let_def dest: reserve_size_room split: option.splits)

lemma append_char_inv: "sb_inv sb \<Longrightarrow> sb_inv (append_char n c sb)"
  by (auto simp: append_char_def sb_inv_def Let_def dest: reserve_size_room split: option.splits)

lemma put_char_inv: "sb_inv sb \<Longrightarrow> sb_inv (put_char c sb)"
  by (auto simp: put_char_def sb_inv_def dest: reserve_room split: option.splits)

lemma push_back_inv: "sb_inv sb \<Longrightarrow> sb_inv (push_back c sb)"
  by (auto simp: push_back_def sb_inv_def dest: reserve_inner_room split: option.splits)

lemma put_int_inv: "sb_inv sb \<Longrightarrow> in_signed 64 x \<Longrightarrow> sb_inv (put_int w x sb)"
  using print_int_length [of x w] by (auto simp: put_int_def sb_inv_def dest: reserve_room split: option.splits)

lemma put_uint_inv: "sb_inv sb \<Longrightarrow> x \<le> size_t_max \<Longrightarrow> sb_inv (put_uint x sb)"
  using print_uint_length [of x 20] by (auto simp: put_uint_def sb_inv_def dest: reserve_room split: option.splits)

text \<open>Without the error flag nothing was lost; the flag is sticky.\<close>

lemma append_slice_text:
  "\<not> sb_error (append_slice s sb) \<Longrightarrow> sb_text (append_slice s sb) = sb_text sb @ s \<and> \<not> sb_error sb"
  by (auto simp: append_slice_def Let_def dest: reserve_size_room split: option.splits if_splits)

lemma put_uint_text:
  "\<not> sb_error (put_uint x sb) \<Longrightarrow> sb_text (put_uint x sb) = sb_text sb @ print_uint x \<and> \<not> sb_error sb"
  by (auto simp: put_uint_def dest: reserve_room split: option.splits)

lemma put_int_text:
  "\<not> sb_error (put_int w x sb) \<Longrightarrow> sb_text (put_int w x sb) = sb_text sb @ print_signed x \<and> \<not> sb_error sb"
  by (auto simp: put_int_def print_int_eq dest: reserve_room split: option.splits)

lemma put_char_text:
  "\<not> sb_error (put_char c sb) \<Longrightarrow> sb_text (put_char c sb) = sb_text sb @ [c] \<and> \<not> sb_error sb"
  by (auto simp: put_char_def dest: reserve_room split: option.splits)

lemmas builder_text = append_slice_text put_uint_text put_int_text put_char_text

text \<open>While there is room, the flag stays clear.\<close>

lemma append_slice_fits:
  assumes "length (sb_text sb) + length s < sb_capacity sb"
  shows "append_slice s sb = write_text s sb"
  using assms by (simp add: append_slice_def reserve_size_def)

lemma put_char_fits: "length (sb_text sb) < sb_capacity sb \<Longrightarrow> put_char c sb = write_text [c] sb"
  by (simp add: put_char_def reserve_def)

lemma put_int_fits: "length (sb_text sb) < sb_capacity sb \<Longrightarrow> put_int w x sb = write_text (print_signed x) sb"
  by (simp add: put_int_def reserve_def print_int_eq)

lemma put_uint_fits: "length (sb_text sb) < sb_capacity sb \<Longrightarrow> put_uint x sb = write_text (print_uint x) sb"
  by (simp add: put_uint_def reserve_def)

lemmas builder_fits = append_slice_fits put_char_fits put_int_fits put_uint_fits

section \<open>Sequences of writes\<close>

datatype sb_op =
    SbSlice string
  | SbChars nat char
  | SbChar char
  | SbPush char
  | SbBool bool
  | SbInt nat int
  | SbUint nat

fun sb_apply :: "sb_op \<Rightarrow> string_builder \<Rightarrow> string_builder" where
  "sb_apply (SbSlice s) sb = append_slice s sb"
| "sb_apply (SbChars n c) sb = append_char n c sb"
| "sb_apply (SbChar c) sb = put_char c sb"
| "sb_apply (SbPush c) sb = push_back c sb"
| "sb_apply (SbBool b) sb = put_bool b sb"
| "sb_apply (SbInt w x) sb = put_int w x sb"
| "sb_apply (SbUint x) sb = put_uint x sb"

fun sb_shows :: "sb_op \<Rightarrow> string" where
  "sb_shows (SbSlice s) = s"
| "sb_shows (SbChars n c) = replicate n c"
| "sb_shows (SbChar c) = [c]"
| "sb_shows (SbPush c) = [c]"
| "sb_shows (SbBool b) = (if b then ''true'' else ''false'')"
| "sb_shows (SbInt w x) = print_signed x"
| "sb_shows (SbUint x) = print_uint x"

fun sb_op_fits :: "sb_op \<Rightarrow> bool" where
  "sb_op_fits (SbInt w x) \<longleftrightarrow> in_signed 64 x"
| "sb_op_fits (SbUint x) \<longleftrightarrow> x \<le> size_t_max"
| "sb_op_fits _ \<longleftrightarrow> True"

definition sb_run :: "sb_op list \<Rightarrow> string_builder \<Rightarrow> string_builder" where
  "sb_run ops sb = foldl (\<lambda>sb x. sb_apply x sb) sb ops"

lemma sb_apply_inv: "sb_inv sb \<Longrightarrow> sb_op_fits x \<Longrightarrow> sb_inv (sb_apply x sb)"
  by (cases x) (simp_all add: append_slice_inv append_char_inv put_char_inv push_back_inv put_int_inv put_uint_inv put_bool_def)

lemma append_char_text:
  "\<not> sb_error (append_char n c sb) \<Longrightarrow> sb_text (append_char n c sb) = sb_text sb @ replicate n c \<and> \<not> sb_error sb"
  by (auto simp: append_char_def Let_def dest: reserve_size_room split: option.splits if_splits)

lemma push_back_text:
  "\<not> sb_error (push_back c sb) \<Longrightarrow> sb_text (push_back c sb) = sb_text sb @ [c] \<and> \<not> sb_error sb"
  by (auto simp: push_back_def dest: reserve_inner_room split: option.splits if_splits)

lemma sb_apply_text:
  "\<not> sb_error (sb_apply x sb) \<Longrightarrow> sb_text (sb_apply x sb) = sb_text sb @ sb_shows x \<and> \<not> sb_error sb"
  by (cases x) (auto dest: builder_text append_char_text push_back_text simp: put_bool_def)

lemma sb_run_text: "\<not> sb_error (sb_run ops sb) \<Longrightarrow> sb_text (sb_run ops sb) = sb_text sb @ concat (map sb_shows ops) \<and> \<not> sb_error sb"
  unfolding sb_run_def
  by (induction ops arbitrary: sb) (auto dest: sb_apply_text)

lemma sb_run_inv: "sb_inv sb \<Longrightarrow> \<forall>x \<in> set ops. sb_op_fits x \<Longrightarrow> sb_inv (sb_run ops sb)"
  unfolding sb_run_def by (induction ops arbitrary: sb) (simp_all add: sb_apply_inv)

text \<open>
  C40: whatever is written to a \<^verbatim>\<open>StringBuilder\<close>, with a fixed or a growing buffer, stays within the buffer and its
  reserve, so that \<^verbatim>\<open>as_cslice\<close> never aborts; and unless the error flag is set, the text is exactly the
  concatenation of what was written.
\<close>

theorem builder_memory_safe:
  assumes "\<forall>x \<in> set ops. sb_op_fits x"
  shows "as_cslice (sb_run ops (new_string_builder n grows)) = Checked (sb_text (sb_run ops (new_string_builder n grows))) \<and>
         (\<not> sb_error (sb_run ops (new_string_builder n grows)) \<longrightarrow>
          sb_text (sb_run ops (new_string_builder n grows)) = concat (map sb_shows ops))"
proof -
  have "sb_inv (sb_run ops (new_string_builder n grows))" by (rule sb_run_inv) (use assms in simp_all)
  then show ?thesis
    using sb_run_text [of ops "new_string_builder n grows"] by (auto simp: as_cslice_def sb_inv_def new_string_builder_def)
qed

theorem builder_memory_safe_witness:
  "as_cslice (sb_run [SbSlice ''n='', SbInt 32 (- 7), SbChar CHR '';''] (new_string_builder 40 False)) = Checked ''n=-7;''"
proof -
  let ?ops = "[SbSlice ''n='', SbInt 32 (- 7), SbChar CHR '';'']"
  have "\<forall>x \<in> set ?ops. sb_op_fits x" by (simp add: in_signed_def)
  note safe = builder_memory_safe [OF this, of 40 False]
  have "\<not> sb_error (sb_run ?ops (new_string_builder 40 False))" by code_simp
  moreover have "concat (map sb_shows ?ops) = ''n=-7;''" by code_simp
  ultimately show ?thesis using safe by simp
qed

end
