(* ===== verification/Td_Http.thy ===== *)
theory Td_Http
  imports Td_Builder
begin

text \<open>
  \<^verbatim>\<open>td::HttpHeaderCreator\<close> of \<^verbatim>\<open>td/tdnet/td/net\<close>: a builder on a buffer of 4096 bytes.  A header is
  a status line, header lines and an empty line; \<open>finish\<close> fails when a part did not fit.
\<close>

abbreviation MAX_HEADER :: nat where
  "MAX_HEADER \<equiv> 4096"

datatype protocol = Http | Https

definition crlf :: string where
  "crlf = [CHR 0x0D, CHR 0x0A]"

definition hc_init :: string_builder where
  "hc_init = new_string_builder MAX_HEADER False"

definition init_ok :: string_builder where
  "init_ok = append_slice (''HTTP/1.1 200 OK'' @ crlf) hc_init"

definition init_get :: "string \<Rightarrow> string_builder" where
  "init_get url = append_slice ('' HTTP/1.1'' @ crlf) (append_slice url (append_slice ''GET '' hc_init))"

definition init_post :: "string \<Rightarrow> string_builder" where
  "init_post url = append_slice ('' HTTP/1.1'' @ crlf) (append_slice url (append_slice ''POST '' hc_init))"

definition init_error :: "int \<Rightarrow> string \<Rightarrow> string_builder" where
  "init_error status reason =
     append_slice crlf (append_slice reason (put_char (CHR '' '') (put_int 32 status (append_slice ''HTTP/1.1 '' hc_init))))"

definition status_lines :: "(int \<times> string) list" where
  "status_lines =
     [(200, ''OK''), (201, ''Created''), (202, ''Accepted''), (204, ''No Content''), (206, ''Partial Content''),
      (301, ''Moved Permanently''), (302, ''Found''), (303, ''See Other''), (304, ''Not Modified''),
      (307, ''Temporary Redirect''), (308, ''Permanent Redirect''), (400, ''Bad Request''),
      (401, ''Unauthorized''), (403, ''Forbidden''), (404, ''Not Found''), (405, ''Method Not Allowed''),
      (406, ''Not Acceptable''), (408, ''Request Timeout''), (409, ''Conflict''), (410, ''Gone''),
      (411, ''Length Required''), (412, ''Precondition Failed''), (413, ''Request Entity Too Large''),
      (414, ''Request-URI Too Long''), (415, ''Unsupported Media Type''), (416, ''Range Not Satisfiable''),
      (417, ''Expectation Failed''), (418, ''I'' @ [CHR 0x27] @ ''m a teapot''), (421, ''Misdirected Request''),
      (426, ''Upgrade Required''), (429, ''Too Many Requests''), (431, ''Request Header Fields Too Large''),
      (480, ''Temporarily Unavailable''), (501, ''Not Implemented''), (502, ''Bad Gateway''),
      (503, ''Service Unavailable''), (505, ''HTTP Version Not Supported'')]"

definition get_status_line :: "int \<Rightarrow> string" where
  "get_status_line status =
     (case map_of status_lines status of None \<Rightarrow> ''Internal Server Error'' | Some line \<Rightarrow> line)"

definition init_status_line :: "int \<Rightarrow> string_builder" where
  "init_status_line status = init_error status (get_status_line status)"

definition add_header :: "string \<Rightarrow> string \<Rightarrow> string_builder \<Rightarrow> string_builder" where
  "add_header key value sb = append_slice crlf (append_slice value (append_slice '': '' (append_slice key sb)))"

definition set_content_type :: "string \<Rightarrow> string_builder \<Rightarrow> string_builder" where
  "set_content_type type = add_header ''Content-Type'' type"

definition set_content_size :: "nat \<Rightarrow> string_builder \<Rightarrow> string_builder" where
  "set_content_size n = add_header ''Content-Length'' (print_uint n)"

definition set_keep_alive :: "string_builder \<Rightarrow> string_builder" where
  "set_keep_alive = add_header ''Connection'' ''keep-alive''"

definition default_port :: "protocol \<Rightarrow> int \<Rightarrow> bool" where
  "default_port protocol port \<longleftrightarrow> (protocol = Https \<and> port = 443) \<or> (protocol = Http \<and> port = 80)"

definition add_host_header :: "protocol \<Rightarrow> string \<Rightarrow> int \<Rightarrow> string_builder \<Rightarrow> string_builder" where
  "add_host_header protocol host port sb =
     (let sb1 = append_slice ''Host: '' sb;
          sb2 = (if default_port protocol port then append_slice host sb1
                 else put_int 32 port (put_char (CHR '':'') (append_slice host sb1)))
      in append_slice crlf sb2)"

definition get_host_header :: "protocol \<Rightarrow> string \<Rightarrow> int \<Rightarrow> string" where
  "get_host_header protocol host port =
     (if default_port protocol port then host else host @ CHR '':'' # print_int 32 port)"

definition hc_finish :: "string \<Rightarrow> string_builder \<Rightarrow> string result" where
  "hc_finish content sb =
     (let sb1 = append_slice crlf sb;
          sb2 = (if content = [] then sb1 else append_slice content sb1)
      in if sb_error sb2 then Error 0 ''Too many headers'' else Ok (sb_text sb2))"

section \<open>What a finished header holds\<close>

definition header_line :: "string \<Rightarrow> string \<Rightarrow> string" where
  "header_line key value = key @ '': '' @ value @ crlf"

definition status_text :: "int \<Rightarrow> string" where
  "status_text status = ''HTTP/1.1 '' @ print_signed status @ CHR '' '' # get_status_line status @ crlf"

lemma add_header_text:
  "\<not> sb_error (add_header k v sb) \<Longrightarrow>
   sb_text (add_header k v sb) = sb_text sb @ header_line k v \<and> \<not> sb_error sb"
  unfolding add_header_def header_line_def by (fastforce dest: builder_text)

lemma init_status_line_text:
  "\<not> sb_error (init_status_line c) \<Longrightarrow> sb_text (init_status_line c) = status_text c"
  unfolding init_status_line_def init_error_def status_text_def hc_init_def
  by (auto dest!: builder_text simp: new_string_builder_def)

lemma hc_finish_text:
  "hc_finish [] sb = Ok h \<Longrightarrow> h = sb_text sb @ crlf \<and> \<not> sb_error sb"
  by (auto simp: hc_finish_def Let_def dest: append_slice_text split: if_splits)

lemma header_inv:
  "sb_inv sb \<Longrightarrow> sb_inv (add_header k v sb)" "in_signed 64 c \<Longrightarrow> sb_inv (init_error c r)"
  by (simp_all add: add_header_def init_error_def hc_init_def append_slice_inv put_char_inv put_int_inv)

text \<open>
  A builder that is filled to at most \<open>n\<close> bytes behind a header whose capacity is not reached; the
  lengths of the parts add up, so a response with short values never fails.
\<close>

definition filled :: "string_builder \<Rightarrow> nat \<Rightarrow> bool" where
  "filled sb n \<longleftrightarrow> sb_capacity sb = 4066 \<and> \<not> sb_error sb \<and> length (sb_text sb) \<le> n"

lemma filled_slice: "filled sb n \<Longrightarrow> n + length s < 4066 \<Longrightarrow> filled (append_slice s sb) (n + length s)"
  by (simp add: filled_def append_slice_fits)

lemma filled_add_header:
  assumes "filled sb n" "n + length k + length v + 4 < 4066"
  shows "filled (add_header k v sb) (n + length k + length v + 4)"
proof -
  have "filled (append_slice k sb) (n + length k)"
    using assms by (intro filled_slice) simp_all
  then have "filled (append_slice '': '' (append_slice k sb)) (n + length k + length '': '')"
    using assms by (intro filled_slice) simp_all
  then have "filled (append_slice v (append_slice '': '' (append_slice k sb))) (n + length k + length '': '' + length v)"
    using assms by (intro filled_slice) simp_all
  then have "filled (append_slice crlf (append_slice v (append_slice '': '' (append_slice k sb))))
      (n + length k + length '': '' + length v + length crlf)"
    using assms by (intro filled_slice) (simp_all add: crlf_def)
  then show ?thesis by (simp add: add_header_def crlf_def filled_def)
qed

lemma status_line_length: "length (get_status_line c) \<le> 31"
proof -
  have "\<forall>(k, l) \<in> set status_lines. length l \<le> 31"
    by (simp add: status_lines_def)
  then show ?thesis
    by (auto simp: get_status_line_def dest!: map_of_SomeD split: option.splits)
qed

lemma filled_status_line:
  assumes "in_signed 64 c"
  shows "filled (init_status_line c) 100"
proof -
  have "filled (append_slice ''HTTP/1.1 '' hc_init) 9"
    by (simp add: filled_def hc_init_def new_string_builder_def append_slice_fits)
  then have "filled (put_int 32 c (append_slice ''HTTP/1.1 '' hc_init)) 29"
    using print_int_length [OF assms, of 32] by (simp add: filled_def put_int_fits print_int_eq)
  then have "filled (put_char (CHR '' '') (put_int 32 c (append_slice ''HTTP/1.1 '' hc_init))) 30"
    by (simp add: filled_def put_char_fits)
  then have "filled (append_slice (get_status_line c) (put_char (CHR '' '') (put_int 32 c (append_slice ''HTTP/1.1 '' hc_init))))
      (30 + length (get_status_line c))"
    by (rule filled_slice) (use status_line_length [of c] in simp)
  then have "filled (append_slice crlf (append_slice (get_status_line c) (put_char (CHR '' '') (put_int 32 c (append_slice ''HTTP/1.1 '' hc_init)))))
      (30 + length (get_status_line c) + length crlf)"
    by (rule filled_slice) (use status_line_length [of c] in \<open>simp add: crlf_def\<close>)
  then show ?thesis
    using status_line_length [of c] by (simp add: filled_def init_status_line_def init_error_def crlf_def)
qed

lemma hc_finish_filled:
  assumes "filled sb n" "n + 2 < 4066"
  shows "hc_finish [] sb = Ok (sb_text sb @ crlf)"
  using assms by (simp add: hc_finish_def filled_def append_slice_fits crlf_def)

end
