(* ===== verification/Td_Json.thy ===== *)
theory Td_Json
  imports Td_Misc
begin

unbundle bit_operations_syntax

text \<open>
  JSON output: \<^verbatim>\<open>td/tdutils/td/utils/JsonBuilder.h\<close> and \<^verbatim>\<open>JsonBuilder.cpp\<close>, with the UTF-8 helpers of
  \<^verbatim>\<open>utf8.cpp\<close>.  \<^verbatim>\<open>json_encode\<close> writes to a builder that grows, so its output is a string here.  The
  encoder of a string has \<^verbatim>\<open>CHECK\<close>s on the bytes; \<open>json_string_utf8\<close> shows that they cannot fail
  on a string that \<^verbatim>\<open>check_utf8\<close> accepts.
\<close>

section \<open>UTF-8\<close>

text \<open>\<^verbatim>\<open>next_utf8_unsafe\<close>: the code point at the front and the bytes behind it; \<open>None\<close> is \<^verbatim>\<open>UNREACHABLE\<close>.\<close>

definition next_utf8_unsafe :: "nat list \<Rightarrow> (nat \<times> nat list) option" where
  "next_utf8_unsafe bs =
     (let a = bs ! 0; b = bs ! 1; c = bs ! 2; d = bs ! 3
      in if a AND 0x80 = 0 then Some (a, drop 1 bs)
         else if a AND 0x20 = 0 then Some (push_bit 6 (a AND 0x1f) OR (b AND 0x3f), drop 2 bs)
         else if a AND 0x10 = 0
         then Some (push_bit 12 (a AND 0x0f) OR push_bit 6 (b AND 0x3f) OR (c AND 0x3f), drop 3 bs)
         else if a AND 0x08 = 0
         then Some (push_bit 18 (a AND 0x07) OR push_bit 12 (b AND 0x3f) OR push_bit 6 (c AND 0x3f) OR (d AND 0x3f),
                    drop 4 bs)
         else None)"

definition append_utf8_character_unsafe :: "nat \<Rightarrow> nat list" where
  "append_utf8_character_unsafe x =
     (if x \<le> 0x7f then [x]
      else if x \<le> 0x7ff then [0xc0 OR drop_bit 6 x, 0x80 OR (x AND 0x3f)]
      else if x \<le> 0xffff then [0xe0 OR drop_bit 12 x, 0x80 OR (drop_bit 6 x AND 0x3f), 0x80 OR (x AND 0x3f)]
      else [0xf0 OR drop_bit 18 x, 0x80 OR (drop_bit 12 x AND 0x3f), 0x80 OR (drop_bit 6 x AND 0x3f),
            0x80 OR (x AND 0x3f)])"

section \<open>Strings\<close>

definition prepend :: "string \<Rightarrow> string checked \<Rightarrow> string checked" where
  "prepend e r = (case r of CheckFailed \<Rightarrow> CheckFailed | Checked t \<Rightarrow> Checked (e @ t))"

definition json_one_char :: "nat \<Rightarrow> string" where
  "json_one_char c =
     [CHR 0x5C, CHR ''u'', hex_digit_lower (drop_bit 12 c), hex_digit_lower (drop_bit 8 c AND 15),
      hex_digit_lower (drop_bit 4 c AND 15), hex_digit_lower (c AND 15)]"

definition json_char :: "nat \<Rightarrow> string checked" where
  "json_char c =
     (if c < 0x10000 then (if 0xD7FF < c \<and> c < 0xE000 then CheckFailed else Checked (json_one_char c))
      else if c \<le> 0x10ffff
      then Checked (json_one_char (0xD7C0 + drop_bit 10 c) @ json_one_char (0xDC00 + (c AND 0x3FF)))
      else CheckFailed)"

text \<open>The characters with a short escape.\<close>

definition short_escape :: "nat \<Rightarrow> char option" where
  "short_escape n =
     (if n = 0x22 then Some (CHR 0x22) else if n = 0x5C then Some (CHR 0x5C) else if n = 8 then Some (CHR ''b'')
      else if n = 12 then Some (CHR ''f'') else if n = 10 then Some (CHR ''n'')
      else if n = 13 then Some (CHR ''r'') else if n = 9 then Some (CHR ''t'') else None)"

definition json_ascii :: "nat \<Rightarrow> string" where
  "json_ascii n =
     (case short_escape n of
        Some e \<Rightarrow> [CHR 0x5C, e]
      | None \<Rightarrow> (if n \<le> 31 then json_one_char n else [char_of n]))"

definition json_raw_string :: "string \<Rightarrow> string" where
  "json_raw_string s =
     CHR 0x22 # concat (map (\<lambda>c. json_ascii (code c)) s) @ [CHR 0x22]"

definition seq_checked :: "string checked \<Rightarrow> string checked \<Rightarrow> string checked" where
  "seq_checked x r = (case x of CheckFailed \<Rightarrow> CheckFailed | Checked e \<Rightarrow> prepend e r)"

fun json_string_body :: "nat list \<Rightarrow> string checked" where
  "json_string_body [] = Checked []"
| "json_string_body (a # r1) =
     (if a < 128 then prepend (json_ascii a) (json_string_body r1)
      else if a AND 0x40 = 0 then CheckFailed
      else (case r1 of [] \<Rightarrow> CheckFailed | b # r2 \<Rightarrow>
        if b AND 0xc0 \<noteq> 0x80 then CheckFailed
        else if a AND 0x20 = 0 then
          (if a AND 0x1e > 0
           then seq_checked (json_char (push_bit 6 (a AND 0x1f) OR (b AND 0x3f))) (json_string_body r2)
           else CheckFailed)
        else (case r2 of [] \<Rightarrow> CheckFailed | c # r3 \<Rightarrow>
          if c AND 0xc0 \<noteq> 0x80 then CheckFailed
          else if a AND 0x10 = 0 then
            (if (a AND 0x0f) OR (b AND 0x20) > 0
             then seq_checked (json_char (push_bit 12 (a AND 0x0f) OR push_bit 6 (b AND 0x3f) OR (c AND 0x3f)))
                    (json_string_body r3)
             else CheckFailed)
          else (case r3 of [] \<Rightarrow> CheckFailed | d # r4 \<Rightarrow>
            if d AND 0xc0 \<noteq> 0x80 then CheckFailed
            else if a AND 0x08 = 0 then
              (if (a AND 0x07) OR (b AND 0x30) > 0
               then seq_checked
                      (json_char (push_bit 18 (a AND 0x07) OR push_bit 12 (b AND 0x3f) OR push_bit 6 (c AND 0x3f) OR
                                  (d AND 0x3f)))
                      (json_string_body r4)
               else CheckFailed)
            else CheckFailed))))"

definition json_string :: "string \<Rightarrow> string checked" where
  "json_string s = seq_checked (Checked [CHR 0x22]) (case json_string_body (map code s) of
      CheckFailed \<Rightarrow> CheckFailed | Checked t \<Rightarrow> Checked (t @ [CHR 0x22]))"

section \<open>Values\<close>

datatype json =
    JsonTrue
  | JsonFalse
  | JsonNull
  | JsonInt int
  | JsonString string
  | JsonRawString string
  | JsonRaw string
  | JsonArray "json list"
  | JsonObject "(string \<times> json) list"

text \<open>The two layouts: \<open>None\<close> is compact, \<open>Some n\<close> is pretty with the offset \<open>n\<close>.\<close>

definition print_offset :: "nat option \<Rightarrow> string" where
  "print_offset off = (case off of None \<Rightarrow> [] | Some n \<Rightarrow> CHR 0x0A # concat (replicate n ''   ''))"

definition inc_offset :: "nat option \<Rightarrow> nat option" where
  "inc_offset off = map_option Suc off"

definition field_separator :: "nat option \<Rightarrow> string" where
  "field_separator off = (if off = None then '':'' else '' : '')"

text \<open>Elements are separated by commas; each starts on its own line in the pretty layout.\<close>

fun separated :: "string \<Rightarrow> bool \<Rightarrow> string checked list \<Rightarrow> string checked" where
  "separated line was [] = Checked []"
| "separated line was (x # xs) = prepend ((if was then '','' else []) @ line) (seq_checked x (separated line True xs))"

definition bracketed :: "nat option \<Rightarrow> string \<Rightarrow> string \<Rightarrow> string checked \<Rightarrow> string checked" where
  "bracketed off l r body = prepend l (case body of CheckFailed \<Rightarrow> CheckFailed | Checked t \<Rightarrow> Checked (t @ print_offset off @ r))"

fun json_value :: "nat option \<Rightarrow> json \<Rightarrow> string checked" where
  "json_value off JsonTrue = Checked ''true''"
| "json_value off JsonFalse = Checked ''false''"
| "json_value off JsonNull = Checked ''null''"
| "json_value off (JsonInt x) = Checked (print_int 64 x)"
| "json_value off (JsonString s) = json_string s"
| "json_value off (JsonRawString s) = Checked (json_raw_string s)"
| "json_value off (JsonRaw s) = Checked s"
| "json_value off (JsonArray xs) =
     bracketed off ''['' '']'' (separated (print_offset (inc_offset off)) False (map (json_value (inc_offset off)) xs))"
| "json_value off (JsonObject fs) =
     bracketed off ''{'' ''}'' (separated (print_offset (inc_offset off)) False
       (map (\<lambda>(k, v). seq_checked (json_string k)
                (prepend (field_separator off) (json_value (inc_offset off) v))) fs))"

definition json_encode :: "bool \<Rightarrow> json \<Rightarrow> string checked" where
  "json_encode pretty v =
     (if pretty then (case json_value (Some 0) v of CheckFailed \<Rightarrow> CheckFailed | Checked t \<Rightarrow> Checked (t @ [CHR 0x0A]))
      else json_value None v)"

text \<open>\<^verbatim>\<open>JsonQueryError\<close> of \<^verbatim>\<open>server/Query.h\<close>, without parameters.\<close>

definition json_query_error :: "int \<Rightarrow> string \<Rightarrow> string checked" where
  "json_query_error error_code description =
     json_encode False (JsonObject [(''ok'', JsonFalse), (''error_code'', JsonInt error_code),
                                    (''description'', JsonString description)])"

section \<open>No check fails on valid UTF-8\<close>

lemma push_or_add: "y < 2 ^ k \<Longrightarrow> push_bit k x OR y = x * 2 ^ k + (y :: nat)"
proof -
  assume "y < 2 ^ k"
  then have "\<not> bit y n" if "k \<le> n" for n
    using that by (metis bit_take_bit_iff linorder_not_le take_bit_nat_eq_self)
  then have "push_bit k x + y = push_bit k x OR y"
    by (intro disjunctive_add_eq_or) (auto simp: bit_eq_iff bit_simps)
  then show ?thesis by (simp add: push_bit_eq_mult)
qed

lemma and_field: "(n :: nat) AND push_bit k (mask j) = 2 ^ k * (n div 2 ^ k mod 2 ^ j)"
proof -
  have "n AND push_bit k (mask j) = push_bit k (take_bit j (drop_bit k n))"
    by (rule bit_eqI) (auto simp: bit_simps)
  then show ?thesis by (simp add: push_bit_eq_mult take_bit_eq_mod drop_bit_eq_div mult.commute)
qed

lemma byte_fields:
  fixes n :: nat
  shows "n AND 0x80 = 128 * (n div 128 mod 2)" "n AND 0x20 = 32 * (n div 32 mod 2)"
    "n AND 0x30 = 16 * (n div 16 mod 4)" "n AND 0x1f = n mod 32" "n AND 0x3f = n mod 64"
    "n AND 0x0f = n mod 16" "n AND 0x07 = n mod 8"
proof -
  have m: "(0x80 :: nat) = push_bit 7 (mask 1)" "(0x20 :: nat) = push_bit 5 (mask 1)"
    "(0x30 :: nat) = push_bit 4 (mask 2)" "(0x1f :: nat) = mask 5" "(0x3f :: nat) = mask 6"
    "(0x0f :: nat) = mask 4" "(0x07 :: nat) = mask 3"
    by (simp_all add: mask_eq_exp_minus_1 push_bit_eq_mult)
  show "n AND 0x80 = 128 * (n div 128 mod 2)" unfolding m(1) and_field by simp
  show "n AND 0x20 = 32 * (n div 32 mod 2)" unfolding m(2) and_field by simp
  show "n AND 0x30 = 16 * (n div 16 mod 4)" unfolding m(3) and_field by simp
  show "n AND 0x1f = n mod 32" unfolding m(4) take_bit_eq_mask [symmetric] by (simp add: take_bit_eq_mod)
  show "n AND 0x3f = n mod 64" unfolding m(5) take_bit_eq_mask [symmetric] by (simp add: take_bit_eq_mod)
  show "n AND 0x0f = n mod 16" unfolding m(6) take_bit_eq_mask [symmetric] by (simp add: take_bit_eq_mod)
  show "n AND 0x07 = n mod 8" unfolding m(7) take_bit_eq_mask [symmetric] by (simp add: take_bit_eq_mod)
qed

lemma high_bit: "n < 256 \<Longrightarrow> n AND 0x80 = 0 \<longleftrightarrow> n < (128 :: nat)"
proof -
  assume "n < 256"
  then have "n div 128 < 2" by (simp add: div_less_iff_less_mult)
  then show ?thesis by (simp add: byte_fields(1) div_eq_0_iff)
qed

lemma or_zero_iff: "(x :: nat) OR y = 0 \<longleftrightarrow> x = 0 \<and> y = 0"
  by (auto simp: bit_eq_iff bit_simps)

lemma push_or_pos: "push_bit k x OR y \<noteq> 0 \<Longrightarrow> 0 < x OR (y :: nat)"
  by (metis bot_nat_0.not_eq_extremum or_zero_iff push_bit_of_0)

definition not_failed :: "'a checked \<Rightarrow> bool" where
  "not_failed x \<longleftrightarrow> x \<noteq> CheckFailed"

lemma not_failed_simps [simp]:
  "not_failed (Checked x)" "\<not> not_failed CheckFailed" "not_failed (prepend e r) = not_failed r"
  "not_failed (seq_checked a b) \<longleftrightarrow> not_failed a \<and> not_failed b"
  by (auto simp: not_failed_def prepend_def seq_checked_def split: checked.splits)

lemma json_char_2: "not_failed (json_char (push_bit 6 (a AND 0x1f) OR (b AND 0x3f)))"
proof -
  have "push_bit 6 (a AND 0x1f) OR (b AND 0x3f) = a mod 32 * 64 + b mod 64"
    using push_or_add [of "b mod 64" 6 "a mod 32"] by (simp add: byte_fields)
  moreover have "a mod 32 < 32" "b mod 64 < 64" by simp_all
  ultimately show ?thesis unfolding json_char_def by simp
qed

lemma json_char_3:
  assumes "push_bit 6 (a AND 0x0f) OR (b AND 0x20) \<noteq> 0x360"
  shows "not_failed (json_char (push_bit 12 (a AND 0x0f) OR push_bit 6 (b AND 0x3f) OR (c AND 0x3f)))"
proof -
  let ?b = "b mod 64"
  have lt: "?b * 64 + c mod 64 < 2 ^ 12"
  proof -
    have "?b < 64" "c mod 64 < 64" by simp_all
    then show ?thesis by simp
  qed
  have x: "push_bit 12 (a AND 0x0f) OR push_bit 6 (b AND 0x3f) OR (c AND 0x3f) = a mod 16 * 4096 + (?b * 64 + c mod 64)"
    using push_or_add [of "c mod 64" 6 ?b] push_or_add [OF lt, of "a mod 16"]
    by (simp add: byte_fields or.assoc)
  have "b div 32 mod 2 = ?b div 32"
    using mod_mult2_eq [of b 32 2] by simp
  moreover have "b div 32 mod 2 < 2" by simp
  ultimately have t: "a mod 16 * 64 + 32 * (?b div 32) \<noteq> 0x360"
    using assms push_or_add [of "32 * (b div 32 mod 2)" 6 "a mod 16"] by (simp add: byte_fields)
  define A B C q where "A = a mod 16" and "B = ?b" and "C = c mod 64" and "q = ?b div 32"
  have "A < 16" "B < 64" "C < 64" "B < 32 * q + 32" "32 * q \<le> B" "A * 64 + 32 * q \<noteq> 0x360"
    using t unfolding A_def B_def C_def q_def by simp_all
  note f = this
  consider "A \<le> 12" | "A = 13" | "14 \<le> A" by linarith
  then have "A * 4096 + (B * 64 + C) \<le> 0xD7FF \<or> 0xE000 \<le> A * 4096 + (B * 64 + C)"
  proof cases
    case 2
    then have "q \<noteq> 1" using f by auto
    moreover have "q < 2" using f by linarith
    ultimately have "q = 0" by linarith
    with f 2 show ?thesis by linarith
  qed (use f in linarith)+
  moreover have "A * 4096 + (B * 64 + C) < 0x10000" using f by linarith
  ultimately have "A * 4096 + (B * 64 + C) < 0x10000 \<and>
             \<not> (0xD7FF < A * 4096 + (B * 64 + C) \<and> A * 4096 + (B * 64 + C) < 0xE000)"
    by linarith
  then show ?thesis
    unfolding x json_char_def A_def B_def C_def by simp
qed

lemma json_char_4:
  assumes "push_bit 6 (a AND 0x07) OR (b AND 0x30) \<noteq> 0" "push_bit 6 (a AND 0x07) OR (b AND 0x30) < 0x110"
  shows "not_failed (json_char (push_bit 18 (a AND 0x07) OR push_bit 12 (b AND 0x3f) OR push_bit 6 (c AND 0x3f) OR (d AND 0x3f)))"
proof -
  define A B C D where "A = a mod 8" and "B = b mod 64" and "C = c mod 64" and "D = d mod 64"
  note defs = A_def B_def C_def D_def
  have lt: "A < 8" "B < 64" "C < 64" "D < 64" by (simp_all add: defs)
  have "push_bit 6 C OR D = C * 64 + D"
    using push_or_add [of D 6 C] lt by simp
  moreover have "push_bit 12 B OR (C * 64 + D) = B * 4096 + (C * 64 + D)"
    using push_or_add [of "C * 64 + D" 12 B] lt by simp
  moreover have "push_bit 18 A OR (B * 4096 + (C * 64 + D)) = A * 262144 + (B * 4096 + (C * 64 + D))"
    using push_or_add [of "B * 4096 + (C * 64 + D)" 18 A] lt by simp
  ultimately have x: "push_bit 18 (a AND 0x07) OR push_bit 12 (b AND 0x3f) OR push_bit 6 (c AND 0x3f) OR (d AND 0x3f) =
      A * 262144 + (B * 4096 + (C * 64 + D))"
    by (simp add: byte_fields or.assoc defs)
  define q where "q = B div 16"
  have "b div 16 mod 4 = q"
    using mod_mult2_eq [of b 16 4] by (simp add: q_def B_def)
  moreover have "q < 4" using lt by (simp add: q_def)
  ultimately have t: "A * 64 + 16 * q < 0x110" "A * 64 + 16 * q \<noteq> 0"
    using assms push_or_add [of "16 * q" 6 A] by (simp_all add: byte_fields A_def)
  then have "4 * A + q \<le> 16" by linarith
  moreover have B: "B < 16 * q + 16" "16 * q \<le> B" by (simp_all add: q_def)
  ultimately have "B + 64 * A \<le> 271" by linarith
  then have "A * 262144 + (B * 4096 + (C * 64 + D)) \<le> 0x10ffff"
    using lt by linarith
  moreover have "0x10000 \<le> A * 262144 + (B * 4096 + (C * 64 + D))"
    using t(2) B(2) by (cases "A = 0"; cases "q = 0") (simp, linarith+)
  ultimately show ?thesis
    unfolding x json_char_def by simp
qed

text \<open>One character of a valid string: its bytes, and the string behind it.\<close>

lemma utf8_step:
  assumes "check_utf8_bytes ((a # r1) @ [0])" "a < 256"
  obtains (one) "a < 128" "check_utf8_bytes (r1 @ [0])"
    | (two) b r2 where "128 \<le> a" "a AND 0x40 \<noteq> 0" "r1 = b # r2" "b AND 0xc0 = 0x80" "a AND 0x20 = 0" "a AND 0x1e > 0"
        "check_utf8_bytes (r2 @ [0])"
    | (three) b c r3 where "128 \<le> a" "a AND 0x40 \<noteq> 0" "r1 = b # c # r3" "b AND 0xc0 = 0x80" "c AND 0xc0 = 0x80"
        "a AND 0x20 \<noteq> 0" "a AND 0x10 = 0" "push_bit 6 (a AND 0x0f) OR (b AND 0x20) \<noteq> 0"
        "push_bit 6 (a AND 0x0f) OR (b AND 0x20) \<noteq> 0x360" "check_utf8_bytes (r3 @ [0])"
    | (four) b c d r4 where "128 \<le> a" "a AND 0x40 \<noteq> 0" "r1 = b # c # d # r4" "b AND 0xc0 = 0x80" "c AND 0xc0 = 0x80"
        "d AND 0xc0 = 0x80" "a AND 0x20 \<noteq> 0" "a AND 0x10 \<noteq> 0" "a AND 0x08 = 0"
        "push_bit 6 (a AND 0x07) OR (b AND 0x30) \<noteq> 0" "push_bit 6 (a AND 0x07) OR (b AND 0x30) < 0x110"
        "check_utf8_bytes (r4 @ [0])"
proof (cases "a < 128")
  case True
  then show ?thesis using assms high_bit [OF assms(2)] by (intro one) auto
next
  case False
  then have big: "a AND 0x80 \<noteq> 0" "128 \<le> a" using high_bit [OF assms(2)] by auto
  note c = assms(1) [unfolded append_Cons check_utf8_bytes.simps(2) [of a], simplified big if_False]
  have a40: "a AND 0x40 \<noteq> 0" using c by (auto split: if_splits)
  obtain b r2 where r1: "r1 = b # r2" using c a40 by (cases r1) auto
  note c = c [unfolded r1 append_Cons list.case, simplified a40 if_False]
  have b: "b AND 0xc0 = 0x80" using c by (auto split: if_splits)
  show ?thesis
  proof (cases "a AND 0x20 = 0")
    case True
    then show ?thesis using c b a40 big r1 by (intro two [of b r2]) (auto split: if_splits)
  next
    case a20: False
    obtain x r3 where r2: "r2 = x # r3" using c b a20 by (cases r2) auto
    note c = c [unfolded r2 append_Cons list.case, simplified b a20 if_False]
    have x: "x AND 0xc0 = 0x80" using c by (auto split: if_splits)
    show ?thesis
    proof (cases "a AND 0x10 = 0")
      case True
      then show ?thesis using c b x a20 a40 big r1 r2 by (intro three [of b x r3]) (auto simp: Let_def split: if_splits)
    next
      case a10: False
      obtain d r4 where r3: "r3 = d # r4" using c x a10 by (cases r3) auto
      note c = c [unfolded r3 append_Cons list.case, simplified x a10 if_False]
      show ?thesis
        using c b x a10 a20 a40 big r1 r2 r3 by (intro four [of b x d r4]) (auto simp: Let_def split: if_splits)
    qed
  qed
qed

lemma json_string_body_utf8:
  assumes "check_utf8_bytes (bs @ [0])" "\<forall>b \<in> set bs. b < 256"
  shows "not_failed (json_string_body bs)"
  using assms
proof (induction bs rule: length_induct)
  case (1 bs)
  show ?case
  proof (cases bs)
    case (Cons a r1)
    have IH: "not_failed (json_string_body ys)"
      if "length ys < length bs" "check_utf8_bytes (ys @ [0])" "set ys \<subseteq> set bs" for ys
      using 1 that by blast
    have "a < 256" using 1(3) Cons by simp
    from 1(2) [unfolded Cons] this show ?thesis
    proof (cases rule: utf8_step)
      case one
      then show ?thesis using IH [of r1] Cons by (auto simp: json_string_body.simps(2) [of a])
    next
      case (two b r2)
      then show ?thesis
        using IH [of r2] Cons json_char_2 [of a b] by (auto simp: json_string_body.simps(2) [of a])
    next
      case (three b c r3)
      then have "(a AND 0x0f) OR (b AND 0x20) > 0" by (intro push_or_pos)
      with three show ?thesis
        using IH [of r3] Cons json_char_3 [of a b c] by (auto simp: json_string_body.simps(2) [of a])
    next
      case (four b c d r4)
      then have "(a AND 0x07) OR (b AND 0x30) > 0" by (intro push_or_pos)
      with four show ?thesis
        using IH [of r4] Cons json_char_4 [of a b c d] by (auto simp: json_string_body.simps(2) [of a])
    qed
  qed simp
qed

lemma json_string_utf8: "check_utf8 s \<Longrightarrow> not_failed (json_string s)"
  using json_string_body_utf8 [of "map code s"]
  by (auto simp: json_string_def check_utf8_def split: checked.splits)

lemma json_query_error_utf8:
  assumes "check_utf8 m"
  shows "not_failed (json_query_error c m)"
proof -
  have keys: "not_failed (json_string ''ok'')" "not_failed (json_string ''error_code'')"
    "not_failed (json_string ''description'')"
    by (rule json_string_utf8, code_simp)+
  have bracket: "not_failed (bracketed off l r b) = not_failed b" for off l r b
    by (auto simp: bracketed_def split: checked.splits)
  show ?thesis
    using keys json_string_utf8 [OF assms] by (simp add: json_query_error_def json_encode_def bracket)
qed

section \<open>Text that needs no escape\<close>

definition plain :: "string \<Rightarrow> bool" where
  "plain s \<longleftrightarrow> (\<forall>c \<in> set s. 32 \<le> code c \<and> code c < 127 \<and> code c \<noteq> 0x22 \<and> code c \<noteq> 0x5C)"

definition quoted :: "string \<Rightarrow> string" where
  "quoted s = CHR 0x22 # s @ [CHR 0x22]"

lemma json_string_plain: "plain s \<Longrightarrow> json_string s = Checked (quoted s)"
proof -
  have "json_string_body (map code s) = Checked s" if "plain s" for s
    using that
    by (induction s)
      (auto simp: plain_def json_ascii_def short_escape_def prepend_def code_def simp del: json_string_body.simps(2)
        simp: json_string_body.simps(2))
  then show "plain s \<Longrightarrow> json_string s = Checked (quoted s)"
    by (simp add: json_string_def quoted_def seq_checked_def prepend_def)
qed

definition error_json :: "int \<Rightarrow> string \<Rightarrow> string" where
  "error_json c m =
     ''{'' @ quoted ''ok'' @ '':false,'' @ quoted ''error_code'' @ '':'' @ print_signed c @ '','' @
     quoted ''description'' @ '':'' @ quoted m @ ''}''"

lemma json_query_error_plain: "plain m \<Longrightarrow> json_query_error c m = Checked (error_json c m)"
proof -
  have keys: "plain ''ok''" "plain ''error_code''" "plain ''description''"
    by (simp_all add: plain_def code_def)
  show "plain m \<Longrightarrow> json_query_error c m = Checked (error_json c m)"
    by (simp add: json_query_error_def json_encode_def bracketed_def seq_checked_def prepend_def print_offset_def
        inc_offset_def field_separator_def error_json_def print_int_eq json_string_plain keys)
qed

section \<open>Property of the encoder\<close>

text \<open>
  The error object of the Bot API is built for every description that passes \<^verbatim>\<open>check_utf8\<close>: the decoder inside
  the JSON writer reaches none of its \<^verbatim>\<open>CHECK\<close>s.
\<close>

theorem json_error_never_fails:
  assumes "check_utf8 m"
  shows "\<exists>t. json_query_error c m = Checked t"
  using json_query_error_utf8 [OF assms, of c] by (cases "json_query_error c m") auto

theorem json_error_never_fails_witness:
  "check_utf8 [CHR 0xD0, CHR 0x96, CHR 0x22] \<and> (\<exists>t. json_query_error 404 [CHR 0xD0, CHR 0x96, CHR 0x22] = Checked t)"
proof -
  have u: "check_utf8 [CHR 0xD0, CHR 0x96, CHR 0x22]" by code_simp
  then show ?thesis using json_error_never_fails [OF u, of 404] by simp
qed

end
