(* ===== verification/FileStreamConn.thy ===== *)
theory FileStreamConn
  imports FileStreamCursor FileStreamRoute Td_Http Td_Json
begin

text \<open>
  The actor \<^verbatim>\<open>FileStreamConnection\<close> of \<^verbatim>\<open>server/FileStream.cpp\<close>, one definition per handler.  The
  state has the fields of the class; the messages an actor sends with \<^verbatim>\<open>send_closure\<close> are appended to
  \<open>sc_log\<close>.  \<^verbatim>\<open>FileFd::open\<close> and \<^verbatim>\<open>FileFd::pread\<close> are the fields of \<open>file_io\<close>, an argument of every
  handler that reads, so that the file may change between two calls.
\<close>

record file_stream_config =
  cfg_enabled :: bool
  cfg_chunk_size :: int
  cfg_max_connections :: int
  cfg_first_byte_timeout :: real
  cfg_idle_timeout :: real
  cfg_write_high_watermark :: int
  cfg_max_size :: int
  cfg_allow_ip :: string

definition default_config :: file_stream_config where
  "default_config =
     \<lparr>cfg_enabled = False, cfg_chunk_size = 262144, cfg_max_connections = 100, cfg_first_byte_timeout = 30,
      cfg_idle_timeout = 60, cfg_write_high_watermark = 1048576, cfg_max_size = 0, cfg_allow_ip = []\<rparr>"

datatype stream_msg =
    SendFileStream int string bool string int string
  | RetainFile string
  | ReleaseFile string
  | WriteHeaders string
  | WriteChunk string
  | WriteNoflush string
  | WriteOk
  | WriteError status
  | TouchActivity
  | ReleaseFileStream int
  | RemoveFileStream int int bool

record file_io =
  io_open :: "string \<Rightarrow> status_result"
  io_pread :: "string \<Rightarrow> int \<Rightarrow> int \<Rightarrow> string result"

record stream_conn =
  sc_stream_id :: int
  sc_connection :: bool
  sc_cleanup_manager :: bool
  sc_client :: bool
  sc_route :: file_stream_route
  sc_config :: file_stream_config
  sc_peer_address :: ip_address
  sc_file_id :: int
  sc_local_path :: string
  sc_local_file :: "string option"
  sc_cursor :: file_stream_cursor
  sc_headers_sent :: bool
  sc_read_in_flight :: bool
  sc_write_in_flight :: bool
  sc_download_completed :: bool
  sc_first_byte_sent :: bool
  sc_completed_ok :: bool
  sc_partial_response :: bool
  sc_pending_write_offset :: int
  sc_pending_write_size :: int
  sc_finished :: bool
  sc_timeout :: "real option"
  sc_stopped :: bool
  sc_crashed :: bool
  sc_log :: "stream_msg list"

definition new_stream_conn ::
  "int \<Rightarrow> bool \<Rightarrow> file_stream_route \<Rightarrow> file_stream_config \<Rightarrow> ip_address \<Rightarrow> stream_conn" where
  "new_stream_conn stream_id has_cleanup route config peer =
     \<lparr>sc_stream_id = stream_id, sc_connection = True, sc_cleanup_manager = has_cleanup, sc_client = False,
      sc_route = route, sc_config = config, sc_peer_address = peer, sc_file_id = 0, sc_local_path = [],
      sc_local_file = None, sc_cursor = new_cursor, sc_headers_sent = False, sc_read_in_flight = False,
      sc_write_in_flight = False, sc_download_completed = False, sc_first_byte_sent = False,
      sc_completed_ok = False, sc_partial_response = False, sc_pending_write_offset = - 1,
      sc_pending_write_size = 0, sc_finished = False, sc_timeout = None, sc_stopped = False,
      sc_crashed = False, sc_log = []\<rparr>"

definition send_msg :: "stream_msg \<Rightarrow> stream_conn \<Rightarrow> stream_conn" where
  "send_msg m s = s\<lparr>sc_log := sc_log s @ [m]\<rparr>"

definition stop_actor :: "stream_conn \<Rightarrow> stream_conn" where
  "stop_actor s = s\<lparr>sc_stopped := True\<rparr>"

definition sc_start_up :: "inet \<Rightarrow> stream_conn \<Rightarrow> stream_conn" where
  "sc_start_up os s =
     (let s1 = s\<lparr>sc_timeout := Some (cfg_first_byte_timeout (sc_config s))\<rparr>;
          r = sc_route s1
      in (send_msg (SendFileStream (sc_stream_id s1) (route_token r) (route_is_test_dc r) (route_file_id r)
                      (route_expected_size r) (get_ip_str os (sc_peer_address s1))) s1)
           \<lparr>sc_route := r\<lparr>route_token := [], route_file_id := []\<rparr>\<rparr>)"

definition set_client :: "stream_conn \<Rightarrow> stream_conn" where
  "set_client s = s\<lparr>sc_client := True\<rparr>"

definition sc_abort :: "status \<Rightarrow> stream_conn \<Rightarrow> stream_conn" where
  "sc_abort error s =
     (if sc_finished s then s
      else (let s1 = s\<lparr>sc_finished := True, sc_timeout := None\<rparr>;
                s2 = (if sc_connection s1 then (send_msg (WriteError error) s1)\<lparr>sc_connection := False\<rparr> else s1)
            in stop_actor s2))"

definition fail_header :: "int \<Rightarrow> nat \<Rightarrow> stream_conn \<Rightarrow> string result" where
  "fail_header http_status_code content_size s =
     (let hc1 = set_content_type ''application/json'' (init_status_line http_status_code);
          hc2 = (if http_status_code = 416 \<and> total_size (sc_cursor s) \<ge> 0
                 then add_header ''Content-Range'' (''bytes */'' @ print_int 64 (total_size (sc_cursor s))) hc1
                 else hc1)
      in hc_finish [] (set_content_size content_size hc2))"

definition sc_fail :: "int \<Rightarrow> string \<Rightarrow> stream_conn \<Rightarrow> stream_conn" where
  "sc_fail http_status_code msg s =
     (if sc_finished s then s
      else if sc_headers_sent s then sc_abort (Status http_status_code msg) s
      else (case json_query_error http_status_code msg of
              CheckFailed \<Rightarrow> s\<lparr>sc_crashed := True\<rparr>
            | Checked content \<Rightarrow>
                (let s1 = s\<lparr>sc_finished := True, sc_timeout := None\<rparr>
                 in stop_actor
                      ((case fail_header http_status_code (length content) s of
                          Inl e \<Rightarrow> send_msg (WriteError e) s1
                        | Inr header \<Rightarrow>
                            (let s2 = send_msg (WriteNoflush header) s1;
                                 s3 = (if \<not> route_head_only (sc_route s2) then send_msg (WriteNoflush content) s2
                                       else s2)
                             in send_msg WriteOk s3))\<lparr>sc_connection := False\<rparr>))))"

definition sc_finish :: "stream_conn \<Rightarrow> stream_conn" where
  "sc_finish s =
     (if sc_finished s then s
      else if \<not> is_complete (sc_cursor s) \<or> sc_read_in_flight s \<or> sc_write_in_flight s
      then sc_abort (Status 500 ''Attempted to finish an incomplete stream'') s
      else (let s1 = s\<lparr>sc_finished := True, sc_completed_ok := True, sc_timeout := None\<rparr>;
                s2 = (if sc_connection s1 then (send_msg WriteOk s1)\<lparr>sc_connection := False\<rparr> else s1)
            in stop_actor s2))"

definition response_headers :: "stream_conn \<Rightarrow> string result" where
  "response_headers s =
     (let c = sc_cursor s;
          content_size = (if total_size c = 0 then 0 else end_offset c - start_offset c + 1);
          hc1 = set_content_type ''application/octet-stream''
                  (set_keep_alive (init_status_line (if sc_partial_response s then 206 else 200)));
          hc2 = add_header ''Accept-Ranges'' ''bytes'' (set_content_size (nat content_size) hc1);
          hc3 = (if sc_partial_response s
                 then add_header ''Content-Range''
                        (''bytes '' @ print_int 64 (start_offset c) @ ''-'' @ print_int 64 (end_offset c) @ ''/'' @
                         print_int 64 (total_size c)) hc2
                 else hc2)
      in hc_finish [] (add_header ''Cache-Control'' ''private'' (add_header ''Content-Disposition'' ''attachment'' hc3)))"

definition send_headers :: "stream_conn \<Rightarrow> stream_conn" where
  "send_headers s =
     (if sc_headers_sent s then s
      else (case response_headers s of
              Inl _ \<Rightarrow> sc_fail 500 ''Failed to create streaming response headers'' s
            | Inr header \<Rightarrow> send_msg (WriteHeaders header) (s\<lparr>sc_headers_sent := True\<rparr>)))"

definition effective_chunk_size :: "stream_conn \<Rightarrow> int" where
  "effective_chunk_size s = min (cfg_chunk_size (sc_config s)) (cfg_write_high_watermark (sc_config s))"

definition on_file_data :: "int \<Rightarrow> string result \<Rightarrow> stream_conn \<Rightarrow> stream_conn" where
  "on_file_data offset r s0 =
     (let s = s0\<lparr>sc_read_in_flight := False\<rparr>
      in if sc_finished s then s
         else (case r of
           Inl e \<Rightarrow> sc_abort (Status 502 (status_message e)) s
         | Inr data \<Rightarrow>
             (if int (length data) \<noteq> next_read_size (effective_chunk_size s) (sc_cursor s) \<or> data = []
              then sc_abort (Status 500 ''TDLib local file returned an incomplete part'') s
              else send_msg (WriteChunk data)
                     (s\<lparr>sc_write_in_flight := True, sc_pending_write_offset := offset,
                        sc_pending_write_size := int (length data)\<rparr>))))"

definition try_read :: "file_io \<Rightarrow> stream_conn \<Rightarrow> stream_conn" where
  "try_read io s =
     (if sc_finished s \<or> sc_read_in_flight s \<or> sc_write_in_flight s \<or> total_size (sc_cursor s) < 0 then s
      else if is_complete (sc_cursor s) then sc_finish s
      else (let count = next_read_size (effective_chunk_size s) (sc_cursor s)
            in if count = 0 then s
               else if count < 0 then sc_abort (Status 500 ''Invalid stream read size'') s
               else if sc_local_path s = [] then s
               else (case (case sc_local_file s of Some f \<Rightarrow> Ok f
                           | None \<Rightarrow> map_sum id (\<lambda>_. sc_local_path s) (io_open io (sc_local_path s))) of
                 Inl e \<Rightarrow>
                   (if \<not> sc_download_completed s then s
                    else sc_abort (Status 500 (''Failed to open TDLib local file: '' @ status_message e)) s)
               | Inr f \<Rightarrow>
                   (let s1 = s\<lparr>sc_local_file := Some f, sc_read_in_flight := True\<rparr>
                    in case io_pread io f (next_offset (sc_cursor s1)) count of
                         Inl e \<Rightarrow> sc_abort (Status 500 (''Failed to read TDLib local file: '' @ status_message e))
                                    (s1\<lparr>sc_read_in_flight := False\<rparr>)
                       | Inr data \<Rightarrow>
                           (if int (length data) \<noteq> count
                            then (if \<not> sc_download_completed s1
                                  then s1\<lparr>sc_read_in_flight := False, sc_local_file := None\<rparr>
                                  else sc_abort (Status 500 ''TDLib local file returned an incomplete part'')
                                         (s1\<lparr>sc_read_in_flight := False\<rparr>))
                            else on_file_data (next_offset (sc_cursor s1)) (Ok data) s1)))))"

text \<open>The change of the local path, with the hold on the file at the cleanup manager.\<close>

definition switch_path :: "string \<Rightarrow> stream_conn \<Rightarrow> stream_conn" where
  "switch_path path s =
     (let s1 = (if sc_local_path s \<noteq> [] \<and> sc_cleanup_manager s then send_msg (ReleaseFile (sc_local_path s)) s else s);
          s2 = s1\<lparr>sc_local_path := path\<rparr>
      in if sc_cleanup_manager s2 then send_msg (RetainFile path) s2 else s2)"

text \<open>The second half of \<^verbatim>\<open>on_file_ready\<close>, from the parsing of the range on.\<close>

definition start_response :: "file_io \<Rightarrow> int \<Rightarrow> int \<Rightarrow> bool \<Rightarrow> stream_conn \<Rightarrow> stream_conn" where
  "start_response io download_offset downloaded_prefix_size is_completed s3 =
     (case parse_file_stream_range (route_range (sc_route s3)) (total_size (sc_cursor s3)) of
        Inl _ \<Rightarrow> sc_fail 416 ''Range Not Satisfiable'' s3
      | Inr rng \<Rightarrow>
          (let s4 = s3\<lparr>sc_partial_response := range_is_partial rng,
                        sc_timeout := Some (cfg_first_byte_timeout (sc_config s3)),
                        sc_cursor := set_range (range_start rng) (range_end rng) (sc_cursor s3)\<rparr>
           in case update_progress download_offset downloaded_prefix_size is_completed (sc_cursor s4) of
                Inl e \<Rightarrow> sc_fail 502 (status_message e) s4
              | Inr c \<Rightarrow>
                  (let s5 = s4\<lparr>sc_cursor := c, sc_download_completed := is_completed\<rparr>
                   in if sc_download_completed s5 \<and> contiguous_end c < total_size c
                      then sc_fail 502 ''Telegram download completed with an incomplete file'' s5
                      else (let s6 = send_headers s5
                            in if route_head_only (sc_route s6) then s6 else try_read io s6))))"

definition on_file_ready ::
  "file_io \<Rightarrow> int \<Rightarrow> int \<Rightarrow> string \<Rightarrow> int \<Rightarrow> int \<Rightarrow> bool \<Rightarrow> bool \<Rightarrow> stream_conn \<Rightarrow> stream_conn" where
  "on_file_ready io file_id tsize local_path download_offset downloaded_prefix_size is_completed is_downloading_active s =
     (if sc_finished s then s
      else if file_id \<le> 0 \<or> tsize < 0 then sc_fail 500 ''Invalid file metadata received from TDLib'' s
      else
        (let s1 = s\<lparr>sc_file_id := file_id\<rparr>;
             s2 = (if local_path \<noteq> [] \<and> sc_local_path s1 \<noteq> local_path then switch_path local_path s1 else s1)
         in if nat tsize > size_t_max then sc_fail 413 ''File is too large for this build'' s2
            else if cfg_max_size (sc_config s2) > 0 \<and> tsize > cfg_max_size (sc_config s2)
            then sc_fail 413 ''File is too large for the streaming endpoint'' s2
            else start_response io download_offset downloaded_prefix_size is_completed
                   (s2\<lparr>sc_cursor := (sc_cursor s2)\<lparr>total_size := tsize\<rparr>\<rparr>)))"

definition on_file_progress ::
  "file_io \<Rightarrow> int \<Rightarrow> string \<Rightarrow> int \<Rightarrow> int \<Rightarrow> bool \<Rightarrow> bool \<Rightarrow> stream_conn \<Rightarrow> stream_conn" where
  "on_file_progress io reported_total_size local_path download_offset downloaded_prefix_size is_completed
      is_downloading_active s =
     (if sc_finished s \<or> total_size (sc_cursor s) < 0 then s
      else if reported_total_size > 0 \<and> reported_total_size \<noteq> total_size (sc_cursor s)
      then sc_abort (Status 502 ''File size metadata changed during download'') s
      else
        (let s1 = (if local_path \<noteq> [] \<and> sc_local_path s \<noteq> local_path
                   then switch_path local_path (s\<lparr>sc_local_file := None\<rparr>) else s)
         in case update_progress download_offset downloaded_prefix_size is_completed (sc_cursor s1) of
              Inl e \<Rightarrow> sc_abort e s1
            | Inr c \<Rightarrow>
                (let s2 = s1\<lparr>sc_cursor := c, sc_download_completed := sc_download_completed s1 \<or> is_completed\<rparr>
                 in if \<not> sc_download_completed s2 \<and> \<not> is_downloading_active
                    then sc_abort (Status 502 ''Telegram file download stopped before completion'') s2
                    else if sc_download_completed s2 \<and> contiguous_end c < total_size c
                    then sc_abort (Status 502 ''Telegram download completed with an incomplete file'') s2
                    else try_read io s2)))"

definition on_chunk_flushed :: "file_io \<Rightarrow> status_result \<Rightarrow> stream_conn \<Rightarrow> stream_conn" where
  "on_chunk_flushed io r s0 =
     (let s = s0\<lparr>sc_write_in_flight := False\<rparr>
      in if sc_finished s then s
         else (case r of
           Inl e \<Rightarrow> sc_abort e s
         | Inr _ \<Rightarrow>
             (let committed = commit (sc_pending_write_offset s) (sc_pending_write_size s) (sc_cursor s);
                  s1 = s\<lparr>sc_pending_write_offset := - 1, sc_pending_write_size := 0\<rparr>
              in case committed of
                   Inl e \<Rightarrow> sc_abort e s1
                 | Inr c \<Rightarrow>
                     (let s2 = s1\<lparr>sc_cursor := c, sc_first_byte_sent := True\<rparr>;
                          s3 = (if sc_connection s2 then send_msg TouchActivity s2 else s2)
                      in try_read io (s3\<lparr>sc_timeout := Some (cfg_idle_timeout (sc_config s3))\<rparr>)))))"

definition on_headers_flushed :: "status_result \<Rightarrow> stream_conn \<Rightarrow> stream_conn" where
  "on_headers_flushed r s =
     (if sc_finished s then s
      else (case r of
        Inl e \<Rightarrow> sc_abort e s
      | Inr _ \<Rightarrow>
          (if route_head_only (sc_route s)
           then (let s1 = s\<lparr>sc_finished := True, sc_timeout := None\<rparr>;
                     s2 = (if sc_connection s1 then (send_msg WriteOk s1)\<lparr>sc_connection := False\<rparr> else s1)
                 in stop_actor s2)
           else s)))"

definition on_file_error :: "status \<Rightarrow> stream_conn \<Rightarrow> stream_conn" where
  "on_file_error error s =
     (if sc_finished s then s
      else (let c = (if status_code error < 400 \<or> status_code error > 599 then 502 else status_code error)
            in if \<not> sc_headers_sent s then sc_fail c (status_message error) s else sc_abort error s))"

definition sc_timeout_expired :: "stream_conn \<Rightarrow> stream_conn" where
  "sc_timeout_expired s =
     on_file_error (Status 504 (if sc_first_byte_sent s then ''File stream stalled'' else ''File stream first byte timeout'')) s"

definition sc_tear_down :: "stream_conn \<Rightarrow> stream_conn" where
  "sc_tear_down s =
     (let s1 = s\<lparr>sc_local_file := None\<rparr>;
          s2 = (if sc_local_path s1 \<noteq> [] \<and> sc_cleanup_manager s1 then send_msg (ReleaseFile (sc_local_path s1)) s1 else s1);
          s3 = send_msg (ReleaseFileStream (sc_stream_id s2)) s2;
          s4 = (if sc_client s3
                then send_msg (RemoveFileStream (sc_stream_id s3) (sc_file_id s3)
                                 (route_no_cache (sc_route s3) \<and> sc_completed_ok s3)) s3
                else s3)
      in s4\<lparr>sc_connection := False\<rparr>)"

section \<open>The actor as a transition system\<close>

datatype stream_event =
    SetClient
  | FileReady int int string int int bool bool
  | FileProgress int string int int bool bool
  | ChunkFlushed status_result
  | HeadersFlushed status_result
  | FileError status
  | Timeout

fun handle_event :: "file_io \<Rightarrow> stream_event \<Rightarrow> stream_conn \<Rightarrow> stream_conn" where
  "handle_event io SetClient s = set_client s"
| "handle_event io (FileReady f t p off n b a) s = on_file_ready io f t p off n b a s"
| "handle_event io (FileProgress t p off n b a) s = on_file_progress io t p off n b a s"
| "handle_event io (ChunkFlushed r) s = on_chunk_flushed io r s"
| "handle_event io (HeadersFlushed r) s = on_headers_flushed r s"
| "handle_event io (FileError e) s = on_file_error e s"
| "handle_event io Timeout s = sc_timeout_expired s"

text \<open>
  When an event may arrive: \<^verbatim>\<open>Client\<close> sends \<^verbatim>\<open>on_file_ready\<close> once per stream, a promise is kept once and
  after its write, the timer fires while it is armed.  \<open>int64\<close> bounds the size.
\<close>

fun event_enabled :: "stream_event \<Rightarrow> stream_conn \<Rightarrow> bool" where
  "event_enabled (FileReady f t p off n b a) s \<longleftrightarrow> total_size (sc_cursor s) < 0 \<and> t \<le> int64_max"
| "event_enabled (ChunkFlushed r) s \<longleftrightarrow> sc_write_in_flight s"
| "event_enabled (HeadersFlushed r) s \<longleftrightarrow> sc_headers_sent s"
| "event_enabled Timeout s \<longleftrightarrow> sc_timeout s \<noteq> None"
| "event_enabled _ s \<longleftrightarrow> True"

text \<open>After \<^verbatim>\<open>stop()\<close> the actor is torn down and receives nothing.\<close>

definition deliver :: "file_io \<Rightarrow> stream_event \<Rightarrow> stream_conn \<Rightarrow> stream_conn" where
  "deliver io ev s = (let s' = handle_event io ev s in if sc_stopped s' then sc_tear_down s' else s')"

inductive stream_step :: "(file_io \<Rightarrow> bool) \<Rightarrow> stream_conn \<Rightarrow> stream_event \<Rightarrow> stream_conn \<Rightarrow> bool" for good where
  "good io \<Longrightarrow> \<not> sc_stopped s \<Longrightarrow> \<not> sc_crashed s \<Longrightarrow> event_enabled ev s \<Longrightarrow>
   stream_step good s ev (deliver io ev s)"

inductive_cases stream_stepE: "stream_step good s ev s'"

inductive stream_reach :: "(file_io \<Rightarrow> bool) \<Rightarrow> stream_conn \<Rightarrow> stream_conn \<Rightarrow> bool" for good s0 where
  stream_reach_init: "stream_reach good s0 s0"
| stream_reach_step: "stream_reach good s0 s \<Longrightarrow> stream_step good s ev s' \<Longrightarrow> stream_reach good s0 s'"

end
