(* ===== verification/FileStreamProofs.thy ===== *)
theory FileStreamProofs
  imports FileStreamConn
begin

text \<open>
  What \<^verbatim>\<open>FileStreamConnection\<close> guarantees: the invariant of the actor, kept by every handler, and its
  consequences for the bytes written to the client and for the holds at the cleanup manager.
\<close>

section \<open>The written body\<close>

fun chunk_of :: "stream_msg \<Rightarrow> string" where
  "chunk_of (WriteChunk d) = d"
| "chunk_of _ = []"

definition body_of :: "stream_msg list \<Rightarrow> string" where
  "body_of ms = concat (map chunk_of ms)"

lemma body_of_simps [simp]: "body_of [] = []" "body_of (xs @ ys) = body_of xs @ body_of ys" "body_of (m # xs) = chunk_of m @ body_of xs"
  by (simp_all add: body_of_def)

text \<open>
  The protocol towards the HTTP connection: either headers with a promise, chunks and one final
  message, or an error response written without flushing and one final message.  Messages to other
  actors do not matter.
\<close>

datatype phase = Awaiting | Streaming | ErrorBody | Closed | Violated

fun next_phase :: "phase \<Rightarrow> stream_msg \<Rightarrow> phase" where
  "next_phase ph (WriteHeaders _) = (if ph = Awaiting then Streaming else Violated)"
| "next_phase ph (WriteChunk _) = (if ph = Streaming then Streaming else Violated)"
| "next_phase ph TouchActivity = (if ph = Streaming then Streaming else Violated)"
| "next_phase ph (WriteNoflush _) = (if ph = Awaiting \<or> ph = ErrorBody then ErrorBody else Violated)"
| "next_phase ph WriteOk = (if ph = Streaming \<or> ph = ErrorBody then Closed else Violated)"
| "next_phase ph (WriteError _) = (if ph = Awaiting \<or> ph = Streaming then Closed else Violated)"
| "next_phase ph _ = ph"

definition conn_phase :: "stream_msg list \<Rightarrow> phase" where
  "conn_phase ms = foldl next_phase Awaiting ms"

lemma conn_phase_simps [simp]: "conn_phase [] = Awaiting" "conn_phase (ms @ [m]) = next_phase (conn_phase ms) m"
  by (simp_all add: conn_phase_def)

lemma conn_phase_snoc2 [simp]:
  "conn_phase [m] = next_phase Awaiting m"
  "conn_phase (ms @ [m, n]) = next_phase (next_phase (conn_phase ms) m) n"
  "conn_phase (ms @ [m, n, k]) = next_phase (next_phase (next_phase (conn_phase ms) m) n) k"
  by (simp_all add: conn_phase_def)

text \<open>The bytes of the file behind a position.\<close>

definition slice_of :: "string \<Rightarrow> int \<Rightarrow> int \<Rightarrow> string" where
  "slice_of content start n = take (nat n) (drop (nat start) content)"

lemma slice_of_append:
  "0 \<le> start \<Longrightarrow> 0 \<le> m \<Longrightarrow> 0 \<le> n \<Longrightarrow>
   slice_of content start m @ slice_of content (start + m) n = slice_of content start (m + n)"
  by (simp add: slice_of_def nat_add_distrib take_add add.commute)

text \<open>What the file system promises: a read returns bytes of the file at that position, at most as many as asked.\<close>

definition reads_from :: "string \<Rightarrow> file_io \<Rightarrow> bool" where
  "reads_from content io \<longleftrightarrow>
     (\<forall>f off n d. io_pread io f off n = Ok d \<longrightarrow> int (length d) \<le> n \<and> d = slice_of content off (int (length d)))"

section \<open>The invariant\<close>

definition live :: "stream_conn \<Rightarrow> bool" where
  "live s \<longleftrightarrow> \<not> sc_finished s \<and> \<not> sc_stopped s \<and> \<not> sc_crashed s \<and> sc_connection s \<and> \<not> sc_read_in_flight s \<and>
              \<not> sc_completed_ok s"

definition fresh :: "stream_conn \<Rightarrow> bool" where
  "fresh s \<longleftrightarrow> sc_cursor s = new_cursor \<and> \<not> sc_headers_sent s \<and> \<not> sc_write_in_flight s \<and> body_of (sc_log s) = [] \<and>
     conn_phase (sc_log s) = Awaiting"

definition pending :: "stream_conn \<Rightarrow> int" where
  "pending s = (if sc_write_in_flight s then sc_pending_write_size s else 0)"

definition body_ok :: "string \<Rightarrow> stream_conn \<Rightarrow> bool" where
  "body_ok content s \<longleftrightarrow>
     (\<exists>n. body_of (sc_log s) = slice_of content (start_offset (sc_cursor s)) n)"

definition open_ok :: "string \<Rightarrow> stream_conn \<Rightarrow> bool" where
  "open_ok content s \<longleftrightarrow>
     body_ok content s \<and> conn_phase (sc_log s) = (if sc_headers_sent s then Streaming else Awaiting)"

definition ready :: "string \<Rightarrow> stream_conn \<Rightarrow> bool" where
  "ready content s \<longleftrightarrow>
     cursor_inv (sc_cursor s) \<and> sc_headers_sent s \<and>
     (sc_write_in_flight s \<longrightarrow>
        sc_pending_write_offset s = next_offset (sc_cursor s) \<and> 0 < sc_pending_write_size s \<and>
        next_offset (sc_cursor s) + sc_pending_write_size s \<le> contiguous_end (sc_cursor s) \<and>
        next_offset (sc_cursor s) + sc_pending_write_size s \<le> end_offset (sc_cursor s) + 1) \<and>
     body_of (sc_log s) =
       slice_of content (start_offset (sc_cursor s))
         (next_offset (sc_cursor s) - start_offset (sc_cursor s) + pending s) \<and>
     conn_phase (sc_log s) = Streaming"

definition ended :: "string \<Rightarrow> stream_conn \<Rightarrow> bool" where
  "ended content s \<longleftrightarrow>
     sc_finished s \<and> sc_stopped s \<and> \<not> sc_connection s \<and> body_ok content s \<and> conn_phase (sc_log s) = Closed \<and>
     (sc_completed_ok s \<longrightarrow>
        cursor_inv (sc_cursor s) \<and> is_complete (sc_cursor s) \<and> sc_headers_sent s \<and>
        body_of (sc_log s) = slice_of content (start_offset (sc_cursor s))
          (end_offset (sc_cursor s) + 1 - start_offset (sc_cursor s)))"

definition stream_inv :: "string \<Rightarrow> stream_conn \<Rightarrow> bool" where
  "stream_inv content s \<longleftrightarrow>
     sc_crashed s \<or> (live s \<and> (fresh s \<or> ready content s)) \<or> ended content s"

lemmas inv_defs = live_def fresh_def ready_def ended_def pending_def open_ok_def body_ok_def send_msg_def stop_actor_def

lemma ready_open_ok: "ready content s \<Longrightarrow> open_ok content s"
  by (auto simp: ready_def open_ok_def body_ok_def)

lemma fresh_open_ok: "fresh s \<Longrightarrow> open_ok content s"
  by (auto simp: fresh_def open_ok_def body_ok_def slice_of_def intro: exI [of _ 0])

lemma abort_ended:
  assumes "live s" "open_ok content s"
  shows "ended content (sc_abort e s)"
  using assms by (auto simp: sc_abort_def inv_defs Let_def)

lemma fail_ended:
  assumes "live s" "open_ok content s"
  shows "sc_crashed (sc_fail c m s) \<or> ended content (sc_fail c m s)"
proof (cases "sc_headers_sent s")
  case True
  then show ?thesis using abort_ended [OF assms] assms(1) by (simp add: sc_fail_def live_def)
next
  case False
  show ?thesis
  proof (cases "json_query_error c m")
    case CheckFailed
    then show ?thesis using assms False by (simp add: sc_fail_def live_def)
  next
    case (Checked content')
    then show ?thesis
      using assms False
      by (cases "fail_header c (length content') s") (auto simp: sc_fail_def inv_defs Let_def)
  qed
qed

lemma complete_next: "cursor_inv c \<Longrightarrow> is_complete c \<Longrightarrow> next_offset c = end_offset c + 1"
  by (auto simp: cursor_inv_def is_complete_def)

lemma finish_ended:
  assumes "live s" "ready content s" "is_complete (sc_cursor s)" "\<not> sc_write_in_flight s"
  shows "ended content (sc_finish s)"
  using assms complete_next [of "sc_cursor s"] by (auto simp: sc_finish_def inv_defs Let_def)

text \<open>The ways out of \<^verbatim>\<open>try_read\<close>.\<close>

lemma unset_read_in_flight: "\<not> sc_read_in_flight s \<Longrightarrow> s\<lparr>sc_local_file := f, sc_read_in_flight := False\<rparr> = s\<lparr>sc_local_file := f\<rparr>"
  by simp

lemma same_local_file: "s = s\<lparr>sc_local_file := sc_local_file s\<rparr>"
  by simp

definition write_chunk :: "string \<Rightarrow> string \<Rightarrow> stream_conn \<Rightarrow> stream_conn" where
  "write_chunk f data s =
     send_msg (WriteChunk data)
       (s\<lparr>sc_local_file := Some f, sc_write_in_flight := True, sc_pending_write_offset := next_offset (sc_cursor s),
          sc_pending_write_size := int (length data)\<rparr>)"

lemma try_read_cases:
  assumes "live s"
  obtains (idle) f where "try_read io s = s\<lparr>sc_local_file := f\<rparr>"
  | (complete) "is_complete (sc_cursor s)" "\<not> sc_write_in_flight s" "try_read io s = sc_finish s"
  | (broken) e f where "try_read io s = sc_abort e (s\<lparr>sc_local_file := f\<rparr>)"
  | (chunk) f data where "\<not> sc_write_in_flight s"
      "io_pread io f (next_offset (sc_cursor s)) (int (length data)) = Ok data" "data \<noteq> []"
      "int (length data) = next_read_size (effective_chunk_size s) (sc_cursor s)"
      "try_read io s = write_chunk f data s"
proof -
  let ?n = "next_read_size (effective_chunk_size s) (sc_cursor s)"
  have l: "\<not> sc_finished s" "\<not> sc_read_in_flight s" using assms by (auto simp: live_def)
  consider (stay) "sc_write_in_flight s \<or> total_size (sc_cursor s) < 0"
    | (fin) "\<not> sc_write_in_flight s" "\<not> total_size (sc_cursor s) < 0" "is_complete (sc_cursor s)"
    | (go) "\<not> sc_write_in_flight s" "\<not> total_size (sc_cursor s) < 0" "\<not> is_complete (sc_cursor s)"
    by blast
  then show ?thesis
  proof cases
    case stay
    then have "try_read io s = s" using l by (simp add: try_read_def)
    then show ?thesis using idle same_local_file by metis
  next
    case fin
    then have "try_read io s = sc_finish s" using l by (simp add: try_read_def)
    then show ?thesis using complete fin by blast
  next
    case go
    show ?thesis
    proof (cases "?n \<le> 0 \<or> sc_local_path s = []")
      case True
      have "?n = 0 \<or> ?n > 0" using next_read_size_nonneg [of "effective_chunk_size s" "sc_cursor s"] by linarith
      then have "try_read io s = s" using go l True by (auto simp: try_read_def Let_def)
      then show ?thesis using idle same_local_file by metis
    next
      case False
      then have n: "0 < ?n" "?n \<noteq> 0" "\<not> ?n < 0" "sc_local_path s \<noteq> []" by auto
      let ?file = "case sc_local_file s of Some f \<Rightarrow> Ok f | None \<Rightarrow> map_sum id (\<lambda>_. sc_local_path s) (io_open io (sc_local_path s))"
      show ?thesis
      proof (cases ?file)
        case (Inl e)
        then have "try_read io s = s \<or> (\<exists>e'. try_read io s = sc_abort e' s)"
          using go l n by (auto simp: try_read_def Let_def)
        then show ?thesis using idle broken same_local_file by metis
      next
        case (Inr f)
        show ?thesis
        proof (cases "io_pread io f (next_offset (sc_cursor s)) ?n")
          case err: (Inl e)
          then have "\<exists>e'. try_read io s = sc_abort e' (s\<lparr>sc_local_file := Some f\<rparr>)"
            using Inr go l n by (auto simp: try_read_def Let_def unset_read_in_flight)
          then show ?thesis using broken by blast
        next
          case data: (Inr d)
          show ?thesis
          proof (cases "int (length d) = ?n")
            case True
            then have "d \<noteq> []" using n by auto
            with True show ?thesis
              using Inr data go l n
              by (intro chunk [of f d])
                 (simp_all add: try_read_def Let_def on_file_data_def write_chunk_def effective_chunk_size_def unset_read_in_flight)
          next
            case short: False
            then have "(\<exists>f'. try_read io s = s\<lparr>sc_local_file := f'\<rparr>) \<or>
                (\<exists>e'. try_read io s = sc_abort e' (s\<lparr>sc_local_file := Some f\<rparr>))"
              using Inr data go l n by (auto simp: try_read_def Let_def unset_read_in_flight)
            then show ?thesis using idle broken by blast
          qed
        qed
      qed
    qed
  qed
qed

lemma write_chunk_ready:
  assumes "ready content s" "\<not> sc_write_in_flight s" "reads_from content io"
    and "io_pread io f (next_offset (sc_cursor s)) (int (length data)) = Ok data" "data \<noteq> []"
    and "int (length data) = next_read_size k (sc_cursor s)"
  shows "ready content (write_chunk f data s)"
proof -
  let ?c = "sc_cursor s"
  have c: "cursor_inv ?c" and body: "body_of (sc_log s) = slice_of content (start_offset ?c) (next_offset ?c - start_offset ?c)"
    using assms(1,2) by (auto simp: ready_def pending_def)
  have "0 < next_read_size k ?c" using assms(5,6) by (metis length_greater_0_conv of_nat_0_less_iff)
  then have fits: "next_offset ?c + int (length data) \<le> contiguous_end ?c"
      "next_offset ?c + int (length data) \<le> end_offset ?c + 1"
    using next_read_size_fits [of k ?c] assms(6) by auto
  have "data = slice_of content (next_offset ?c) (int (length data))"
    using assms(3,4) unfolding reads_from_def by blast
  moreover have "0 \<le> start_offset ?c" "0 \<le> next_offset ?c - start_offset ?c"
    using c by (auto simp: cursor_inv_def)
  ultimately have "body_of (sc_log s) @ data =
      slice_of content (start_offset ?c) (next_offset ?c - start_offset ?c + int (length data))"
    using slice_of_append [of "start_offset ?c" "next_offset ?c - start_offset ?c" "int (length data)" content] body by simp
  then show ?thesis
    using assms(1,5) c fits by (simp add: ready_def write_chunk_def send_msg_def pending_def)
qed

text \<open>A handler that started in a live state leaves the invariant true.\<close>

definition settled :: "string \<Rightarrow> stream_conn \<Rightarrow> bool" where
  "settled content s \<longleftrightarrow> sc_crashed s \<or> (live s \<and> ready content s) \<or> ended content s"

lemma settled_abort: "live s \<Longrightarrow> open_ok content s \<Longrightarrow> settled content (sc_abort e s)"
  by (simp add: settled_def abort_ended)

lemma settled_fail: "live s \<Longrightarrow> open_ok content s \<Longrightarrow> settled content (sc_fail c m s)"
  using fail_ended by (auto simp: settled_def)

lemma settled_try_read:
  assumes "live s" "ready content s" "reads_from content io"
  shows "settled content (try_read io s)"
  using assms(1)
proof (cases rule: try_read_cases [where io = io])
  case (idle f)
  then show ?thesis using assms by (simp add: settled_def inv_defs)
next
  case complete
  then show ?thesis using assms finish_ended by (simp add: settled_def)
next
  case (broken e f)
  have "live (s\<lparr>sc_local_file := f\<rparr>)" "open_ok content (s\<lparr>sc_local_file := f\<rparr>)"
    using assms ready_open_ok [OF assms(2)] by (simp_all add: inv_defs)
  then show ?thesis using broken settled_abort by simp
next
  case (chunk f data)
  then have "ready content (write_chunk f data s)"
    using write_chunk_ready assms by blast
  moreover have "live (write_chunk f data s)"
    using assms(1) by (simp add: write_chunk_def inv_defs)
  ultimately show ?thesis using chunk by (simp add: settled_def)
qed

lemma switch_path_simps [simp]:
  "sc_cursor (switch_path p s) = sc_cursor s" "body_of (sc_log (switch_path p s)) = body_of (sc_log s)"
  "live (switch_path p s) = live s" "sc_headers_sent (switch_path p s) = sc_headers_sent s"
  "sc_write_in_flight (switch_path p s) = sc_write_in_flight s"
  "sc_pending_write_offset (switch_path p s) = sc_pending_write_offset s"
  "sc_pending_write_size (switch_path p s) = sc_pending_write_size s"
  "conn_phase (sc_log (switch_path p s)) = conn_phase (sc_log s)"
  "sc_route (switch_path p s) = sc_route s" "sc_config (switch_path p s) = sc_config s"
  by (auto simp: switch_path_def send_msg_def Let_def live_def)

lemma live_simps [simp]:
  "live (s\<lparr>sc_file_id := f\<rparr>) = live s" "live (s\<lparr>sc_local_file := h\<rparr>) = live s" "live (s\<lparr>sc_cursor := c\<rparr>) = live s"
  by (simp_all add: live_def)

lemma send_headers_ready:
  assumes "live s" "cursor_inv (sc_cursor s)" "next_offset (sc_cursor s) = start_offset (sc_cursor s)"
    "\<not> sc_headers_sent s" "\<not> sc_write_in_flight s" "body_of (sc_log s) = []" "conn_phase (sc_log s) = Awaiting"
  shows "settled content (send_headers s)"
proof (cases "response_headers s")
  case (Inl e)
  have "open_ok content s" using assms(4,6,7) by (auto simp: open_ok_def body_ok_def slice_of_def intro: exI [of _ 0])
  then show ?thesis using Inl assms(1,4) settled_fail by (simp add: send_headers_def)
next
  case (Inr h)
  then show ?thesis using assms by (simp add: send_headers_def settled_def inv_defs slice_of_def)
qed

lemma settled_send_and_read:
  assumes "live s" "cursor_inv (sc_cursor s)" "next_offset (sc_cursor s) = start_offset (sc_cursor s)"
    "\<not> sc_headers_sent s" "\<not> sc_write_in_flight s" "body_of (sc_log s) = []" "reads_from content io"
    "conn_phase (sc_log s) = Awaiting"
  shows "settled content (if h then send_headers s else try_read io (send_headers s))"
proof -
  have s: "settled content (send_headers s)" using send_headers_ready assms by blast
  have noop: "try_read io t = t" if "sc_finished t" for t using that by (simp add: try_read_def)
  have crash: "sc_crashed (try_read io t)" if "sc_crashed t" for t
    using that by (auto simp: try_read_def Let_def sc_finish_def sc_abort_def send_msg_def stop_actor_def on_file_data_def
        split: sum.splits option.splits)
  show ?thesis
    using s settled_try_read [of "send_headers s" content io] assms(7) noop crash
    by (auto simp: settled_def ended_def)
qed

lemma settled_start_response:
  assumes "live s" "start_offset (sc_cursor s) = 0" "contiguous_end (sc_cursor s) = 0" "body_of (sc_log s) = []"
    and "total_size (sc_cursor s) \<le> int64_max" "\<not> sc_headers_sent s" "\<not> sc_write_in_flight s" "reads_from content io"
    and "conn_phase (sc_log s) = Awaiting"
  shows "settled content (start_response io off n b s)"
proof (cases "parse_file_stream_range (route_range (sc_route s)) (total_size (sc_cursor s))")
  case (Inl e)
  have "open_ok content s" using assms(4,6,9) by (auto simp: open_ok_def body_ok_def slice_of_def intro: exI [of _ 0])
  then show ?thesis using Inl settled_fail assms(1) by (simp add: start_response_def)
next
  case (Inr rng)
  define s4 where "s4 = s\<lparr>sc_partial_response := range_is_partial rng,
      sc_timeout := Some (cfg_first_byte_timeout (sc_config s)),
      sc_cursor := set_range (range_start rng) (range_end rng) (sc_cursor s)\<rparr>"
  have c4: "cursor_inv (sc_cursor s4)"
    using parse_range_within [OF Inr] assms(2,3,5) unfolding s4_def
    by (auto simp: range_within_def intro!: cursor_inv_set_range)
  have s4: "live s4" "body_of (sc_log s4) = []" "\<not> sc_headers_sent s4" "\<not> sc_write_in_flight s4"
      "next_offset (sc_cursor s4) = start_offset (sc_cursor s4)"
    and ph4: "conn_phase (sc_log s4) = Awaiting"
    using assms by (simp_all add: s4_def live_def set_range_def)
  have b4: "open_ok content (s4\<lparr>sc_cursor := c, sc_download_completed := b\<rparr>)" "open_ok content s4" for c
    using s4(2,3) ph4 by (auto simp: open_ok_def body_ok_def slice_of_def intro: exI [of _ 0])
  show ?thesis
  proof (cases "update_progress off n b (sc_cursor s4)")
    case err: (Inl e)
    then show ?thesis using Inr settled_fail s4 b4 by (simp add: start_response_def Let_def s4_def [symmetric])
  next
    case ok: (Inr c)
    let ?s5 = "s4\<lparr>sc_cursor := c, sc_download_completed := b\<rparr>"
    have c: "cursor_inv c" "next_offset c = start_offset c"
      using update_progress_keeps [OF ok c4] s4 by auto
    have live5: "live ?s5" using s4 by (simp add: live_def)
    have "settled content (send_headers ?s5)" "settled content (try_read io (send_headers ?s5))"
      using settled_send_and_read [OF live5, of content io True] settled_send_and_read [OF live5, of content io False]
        c s4 ph4 assms(8) by simp_all
    moreover have "settled content (sc_fail 502 m ?s5)" for m
      using settled_fail live5 b4 by blast
    ultimately show ?thesis
      using Inr ok by (cases b) (simp_all add: start_response_def Let_def s4_def [symmetric])
  qed
qed

lemma settled_ready:
  assumes "live s" "fresh s" "t \<le> int64_max" "reads_from content io"
  shows "settled content (on_file_ready io f t p off n b a s)"
proof -
  define s2 where "s2 = (if p \<noteq> [] \<and> sc_local_path (s\<lparr>sc_file_id := f\<rparr>) \<noteq> p
      then switch_path p (s\<lparr>sc_file_id := f\<rparr>) else s\<lparr>sc_file_id := f\<rparr>)"
  have s2: "live s2" "fresh s2" using assms(1,2) by (simp_all add: s2_def fresh_def)
  have "settled content (sc_fail c m s)" "settled content (sc_fail c m s2)" for c m
    using settled_fail fresh_open_ok assms s2 by blast+
  moreover have "settled content (start_response io off n b (s2\<lparr>sc_cursor := (sc_cursor s2)\<lparr>total_size := t\<rparr>\<rparr>))"
    using s2 assms(3,4) by (intro settled_start_response) (simp_all add: fresh_def new_cursor_def)
  ultimately show ?thesis
    using assms(1) unfolding on_file_ready_def Let_def s2_def [symmetric] by (simp add: live_def)
qed

lemma settled_progress:
  assumes "live s" "ready content s" "reads_from content io"
  shows "settled content (on_file_progress io t p off n b a s)"
proof -
  define s1 where "s1 = (if p \<noteq> [] \<and> sc_local_path s \<noteq> p then switch_path p (s\<lparr>sc_local_file := None\<rparr>) else s)"
  have s1: "live s1" "ready content s1" and cur: "sc_cursor s1 = sc_cursor s"
    using assms(1,2) by (simp_all add: s1_def ready_def pending_def)
  have t: "0 \<le> total_size (sc_cursor s)" using assms(2) by (simp add: ready_def cursor_inv_def)
  show ?thesis
  proof (cases "t > 0 \<and> t \<noteq> total_size (sc_cursor s)")
    case True
    then show ?thesis
      using settled_abort ready_open_ok assms t by (simp add: on_file_progress_def live_def)
  next
    case False
    have eq: "on_file_progress io t p off n b a s =
        (case update_progress off n b (sc_cursor s1) of
              Inl e \<Rightarrow> sc_abort e s1
            | Inr c \<Rightarrow>
                (let s2 = s1\<lparr>sc_cursor := c, sc_download_completed := sc_download_completed s1 \<or> b\<rparr>
                 in if \<not> sc_download_completed s2 \<and> \<not> a
                    then sc_abort (Status 502 ''Telegram file download stopped before completion'') s2
                    else if sc_download_completed s2 \<and> contiguous_end c < total_size c
                    then sc_abort (Status 502 ''Telegram download completed with an incomplete file'') s2
                    else try_read io s2))"
      using False assms(1) t unfolding on_file_progress_def Let_def s1_def [symmetric]
      by (cases "0 < t") (simp_all add: live_def)
    show ?thesis
    proof (cases "update_progress off n b (sc_cursor s1)")
      case (Inl e)
      then show ?thesis using settled_abort s1 ready_open_ok by (simp add: eq)
    next
      case (Inr c)
      have "cursor_inv (sc_cursor s1)" using s1(2) by (simp add: ready_def)
      note kept = update_progress_keeps [OF Inr this]
      have "live (s1\<lparr>sc_cursor := c, sc_download_completed := d\<rparr>)"
        "ready content (s1\<lparr>sc_cursor := c, sc_download_completed := d\<rparr>)" for d
        using s1 kept by (auto simp: live_def ready_def pending_def)
      then have "settled content (try_read io (s1\<lparr>sc_cursor := c, sc_download_completed := d\<rparr>))"
        "settled content (sc_abort e (s1\<lparr>sc_cursor := c, sc_download_completed := d\<rparr>))" for d e
        using settled_try_read settled_abort ready_open_ok assms(3) by blast+
      then show ?thesis using Inr by (simp add: eq Let_def)
    qed
  qed
qed

text \<open>The state in which a successful flush leaves the actor, before it reads on.\<close>

definition flushed :: "stream_conn \<Rightarrow> stream_conn" where
  "flushed s = (send_msg TouchActivity
      (s\<lparr>sc_write_in_flight := False, sc_pending_write_offset := - 1, sc_pending_write_size := 0,
         sc_cursor := (sc_cursor s)\<lparr>next_offset := next_offset (sc_cursor s) + sc_pending_write_size s\<rparr>,
         sc_first_byte_sent := True\<rparr>))\<lparr>sc_timeout := Some (cfg_idle_timeout (sc_config s))\<rparr>"

lemma chunk_flushed_ready:
  assumes "live s" "ready content s" "sc_write_in_flight s"
  shows "on_chunk_flushed io (Ok u) s = try_read io (flushed s) \<and> live (flushed s) \<and> ready content (flushed s)"
proof -
  let ?c = "sc_cursor s" and ?n = "sc_pending_write_size s"
  let ?c' = "?c\<lparr>next_offset := next_offset ?c + ?n\<rparr>"
  have w: "sc_pending_write_offset s = next_offset ?c" "0 < ?n" "next_offset ?c + ?n \<le> contiguous_end ?c"
      "next_offset ?c + ?n \<le> end_offset ?c + 1"
      "body_of (sc_log s) = slice_of content (start_offset ?c) (next_offset ?c - start_offset ?c + ?n)"
    and c: "cursor_inv ?c" "sc_headers_sent s" "conn_phase (sc_log s) = Streaming"
    using assms(2,3) by (auto simp: ready_def pending_def)
  then have commit: "commit (next_offset ?c) ?n ?c = Ok ?c'"
    by (simp add: commit_def)
  have "on_chunk_flushed io (Ok u) s = try_read io (flushed s)"
    using assms(1) w(1) commit by (simp add: on_chunk_flushed_def live_def Let_def flushed_def send_msg_def)
  moreover have "live (flushed s)" using assms(1) by (simp add: flushed_def live_def send_msg_def)
  moreover have "ready content (flushed s)"
    using commit_keeps [OF commit c(1)] c w by (simp add: flushed_def ready_def pending_def send_msg_def algebra_simps)
  ultimately show ?thesis by blast
qed

lemma settled_chunk_flushed:
  assumes "live s" "ready content s" "reads_from content io" "sc_write_in_flight s"
  shows "settled content (on_chunk_flushed io r s)"
proof (cases r)
  case (Inl e)
  have "live (s\<lparr>sc_write_in_flight := False\<rparr>)" "open_ok content (s\<lparr>sc_write_in_flight := False\<rparr>)"
    using assms ready_open_ok [OF assms(2)] by (simp_all add: live_def open_ok_def body_ok_def)
  then show ?thesis using Inl settled_abort assms(1) by (simp add: on_chunk_flushed_def live_def)
next
  case (Inr u)
  then show ?thesis
    using chunk_flushed_ready [OF assms(1,2,4)] settled_try_read assms(3) by metis
qed

lemma settled_headers_flushed:
  assumes "live s" "ready content s"
  shows "settled content (on_headers_flushed r s)"
proof (cases r)
  case (Inl e)
  then show ?thesis using assms settled_abort ready_open_ok by (simp add: on_headers_flushed_def live_def)
next
  case (Inr u)
  then show ?thesis
    using assms ready_open_ok [OF assms(2)] by (auto simp: on_headers_flushed_def settled_def inv_defs Let_def)
qed

lemma settled_error:
  assumes "live s" "open_ok content s"
  shows "settled content (on_file_error e s)"
  using assms settled_abort settled_fail by (simp add: on_file_error_def Let_def live_def)

lemma tear_down_ended: "ended content s \<Longrightarrow> ended content (sc_tear_down s)"
  by (auto simp: sc_tear_down_def inv_defs Let_def)

lemma tear_down_crashed [simp]: "sc_crashed (sc_tear_down s) = sc_crashed s"
  by (simp add: sc_tear_down_def send_msg_def Let_def)

lemma settled_inv: "settled content s \<Longrightarrow> stream_inv content s"
  by (auto simp: settled_def stream_inv_def)

text \<open>Every handler keeps the invariant.\<close>

lemma handle_event_inv:
  assumes "live s" "fresh s \<or> ready content s" "event_enabled ev s" "reads_from content io"
  shows "stream_inv content (handle_event io ev s)"
proof -
  have body: "open_ok content s" using assms(2) ready_open_ok fresh_open_ok by blast
  have fresh_total: "fresh s \<longleftrightarrow> total_size (sc_cursor s) < 0"
    using assms(2) by (auto simp: fresh_def ready_def new_cursor_def cursor_inv_def)
  show ?thesis
  proof (cases ev)
    case SetClient
    then show ?thesis using assms(1,2) by (auto simp: set_client_def stream_inv_def inv_defs)
  next
    case (FileReady f t p off n b a)
    then show ?thesis using settled_ready [OF assms(1)] fresh_total assms(3,4) by (intro settled_inv) simp
  next
    case (FileProgress t p off n b a)
    show ?thesis
    proof (cases "fresh s")
      case True
      then have "handle_event io ev s = s" using FileProgress fresh_total by (simp add: on_file_progress_def)
      then show ?thesis using assms(1,2) by (simp add: stream_inv_def)
    next
      case False
      then show ?thesis using settled_progress assms FileProgress by (intro settled_inv) simp
    qed
  next
    case (ChunkFlushed r)
    then have "ready content s" using assms(2,3) by (auto simp: fresh_def)
    then show ?thesis using settled_chunk_flushed assms ChunkFlushed by (intro settled_inv) simp
  next
    case (HeadersFlushed r)
    then have "ready content s" using assms(2,3) by (auto simp: fresh_def)
    then show ?thesis using settled_headers_flushed assms HeadersFlushed by (intro settled_inv) simp
  next
    case (FileError e)
    then show ?thesis using settled_error [OF assms(1) body] by (intro settled_inv) simp
  next
    case Timeout
    then show ?thesis using settled_error [OF assms(1) body] by (intro settled_inv) (simp add: sc_timeout_expired_def)
  qed
qed

lemma deliver_inv:
  assumes "stream_inv content s" "\<not> sc_stopped s" "\<not> sc_crashed s" "event_enabled ev s" "reads_from content io"
  shows "stream_inv content (deliver io ev s)"
proof -
  have "live s" "fresh s \<or> ready content s" using assms(1-3) by (auto simp: stream_inv_def ended_def)
  then have "stream_inv content (handle_event io ev s)" using handle_event_inv assms by blast
  then show ?thesis
    using tear_down_ended by (auto simp: deliver_def Let_def stream_inv_def live_def)
qed

lemma start_up_inv: "stream_inv content (sc_start_up os (new_stream_conn i b r cfg peer))"
  by (simp add: sc_start_up_def new_stream_conn_def stream_inv_def live_def fresh_def send_msg_def Let_def)

lemma reach_inv:
  assumes "stream_reach (reads_from content) (sc_start_up os (new_stream_conn i b r cfg peer)) s"
  shows "stream_inv content s"
  using assms
proof (induction rule: stream_reach.induct)
  case stream_reach_init
  show ?case by (rule start_up_inv)
next
  case (stream_reach_step s ev s')
  then show ?case by (auto elim!: stream_stepE intro: deliver_inv)
qed

end
