(* ===== verification/FileStreamHolds.thy ===== *)
theory FileStreamHolds
  imports FileStreamProofs
begin

text \<open>
  The accounting of \<^verbatim>\<open>FileStreamConnection\<close> with the other actors: every \<^verbatim>\<open>retain_file\<close> is matched by
  one \<^verbatim>\<open>release_file\<close>, the stream is released exactly once, no message text aborts the process, and a
  completely downloaded file is delivered to the end.
\<close>

section \<open>Retained files\<close>

fun hold_change :: "string \<Rightarrow> stream_msg \<Rightarrow> int" where
  "hold_change p (RetainFile q) = (if p = q then 1 else 0)"
| "hold_change p (ReleaseFile q) = (if p = q then - 1 else 0)"
| "hold_change p _ = 0"

definition holds :: "string \<Rightarrow> stream_msg list \<Rightarrow> int" where
  "holds p ms = sum_list (map (hold_change p) ms)"

fun release_change :: "stream_msg \<Rightarrow> int" where
  "release_change (ReleaseFileStream i) = 1"
| "release_change _ = 0"

definition releases :: "stream_msg list \<Rightarrow> int" where
  "releases ms = sum_list (map release_change ms)"

lemma holds_simps [simp]: "holds p [] = 0" "holds p (m # ms) = hold_change p m + holds p ms" "holds p (xs @ ys) = holds p xs + holds p ys"
  by (simp_all add: holds_def)

lemma releases_simps [simp]: "releases [] = 0" "releases (m # ms) = release_change m + releases ms" "releases (xs @ ys) = releases xs + releases ys"
  by (simp_all add: releases_def)

text \<open>The messages that count, and logs in which no file is released more often than retained.\<close>

fun is_account :: "stream_msg \<Rightarrow> bool" where
  "is_account (RetainFile p) = True"
| "is_account (ReleaseFile p) = True"
| "is_account (ReleaseFileStream i) = True"
| "is_account _ = False"

definition account_log :: "stream_conn \<Rightarrow> stream_msg list" where
  "account_log s = filter is_account (sc_log s)"

definition never_negative :: "stream_msg list \<Rightarrow> bool" where
  "never_negative ms \<longleftrightarrow> (\<forall>p k. 0 \<le> holds p (take k ms))"

lemma never_negative_Nil [simp]: "never_negative []"
  by (simp add: never_negative_def)

lemma never_negative_snoc: "never_negative ms \<Longrightarrow> \<forall>p. 0 \<le> holds p ms + hold_change p m \<Longrightarrow> never_negative (ms @ [m])"
  unfolding never_negative_def
proof (intro allI)
  fix p k
  assume "\<forall>p k. 0 \<le> holds p (take k ms)" "\<forall>p. 0 \<le> holds p ms + hold_change p m"
  then show "0 \<le> holds p (take k (ms @ [m]))"
    by (cases "k \<le> length ms") auto
qed

lemma account_log_simps [simp]:
  "account_log (send_msg m s) = account_log s @ (if is_account m then [m] else [])"
  "account_log (stop_actor s) = account_log s"
  by (simp_all add: account_log_def send_msg_def stop_actor_def)

text \<open>Two states that agree on everything the accounting looks at.\<close>

definition same_account :: "stream_conn \<Rightarrow> stream_conn \<Rightarrow> bool" where
  "same_account s t \<longleftrightarrow>
     account_log t = account_log s \<and> sc_local_path t = sc_local_path s \<and> sc_cleanup_manager t = sc_cleanup_manager s"

lemma same_account_refl [simp]: "same_account s s"
  by (simp add: same_account_def account_log_def)

lemma same_account_trans: "same_account s t \<Longrightarrow> same_account t u \<Longrightarrow> same_account s u"
  by (simp add: same_account_def account_log_def)

lemma same_abort: "same_account s (sc_abort e s)"
  by (simp add: sc_abort_def same_account_def account_log_def Let_def send_msg_def stop_actor_def)

lemma same_fail: "same_account s (sc_fail c m s)"
  using same_abort
  by (auto simp: sc_fail_def same_account_def account_log_def Let_def send_msg_def stop_actor_def split: checked.splits sum.splits)

lemma same_finish: "same_account s (sc_finish s)"
  using same_abort by (auto simp: sc_finish_def same_account_def account_log_def Let_def send_msg_def stop_actor_def)

lemma same_headers: "same_account s (send_headers s)"
  using same_fail by (auto simp: send_headers_def same_account_def account_log_def send_msg_def split: sum.splits)

lemma same_via:
  "same_account (s\<lparr>sc_local_file := f\<rparr>) t \<Longrightarrow> same_account s t" "same_account (s\<lparr>sc_cursor := c\<rparr>) t \<Longrightarrow> same_account s t"
  "same_account (s\<lparr>sc_read_in_flight := b\<rparr>) t \<Longrightarrow> same_account s t"
  "same_account (s\<lparr>sc_write_in_flight := b\<rparr>) t \<Longrightarrow> same_account s t"
  "same_account (s\<lparr>sc_download_completed := b\<rparr>) t \<Longrightarrow> same_account s t"
  "same_account (s\<lparr>sc_partial_response := b\<rparr>) t \<Longrightarrow> same_account s t"
  "same_account (s\<lparr>sc_first_byte_sent := b\<rparr>) t \<Longrightarrow> same_account s t"
  "same_account (s\<lparr>sc_pending_write_offset := n\<rparr>) t \<Longrightarrow> same_account s t"
  "same_account (s\<lparr>sc_pending_write_size := n\<rparr>) t \<Longrightarrow> same_account s t"
  "same_account (s\<lparr>sc_timeout := o'\<rparr>) t \<Longrightarrow> same_account s t"
  "same_account (send_msg TouchActivity s) t \<Longrightarrow> same_account s t"
  by (simp_all add: same_account_def account_log_def send_msg_def)

lemma same_file_data: "same_account s (on_file_data off r s)"
proof -
  have "same_account s (sc_abort e (s\<lparr>sc_read_in_flight := False\<rparr>))" for e
    by (rule same_via(3), rule same_abort)
  then show ?thesis
    by (auto simp: on_file_data_def Let_def same_account_def account_log_def send_msg_def split: sum.splits)
qed

lemma same_try_read: "same_account s (try_read io s)"
proof -
  have "same_account s (sc_abort e (s\<lparr>sc_local_file := f, sc_read_in_flight := b\<rparr>))"
    "same_account s (on_file_data off r (s\<lparr>sc_local_file := f, sc_read_in_flight := b\<rparr>))"
    "same_account s (s\<lparr>sc_local_file := f, sc_read_in_flight := b\<rparr>)" for e f b off r
    by (rule same_via(1), rule same_via(3), (rule same_abort same_file_data same_account_refl))+
  moreover have "same_account s (s\<lparr>sc_read_in_flight := False, sc_local_file := None\<rparr>)"
    by (simp add: same_account_def account_log_def)
  ultimately show ?thesis
    using same_abort same_finish by (auto simp: try_read_def Let_def split: sum.splits option.splits)
qed

definition hold_ok :: "stream_conn \<Rightarrow> bool" where
  "hold_ok s \<longleftrightarrow>
     (\<forall>p. holds p (account_log s) = (if sc_cleanup_manager s \<and> p = sc_local_path s \<and> p \<noteq> [] then 1 else 0)) \<and>
     releases (account_log s) = 0 \<and> never_negative (account_log s)"

lemma hold_ok_same: "hold_ok s \<Longrightarrow> same_account s t \<Longrightarrow> hold_ok t"
  by (simp add: hold_ok_def same_account_def)

lemma hold_ok_simps [simp]:
  "hold_ok (s\<lparr>sc_client := b\<rparr>) = hold_ok s" "hold_ok (s\<lparr>sc_file_id := f\<rparr>) = hold_ok s" "hold_ok (s\<lparr>sc_cursor := c\<rparr>) = hold_ok s"
  "hold_ok (s\<lparr>sc_local_file := h\<rparr>) = hold_ok s" "hold_ok (s\<lparr>sc_download_completed := b\<rparr>) = hold_ok s"
  by (simp_all add: hold_ok_def account_log_def)

text \<open>Giving up a file and taking another.\<close>

lemma hold_ok_release:
  assumes "hold_ok s" "sc_cleanup_manager s" "sc_local_path s \<noteq> []"
  shows "\<forall>p. holds p (account_log s @ [ReleaseFile (sc_local_path s)]) = 0"
    "never_negative (account_log s @ [ReleaseFile (sc_local_path s)])"
  using assms by (auto simp: hold_ok_def intro!: never_negative_snoc)

lemma hold_ok_switch:
  assumes "hold_ok s" "p \<noteq> []"
  shows "hold_ok (switch_path p s)"
proof -
  define ms where "ms = (if sc_local_path s \<noteq> [] \<and> sc_cleanup_manager s then account_log s @ [ReleaseFile (sc_local_path s)] else account_log s)"
  have log: "account_log (switch_path p s) = ms @ (if sc_cleanup_manager s then [RetainFile p] else [])"
    by (simp add: ms_def switch_path_def Let_def account_log_def send_msg_def)
  have ms: "\<forall>q. holds q ms = 0" "never_negative ms" "releases ms = 0"
    using assms(1) hold_ok_release [OF assms(1)] by (auto simp: ms_def hold_ok_def)
  have "never_negative (ms @ [RetainFile p])" using ms(1,2) by (intro never_negative_snoc) auto
  then show ?thesis
    using ms assms(2) unfolding hold_ok_def log by (simp add: switch_path_def Let_def send_msg_def)
qed

lemma hold_ok_start_response: "hold_ok s \<Longrightarrow> hold_ok (start_response io off n b s)"
proof -
  assume h: "hold_ok s"
  have "same_account s (start_response io off n b s)"
  proof (cases "parse_file_stream_range (route_range (sc_route s)) (total_size (sc_cursor s))")
    case (Inl e)
    then show ?thesis by (simp add: start_response_def same_fail)
  next
    case (Inr rng)
    define s4 where "s4 = s\<lparr>sc_partial_response := range_is_partial rng,
      sc_timeout := Some (cfg_first_byte_timeout (sc_config s)),
      sc_cursor := set_range (range_start rng) (range_end rng) (sc_cursor s)\<rparr>"
    have s4: "same_account s s4" by (simp add: s4_def same_account_def account_log_def)
    have "same_account s4 (sc_fail c m (s4\<lparr>sc_cursor := x, sc_download_completed := b\<rparr>))"
      "same_account s4 (send_headers (s4\<lparr>sc_cursor := x, sc_download_completed := b\<rparr>))"
      "same_account s4 (try_read io (send_headers (s4\<lparr>sc_cursor := x, sc_download_completed := b\<rparr>)))" for c m x
      by (rule same_via(2), rule same_via(5), rule same_fail same_headers same_account_trans [OF same_headers same_try_read])+
    then have "same_account s4 (start_response io off n b s)"
      using Inr same_fail [of s4]
      by (cases b) (auto simp: start_response_def Let_def s4_def [symmetric] split: sum.splits)
    then show ?thesis using s4 same_account_trans by blast
  qed
  then show ?thesis using h hold_ok_same by blast
qed

lemma hold_ok_ready: "hold_ok s \<Longrightarrow> hold_ok (on_file_ready io f t p off n b a s)"
proof -
  assume h: "hold_ok s"
  have h1: "hold_ok (s\<lparr>sc_file_id := f\<rparr>)" using h by simp
  define s2 where "s2 = (if p \<noteq> [] \<and> sc_local_path (s\<lparr>sc_file_id := f\<rparr>) \<noteq> p
      then switch_path p (s\<lparr>sc_file_id := f\<rparr>) else s\<lparr>sc_file_id := f\<rparr>)"
  have h2: "hold_ok s2" using h1 hold_ok_switch by (simp add: s2_def)
  have "hold_ok (s2\<lparr>sc_cursor := c\<rparr>)" for c using h2 by simp
  then show ?thesis
    using h h2 hold_ok_same [OF _ same_fail] hold_ok_start_response
    unfolding on_file_ready_def Let_def s2_def [symmetric] by simp
qed

lemma hold_ok_progress: "hold_ok s \<Longrightarrow> hold_ok (on_file_progress io t p off n b a s)"
proof -
  assume h: "hold_ok s"
  define s1 where "s1 = (if p \<noteq> [] \<and> sc_local_path s \<noteq> p then switch_path p (s\<lparr>sc_local_file := None\<rparr>) else s)"
  have "hold_ok (s\<lparr>sc_local_file := None\<rparr>)" using h by simp
  then have h1: "hold_ok s1" using h hold_ok_switch by (simp add: s1_def)
  then have "hold_ok (s1\<lparr>sc_cursor := c, sc_download_completed := d\<rparr>)" for c d by simp
  then have "hold_ok (sc_abort e (s1\<lparr>sc_cursor := c, sc_download_completed := d\<rparr>))"
    "hold_ok (try_read io (s1\<lparr>sc_cursor := c, sc_download_completed := d\<rparr>))" for c d e
    using hold_ok_same [OF _ same_abort] hold_ok_same [OF _ same_try_read] by blast+
  then show ?thesis
    using h h1 hold_ok_same [OF _ same_abort]
    unfolding on_file_progress_def Let_def s1_def [symmetric] by (auto split: sum.splits)
qed

lemma same_chunk_flushed: "same_account s (on_chunk_flushed io r s)"
proof (cases "sc_finished s")
  case True
  then show ?thesis by (simp add: on_chunk_flushed_def same_account_def account_log_def)
next
  case False
  have "same_account s (sc_abort e (s\<lparr>sc_write_in_flight := False\<rparr>))"
    "same_account s (sc_abort e (s\<lparr>sc_write_in_flight := False, sc_pending_write_offset := - 1, sc_pending_write_size := 0\<rparr>))" for e
    by (rule same_via(4), rule same_abort) (rule same_via(4), rule same_via(8), rule same_via(9), rule same_abort)
  moreover have "same_account s (try_read io u)" if "same_account s u" for u
    using same_account_trans [OF that same_try_read] .
  ultimately show ?thesis
    using False by (auto simp: on_chunk_flushed_def Let_def send_msg_def same_account_def account_log_def split: sum.splits)
qed

lemma same_headers_flushed: "same_account s (on_headers_flushed r s)"
  using same_abort by (auto simp: on_headers_flushed_def same_account_def account_log_def Let_def send_msg_def stop_actor_def split: sum.splits)

lemma same_error: "same_account s (on_file_error e s)"
  using same_abort same_fail by (simp add: on_file_error_def Let_def)

lemma hold_ok_handle: "hold_ok s \<Longrightarrow> hold_ok (handle_event io ev s)"
  by (cases ev)
     (auto simp: set_client_def sc_timeout_expired_def intro: hold_ok_ready hold_ok_progress
       hold_ok_same [OF _ same_chunk_flushed] hold_ok_same [OF _ same_headers_flushed] hold_ok_same [OF _ same_error])

text \<open>At the end nothing is held and the stream was released once.\<close>

definition account_inv :: "stream_conn \<Rightarrow> bool" where
  "account_inv s \<longleftrightarrow>
     (if sc_stopped s
      then (\<forall>p. holds p (account_log s) = 0) \<and> releases (account_log s) = 1 \<and> never_negative (account_log s)
      else hold_ok s)"

lemma tear_down_account:
  assumes "hold_ok s"
  shows "(\<forall>p. holds p (account_log (sc_tear_down s)) = 0) \<and> releases (account_log (sc_tear_down s)) = 1 \<and>
         never_negative (account_log (sc_tear_down s))"
proof -
  define ms where "ms = (if sc_local_path s \<noteq> [] \<and> sc_cleanup_manager s then account_log s @ [ReleaseFile (sc_local_path s)] else account_log s)"
  have log: "account_log (sc_tear_down s) = ms @ [ReleaseFileStream (sc_stream_id s)]"
    by (simp add: ms_def sc_tear_down_def Let_def account_log_def send_msg_def)
  have ms: "\<forall>q. holds q ms = 0" "never_negative ms" "releases ms = 0"
    using assms hold_ok_release [OF assms] by (auto simp: ms_def hold_ok_def)
  have "never_negative (ms @ [ReleaseFileStream (sc_stream_id s)])" using ms(1,2) by (intro never_negative_snoc) auto
  then show ?thesis using ms unfolding log by simp
qed

lemma reach_account:
  assumes "stream_reach good (sc_start_up os (new_stream_conn i b r cfg peer)) s"
  shows "account_inv s"
  using assms
proof (induction rule: stream_reach.induct)
  case stream_reach_init
  show ?case by (simp add: sc_start_up_def new_stream_conn_def account_inv_def hold_ok_def account_log_def send_msg_def Let_def)
next
  case (stream_reach_step s ev s')
  from stream_reach_step(2) obtain io where "\<not> sc_stopped s" "s' = deliver io ev s" by (auto elim: stream_stepE)
  moreover have "hold_ok (handle_event io ev s)"
    using calculation stream_reach_step(3) hold_ok_handle by (simp add: account_inv_def)
  moreover have "sc_stopped (sc_tear_down t) = sc_stopped t" for t by (simp add: sc_tear_down_def send_msg_def Let_def)
  ultimately show ?case using tear_down_account by (auto simp: deliver_def Let_def account_inv_def)
qed

section \<open>No message aborts the process\<close>

lemma ascii_utf8: "\<forall>c \<in> set s. code c < 128 \<Longrightarrow> check_utf8 s"
proof -
  have "check_utf8_bytes (bs @ [0])" if "\<forall>b \<in> set bs. b < 128" for bs
    using that
  proof (induction bs)
    case (Cons a bs)
    have "a AND 128 = 0" using Cons.prems by (simp add: high_bit)
    then show ?case using Cons by simp
  qed simp
  then show "\<forall>c \<in> set s. code c < 128 \<Longrightarrow> check_utf8 s" by (simp add: check_utf8_def)
qed

lemma crashed_fail: "check_utf8 m \<Longrightarrow> sc_crashed (sc_fail c m s) = sc_crashed s"
  using json_query_error_utf8 [of m c]
  by (auto simp: sc_fail_def sc_abort_def send_msg_def stop_actor_def Let_def split: checked.splits sum.splits)

lemma literal_utf8:
  "check_utf8 ''Invalid file metadata received from TDLib''" "check_utf8 ''File is too large for this build''"
  "check_utf8 ''File is too large for the streaming endpoint''" "check_utf8 ''Range Not Satisfiable''"
  "check_utf8 ''Inconsistent file download progress''"
  "check_utf8 ''Telegram download completed with an incomplete file''"
  "check_utf8 ''Failed to create streaming response headers''"
  "check_utf8 ''File stream stalled''" "check_utf8 ''File stream first byte timeout''"
  by (rule ascii_utf8, simp add: code_def)+

lemma crashed_abort [simp]: "sc_crashed (sc_abort e s) = sc_crashed s"
  by (simp add: sc_abort_def send_msg_def stop_actor_def Let_def)

lemma crashed_finish [simp]: "sc_crashed (sc_finish s) = sc_crashed s"
  by (simp add: sc_finish_def send_msg_def stop_actor_def Let_def)

lemma crashed_try_read [simp]: "sc_crashed (try_read io s) = sc_crashed s"
  by (auto simp: try_read_def on_file_data_def send_msg_def Let_def split: sum.splits option.splits)

lemma crashed_headers [simp]: "sc_crashed (send_headers s) = sc_crashed s"
  by (auto simp: send_headers_def send_msg_def crashed_fail literal_utf8 split: sum.splits)

lemma crashed_switch [simp]: "sc_crashed (switch_path p s) = sc_crashed s"
  by (simp add: switch_path_def send_msg_def Let_def)

lemma update_progress_message: "update_progress off n b c = Inl e \<Longrightarrow> check_utf8 (status_message e)"
  by (auto simp: update_progress_def Let_def literal_utf8 split: if_splits)

lemma crashed_start_response [simp]: "sc_crashed (start_response io off n b s) = sc_crashed s"
  by (auto simp: start_response_def Let_def crashed_fail literal_utf8 dest: update_progress_message split: sum.splits)

fun utf8_event :: "stream_event \<Rightarrow> bool" where
  "utf8_event (FileError e) = check_utf8 (status_message e)"
| "utf8_event _ = True"

lemma crashed_error: "check_utf8 (status_message e) \<Longrightarrow> sc_crashed (on_file_error e s) = sc_crashed s"
  by (simp add: on_file_error_def Let_def crashed_fail)

lemma crashed_handle: "utf8_event ev \<Longrightarrow> sc_crashed (handle_event io ev s) = sc_crashed s"
proof (cases ev)
  case (FileReady f t p off n b a)
  then show ?thesis by (simp add: on_file_ready_def Let_def crashed_fail literal_utf8)
next
  case (FileProgress t p off n b a)
  then show ?thesis by (auto simp: on_file_progress_def Let_def split: sum.splits)
next
  case (ChunkFlushed r)
  then show ?thesis by (auto simp: on_chunk_flushed_def Let_def send_msg_def split: sum.splits)
next
  case (HeadersFlushed r)
  then show ?thesis by (auto simp: on_headers_flushed_def Let_def send_msg_def stop_actor_def split: sum.splits)
qed (simp_all add: set_client_def sc_timeout_expired_def crashed_error literal_utf8)

section \<open>A downloaded file is delivered\<close>

text \<open>A file system on which the file is complete and readable.\<close>

definition full_reads :: "string \<Rightarrow> file_io \<Rightarrow> bool" where
  "full_reads content io \<longleftrightarrow>
     (\<forall>p. io_open io p = Ok ()) \<and>
     (\<forall>f off n. 0 \<le> off \<longrightarrow> 0 \<le> n \<longrightarrow> off + n \<le> int (length content) \<longrightarrow> io_pread io f off n = Ok (slice_of content off n))"

definition deliverable :: "string \<Rightarrow> stream_conn \<Rightarrow> bool" where
  "deliverable content s \<longleftrightarrow>
     live s \<and> ready content s \<and> sc_write_in_flight s \<and> sc_local_path s \<noteq> [] \<and> 0 < effective_chunk_size s \<and>
     contiguous_end (sc_cursor s) = total_size (sc_cursor s) \<and> total_size (sc_cursor s) = int (length content)"

text \<open>The state before a read from a completely downloaded file.\<close>

definition readable :: "string \<Rightarrow> stream_conn \<Rightarrow> bool" where
  "readable content s \<longleftrightarrow>
     live s \<and> ready content s \<and> \<not> sc_write_in_flight s \<and> \<not> is_complete (sc_cursor s) \<and> sc_local_path s \<noteq> [] \<and>
     0 < effective_chunk_size s \<and> contiguous_end (sc_cursor s) = total_size (sc_cursor s) \<and>
     total_size (sc_cursor s) = int (length content)"

lemma read_deliverable:
  assumes "readable content u" "full_reads content io"
  defines "t \<equiv> try_read io u"
  shows "deliverable content t \<and> \<not> sc_stopped t \<and> next_offset (sc_cursor t) = next_offset (sc_cursor u) \<and>
     end_offset (sc_cursor t) = end_offset (sc_cursor u)"
proof -
  let ?c = "sc_cursor u"
  let ?n = "next_read_size (effective_chunk_size u) ?c"
  have u: "live u" "ready content u" "\<not> sc_write_in_flight u" "\<not> is_complete ?c" "sc_local_path u \<noteq> []"
      "0 < effective_chunk_size u" "contiguous_end ?c = total_size ?c" "total_size ?c = int (length content)"
    using assms(1) by (simp_all add: readable_def)
  have inv: "cursor_inv ?c" using u by (simp add: ready_def)
  have "0 < ?n"
    using u inv next_read_size_0_iff [OF inv u(6)] next_read_size_nonneg [of "effective_chunk_size u" ?c]
    by (auto simp: cursor_inv_def is_complete_def)
  moreover from this have "next_offset ?c + ?n \<le> int (length content)"
    using next_read_size_fits [of "effective_chunk_size u" ?c] u by auto
  moreover have "0 \<le> next_offset ?c" using inv by (auto simp: cursor_inv_def)
  ultimately have n: "0 < ?n" "io_open io p = Ok ()" "io_pread io f (next_offset ?c) ?n = Ok (slice_of content (next_offset ?c) ?n)"
      "length (slice_of content (next_offset ?c) ?n) = nat ?n" for p f
    using assms(2) by (auto simp: full_reads_def slice_of_def)
  define f where "f = (case sc_local_file u of Some f \<Rightarrow> f | None \<Rightarrow> sc_local_path u)"
  have t: "t = write_chunk f (slice_of content (next_offset ?c) ?n) u"
    using u n inv unfolding t_def
    by (auto simp: try_read_def Let_def live_def cursor_inv_def on_file_data_def write_chunk_def
        effective_chunk_size_def f_def unset_read_in_flight split: option.splits)
  have "ready content t"
    unfolding t
  proof (rule write_chunk_ready)
    show "reads_from content \<lparr>io_open = io_open io, io_pread = (\<lambda>f off n. if off = next_offset ?c \<and> n = ?n then Ok (slice_of content off n) else Error 0 [])\<rparr>"
      using n by (auto simp: reads_from_def)
  qed (use u n in auto)
  then show ?thesis
    using u unfolding t
    by (auto simp: deliverable_def write_chunk_def send_msg_def live_def effective_chunk_size_def)
qed

lemma flush_step:
  assumes "deliverable content s" "full_reads content io"
  defines "t \<equiv> deliver io (ChunkFlushed (Ok ())) s"
  shows "sc_completed_ok t \<or>
     (deliverable content t \<and> next_offset (sc_cursor t) > next_offset (sc_cursor s) \<and> end_offset (sc_cursor t) = end_offset (sc_cursor s))"
proof -
  let ?u = "flushed s"
  let ?c = "sc_cursor ?u"
  have d: "live s" "ready content s" "sc_write_in_flight s" using assms(1) by (auto simp: deliverable_def)
  have u: "handle_event io (ChunkFlushed (Ok ())) s = try_read io ?u" "live ?u" "ready content ?u" "\<not> sc_write_in_flight ?u"
    using chunk_flushed_ready [OF d] by (auto simp: flushed_def send_msg_def)
  have next_u: "next_offset (sc_cursor s) < next_offset ?c" "end_offset ?c = end_offset (sc_cursor s)"
    using d by (auto simp: flushed_def send_msg_def ready_def)
  have same: "sc_local_path ?u = sc_local_path s" "effective_chunk_size ?u = effective_chunk_size s"
      "contiguous_end ?c = total_size ?c" "total_size ?c = int (length content)"
    using assms(1) by (auto simp: flushed_def send_msg_def deliverable_def effective_chunk_size_def)
  have inv: "cursor_inv ?c" using u by (simp add: ready_def)
  show ?thesis
  proof (cases "is_complete ?c")
    case True
    have "try_read io ?u = sc_finish ?u" using u True inv by (simp add: try_read_def live_def cursor_inv_def)
    moreover have "sc_completed_ok (sc_finish ?u)"
      using u True by (simp add: sc_finish_def live_def Let_def send_msg_def stop_actor_def)
    ultimately have "sc_completed_ok t"
      unfolding t_def deliver_def Let_def u(1) by (simp add: sc_tear_down_def send_msg_def Let_def)
    then show ?thesis ..
  next
    case False
    then have "readable content ?u" using u same assms(1) by (simp add: readable_def deliverable_def)
    note r = read_deliverable [OF this assms(2)]
    then have "deliverable content t" "next_offset (sc_cursor t) = next_offset ?c" "end_offset (sc_cursor t) = end_offset ?c"
      unfolding t_def deliver_def Let_def u(1) by simp_all
    then show ?thesis using next_u by simp
  qed
qed

lemma flush_completes:
  assumes "deliverable content s" "full_reads content io"
  shows "\<exists>n. n \<le> nat (end_offset (sc_cursor s) + 1 - next_offset (sc_cursor s)) \<and>
             sc_completed_ok ((deliver io (ChunkFlushed (Ok ())) ^^ n) s)"
  using assms(1)
proof (induction "nat (end_offset (sc_cursor s) + 1 - next_offset (sc_cursor s))" arbitrary: s rule: less_induct)
  case less
  let ?t = "deliver io (ChunkFlushed (Ok ())) s"
  have bound: "next_offset (sc_cursor s) < end_offset (sc_cursor s) + 1"
    using less.prems by (auto simp: deliverable_def ready_def)
  from flush_step [OF less.prems assms(2)] show ?case
  proof
    assume "sc_completed_ok ?t"
    then show ?thesis using bound by (intro exI [of _ 1]) simp
  next
    assume t: "deliverable content ?t \<and> next_offset (sc_cursor ?t) > next_offset (sc_cursor s) \<and>
        end_offset (sc_cursor ?t) = end_offset (sc_cursor s)"
    then obtain n where "n \<le> nat (end_offset (sc_cursor ?t) + 1 - next_offset (sc_cursor ?t))"
        "sc_completed_ok ((deliver io (ChunkFlushed (Ok ())) ^^ n) ?t)"
      using less.hyps [of ?t] bound by fastforce
    then show ?thesis
      using t bound by (intro exI [of _ "Suc n"]) (auto simp: funpow_swap1)
  qed
qed

end
