(* ===== verification/Td_Flood.thy ===== *)
theory Td_Flood
  imports Prelude
begin

text \<open>
  \<^verbatim>\<open>FloodControlFast\<close> and \<^verbatim>\<open>TimedStat\<close> of \<^verbatim>\<open>td/tdutils/td/utils\<close>.  Times and volumes are real numbers:
  the rounding of \<^verbatim>\<open>double\<close> is not modelled.  \<open>flood_rate_bound\<close> bounds the events that a bucket accepts
  in any interval of time.
\<close>

record flood_bucket =
  fb_max_capacity :: real
  fb_speed :: real
  fb_volume :: real
  fb_volume_at :: real
  fb_wakeup_at :: real

record flood_control =
  fc_wakeup_at :: real
  fc_buckets :: "flood_bucket list"

definition new_bucket :: "real \<Rightarrow> real \<Rightarrow> flood_bucket" where
  "new_bucket duration count =
     \<lparr>fb_max_capacity = count - 1, fb_speed = count / duration, fb_volume = count - 1, fb_volume_at = 0, fb_wakeup_at = 0\<rparr>"

definition update_volume :: "real \<Rightarrow> flood_bucket \<Rightarrow> flood_bucket checked" where
  "update_volume now b =
     (if now < fb_volume_at b then CheckFailed
      else (let passed = now - fb_volume_at b
            in Checked (b\<lparr>fb_volume := min (fb_volume b + passed * fb_speed b) (fb_max_capacity b), fb_volume_at := now\<rparr>)))"

definition bucket_add_event :: "real \<Rightarrow> flood_bucket \<Rightarrow> flood_bucket checked" where
  "bucket_add_event now b0 =
     (if now < fb_wakeup_at b0 then CheckFailed
      else (case update_volume now b0 of
        CheckFailed \<Rightarrow> CheckFailed
      | Checked b \<Rightarrow>
          (if fb_volume b \<ge> 1 then Checked (b\<lparr>fb_volume := fb_volume b - 1\<rparr>)
           else (let rest = 1 - fb_volume b;
                     wakeup = fb_volume_at b + rest / fb_speed b
                 in Checked (b\<lparr>fb_volume := 0, fb_wakeup_at := wakeup, fb_volume_at := wakeup\<rparr>)))))"

definition bucket_clear :: "flood_bucket \<Rightarrow> flood_bucket" where
  "bucket_clear b = b\<lparr>fb_volume := fb_max_capacity b, fb_volume_at := 0, fb_wakeup_at := 0\<rparr>"

definition new_flood_control :: flood_control where
  "new_flood_control = \<lparr>fc_wakeup_at = 0, fc_buckets = []\<rparr>"

fun add_event_loop :: "real \<Rightarrow> real \<Rightarrow> flood_bucket list \<Rightarrow> (real \<times> flood_bucket list) checked" where
  "add_event_loop now wakeup [] = Checked (wakeup, [])"
| "add_event_loop now wakeup (b # bs) =
     (case bucket_add_event now b of
        CheckFailed \<Rightarrow> CheckFailed
      | Checked b' \<Rightarrow>
          (case add_event_loop now (max wakeup (fb_wakeup_at b')) bs of
             CheckFailed \<Rightarrow> CheckFailed
           | Checked (w, bs') \<Rightarrow> Checked (w, b' # bs')))"

definition fc_add_event :: "real \<Rightarrow> flood_control \<Rightarrow> flood_control checked" where
  "fc_add_event now fc =
     (case add_event_loop now (fc_wakeup_at fc) (fc_buckets fc) of
        CheckFailed \<Rightarrow> CheckFailed
      | Checked (w, bs) \<Rightarrow> Checked (fc\<lparr>fc_wakeup_at := w, fc_buckets := bs\<rparr>))"

definition get_wakeup_at :: "flood_control \<Rightarrow> real" where
  "get_wakeup_at fc = fc_wakeup_at fc"

definition add_limit :: "real \<Rightarrow> real \<Rightarrow> flood_control \<Rightarrow> flood_control" where
  "add_limit duration count fc = fc\<lparr>fc_buckets := fc_buckets fc @ [new_bucket duration count]\<rparr>"

definition clear_events :: "flood_control \<Rightarrow> flood_control" where
  "clear_events fc = \<lparr>fc_wakeup_at = 0, fc_buckets = map bucket_clear (fc_buckets fc)\<rparr>"

section \<open>The rate a bucket admits\<close>

text \<open>
  The credit of a bucket at a time: it grows with the speed, is capped by the capacity and each event
  takes one unit.  After an event that had to be anticipated it is negative until \<^verbatim>\<open>wakeup_at_\<close>.
\<close>

definition credit :: "flood_bucket \<Rightarrow> real \<Rightarrow> real" where
  "credit b t = fb_volume b + (t - fb_volume_at b) * fb_speed b"

definition bucket_inv :: "flood_bucket \<Rightarrow> bool" where
  "bucket_inv b \<longleftrightarrow>
     0 < fb_speed b \<and> 0 \<le> fb_max_capacity b \<and> 0 \<le> fb_volume b \<and> fb_volume b \<le> fb_max_capacity b"

lemma new_bucket_inv: "0 < d \<Longrightarrow> 1 \<le> n \<Longrightarrow> bucket_inv (new_bucket d n)"
  by (simp add: bucket_inv_def new_bucket_def)

lemma update_volume_credit:
  assumes "update_volume t b = Checked b'" "bucket_inv b"
  shows "bucket_inv b' \<and> fb_volume_at b' = t \<and> fb_speed b' = fb_speed b \<and> fb_max_capacity b' = fb_max_capacity b \<and>
         fb_wakeup_at b' = fb_wakeup_at b \<and> fb_volume b' = min (credit b t) (fb_max_capacity b) \<and> fb_volume_at b \<le> t"
  using assms by (auto simp: update_volume_def bucket_inv_def credit_def Let_def split: if_splits)

lemma bucket_event:
  assumes "bucket_add_event t b = Checked b'" "bucket_inv b"
  shows "bucket_inv b' \<and> fb_speed b' = fb_speed b \<and> fb_max_capacity b' = fb_max_capacity b \<and>
         fb_volume_at b \<le> t \<and> t \<le> fb_volume_at b' \<and>
         credit b' u \<le> credit b u - 1 \<and> credit b' u \<le> fb_max_capacity b - 1 + (u - t) * fb_speed b \<and> - 1 \<le> credit b' t"
proof -
  obtain b1 where b1: "update_volume t b = Checked b1" and t: "fb_wakeup_at b \<le> t"
    using assms(1) by (auto simp: bucket_add_event_def split: checked.splits if_splits)
  note u1 = update_volume_credit [OF b1 assms(2)]
  have s: "0 < fb_speed b" using assms(2) by (simp add: bucket_inv_def)
  have cu: "credit b u = credit b t + (u - t) * fb_speed b" by (simp add: credit_def algebra_simps)
  show ?thesis
  proof (cases "fb_volume b1 \<ge> 1")
    case True
    then have b': "b' = b1\<lparr>fb_volume := fb_volume b1 - 1\<rparr>"
      using assms(1) b1 t by (simp add: bucket_add_event_def)
    have "credit b' u = min (credit b t) (fb_max_capacity b) - 1 + (u - t) * fb_speed b"
      and "credit b' t = min (credit b t) (fb_max_capacity b) - 1"
      using u1 by (simp_all add: credit_def b')
    then show ?thesis using u1 True by (auto simp: b' bucket_inv_def cu)
  next
    case False
    define w where "w = t + (1 - fb_volume b1) / fb_speed b"
    have at: "fb_volume_at b1 = t" "fb_speed b1 = fb_speed b" using u1 by simp_all
    have b': "b' = b1\<lparr>fb_volume := 0, fb_wakeup_at := w, fb_volume_at := w\<rparr>"
      using assms(1) b1 t False by (simp add: bucket_add_event_def w_def Let_def at)
    have w: "(w - t) * fb_speed b = 1 - fb_volume b1" "t \<le> w"
      using s False by (simp_all add: w_def)
    have "credit b' u = (u - t) * fb_speed b - (w - t) * fb_speed b"
      using u1 by (simp add: credit_def b' algebra_simps)
    then have "credit b' u = min (credit b t) (fb_max_capacity b) - 1 + (u - t) * fb_speed b"
      using w u1 by simp
    moreover have "credit b' t = fb_volume b1 - 1"
      using u1 w by (simp add: credit_def b' algebra_simps)
    ultimately show ?thesis
      using u1 w by (auto simp: b' bucket_inv_def cu)
  qed
qed

text \<open>A run of accepted events at the given times.\<close>

fun accepts :: "flood_bucket \<Rightarrow> real list \<Rightarrow> flood_bucket option" where
  "accepts b [] = Some b"
| "accepts b (t # ts) = (case bucket_add_event t b of CheckFailed \<Rightarrow> None | Checked b' \<Rightarrow> accepts b' ts)"

lemma accepts_credit:
  assumes "accepts b ts = Some b'" "bucket_inv b" "ts \<noteq> []" "\<forall>t \<in> set ts. t0 \<le> t"
  shows "credit b' u \<le> fb_max_capacity b + (u - t0) * fb_speed b - real (length ts) \<and> - 1 \<le> credit b' (last ts)"
  using assms
proof (induction ts arbitrary: b)
  case (Cons t ts)
  then obtain b1 where b1: "bucket_add_event t b = Checked b1" "accepts b1 ts = Some b'"
    by (auto split: checked.splits)
  note e = bucket_event [OF b1(1) Cons.prems(2)]
  have cr: "credit b1 u \<le> fb_max_capacity b - 1 + (u - t) * fb_speed b" "- 1 \<le> credit b1 t" "bucket_inv b1"
      "fb_speed b1 = fb_speed b" "fb_max_capacity b1 = fb_max_capacity b"
    using e [of u] e [of t] by auto
  have s: "(u - t) * fb_speed b \<le> (u - t0) * fb_speed b"
    using Cons.prems(2,4) by (intro mult_right_mono) (auto simp: bucket_inv_def)
  show ?case
  proof (cases "ts = []")
    case True
    then show ?thesis using b1 cr s by simp
  next
    case False
    have drop: "accepts c us = Some c' \<Longrightarrow> bucket_inv c \<Longrightarrow> credit c' v \<le> credit c v - real (length us)" for c us c' v
    proof (induction us arbitrary: c)
      case (Cons x us)
      then obtain c1 where c1: "bucket_add_event x c = Checked c1" "accepts c1 us = Some c'"
        by (auto split: checked.splits)
      have "credit c' v \<le> credit c1 v - real (length us)" "credit c1 v \<le> credit c v - 1"
        using Cons.IH c1 bucket_event [OF c1(1) Cons.prems(2)] by blast+
      then show ?case by simp
    qed simp
    have "- 1 \<le> credit b' (last ts)" using Cons.IH [OF b1(2) cr(3) False] Cons.prems(4) by simp
    then show ?thesis
      using drop [OF b1(2) cr(3), of u] cr(1) s False by simp
  qed
qed simp

text \<open>
  A bucket for \<open>n\<close> events per \<open>d\<close> seconds never admits more events than \<open>n\<close> plus what the elapsed time refills,
  however the events are spaced.
\<close>

theorem flood_rate_bound:
  assumes "accepts (new_bucket d n) ts = Some b" "0 < d" "1 \<le> n" "\<forall>t \<in> set ts. t0 \<le> t" "ts \<noteq> []"
  shows "real (length ts) \<le> n + n * (last ts - t0) / d"
  using accepts_credit [OF assms(1) new_bucket_inv [OF assms(2,3)] assms(5,4), of "last ts"]
  by (simp add: new_bucket_def algebra_simps diff_divide_distrib)

theorem flood_rate_bound_witness:
  "accepts (new_bucket 10 2) [100, 100] \<noteq> None \<and> real (length [100, 100 :: real]) \<le> 2 + 2 * (last [100, 100] - 100) / 10"
proof -
  have "accepts (new_bucket 10 2) [100, 100] \<noteq> None"
    by (simp add: new_bucket_def bucket_add_event_def update_volume_def Let_def)
  then show ?thesis using flood_rate_bound [of 10 2 "[100, 100]" _ 100] by auto
qed

section \<open>Statistics over a sliding window\<close>

text \<open>\<^verbatim>\<open>TimedStat<StatT>\<close>: \<open>empty\<close> is \<^verbatim>\<open>StatT()\<close> and \<open>on_event\<close> its method.\<close>

record 'a timed_stat =
  ts_duration :: real
  ts_current :: 'a
  ts_current_timestamp :: real
  ts_next :: 'a
  ts_next_timestamp :: real

definition new_timed_stat :: "'a \<Rightarrow> real \<Rightarrow> real \<Rightarrow> 'a timed_stat" where
  "new_timed_stat e duration now =
     \<lparr>ts_duration = duration, ts_current = e, ts_current_timestamp = now - 1, ts_next = e, ts_next_timestamp = now\<rparr>"

definition ts_update :: "'a \<Rightarrow> real \<Rightarrow> 'a timed_stat \<Rightarrow> real \<times> 'a timed_stat" where
  "ts_update e now0 s =
     (let now = (if now0 < ts_next_timestamp s then ts_next_timestamp s else now0)
      in if ts_duration s = 0 then (now, s)
         else if ts_next_timestamp s + 2 * ts_duration s < now
         then (now, s\<lparr>ts_current := e, ts_current_timestamp := now - ts_duration s, ts_next := e, ts_next_timestamp := now\<rparr>)
         else if ts_next_timestamp s + ts_duration s < now
         then (now, s\<lparr>ts_current := ts_next s, ts_current_timestamp := ts_next_timestamp s, ts_next := e, ts_next_timestamp := now\<rparr>)
         else (now, s))"

definition ts_add_event :: "'a \<Rightarrow> ('e \<Rightarrow> 'a \<Rightarrow> 'a) \<Rightarrow> 'e \<Rightarrow> real \<Rightarrow> 'a timed_stat \<Rightarrow> 'a timed_stat" where
  "ts_add_event e on_event x now s =
     (let (_, s1) = ts_update e now s
      in s1\<lparr>ts_current := on_event x (ts_current s1), ts_next := on_event x (ts_next s1)\<rparr>)"

definition ts_get_stat :: "'a \<Rightarrow> real \<Rightarrow> 'a timed_stat \<Rightarrow> 'a \<times> 'a timed_stat" where
  "ts_get_stat e now s = (let (_, s1) = ts_update e now s in (ts_current s1, s1))"

definition stat_duration :: "'a \<Rightarrow> real \<Rightarrow> 'a timed_stat \<Rightarrow> ('a \<times> real) \<times> 'a timed_stat" where
  "stat_duration e now0 s =
     (let (now, s1) = ts_update e now0 s in ((ts_current s1, now - ts_current_timestamp s1), s1))"

definition ts_clear_events :: "('a \<Rightarrow> 'a) \<Rightarrow> 'a timed_stat \<Rightarrow> 'a timed_stat" where
  "ts_clear_events clear s = s\<lparr>ts_current := clear (ts_current s), ts_next := clear (ts_next s)\<rparr>"

text \<open>Once a window has passed, the reported statistics reach back at least one and at most two durations.\<close>

definition ts_inv :: "'a timed_stat \<Rightarrow> bool" where
  "ts_inv s \<longleftrightarrow> 0 < ts_duration s \<and> ts_current_timestamp s \<le> ts_next_timestamp s"

lemma ts_update_inv: "ts_inv s \<Longrightarrow> ts_inv (snd (ts_update e now s))"
  by (auto simp: ts_update_def ts_inv_def Let_def)

lemma ts_update_window:
  assumes "ts_update e now0 s = (now, s')" "ts_inv s"
  shows "ts_next_timestamp s' \<le> now \<and> now \<le> ts_next_timestamp s' + ts_duration s' \<and> now0 \<le> now"
  using assms by (auto simp: ts_update_def ts_inv_def Let_def split: if_splits)

end
