(* ===== verification/Td_Container.thy ===== *)
theory Td_Container
  imports Prelude
begin

unbundle bit_operations_syntax

text \<open>
  \<^verbatim>\<open>td::Container\<close> of \<^verbatim>\<open>td/tdutils/td/utils/Container.h\<close>: objects in slots that are used again, reached
  through identifiers that carry the generation of the slot.  The upper 24 bits of a generation count
  the uses of the slot, the lower 8 bits are a type.  \<open>dead_stays_dead\<close>: an identifier that was erased
  never resolves again.
\<close>

record 'a slot =
  slot_generation :: "32 word"
  slot_data :: "'a option"

record 'a container =
  slots :: "'a slot list"
  empty_slots :: "nat list"

definition new_container :: "'a container" where
  "new_container = \<lparr>slots = [], empty_slots = []\<rparr>"

abbreviation GENERATION_STEP :: "32 word" where
  "GENERATION_STEP \<equiv> 256"

abbreviation TYPE_MASK :: "32 word" where
  "TYPE_MASK \<equiv> 255"

text \<open>An identifier is the slot in the upper half and the generation in the lower half.\<close>

type_synonym container_id = "nat \<times> 32 word"

definition encode_id :: "'a container \<Rightarrow> nat \<Rightarrow> container_id" where
  "encode_id c i = (i, slot_generation (slots c ! i))"

definition decode_id :: "'a container \<Rightarrow> container_id \<Rightarrow> nat option" where
  "decode_id c cid =
     (case cid of (i, g) \<Rightarrow>
        (if i \<ge> length (slots c) then None
         else if g \<noteq> slot_generation (slots c ! i) then None
         else Some i))"

definition inc_generation :: "nat \<Rightarrow> 'a container \<Rightarrow> 'a container" where
  "inc_generation i c =
     c\<lparr>slots := (slots c)[i := (slots c ! i)\<lparr>slot_generation := slot_generation (slots c ! i) + GENERATION_STEP\<rparr>]\<rparr>"

definition release_slot :: "nat \<Rightarrow> 'a container \<Rightarrow> 'a container" where
  "release_slot i c0 =
     (let c1 = inc_generation i c0;
          c2 = c1\<lparr>slots := (slots c1)[i := (slots c1 ! i)\<lparr>slot_data := None\<rparr>]\<rparr>
      in if slot_generation (slots c2 ! i) AND NOT TYPE_MASK \<noteq> 0
         then c2\<lparr>empty_slots := empty_slots c2 @ [i]\<rparr> else c2)"

definition store_slot :: "'a \<Rightarrow> 8 word \<Rightarrow> 'a container \<Rightarrow> (nat \<times> 'a container) checked" where
  "store_slot x type c =
     (if empty_slots c \<noteq> []
      then (let pos = last (empty_slots c);
                g = slot_generation (slots c ! pos)
            in Checked (pos, c\<lparr>empty_slots := butlast (empty_slots c),
                               slots := (slots c)[pos := \<lparr>slot_generation = g XOR ((g AND TYPE_MASK) XOR ucast type),
                                                          slot_data = Some x\<rparr>]\<rparr>))
      else if length (slots c) > 2147483647 then CheckFailed
      else Checked (length (slots c),
                    c\<lparr>slots := slots c @ [\<lparr>slot_generation = GENERATION_STEP + ucast type, slot_data = Some x\<rparr>]\<rparr>))"

definition container_get :: "'a container \<Rightarrow> container_id \<Rightarrow> 'a option option" where
  "container_get c cid = map_option (\<lambda>i. slot_data (slots c ! i)) (decode_id c cid)"

definition container_erase :: "container_id \<Rightarrow> 'a container \<Rightarrow> 'a container" where
  "container_erase cid c = (case decode_id c cid of None \<Rightarrow> c | Some i \<Rightarrow> release_slot i c)"

definition container_extract :: "container_id \<Rightarrow> 'a container \<Rightarrow> ('a option \<times> 'a container) checked" where
  "container_extract cid c =
     (case decode_id c cid of None \<Rightarrow> CheckFailed | Some i \<Rightarrow> Checked (slot_data (slots c ! i), release_slot i c))"

definition container_create :: "'a \<Rightarrow> 8 word \<Rightarrow> 'a container \<Rightarrow> (container_id \<times> 'a container) checked" where
  "container_create x type c =
     (case store_slot x type c of CheckFailed \<Rightarrow> CheckFailed | Checked (i, c') \<Rightarrow> Checked (encode_id c' i, c'))"

definition container_reset_id :: "container_id \<Rightarrow> 'a container \<Rightarrow> (container_id \<times> 'a container) checked" where
  "container_reset_id cid c =
     (case decode_id c cid of None \<Rightarrow> CheckFailed
      | Some i \<Rightarrow> (let c' = inc_generation i c in Checked (encode_id c' i, c')))"

definition container_ids :: "'a container \<Rightarrow> container_id list" where
  "container_ids c = map (encode_id c) (filter (\<lambda>i. i \<notin> set (empty_slots c)) [0..<length (slots c)])"

definition container_size :: "'a container \<Rightarrow> nat checked" where
  "container_size c =
     (if length (empty_slots c) > length (slots c) then CheckFailed
      else Checked (length (slots c) - length (empty_slots c)))"

section \<open>Identifiers are never used twice\<close>

text \<open>The uses of a slot, as counted by the upper 24 bits of its generation.\<close>

definition uses :: "32 word \<Rightarrow> nat" where
  "uses g = unat g div 256"

definition container_inv :: "'a container \<Rightarrow> bool" where
  "container_inv c \<longleftrightarrow>
     distinct (empty_slots c) \<and>
     (\<forall>i \<in> set (empty_slots c). i < length (slots c) \<and> slot_data (slots c ! i) = None \<and>
        uses (slot_generation (slots c ! i)) \<noteq> 0)"

lemma uses_step: "uses (g + GENERATION_STEP) = (if uses g = 2 ^ 24 - 1 then 0 else Suc (uses g))"
proof -
  define n where "n = unat g"
  have n: "n < 2 ^ 32" unfolding n_def by (rule order.strict_trans2 [OF unsigned_less]) simp
  have "unat (g + 256) = (n + 256) mod 2 ^ 32"
    by (simp add: unat_word_ariths n_def)
  moreover have "n div 256 \<le> 2 ^ 24 - 1" using n by (simp add: div_le_dividend less_mult_imp_div_less)
  moreover have "(n + 256) div 256 = Suc (n div 256)" by simp
  moreover have "n + 256 < 2 ^ 32 \<longleftrightarrow> n div 256 \<noteq> 2 ^ 24 - 1"
  proof -
    have "n = 256 * (n div 256) + n mod 256" "n mod 256 < 256" by simp_all
    then show ?thesis using n by auto
  qed
  moreover have "(n + 256) mod 2 ^ 32 div 256 = 0" if "\<not> n + 256 < 2 ^ 32"
  proof -
    have "(n + 256) mod 2 ^ 32 = n + 256 - 2 ^ 32"
      using that n by (simp add: mod_if)
    then show ?thesis using n by simp
  qed
  ultimately show ?thesis
    unfolding uses_def n_def [symmetric] by auto
qed

lemma uses_mask: "g AND NOT TYPE_MASK = 0 \<longleftrightarrow> uses g = 0"
proof -
  have m: "TYPE_MASK = mask 8" by (simp add: mask_eq_exp_minus_1)
  have "g AND NOT (mask 8) = push_bit 8 (drop_bit 8 g)"
    by (rule bit_word_eqI) (auto simp: bit_simps)
  then have "g AND NOT TYPE_MASK = push_bit 8 (drop_bit 8 g)" by (simp only: m)
  moreover have "push_bit 8 (drop_bit 8 g) = 0 \<longleftrightarrow> drop_bit 8 g = 0"
  proof
    assume "push_bit 8 (drop_bit 8 g) = 0"
    then have "drop_bit 8 (push_bit 8 (drop_bit 8 g)) = 0" by simp
    moreover have "drop_bit 8 (push_bit 8 (drop_bit 8 g)) = drop_bit 8 g"
      by (rule bit_word_eqI) (auto simp: bit_simps dest: bit_imp_le_length)
    ultimately show "drop_bit 8 g = 0" by simp
  qed simp
  moreover have "unat (drop_bit 8 g) = uses g"
    by (simp add: uses_def drop_bit_eq_div unat_div)
  ultimately show ?thesis by (metis unat_eq_zero)
qed

lemma uses_mask_numeral: "g AND - 256 = 0 \<longleftrightarrow> uses g = 0"
  using uses_mask [of g] by simp

lemma uses_retype: "uses (g XOR ((g AND TYPE_MASK) XOR ucast (t :: 8 word))) = uses g"
proof -
  have m: "TYPE_MASK = mask 8" by (simp add: mask_eq_exp_minus_1)
  have "drop_bit 8 (g XOR ((g AND mask 8) XOR ucast t)) = drop_bit 8 g"
    by (rule bit_word_eqI) (auto simp: bit_simps dest: bit_imp_le_length)
  then have "unat (drop_bit 8 (g XOR ((g AND TYPE_MASK) XOR ucast t))) = unat (drop_bit 8 g)"
    by (simp only: m)
  then show ?thesis by (simp add: uses_def drop_bit_eq_div unat_div)
qed

lemma uses_new: "uses (GENERATION_STEP + ucast (t :: 8 word)) = 1"
proof -
  have "unat t < 256" by (rule order.strict_trans2 [OF unsigned_less]) simp
  moreover have "unat (ucast t :: 32 word) = unat t"
    using calculation by (simp add: unsigned_ucast_eq take_bit_nat_eq_self)
  moreover have "unat (256 + ucast t :: 32 word) = 256 + unat t"
    using calculation by (simp add: unat_word_ariths)
  ultimately show ?thesis by (simp add: uses_def)
qed

text \<open>
  An identifier is dead when its slot was used more often since, or when the slot is retired: its
  counter ran over and it is not handed out again.
\<close>

definition dead :: "'a container \<Rightarrow> container_id \<Rightarrow> bool" where
  "dead c cid \<longleftrightarrow>
     (case cid of (i, g) \<Rightarrow>
        i < length (slots c) \<and> uses g \<noteq> 0 \<and>
        (uses (slot_generation (slots c ! i)) = 0 \<and> i \<notin> set (empty_slots c) \<or>
         uses g < uses (slot_generation (slots c ! i))))"

lemma dead_get: "dead c cid \<Longrightarrow> container_get c cid = None"
  by (auto simp: dead_def container_get_def decode_id_def split: prod.splits)

lemma release_slot_generation:
  assumes "i < length (slots c)"
  shows "slot_generation (slots (release_slot i c) ! j) =
           (if j = i then slot_generation (slots c ! i) + GENERATION_STEP else slot_generation (slots c ! j))"
    "length (slots (release_slot i c)) = length (slots c)"
    "empty_slots (release_slot i c) =
       (if uses (slot_generation (slots c ! i) + GENERATION_STEP) \<noteq> 0 then empty_slots c @ [i] else empty_slots c)"
  using assms by (simp_all add: release_slot_def inc_generation_def Let_def uses_mask_numeral)

lemma dead_release:
  assumes "dead c cid" "i < length (slots c)" "uses (slot_generation (slots c ! i)) \<noteq> 0" "i \<notin> set (empty_slots c)"
  shows "dead (release_slot i c) cid"
  using assms unfolding dead_def
  by (auto simp: release_slot_generation uses_step split: prod.splits if_splits)

lemma release_kills:
  assumes "decode_id c cid = Some i" "uses (snd cid) \<noteq> 0" "i \<notin> set (empty_slots c)"
  shows "dead (release_slot i c) cid"
  using assms by (auto simp: dead_def decode_id_def release_slot_generation uses_step split: prod.splits if_splits)

lemma dead_store:
  assumes "dead c cid" "container_inv c" "store_slot x t c = Checked (i, c')"
  shows "dead c' cid"
proof (cases "empty_slots c = []")
  case True
  then show ?thesis
    using assms by (auto simp: dead_def store_slot_def nth_append split: prod.splits if_splits)
next
  case False
  then have "last (empty_slots c) \<in> set (empty_slots c)" by simp
  then have l: "last (empty_slots c) < length (slots c)" using assms(2) by (simp add: container_inv_def)
  have c': "c' = c\<lparr>empty_slots := butlast (empty_slots c), slots := (slots c)[last (empty_slots c) :=
      \<lparr>slot_generation = slot_generation (slots c ! last (empty_slots c)) XOR
         ((slot_generation (slots c ! last (empty_slots c)) AND TYPE_MASK) XOR ucast t), slot_data = Some x\<rparr>]\<rparr>"
    using assms(3) False by (auto simp: store_slot_def Let_def)
  have "uses (slot_generation (slots c' ! j)) = uses (slot_generation (slots c ! j))" for j
    using l by (cases "j = last (empty_slots c)") (simp_all add: c' uses_retype)
  moreover have "length (slots c') = length (slots c)" "set (empty_slots c') \<subseteq> set (empty_slots c)"
    using in_set_butlastD by (fastforce simp: c')+
  ultimately show ?thesis using assms(1) by (auto simp: dead_def split: prod.splits)
qed

lemma create_get:
  assumes "container_create x t c = Checked (cid, c')" "container_inv c"
  shows "container_get c' cid = Some (Some x)"
proof (cases "empty_slots c = []")
  case True
  then show ?thesis
    using assms(1) by (auto simp: container_create_def store_slot_def container_get_def decode_id_def encode_id_def split: if_splits)
next
  case False
  then have "last (empty_slots c) < length (slots c)"
    using assms(2) last_in_set [OF False] by (simp add: container_inv_def)
  then show ?thesis
    using assms(1) False
    by (auto simp: container_create_def store_slot_def container_get_def decode_id_def encode_id_def Let_def)
qed

definition live_id :: "'a container \<Rightarrow> container_id \<Rightarrow> bool" where
  "live_id c cid \<longleftrightarrow>
     (\<exists>i. decode_id c cid = Some i \<and> i \<notin> set (empty_slots c) \<and> uses (snd cid) \<noteq> 0)"

inductive container_steps :: "'a container \<Rightarrow> 'a container \<Rightarrow> bool" where
  steps_refl: "container_steps c c"
| steps_create: "container_steps c c1 \<Longrightarrow> container_create x t c1 = Checked (cid, c2) \<Longrightarrow> container_steps c c2"
| steps_erase: "container_steps c c1 \<Longrightarrow> live_id c1 cid \<Longrightarrow> container_steps c (container_erase cid c1)"

lemma create_inv:
  assumes "container_create x t c = Checked (cid, c')" "container_inv c"
  shows "container_inv c' \<and> live_id c' cid"
proof (cases "empty_slots c = []")
  case True
  then show ?thesis
    using assms
    by (auto simp: container_create_def store_slot_def container_inv_def live_id_def decode_id_def encode_id_def uses_new
        split: if_splits)
next
  case False
  define p where "p = last (empty_slots c)"
  define g where "g = slot_generation (slots c ! p)"
  have split: "empty_slots c = butlast (empty_slots c) @ [p]" using False by (simp add: p_def)
  have d: "distinct (empty_slots c)" using assms(2) by (simp add: container_inv_def)
  then have np: "p \<notin> set (butlast (empty_slots c))" and db: "distinct (butlast (empty_slots c))"
    by (metis distinct_append distinct.simps(2) disjoint_insert(2) list.set(2) split inf_commute, metis d distinct_butlast)
  have p: "p < length (slots c)" "uses g \<noteq> 0"
    using assms(2) split by (auto simp: container_inv_def g_def) (metis in_set_conv_decomp p_def last_in_set False)+
  have c': "c' = c\<lparr>empty_slots := butlast (empty_slots c), slots := (slots c)[p :=
      \<lparr>slot_generation = g XOR ((g AND TYPE_MASK) XOR ucast t), slot_data = Some x\<rparr>]\<rparr>"
      "cid = (p, g XOR ((g AND TYPE_MASK) XOR ucast t))"
    using assms(1) False p by (auto simp: container_create_def store_slot_def Let_def p_def g_def encode_id_def)
  have "(slots c)[p := z] ! i = slots c ! i" if "i \<in> set (butlast (empty_slots c))" for i z
    using np that by (cases "i = p") simp_all
  then have "container_inv c'"
    using assms(2) db by (auto simp: c' container_inv_def dest: in_set_butlastD)
  moreover have "live_id c' cid"
    using np p by (auto simp: c' live_id_def decode_id_def uses_retype)
  ultimately show ?thesis by blast
qed

lemma erase_inv:
  assumes "live_id c cid" "container_inv c"
  shows "container_inv (container_erase cid c) \<and> dead (container_erase cid c) cid"
proof -
  obtain i where i: "decode_id c cid = Some i" "i \<notin> set (empty_slots c)" "uses (snd cid) \<noteq> 0"
    using assms(1) by (auto simp: live_id_def)
  then have l: "i < length (slots c)" by (auto simp: decode_id_def split: prod.splits if_splits)
  have data: "slot_data (slots (release_slot i c) ! j) = (if j = i then None else slot_data (slots c ! j))" for j
    using l by (simp add: release_slot_def inc_generation_def Let_def)
  have "container_inv (release_slot i c)"
    using assms(2) i(2) l by (auto simp: container_inv_def release_slot_generation data split: if_splits)
  then show ?thesis
    using release_kills [OF i(1,3,2)] i(1) by (simp add: container_erase_def)
qed

lemma dead_stays_dead:
  assumes "container_steps c c'" "container_inv c" "dead c cid"
  shows "container_inv c' \<and> dead c' cid"
  using assms
proof (induction rule: container_steps.induct)
  case (steps_create c c1 x t cid' c2)
  then have c1: "container_inv c1" "dead c1 cid" by auto
  obtain i where "store_slot x t c1 = Checked (i, c2)"
    using steps_create.hyps(2) by (auto simp: container_create_def split: checked.splits)
  then show ?case using dead_store [OF c1(2,1)] create_inv [OF steps_create.hyps(2) c1(1)] by blast
next
  case (steps_erase c c1 cid')
  then have c1: "container_inv c1" "dead c1 cid" by auto
  obtain i where i: "decode_id c1 cid' = Some i" "i \<notin> set (empty_slots c1)" "uses (snd cid') \<noteq> 0"
    using steps_erase.hyps(2) by (auto simp: live_id_def)
  then have "i < length (slots c1)" "uses (slot_generation (slots c1 ! i)) \<noteq> 0"
    by (auto simp: decode_id_def split: prod.splits if_splits)
  then have "dead (release_slot i c1) cid" using dead_release [OF c1(2)] i(2) by blast
  then show ?case
    using erase_inv [OF steps_erase.hyps(2) c1(1)] i(1) by (simp add: container_erase_def)
qed auto

text \<open>Operations on one identifier leave the other live ones alone.\<close>

lemma create_other:
  assumes "container_create x t c = Checked (cid, c')" "container_inv c" "live_id c k"
  shows "live_id c' k \<and> container_get c' k = container_get c k"
proof -
  obtain i where i: "decode_id c k = Some i" "i \<notin> set (empty_slots c)" "uses (snd k) \<noteq> 0"
    using assms(3) by (auto simp: live_id_def)
  then have l: "i < length (slots c)" "k = (i, slot_generation (slots c ! i))"
    by (auto simp: decode_id_def split: prod.splits if_splits)
  have c': "slots c' ! i = slots c ! i \<and> length (slots c) \<le> length (slots c') \<and> i \<notin> set (empty_slots c')"
  proof (cases "empty_slots c = []")
    case True
    then have "\<exists>g. c' = c\<lparr>slots := slots c @ [\<lparr>slot_generation = g, slot_data = Some x\<rparr>]\<rparr>"
      using assms(1) by (auto simp: container_create_def store_slot_def split: if_splits)
    then show ?thesis using l i(2) by (auto simp: nth_append)
  next
    case False
    then have "\<exists>g. c' = c\<lparr>empty_slots := butlast (empty_slots c), slots := (slots c)[last (empty_slots c) :=
        \<lparr>slot_generation = g, slot_data = Some x\<rparr>]\<rparr>"
      using assms(1) by (auto simp: container_create_def store_slot_def Let_def)
    moreover have "i \<noteq> last (empty_slots c)" using i(2) last_in_set False by metis
    moreover have "i \<notin> set (butlast (empty_slots c))" using i(2) in_set_butlastD by metis
    ultimately show ?thesis by auto
  qed
  then have "decode_id c' k = Some i" using l by (auto simp: decode_id_def)
  then show ?thesis using i c' by (auto simp: live_id_def container_get_def)
qed

lemma erase_other:
  assumes "live_id c cid" "live_id c k" "k \<noteq> cid"
  shows "live_id (container_erase cid c) k \<and> container_get (container_erase cid c) k = container_get c k"
proof -
  obtain i j where i: "decode_id c cid = Some i" and j: "decode_id c k = Some j" "j \<notin> set (empty_slots c)" "uses (snd k) \<noteq> 0"
    using assms by (auto simp: live_id_def)
  then have l: "i < length (slots c)" "cid = (i, slot_generation (slots c ! i))" "j < length (slots c)" "k = (j, slot_generation (slots c ! j))"
    by (auto simp: decode_id_def split: prod.splits if_splits)
  then have ne: "i \<noteq> j" using assms(3) by auto
  have "slot_data (slots (release_slot i c) ! j) = slot_data (slots c ! j)"
    using l ne by (simp add: release_slot_def inc_generation_def Let_def)
  then show ?thesis
    using i j l ne by (auto simp: container_erase_def live_id_def decode_id_def container_get_def release_slot_generation)
qed

section \<open>Property of the identifiers\<close>

text \<open>
  An identifier that was erased resolves to nothing ever after, whatever is created and erased later: slots are
  reused with a new generation and retired when the generation wraps around. Creating and erasing leave the other
  live identifiers alone.
\<close>

theorem erased_id_never_resolves:
  assumes "container_inv c" "live_id c cid" "container_steps (container_erase cid c) c'"
  shows "container_get c' cid = None \<and>
         (live_id c k \<and> k \<noteq> cid \<longrightarrow> container_get (container_erase cid c) k = container_get c k)"
  using dead_stays_dead [OF assms(3)] erase_inv [OF assms(2,1)] erase_other [OF assms(2)] dead_get by blast

definition demo_container :: "nat container" where
  "demo_container = \<lparr>slots = [\<lparr>slot_generation = 256, slot_data = Some 5\<rparr>, \<lparr>slot_generation = 512, slot_data = Some 6\<rparr>], empty_slots = []\<rparr>"

theorem erased_id_never_resolves_witness:
  "container_get (container_erase (0, 256) demo_container) (0, 256) = None \<and>
   container_get (container_erase (0, 256) demo_container) (1, 512) = Some (Some 6)"
proof -
  have "container_inv demo_container" by (simp add: container_inv_def demo_container_def)
  moreover have "live_id demo_container (0, 256)" "live_id demo_container (1, 512)"
    by (simp_all add: live_id_def demo_container_def decode_id_def uses_def)
  moreover have "container_get demo_container (1, 512) = Some (Some 6)"
    by (simp add: container_get_def demo_container_def decode_id_def)
  ultimately show ?thesis
    using erased_id_never_resolves [of demo_container "(0, 256)" _ "(1, 512)", OF _ _ steps_refl] by auto
qed

section \<open>The container as a table\<close>

text \<open>What a client sees: the objects behind the identifiers, and writes through the pointer that \<^verbatim>\<open>get\<close> returns.\<close>

definition container_lookup :: "'a container \<Rightarrow> container_id \<Rightarrow> 'a option" where
  "container_lookup c cid = (case container_get c cid of None \<Rightarrow> None | Some d \<Rightarrow> d)"

definition container_modify :: "container_id \<Rightarrow> ('a \<Rightarrow> 'a) \<Rightarrow> 'a container \<Rightarrow> 'a container" where
  "container_modify cid f c =
     (case decode_id c cid of
        None \<Rightarrow> c
      | Some i \<Rightarrow> c\<lparr>slots := (slots c)[i := (slots c ! i)\<lparr>slot_data := map_option f (slot_data (slots c ! i))\<rparr>]\<rparr>)"

definition container_count :: "'a container \<Rightarrow> nat" where
  "container_count c = length (slots c) - length (empty_slots c)"

text \<open>
  The contract of a table of objects with identifiers: a new identifier was not in use, the other entries stay, and
  the reported size is at least the number of objects.
\<close>

locale id_table =
  fixes inv :: "'c \<Rightarrow> bool" and look :: "'c \<Rightarrow> 'i \<Rightarrow> 'a option" and create :: "'a \<Rightarrow> 'c \<Rightarrow> ('i \<times> 'c) checked"
    and erase :: "'i \<Rightarrow> 'c \<Rightarrow> 'c" and modify :: "'i \<Rightarrow> ('a \<Rightarrow> 'a) \<Rightarrow> 'c \<Rightarrow> 'c" and count :: "'c \<Rightarrow> nat"
  assumes create: "inv c \<Longrightarrow> create x c = Checked (i, c') \<Longrightarrow>
      inv c' \<and> look c i = None \<and> look c' = (look c)(i \<mapsto> x) \<and> count c' = Suc (count c)"
    and erase: "inv c \<Longrightarrow> look c i \<noteq> None \<Longrightarrow> inv (erase i c) \<and> look (erase i c) = (look c)(i := None) \<and> count (erase i c) \<le> count c"
    and modify: "inv c \<Longrightarrow> inv (modify i f c) \<and> look (modify i f c) = (look c)(i := map_option f (look c i)) \<and> count (modify i f c) = count c"
    and size: "inv c \<Longrightarrow> finite (dom (look c)) \<and> card (dom (look c)) \<le> count c"
begin

lemma modify_other: "inv c \<Longrightarrow> k \<noteq> i \<Longrightarrow> look (modify i f c) k = look c k"
  using modify by simp

lemma create_fresh: "inv c \<Longrightarrow> create x c = Checked (i, c') \<Longrightarrow> look c k \<noteq> None \<Longrightarrow> k \<noteq> i \<and> look c' k = look c k"
  using create by fastforce

end

lemma lookup_slot:
  "container_lookup c (i, g) = (if i < length (slots c) \<and> g = slot_generation (slots c ! i) then slot_data (slots c ! i) else None)"
  by (simp add: container_lookup_def container_get_def decode_id_def)

lemma lookup_empty: "container_inv c \<Longrightarrow> i \<in> set (empty_slots c) \<Longrightarrow> container_lookup c (i, g) = None"
  by (simp add: lookup_slot container_inv_def)

lemma container_size_count: "container_inv c \<Longrightarrow> container_size c = Checked (container_count c)"
proof -
  assume inv: "container_inv c"
  then have "set (empty_slots c) \<subseteq> {0..<length (slots c)}" by (auto simp: container_inv_def)
  from card_mono [OF _ this] have "length (empty_slots c) \<le> length (slots c)"
    using inv by (simp add: container_inv_def distinct_card)
  then show ?thesis by (simp add: container_size_def container_count_def)
qed

lemma create_table:
  assumes "container_inv c" "container_create x t c = Checked (i, c')"
  shows "container_inv c' \<and> container_lookup c i = None \<and> container_lookup c' = (container_lookup c)(i \<mapsto> x) \<and>
         container_count c' = Suc (container_count c)"
proof (cases "empty_slots c = []")
  case True
  then have c': "c' = c\<lparr>slots := slots c @ [\<lparr>slot_generation = GENERATION_STEP + ucast t, slot_data = Some x\<rparr>]\<rparr>"
      "i = (length (slots c), GENERATION_STEP + ucast t)"
    using assms(2) by (auto simp: container_create_def store_slot_def encode_id_def split: if_splits)
  have "container_lookup c' (a, b) = ((container_lookup c)(i \<mapsto> x)) (a, b)" for a b
    by (cases "a < length (slots c)"; cases "a = length (slots c)") (simp_all add: c' lookup_slot nth_append)
  then have "container_lookup c' = (container_lookup c)(i \<mapsto> x)" by auto
  then show ?thesis using create_inv [OF assms(2,1)] True by (auto simp: c' lookup_slot container_count_def)
next
  case False
  define p where "p = last (empty_slots c)"
  have p: "p \<in> set (empty_slots c)" "p < length (slots c)" using False assms(1) by (auto simp: p_def container_inv_def)
  obtain g where c': "c' = c\<lparr>empty_slots := butlast (empty_slots c), slots := (slots c)[p := \<lparr>slot_generation = g, slot_data = Some x\<rparr>]\<rparr>"
      "i = (p, g)"
    using assms(2) False p(2) by (auto simp: container_create_def store_slot_def Let_def p_def encode_id_def)
  have "container_lookup c' k = ((container_lookup c)(i \<mapsto> x)) k" for k
    using p assms(1) by (cases k) (auto simp: c' lookup_slot nth_list_update container_inv_def)
  then have look: "container_lookup c' = (container_lookup c)(i \<mapsto> x)" by blast
  have "length (empty_slots c) \<le> length (slots c)"
    using container_size_count [OF assms(1)] by (auto simp: container_size_def split: if_splits)
  moreover have "0 < length (empty_slots c)" using False by simp
  moreover have "length (slots c') = length (slots c)" "length (empty_slots c') = length (empty_slots c) - 1" by (simp_all add: c'(1))
  ultimately have "container_count c' = Suc (container_count c)" unfolding container_count_def by linarith
  then show ?thesis using create_inv [OF assms(2,1)] lookup_empty [OF assms(1) p(1)] c'(2) look by simp
qed

lemma erase_table:
  assumes "container_inv c" "container_lookup c i \<noteq> None"
  shows "container_inv (container_erase i c) \<and> container_lookup (container_erase i c) = (container_lookup c)(i := None) \<and>
         container_count (container_erase i c) \<le> container_count c"
proof -
  obtain j g where i: "i = (j, g)" "j < length (slots c)" "g = slot_generation (slots c ! j)" "slot_data (slots c ! j) \<noteq> None"
    using assms(2) by (cases i) (auto simp: lookup_slot split: if_splits)
  have j: "j \<notin> set (empty_slots c)" using i(4) assms(1) by (auto simp: container_inv_def)
  have e: "container_erase i c = release_slot j c" using i by (simp add: container_erase_def decode_id_def)
  have data: "slot_data (slots (release_slot j c) ! k) = (if k = j then None else slot_data (slots c ! k))" for k
    using i(2) by (simp add: release_slot_def inc_generation_def Let_def)
  have "container_inv (release_slot j c)"
    using assms(1) j i(2) by (auto simp: container_inv_def release_slot_generation data split: if_splits)
  moreover have "container_lookup (release_slot j c) k = ((container_lookup c)(i := None)) k" for k
    using i by (cases k) (auto simp: lookup_slot release_slot_generation data)
  ultimately show ?thesis using i(2) by (auto simp: e container_count_def release_slot_generation)
qed

lemma modify_table:
  assumes "container_inv c"
  shows "container_inv (container_modify i f c) \<and> container_lookup (container_modify i f c) = (container_lookup c)(i := map_option f (container_lookup c i)) \<and>
         container_count (container_modify i f c) = container_count c"
proof (cases "decode_id c i")
  case None
  then have "container_lookup c i = None" by (simp add: container_lookup_def container_get_def)
  then show ?thesis using assms None by (auto simp: container_modify_def)
next
  case (Some j)
  then obtain g where i: "i = (j, g)" "j < length (slots c)" "g = slot_generation (slots c ! j)"
    by (cases i) (auto simp: decode_id_def split: if_splits)
  let ?c = "c\<lparr>slots := (slots c)[j := (slots c ! j)\<lparr>slot_data := map_option f (slot_data (slots c ! j))\<rparr>]\<rparr>"
  have "container_lookup ?c k = ((container_lookup c)(i := map_option f (container_lookup c i))) k" for k
    using i by (cases k) (auto simp: lookup_slot nth_list_update)
  moreover have "slot_data (slots ?c ! k) = None \<longleftrightarrow> slot_data (slots c ! k) = None" "slot_generation (slots ?c ! k) = slot_generation (slots c ! k)" for k
    using i(2) by (cases "k = j"; simp)+
  then have "container_inv ?c" using assms by (simp add: container_inv_def)
  ultimately show ?thesis using Some by (auto simp: container_modify_def container_count_def)
qed

lemma size_table:
  assumes "container_inv c"
  shows "finite (dom (container_lookup c)) \<and> card (dom (container_lookup c)) \<le> container_count c"
proof -
  let ?I = "{0..<length (slots c)} - set (empty_slots c)"
  have "dom (container_lookup c) \<subseteq> (\<lambda>i. (i, slot_generation (slots c ! i))) ` ?I"
    using assms by (auto simp: lookup_slot container_inv_def split: if_splits)
  moreover have "card ?I = container_count c"
  proof -
    have "set (empty_slots c) \<subseteq> {0..<length (slots c)}" using assms by (auto simp: container_inv_def)
    then have "card ?I = length (slots c) - card (set (empty_slots c))" by (simp add: card_Diff_subset)
    then show ?thesis using assms by (simp add: container_count_def container_inv_def distinct_card)
  qed
  moreover have f: "finite ?I" by simp
  ultimately have "finite (dom (container_lookup c))" "card (dom (container_lookup c)) \<le> card ?I"
    using finite_subset [OF _ finite_imageI [OF f]] card_image_le [OF f] card_mono [OF finite_imageI [OF f]] by (blast, meson order_trans)
  then show ?thesis using \<open>card ?I = container_count c\<close> by simp
qed

interpretation table: id_table container_inv container_lookup "\<lambda>x. container_create x 0" container_erase container_modify container_count
proof (unfold_locales, goal_cases)
  case (1 c x i c')
  then show ?case by (rule create_table)
next
  case (2 c i)
  then show ?case by (rule erase_table)
next
  case (3 c i f)
  then show ?case by (rule modify_table)
next
  case (4 c)
  then show ?case by (rule size_table)
qed

text \<open>
  A slot whose generation ran over is retired but still counted: after the only object is erased, \<^verbatim>\<open>size\<close> is 1 and
  \<^verbatim>\<open>ids\<close> still lists an identifier, although there is nothing left.
\<close>

theorem retired_slot_counted:
  assumes "c = \<lparr>slots = [\<lparr>slot_generation = 0xFFFFFF00, slot_data = Some x\<rparr>], empty_slots = []\<rparr>"
  shows "container_lookup (container_erase (0, 0xFFFFFF00) c) i = None \<and> container_size (container_erase (0, 0xFFFFFF00) c) = Checked 1 \<and>
         container_ids (container_erase (0, 0xFFFFFF00) c) = [(0, 0)]"
proof -
  have "container_erase (0, 0xFFFFFF00) c = \<lparr>slots = [\<lparr>slot_generation = 0, slot_data = None\<rparr>], empty_slots = []\<rparr>"
    by (simp add: assms container_erase_def decode_id_def release_slot_def inc_generation_def Let_def)
  then show ?thesis by (cases i) (simp add: lookup_slot container_size_def container_ids_def encode_id_def)
qed

end
