(* ===== verification/ClientManager.thy ===== *)
theory ClientManager
  imports FileStreamRoute Td_Flood Td_Container
begin

text \<open>
  \<^verbatim>\<open>server/ClientManager.cpp\<close>: admission of queries and file streams, creation of a client per bot,
  the accounting of streams, and the shutdown sequence.  Every handler returns the new state and the
  messages it sends; the outcome is \<open>CheckFailed\<close> when a \<^verbatim>\<open>CHECK\<close> fails.  \<open>resolve\<close> stands for
  \<^verbatim>\<open>IPAddress::init_host_port\<close> (the resolver of the operating system); times are arguments.
\<close>

record token_range =
  tr_rem :: nat
  tr_mod :: nat

text \<open>\<^verbatim>\<open>TokenRange::operator()\<close>: the argument is converted to \<^verbatim>\<open>uint64\<close>.\<close>

definition in_token_range :: "token_range \<Rightarrow> int \<Rightarrow> bool" where
  "in_token_range r x \<longleftrightarrow> nat (x mod 2 ^ 64) mod tr_mod r = tr_rem r"

record client_info =
  ci_token :: string
  ci_tqueue_id :: int

record manager_params =
  mp_local_mode :: bool
  mp_file_streaming_enabled :: bool
  mp_file_stream_max_connections :: int
  mp_token_range :: token_range

record bot_query =
  q_token :: string
  q_is_test_dc :: bool
  q_method :: string
  q_peer_ip :: string
  q_args :: "(string \<times> string) list"

datatype manager_msg =
    StreamFailed int status
  | StreamSetClient int container_id
  | StartFileStream container_id int string int
  | CreateClient container_id string bool int
  | ClientSend container_id bot_query
  | QueryFailed int string
  | QueryRetryAfter int
  | QueryDropped
  | ClientClose container_id
  | KickWatchdog
  | CloseDatabases
  | ClosePromisesSet nat
  | ManagerStop

record client_manager =
  cm_clients :: "client_info container"
  cm_token_to_id :: "string \<Rightarrow> container_id option"
  cm_flood_controls :: "string \<Rightarrow> flood_control option"
  cm_global_flood_control :: flood_control
  cm_is_global_flood_control_enabled :: bool
  cm_active_client_count :: "int \<Rightarrow> nat option"
  cm_close_flag :: bool
  cm_close_db_started :: bool
  cm_close_finished :: bool
  cm_active_file_stream_ids :: "int set"
  cm_active_file_streams_by_token :: "string \<Rightarrow> int option"
  cm_active_file_stream_token :: "int \<Rightarrow> string option"
  cm_close_promises :: nat
  cm_timeout_in :: "real option"
  cm_next_tqueue_gc_time :: real
  cm_tqueue_deleted_events :: int
  cm_last_tqueue_deleted_events :: int

definition new_client_manager :: client_manager where
  "new_client_manager =
     \<lparr>cm_clients = new_container, cm_token_to_id = Map.empty, cm_flood_controls = Map.empty,
      cm_global_flood_control = new_flood_control, cm_is_global_flood_control_enabled = False,
      cm_active_client_count = Map.empty, cm_close_flag = False, cm_close_db_started = False,
      cm_close_finished = False, cm_active_file_stream_ids = {}, cm_active_file_streams_by_token = Map.empty,
      cm_active_file_stream_token = Map.empty, cm_close_promises = 0, cm_timeout_in = None,
      cm_next_tqueue_gc_time = 0, cm_tqueue_deleted_events = 0, cm_last_tqueue_deleted_events = 0\<rparr>"

definition get_tqueue_id :: "int \<Rightarrow> bool \<Rightarrow> int" where
  "get_tqueue_id user_id is_test_dc = user_id + (if is_test_dc then 2 ^ 54 else 0)"

text \<open>The syntactic test of a token that both entry points make.\<close>

definition malformed_token :: "string \<Rightarrow> bool" where
  "malformed_token token \<longleftrightarrow>
     (token \<noteq> [] \<and> hd token = CHR ''0'') \<or> length token > 80 \<or> find_char token (CHR ''/'') \<noteq> None \<or>
     find_char token (CHR '':'') = None"

definition token_user_id :: "string \<Rightarrow> int result" where
  "token_user_id token =
     to_integer_safe 64 (take (case find_char token (CHR '':'') of None \<Rightarrow> length token | Some p \<Rightarrow> p) token)"

definition creation_flood_control :: flood_control where
  "creation_flood_control = add_limit 3600 600 (add_limit 60 20 new_flood_control)"

text \<open>
  The flood control of the creation of a client: \<open>Some wakeup\<close> is a rejection.  The per-address control
  is created on demand and is stored also when the creation is rejected.
\<close>

definition check_client_creation ::
  "inet \<Rightarrow> (string \<Rightarrow> ip_address) \<Rightarrow> real \<Rightarrow> string \<Rightarrow> client_manager \<Rightarrow> (real option \<times> client_manager) checked" where
  "check_client_creation os resolve now peer_ip m =
     (let checked_ip =
            (if peer_ip = [] then Checked (None, m)
             else (let tmp = clear_ipv6_interface (resolve peer_ip);
                       ip = (if is_valid tmp then get_ip_str os tmp else peer_ip);
                       fc = (case cm_flood_controls m ip of None \<Rightarrow> creation_flood_control | Some fc \<Rightarrow> fc);
                       m1 = m\<lparr>cm_flood_controls := (cm_flood_controls m)(ip \<mapsto> fc)\<rparr>
                   in if get_wakeup_at fc > now then Checked (Some (get_wakeup_at fc), m1)
                      else (case fc_add_event now fc of
                              CheckFailed \<Rightarrow> CheckFailed
                            | Checked fc' \<Rightarrow>
                                Checked (None, m1\<lparr>cm_flood_controls := (cm_flood_controls m1)(ip \<mapsto> fc')\<rparr>))))
      in case checked_ip of
           CheckFailed \<Rightarrow> CheckFailed
         | Checked (Some w, m1) \<Rightarrow> Checked (Some w, m1)
         | Checked (None, m1) \<Rightarrow>
             (if cm_is_global_flood_control_enabled m1
              then (if get_wakeup_at (cm_global_flood_control m1) > now
                    then Checked (Some (get_wakeup_at (cm_global_flood_control m1)), m1)
                    else (case fc_add_event now (cm_global_flood_control m1) of
                            CheckFailed \<Rightarrow> CheckFailed
                          | Checked fc \<Rightarrow> Checked (None, m1\<lparr>cm_global_flood_control := fc\<rparr>)))
              else Checked (None, m1)))"

definition create_client ::
  "string \<Rightarrow> string \<Rightarrow> int \<Rightarrow> bool \<Rightarrow> client_manager \<Rightarrow> (container_id \<times> client_manager \<times> manager_msg list) checked" where
  "create_client token token_key user_id is_test_dc m =
     (let tqueue_id = get_tqueue_id user_id is_test_dc
      in case container_create \<lparr>ci_token = token_key, ci_tqueue_id = tqueue_id\<rparr> 0 (cm_clients m) of
           CheckFailed \<Rightarrow> CheckFailed
         | Checked (cid, cs) \<Rightarrow>
             Checked (cid, m\<lparr>cm_clients := cs, cm_token_to_id := (cm_token_to_id m)(token_key \<mapsto> cid)\<rparr>,
                      [CreateClient cid token is_test_dc tqueue_id]))"

section \<open>File streams\<close>

definition per_bot_limit :: "manager_params \<Rightarrow> int" where
  "per_bot_limit mp = max 1 (mp_file_stream_max_connections mp div 4)"

definition token_key :: "string \<Rightarrow> bool \<Rightarrow> string" where
  "token_key token is_test_dc = token @ (if is_test_dc then ''/test'' else [])"

definition stream_count :: "client_manager \<Rightarrow> string \<Rightarrow> int" where
  "stream_count m key = (case cm_active_file_streams_by_token m key of None \<Rightarrow> 0 | Some n \<Rightarrow> n)"

text \<open>The checks of \<^verbatim>\<open>send_file_stream\<close> before a client is needed: an error, or the user identifier.\<close>

definition admit_file_stream ::
  "manager_params \<Rightarrow> bool \<Rightarrow> string \<Rightarrow> bool \<Rightarrow> string \<Rightarrow> client_manager \<Rightarrow> int result" where
  "admit_file_stream mp disk_emergency token is_test_dc file_id m =
     (if disk_emergency then Error 507 ''Telegram workdir disk space exhausted; service is shutting down''
      else if cm_close_flag m then Error 503 ''Bot API server is closing''
      else if \<not> mp_file_streaming_enabled mp then Error 404 ''File streaming endpoint is disabled''
      else if int (card (cm_active_file_stream_ids m)) \<ge> mp_file_stream_max_connections mp mod 2 ^ 64
      then Error 429 ''Too many active file streams''
      else if token = [] \<or> malformed_token token then Error 401 ''Invalid token specified''
      else (case token_user_id token of
        Inl _ \<Rightarrow> Error 401 ''Invalid token specified''
      | Inr user_id \<Rightarrow>
          (if user_id \<le> 0 \<or> user_id \<ge> 2 ^ 54 then Error 401 ''Invalid token specified''
           else if \<not> in_token_range (mp_token_range mp) user_id then Error 421 ''Unallowed token specified''
           else if file_id = [] \<or> length file_id > 4096 then Error 400 ''Invalid file_id specified''
           else if stream_count m (token_key token is_test_dc) \<ge> per_bot_limit mp
           then Error 429 ''Too many active file streams for this token''
           else Ok user_id)))"

definition register_file_stream :: "int \<Rightarrow> string \<Rightarrow> client_manager \<Rightarrow> client_manager" where
  "register_file_stream stream_id key m =
     m\<lparr>cm_active_file_stream_ids := insert stream_id (cm_active_file_stream_ids m),
       cm_active_file_stream_token := (cm_active_file_stream_token m)(stream_id \<mapsto> key),
       cm_active_file_streams_by_token := (cm_active_file_streams_by_token m)(key \<mapsto> stream_count m key + 1)\<rparr>"

definition send_file_stream ::
  "inet \<Rightarrow> (string \<Rightarrow> ip_address) \<Rightarrow> manager_params \<Rightarrow> bool \<Rightarrow> real \<Rightarrow> int \<Rightarrow> string \<Rightarrow> bool \<Rightarrow> string \<Rightarrow> int \<Rightarrow> string \<Rightarrow>
   client_manager \<Rightarrow> (client_manager \<times> manager_msg list) checked" where
  "send_file_stream os resolve mp disk_emergency now stream_id token is_test_dc file_id expected_size peer_ip m =
     (case admit_file_stream mp disk_emergency token is_test_dc file_id m of
        Inl e \<Rightarrow> Checked (m, [StreamFailed stream_id e])
      | Inr user_id \<Rightarrow>
          (let key = token_key token is_test_dc;
               start = (\<lambda>cid m1 ms. Checked (register_file_stream stream_id key m1,
                          ms @ [StreamSetClient stream_id cid, StartFileStream cid stream_id file_id expected_size]))
           in case cm_token_to_id m key of
                Some cid \<Rightarrow> start cid m []
              | None \<Rightarrow>
                  (case check_client_creation os resolve now peer_ip m of
                     CheckFailed \<Rightarrow> CheckFailed
                   | Checked (Some _, m1) \<Rightarrow>
                       Checked (m1, [StreamFailed stream_id (Status 429 ''Too many authentication attempts'')])
                   | Checked (None, m1) \<Rightarrow>
                       (case create_client token key user_id is_test_dc m1 of
                          CheckFailed \<Rightarrow> CheckFailed
                        | Checked (cid, m2, ms) \<Rightarrow> start cid m2 ms))))"

definition release_file_stream :: "int \<Rightarrow> client_manager \<Rightarrow> client_manager" where
  "release_file_stream stream_id m =
     (let m1 = m\<lparr>cm_active_file_stream_ids := cm_active_file_stream_ids m - {stream_id}\<rparr>
      in case cm_active_file_stream_token m1 stream_id of
           None \<Rightarrow> m1
         | Some key \<Rightarrow>
             (let m2 = (case cm_active_file_streams_by_token m1 key of
                          None \<Rightarrow> m1
                        | Some n \<Rightarrow>
                            (if n - 1 \<le> 0
                             then m1\<lparr>cm_active_file_streams_by_token := (cm_active_file_streams_by_token m1)(key := None)\<rparr>
                             else m1\<lparr>cm_active_file_streams_by_token := (cm_active_file_streams_by_token m1)(key \<mapsto> n - 1)\<rparr>))
              in m2\<lparr>cm_active_file_stream_token := (cm_active_file_stream_token m2)(stream_id := None)\<rparr>))"

section \<open>Queries and the webhook database\<close>

text \<open>\<^verbatim>\<open>get_webhook_restore_query\<close>: the \<^verbatim>\<open>setwebhook\<close> query that a stored webhook stands for.\<close>

definition webhook_option :: "string \<Rightarrow> string \<Rightarrow> parser \<Rightarrow> (string \<times> string) list \<times> parser" where
  "webhook_option tag arg p =
     (let (found, p1) = try_skip tag p
      in if found then (let (v, p2) = read_till (CHR ''/'') p1 in ([(arg, v)], skip (CHR ''/'') p2)) else ([], p1))"

definition get_webhook_restore_query :: "string \<Rightarrow> string \<Rightarrow> bot_query" where
  "get_webhook_restore_query token0 webhook_info =
     (let is_test_dc = ends_with token0 '':T'';
          token = (if is_test_dc then take (length token0 - 2) token0 else token0);
          (cert, p1) = try_skip ''cert/'' (new_parser webhook_info);
          (maxc, p2) = webhook_option ''#maxc'' ''max_connections'' p1;
          (ip, p3) = webhook_option ''#ip'' ''ip_address'' p2;
          (fix, p4) = try_skip ''#fix_ip'' p3;
          p5 = (if fix then skip (CHR ''/'') p4 else p4);
          (secret, p6) = webhook_option ''#secret'' ''secret_token'' p5;
          (allow, p7) = webhook_option ''#allow'' ''allowed_updates'' p6;
          (url, p8) = read_all p7
      in \<lparr>q_token = token, q_is_test_dc = is_test_dc, q_method = ''setwebhook'', q_peer_ip = [],
          q_args = (if cert then [(''certificate'', ''previous'')] else []) @ maxc @ ip @
                   (if fix then [(''fix_ip_address'', ''1'')] else []) @ secret @ allow @ [(''url'', url)]\<rparr>)"

text \<open>\<^verbatim>\<open>Client::save_webhook\<close>: the stored form.  \<open>DEFAULT_ALLOWED_UPDATE_TYPES\<close> is the argument \<open>dflt\<close>.\<close>

record webhook_settings =
  wh_has_certificate :: bool
  wh_max_connections :: int
  wh_ip_address :: string
  wh_fix_ip_address :: bool
  wh_secret_token :: string
  wh_allowed_update_types :: nat
  wh_url :: string

definition save_webhook :: "nat \<Rightarrow> webhook_settings \<Rightarrow> string" where
  "save_webhook dflt w =
     (if wh_has_certificate w then ''cert/'' else []) @
     ''#maxc'' @ print_int 32 (wh_max_connections w) @ ''/'' @
     (if wh_ip_address w \<noteq> [] then ''#ip'' @ wh_ip_address w @ ''/'' else []) @
     (if wh_fix_ip_address w then ''#fix_ip/'' else []) @
     (if wh_secret_token w \<noteq> [] then ''#secret'' @ wh_secret_token w @ ''/'' else []) @
     (if wh_allowed_update_types w \<noteq> dflt then ''#allow'' @ print_uint (wh_allowed_update_types w) @ ''/'' else []) @
     wh_url w"

definition send_query ::
  "inet \<Rightarrow> (string \<Rightarrow> ip_address) \<Rightarrow> manager_params \<Rightarrow> (string \<Rightarrow> string) \<Rightarrow> real \<Rightarrow> bot_query \<Rightarrow> client_manager \<Rightarrow>
   (client_manager \<times> manager_msg list) checked" where
  "send_query os resolve mp webhook_db now q m =
     (if cm_close_flag m then Checked (m, [QueryDropped])
      else if malformed_token (q_token q) then Checked (m, [QueryFailed 401 ''Unauthorized: invalid token specified''])
      else (case token_user_id (q_token q) of
        Inl _ \<Rightarrow> Checked (m, [QueryFailed 421 ''Misdirected Request: unallowed token specified''])
      | Inr user_id \<Rightarrow>
          (if \<not> in_token_range (mp_token_range mp) user_id
           then Checked (m, [QueryFailed 421 ''Misdirected Request: unallowed token specified''])
           else if user_id \<le> 0 \<or> user_id \<ge> 2 ^ 54
           then Checked (m, [QueryFailed 401 ''Unauthorized: invalid token specified''])
           else (let key = token_key (q_token q) (q_is_test_dc q)
                 in case cm_token_to_id m key of
                      Some cid \<Rightarrow> Checked (m, [ClientSend cid q])
                    | None \<Rightarrow>
                        (if q_method q = ''close''
                         then Checked (m, [QueryFailed 400 ''Bad Request: the bot has already been closed''])
                         else (case check_client_creation os resolve now (q_peer_ip q) m of
                           CheckFailed \<Rightarrow> CheckFailed
                         | Checked (Some w, m1) \<Rightarrow> Checked (m1, [QueryRetryAfter (\<lfloor>w - now\<rfloor> + 1)])
                         | Checked (None, m1) \<Rightarrow>
                             (case create_client (q_token q) key user_id (q_is_test_dc q) m1 of
                                CheckFailed \<Rightarrow> CheckFailed
                              | Checked (cid, m2, ms) \<Rightarrow>
                                  (let bot_token_with_dc = q_token q @ (if q_is_test_dc q then '':T'' else []);
                                       info = webhook_db bot_token_with_dc;
                                       restore = (if q_method q \<noteq> ''deletewebhook'' \<and> q_method q \<noteq> ''setwebhook'' \<and> info \<noteq> []
                                                  then [ClientSend cid (get_webhook_restore_query bot_token_with_dc info)]
                                                  else [])
                                   in Checked (m2, ms @ restore @ [ClientSend cid q])))))))))"

section \<open>Shutdown and timers\<close>

definition close_db :: "client_manager \<Rightarrow> client_manager \<times> manager_msg list" where
  "close_db m =
     (if cm_close_db_started m \<or> cm_close_finished m then (m, [])
      else (m\<lparr>cm_close_db_started := True, cm_timeout_in := Some 10\<rparr>, [CloseDatabases]))"

definition close_manager :: "client_manager \<Rightarrow> client_manager \<times> manager_msg list" where
  "close_manager m =
     (let m1 = m\<lparr>cm_close_promises := cm_close_promises m + 1\<rparr>
      in if cm_close_flag m1 then (m1, [])
         else (let m2 = m1\<lparr>cm_close_flag := True, cm_timeout_in := Some 30\<rparr>;
                   ids = container_ids (cm_clients m2);
                   ms = map ClientClose ids
               in if ids = [] then (let (m3, ms') = close_db m2 in (m3, ms @ ms')) else (m2, ms)))"

definition finish_close :: "client_manager \<Rightarrow> client_manager \<times> manager_msg list" where
  "finish_close m =
     (if cm_close_finished m then (m, [])
      else (m\<lparr>cm_close_finished := True, cm_timeout_in := None, cm_close_promises := 0\<rparr>,
            [ClosePromisesSet (cm_close_promises m), ManagerStop]))"

text \<open>\<^verbatim>\<open>raw_event\<close>: a client reports that it became active or inactive.\<close>

definition manager_raw_event :: "container_id \<Rightarrow> bool \<Rightarrow> client_manager \<Rightarrow> client_manager checked" where
  "manager_raw_event cid active m =
     (case container_get (cm_clients m) cid of
        Some (Some info) \<Rightarrow>
          (if ci_tqueue_id info = 0 then CheckFailed
           else (let n = (case cm_active_client_count m (ci_tqueue_id info) of None \<Rightarrow> 0 | Some n \<Rightarrow> n)
                 in if active then Checked (m\<lparr>cm_active_client_count := (cm_active_client_count m)(ci_tqueue_id info \<mapsto> n + 1)\<rparr>)
                    else if n = 0 then CheckFailed
                    else Checked (m\<lparr>cm_active_client_count := (cm_active_client_count m)
                           (ci_tqueue_id info := (if n - 1 = 0 then None else Some (n - 1)))\<rparr>)))
      | _ \<Rightarrow> CheckFailed)"

definition hangup_shared :: "container_id \<Rightarrow> client_manager \<Rightarrow> (client_manager \<times> manager_msg list) checked" where
  "hangup_shared cid m =
     (case container_get (cm_clients m) cid of
        Some (Some info) \<Rightarrow>
          (let m1 = m\<lparr>cm_token_to_id := (cm_token_to_id m)(ci_token info := None),
                      cm_clients := container_erase cid (cm_clients m)\<rparr>
           in case container_size (cm_clients m1) of
                CheckFailed \<Rightarrow> CheckFailed
              | Checked n \<Rightarrow>
                  (if cm_close_flag m1 \<and> n = 0
                   then (if cm_active_client_count m1 \<noteq> Map.empty then CheckFailed else Checked (close_db m1))
                   else Checked (m1, [])))
      | _ \<Rightarrow> CheckFailed)"

text \<open>\<open>gc\<close> is the result of \<^verbatim>\<open>TQueue::run_gc\<close>: the deleted events and whether it finished.\<close>

definition manager_timeout_expired ::
  "manager_params \<Rightarrow> real \<Rightarrow> real \<Rightarrow> int \<times> bool \<Rightarrow> client_manager \<Rightarrow> client_manager \<times> manager_msg list" where
  "manager_timeout_expired mp now later gc m =
     (if cm_close_flag m then finish_close m
      else
        (let m1 = m\<lparr>cm_timeout_in := Some (1 / 40)\<rparr>;
             m2 = (if now > cm_next_tqueue_gc_time m1
                   then (let deleted = cm_tqueue_deleted_events m1 + fst gc
                         in m1\<lparr>cm_next_tqueue_gc_time := later + (if snd gc then 60 else 1),
                               cm_tqueue_deleted_events := deleted,
                               cm_last_tqueue_deleted_events :=
                                 (if deleted > cm_last_tqueue_deleted_events m1 + 10000 then deleted
                                  else cm_last_tqueue_deleted_events m1)\<rparr>)
                   else m1);
             m3 = (if \<not> cm_is_global_flood_control_enabled m2 \<and> \<not> mp_local_mode mp
                   then m2\<lparr>cm_is_global_flood_control_enabled := True,
                           cm_global_flood_control := add_limit 3600 10000 (add_limit 60 1000 (cm_global_flood_control m2))\<rparr>
                   else m2)
         in (m3, [KickWatchdog])))"

section \<open>Accounting of streams\<close>

text \<open>
  The three tables agree: the registered streams are those with a token, and the count of a token is
  the number of its streams.
\<close>

definition streams_of :: "client_manager \<Rightarrow> string \<Rightarrow> int set" where
  "streams_of m key = {i. cm_active_file_stream_token m i = Some key}"

definition streams_inv :: "client_manager \<Rightarrow> bool" where
  "streams_inv m \<longleftrightarrow>
     finite (cm_active_file_stream_ids m) \<and> dom (cm_active_file_stream_token m) = cm_active_file_stream_ids m \<and>
     (\<forall>key. cm_active_file_streams_by_token m key =
        (if streams_of m key = {} then None else Some (int (card (streams_of m key)))))"

lemma streams_of_finite: "streams_inv m \<Longrightarrow> finite (streams_of m key)"
  by (rule finite_subset [of _ "cm_active_file_stream_ids m"]) (auto simp: streams_inv_def streams_of_def)

lemma stream_count_card: "streams_inv m \<Longrightarrow> stream_count m key = int (card (streams_of m key))"
  by (auto simp: streams_inv_def stream_count_def)

lemma streams_inv_cong:
  "cm_active_file_stream_ids m' = cm_active_file_stream_ids m \<Longrightarrow>
   cm_active_file_stream_token m' = cm_active_file_stream_token m \<Longrightarrow>
   cm_active_file_streams_by_token m' = cm_active_file_streams_by_token m \<Longrightarrow> streams_inv m \<Longrightarrow> streams_inv m'"
  by (simp add: streams_inv_def streams_of_def)

lemma register_inv:
  assumes "streams_inv m" "i \<notin> cm_active_file_stream_ids m"
  shows "streams_inv (register_file_stream i key m)"
proof -
  let ?m = "register_file_stream i key m"
  have i: "i \<notin> streams_of m k" for k using assms by (auto simp: streams_inv_def streams_of_def)
  have s: "streams_of ?m k = (if k = key then insert i (streams_of m k) else streams_of m k)" for k
    using i [of k] by (auto simp: streams_of_def register_file_stream_def)
  have "card (streams_of ?m key) = card (streams_of m key) + 1"
    using s [of key] i streams_of_finite [OF assms(1)] by simp
  then show ?thesis
    using assms s stream_count_card [OF assms(1), of key]
    by (auto simp: streams_inv_def register_file_stream_def)
qed

lemma release_inv:
  assumes "streams_inv m"
  shows "streams_inv (release_file_stream i m)"
proof (cases "cm_active_file_stream_token m i")
  case None
  then have "i \<notin> cm_active_file_stream_ids m" using assms by (auto simp: streams_inv_def)
  then show ?thesis using assms None by (simp add: release_file_stream_def streams_inv_def streams_of_def)
next
  case (Some key)
  let ?m = "release_file_stream i m"
  have tok: "cm_active_file_stream_token ?m = (cm_active_file_stream_token m)(i := None)"
    and ids: "cm_active_file_stream_ids ?m = cm_active_file_stream_ids m - {i}"
    using Some by (auto simp: release_file_stream_def Let_def split: option.splits)
  have s: "streams_of ?m k = (if k = key then streams_of m k - {i} else streams_of m k)" for k
    using Some by (auto simp: streams_of_def tok)
  have i: "i \<in> streams_of m key" using Some by (simp add: streams_of_def)
  have n: "cm_active_file_streams_by_token m key = Some (int (card (streams_of m key)))"
    using assms i by (auto simp: streams_inv_def)
  have card: "card (streams_of m key - {i}) = card (streams_of m key) - 1" "0 < card (streams_of m key)"
    using i streams_of_finite [OF assms, of key] by (auto simp: card_gt_0_iff)
  have empty: "streams_of m key - {i} = {} \<longleftrightarrow> card (streams_of m key) = 1"
    using card streams_of_finite [OF assms, of key]
    by (metis card_0_eq diff_is_0_eq' finite_Diff le_refl One_nat_def Suc_pred card_eq_0_iff nat.simps(3))
  have "cm_active_file_streams_by_token ?m k =
      (if k = key then (if card (streams_of m key) = 1 then None else Some (int (card (streams_of m key)) - 1))
       else cm_active_file_streams_by_token m k)" for k
    using Some n card by (auto simp: release_file_stream_def Let_def)
  then show ?thesis
    using assms card empty i unfolding streams_inv_def tok ids s
    by (auto simp: of_nat_diff)
qed

lemma check_client_creation_streams:
  assumes "check_client_creation os resolve now ip m = Checked (r, m')"
  shows "cm_active_file_stream_ids m' = cm_active_file_stream_ids m \<and>
         cm_active_file_stream_token m' = cm_active_file_stream_token m \<and>
         cm_active_file_streams_by_token m' = cm_active_file_streams_by_token m \<and>
         cm_clients m' = cm_clients m \<and> cm_token_to_id m' = cm_token_to_id m"
  using assms
  by (auto simp: check_client_creation_def Let_def split: if_splits checked.splits option.splits prod.splits)

lemma create_client_streams:
  assumes "create_client token key u t m = Checked (cid, m', ms)"
  shows "cm_active_file_stream_ids m' = cm_active_file_stream_ids m \<and>
         cm_active_file_stream_token m' = cm_active_file_stream_token m \<and>
         cm_active_file_streams_by_token m' = cm_active_file_streams_by_token m"
  using assms by (auto simp: create_client_def Let_def split: checked.splits)

text \<open>The limits: all streams together, and the streams of one bot.\<close>

definition limits_inv :: "manager_params \<Rightarrow> client_manager \<Rightarrow> bool" where
  "limits_inv mp m \<longleftrightarrow>
     streams_inv m \<and> int (card (cm_active_file_stream_ids m)) \<le> mp_file_stream_max_connections mp \<and>
     (\<forall>key. stream_count m key \<le> per_bot_limit mp)"

lemma admit_limits:
  assumes "admit_file_stream mp e token t f m = Ok u" "0 \<le> mp_file_stream_max_connections mp" "in_int32 (mp_file_stream_max_connections mp)"
  shows "int (card (cm_active_file_stream_ids m)) < mp_file_stream_max_connections mp \<and>
         stream_count m (token_key token t) < per_bot_limit mp \<and> \<not> cm_close_flag m \<and> 0 < u \<and> u < 2 ^ 54 \<and>
         in_token_range (mp_token_range mp) u"
proof -
  have "mp_file_stream_max_connections mp mod 2 ^ 64 = mp_file_stream_max_connections mp"
    using assms(2,3) by (simp add: in_int32_def)
  then show ?thesis
    using assms(1) by (auto simp: admit_file_stream_def split: if_splits sum.splits)
qed

lemma register_limits:
  assumes "limits_inv mp m" "i \<notin> cm_active_file_stream_ids m"
    and "int (card (cm_active_file_stream_ids m)) < mp_file_stream_max_connections mp" "stream_count m key < per_bot_limit mp"
  shows "limits_inv mp (register_file_stream i key m)"
proof -
  have inv: "streams_inv m" "streams_inv (register_file_stream i key m)"
    using assms(1,2) register_inv by (auto simp: limits_inv_def)
  have "card (cm_active_file_stream_ids (register_file_stream i key m)) = card (cm_active_file_stream_ids m) + 1"
    using inv(1) assms(2) by (simp add: register_file_stream_def streams_inv_def)
  moreover have "stream_count (register_file_stream i key m) k = stream_count m k + (if k = key then 1 else 0)" for k
    by (simp add: stream_count_def register_file_stream_def)
  ultimately show ?thesis using assms inv by (auto simp: limits_inv_def)
qed

lemma limits_inv_cong:
  "cm_active_file_stream_ids m' = cm_active_file_stream_ids m \<Longrightarrow>
   cm_active_file_stream_token m' = cm_active_file_stream_token m \<Longrightarrow>
   cm_active_file_streams_by_token m' = cm_active_file_streams_by_token m \<Longrightarrow> limits_inv mp m \<Longrightarrow> limits_inv mp m'"
  using streams_inv_cong [of m' m] by (simp add: limits_inv_def stream_count_def)

lemma send_file_stream_limits:
  assumes "send_file_stream os resolve mp e now i token t f x ip m = Checked (m', ms)" "limits_inv mp m"
    and "i \<notin> cm_active_file_stream_ids m" "0 \<le> mp_file_stream_max_connections mp" "in_int32 (mp_file_stream_max_connections mp)"
  shows "limits_inv mp m'"
proof (cases "admit_file_stream mp e token t f m")
  case (Inl err)
  then show ?thesis using assms(1,2) by (simp add: send_file_stream_def)
next
  case (Inr u)
  note lim = admit_limits [OF Inr assms(4,5)]
  let ?key = "token_key token t"
  have reg: "limits_inv mp (register_file_stream i ?key m1)"
    if "cm_active_file_stream_ids m1 = cm_active_file_stream_ids m"
      "cm_active_file_stream_token m1 = cm_active_file_stream_token m"
      "cm_active_file_streams_by_token m1 = cm_active_file_streams_by_token m" for m1
  proof (rule register_limits)
    show "limits_inv mp m1" using limits_inv_cong that assms(2) by blast
    show "stream_count m1 ?key < per_bot_limit mp" using lim that by (simp add: stream_count_def)
  qed (use lim that assms(3) in auto)
  show ?thesis
  proof (cases "cm_token_to_id m ?key")
    case (Some cid)
    then show ?thesis using assms(1) Inr reg by (auto simp: send_file_stream_def Let_def)
  next
    case None
    then obtain r m1 where c: "check_client_creation os resolve now ip m = Checked (r, m1)"
      using assms(1) Inr by (auto simp: send_file_stream_def Let_def split: checked.splits prod.splits)
    note cc = check_client_creation_streams [OF c]
    show ?thesis
    proof (cases r)
      case (Some w)
      then show ?thesis using assms(1,2) Inr None c cc limits_inv_cong by (auto simp: send_file_stream_def Let_def)
    next
      case r: None
      then obtain cid m2 ms2 where "create_client token ?key u t m1 = Checked (cid, m2, ms2)"
          "m' = register_file_stream i ?key m2"
        using assms(1) Inr None c by (auto simp: send_file_stream_def Let_def split: checked.splits prod.splits)
      then show ?thesis using create_client_streams cc reg by metis
    qed
  qed
qed

lemma release_limits:
  assumes "limits_inv mp m"
  shows "limits_inv mp (release_file_stream i m)"
proof -
  have inv: "streams_inv m" "streams_inv (release_file_stream i m)" using assms release_inv by (auto simp: limits_inv_def)
  have ids: "cm_active_file_stream_ids (release_file_stream i m) \<subseteq> cm_active_file_stream_ids m"
    and s: "streams_of (release_file_stream i m) k \<subseteq> streams_of m k" for k
    by (auto simp: release_file_stream_def Let_def streams_of_def split: option.splits if_splits)
  have "card (cm_active_file_stream_ids (release_file_stream i m)) \<le> card (cm_active_file_stream_ids m)"
    using ids inv(1) by (intro card_mono) (auto simp: streams_inv_def)
  moreover have "stream_count (release_file_stream i m) k \<le> stream_count m k" for k
    using s streams_of_finite [OF inv(1)] inv by (simp add: stream_count_card card_mono)
  moreover have "stream_count m k \<le> per_bot_limit mp" for k using assms by (simp add: limits_inv_def)
  ultimately have "stream_count (release_file_stream i m) k \<le> per_bot_limit mp" for k using order_trans by blast
  then show ?thesis
    using assms inv \<open>card _ \<le> card _\<close> by (simp add: limits_inv_def)
qed

section \<open>The restored webhook\<close>

lemma try_skip_at: "try_skip tag (new_parser (tag @ s)) = (True, new_parser s)"
  by (simp add: try_skip_hit new_parser_def)

lemma webhook_option_at:
  assumes "CHR ''/'' \<notin> set v"
  shows "webhook_option tag arg (new_parser (tag @ v @ CHR ''/'' # s)) = ([(arg, v)], new_parser s)"
proof -
  have "read_till (CHR ''/'') (new_parser (v @ CHR ''/'' # s)) = (v, new_parser (CHR ''/'' # s))"
    using read_till_hit [of "new_parser (v @ CHR ''/'' # s)" v _ s] assms by (simp add: new_parser_def)
  moreover have "skip (CHR ''/'') (new_parser (CHR ''/'' # s)) = new_parser s"
    by (simp add: skip_def new_parser_def)
  ultimately show ?thesis by (simp add: webhook_option_def try_skip_at)
qed

lemma webhook_option_miss:
  "\<not> begins_with s tag \<Longrightarrow> webhook_option tag arg (new_parser s) = ([], new_parser s)"
  by (simp add: webhook_option_def try_skip_miss)

definition restored_args :: "nat \<Rightarrow> webhook_settings \<Rightarrow> (string \<times> string) list" where
  "restored_args dflt w =
     (if wh_has_certificate w then [(''certificate'', ''previous'')] else []) @
     [(''max_connections'', print_signed (wh_max_connections w))] @
     (if wh_ip_address w \<noteq> [] then [(''ip_address'', wh_ip_address w)] else []) @
     (if wh_fix_ip_address w then [(''fix_ip_address'', ''1'')] else []) @
     (if wh_secret_token w \<noteq> [] then [(''secret_token'', wh_secret_token w)] else []) @
     (if wh_allowed_update_types w \<noteq> dflt then [(''allowed_updates'', print_uint (wh_allowed_update_types w))] else []) @
     [(''url'', wh_url w)]"

text \<open>A text that does not continue with a tag.\<close>

lemma no_tag_hash: "\<not> begins_with s ''#'' \<Longrightarrow> \<not> begins_with s (CHR ''#'' # tag)"
  by (auto simp: begins_with_iff)

lemma tag_differs: "c \<noteq> d \<Longrightarrow> \<not> begins_with (CHR ''#'' # c # s) (CHR ''#'' # d # tag)"
  by (auto simp: begins_with_iff)

text \<open>Each stored option is followed by the rest of the text; reading it back gives the argument.\<close>

lemma webhook_restore:
  assumes ip: "CHR ''/'' \<notin> set (wh_ip_address w)" and secret: "CHR ''/'' \<notin> set (wh_secret_token w)"
    and url: "\<not> begins_with (wh_url w) ''#''"
  shows "q_args (get_webhook_restore_query token (save_webhook dflt w)) = restored_args dflt w"
proof -
  define s5 where "s5 = wh_url w"
  define s4 where "s4 = (if wh_allowed_update_types w \<noteq> dflt then ''#allow'' @ print_uint (wh_allowed_update_types w) @ CHR ''/'' # s5 else s5)"
  define s3 where "s3 = (if wh_secret_token w \<noteq> [] then ''#secret'' @ wh_secret_token w @ CHR ''/'' # s4 else s4)"
  define s2 where "s2 = (if wh_fix_ip_address w then ''#fix_ip'' @ CHR ''/'' # s3 else s3)"
  define s1 where "s1 = (if wh_ip_address w \<noteq> [] then ''#ip'' @ wh_ip_address w @ CHR ''/'' # s2 else s2)"
  define s0 where "s0 = ''#maxc'' @ print_signed (wh_max_connections w) @ CHR ''/'' # s1"
  note miss = no_tag_hash [OF url, folded s5_def] tag_differs
  have save: "save_webhook dflt w = (if wh_has_certificate w then ''cert/'' @ s0 else s0)"
    by (simp add: save_webhook_def s0_def s1_def s2_def s3_def s4_def s5_def print_int_eq)
  have uint: "CHR ''/'' \<notin> set (print_uint n)" for n
    using print_uint_digits digit_not by blast
  have signed: "CHR ''/'' \<notin> set (print_signed n)" for n
    using uint by (simp add: print_signed_def)
  have 0: "try_skip ''cert/'' (new_parser (save_webhook dflt w)) = (wh_has_certificate w, new_parser s0)"
    using try_skip_at [of "''cert/''" s0] try_skip_miss [of "new_parser s0" "''cert/''"]
    by (auto simp: save begins_with_iff s0_def)
  have 1: "webhook_option ''#maxc'' ''max_connections'' (new_parser s0) =
      ([(''max_connections'', print_signed (wh_max_connections w))], new_parser s1)"
    unfolding s0_def by (rule webhook_option_at [OF signed])
  have 2: "webhook_option ''#ip'' ''ip_address'' (new_parser s1) =
      (if wh_ip_address w \<noteq> [] then [(''ip_address'', wh_ip_address w)] else [], new_parser s2)"
  proof (cases "wh_ip_address w = []")
    case True
    then have "\<not> begins_with s1 ''#ip''" using miss by (simp add: s1_def s2_def s3_def s4_def)
    then show ?thesis using True webhook_option_miss by (simp add: s1_def)
  next
    case False
    then show ?thesis unfolding s1_def using webhook_option_at [OF ip, of "''#ip''" _ s2] by simp
  qed
  have 3: "try_skip ''#fix_ip'' (new_parser s2) = (wh_fix_ip_address w, new_parser (if wh_fix_ip_address w then CHR ''/'' # s3 else s3))"
  proof (cases "wh_fix_ip_address w")
    case True
    then show ?thesis unfolding s2_def using try_skip_at [of "''#fix_ip''" "CHR ''/'' # s3"] by simp
  next
    case False
    then have "\<not> begins_with s2 ''#fix_ip''" using miss by (simp add: s2_def s3_def s4_def)
    then show ?thesis using False by (simp add: s2_def try_skip_miss)
  qed
  have 4: "webhook_option ''#secret'' ''secret_token'' (new_parser s3) =
      (if wh_secret_token w \<noteq> [] then [(''secret_token'', wh_secret_token w)] else [], new_parser s4)"
  proof (cases "wh_secret_token w = []")
    case True
    then have "\<not> begins_with s3 ''#secret''" using miss by (simp add: s3_def s4_def)
    then show ?thesis using True webhook_option_miss by (simp add: s3_def)
  next
    case False
    then show ?thesis unfolding s3_def using webhook_option_at [OF secret, of "''#secret''" _ s4] by simp
  qed
  have 5: "webhook_option ''#allow'' ''allowed_updates'' (new_parser s4) =
      (if wh_allowed_update_types w \<noteq> dflt then [(''allowed_updates'', print_uint (wh_allowed_update_types w))] else [], new_parser s5)"
  proof (cases "wh_allowed_update_types w = dflt")
    case True
    then show ?thesis using miss webhook_option_miss by (simp add: s4_def)
  next
    case False
    then show ?thesis unfolding s4_def using webhook_option_at [OF uint, of "''#allow''" _ _ s5] by simp
  qed
  have 6: "skip (CHR ''/'') (new_parser (CHR ''/'' # s3)) = new_parser s3" by (simp add: skip_def new_parser_def)
  show ?thesis
    unfolding get_webhook_restore_query_def Let_def 0 prod.case 1 2 3
    by (cases "wh_fix_ip_address w") (simp_all add: 4 5 6 restored_args_def read_all_def s5_def)
qed

lemma webhook_restore_token:
  "q_token (get_webhook_restore_query (token @ (if t then '':T'' else [])) info) = token \<and>
   q_is_test_dc (get_webhook_restore_query (token @ (if t then '':T'' else [])) info) = t"
  if "\<not> ends_with token '':T''"
  using that by (auto simp: get_webhook_restore_query_def Let_def ends_with_iff split: prod.splits)

section \<open>The clients\<close>

text \<open>Every known token leads to the client of that token.\<close>

definition clients_inv :: "client_manager \<Rightarrow> bool" where
  "clients_inv m \<longleftrightarrow>
     container_inv (cm_clients m) \<and>
     (\<forall>key cid. cm_token_to_id m key = Some cid \<longrightarrow>
        live_id (cm_clients m) cid \<and> (\<exists>info. container_get (cm_clients m) cid = Some (Some info) \<and> ci_token info = key))"

lemma clients_inv_init: "clients_inv new_client_manager"
  by (simp add: clients_inv_def new_client_manager_def new_container_def container_inv_def)

lemma create_client_inv:
  assumes "create_client token key u t m = Checked (cid, m', ms)" "clients_inv m"
  shows "clients_inv m' \<and> cm_token_to_id m' key = Some cid"
proof -
  obtain cs where c: "container_create \<lparr>ci_token = key, ci_tqueue_id = get_tqueue_id u t\<rparr> 0 (cm_clients m) = Checked (cid, cs)"
      "m' = m\<lparr>cm_clients := cs, cm_token_to_id := (cm_token_to_id m)(key \<mapsto> cid)\<rparr>"
    using assms(1) by (auto simp: create_client_def Let_def split: checked.splits)
  have inv: "container_inv (cm_clients m)" using assms(2) by (simp add: clients_inv_def)
  note new = create_inv [OF c(1) inv] create_get [OF c(1) inv]
  have "live_id cs k \<and> (\<exists>info. container_get cs k = Some (Some info) \<and> ci_token info = key')"
    if "cm_token_to_id m key' = Some k" for key' k
    using create_other [OF c(1) inv] assms(2) that unfolding clients_inv_def by metis
  then show ?thesis using new by (auto simp: c(2) clients_inv_def)
qed

lemma hangup_inv:
  assumes "hangup_shared cid m = Checked (m', ms)" "clients_inv m" "cm_token_to_id m key = Some cid"
  shows "clients_inv m' \<and> cm_token_to_id m' key = None"
proof -
  have known: "live_id (cm_clients m) cid" "\<exists>info. container_get (cm_clients m) cid = Some (Some info) \<and> ci_token info = key"
    using assms(2,3) unfolding clients_inv_def by blast+
  note live = known(1)
  obtain info where info: "container_get (cm_clients m) cid = Some (Some info)" "ci_token info = key"
    using known(2) by blast
  let ?cs = "container_erase cid (cm_clients m)"
  have m': "cm_clients m' = ?cs" "cm_token_to_id m' = (cm_token_to_id m)(key := None)"
    using assms(1) info by (auto simp: hangup_shared_def Let_def close_db_def split: checked.splits if_splits)
  have "live_id ?cs k \<and> (\<exists>info. container_get ?cs k = Some (Some info) \<and> ci_token info = key')"
    if k: "cm_token_to_id m key' = Some k" "key' \<noteq> key" for key' k
  proof -
    obtain info' where i: "live_id (cm_clients m) k" "container_get (cm_clients m) k = Some (Some info')" "ci_token info' = key'"
      using assms(2) k(1) unfolding clients_inv_def by blast
    then have "k \<noteq> cid" using info k(2) by auto
    then show ?thesis using erase_other [OF live i(1)] i by auto
  qed
  then show ?thesis
    using erase_inv [OF live] assms(2) by (auto simp: clients_inv_def m')
qed

text \<open>A stream is started on the client of its own token.\<close>

lemma send_file_stream_clients:
  assumes "send_file_stream os resolve mp e now i token t f x ip m = Checked (m', ms)" "clients_inv m"
  shows "clients_inv m' \<and> (\<forall>cid f x. StartFileStream cid i f x \<in> set ms \<longrightarrow> cm_token_to_id m' (token_key token t) = Some cid)"
proof (cases "admit_file_stream mp e token t f m")
  case (Inl err)
  then show ?thesis using assms by (auto simp: send_file_stream_def)
next
  case (Inr u)
  let ?key = "token_key token t"
  have reg: "clients_inv (register_file_stream i ?key m1) = clients_inv m1"
    "cm_token_to_id (register_file_stream i ?key m1) = cm_token_to_id m1" for m1
    by (simp_all add: clients_inv_def register_file_stream_def)
  show ?thesis
  proof (cases "cm_token_to_id m ?key")
    case (Some cid)
    then show ?thesis using assms Inr reg by (auto simp: send_file_stream_def Let_def)
  next
    case None
    then obtain r m1 where c: "check_client_creation os resolve now ip m = Checked (r, m1)"
      using assms(1) Inr by (auto simp: send_file_stream_def Let_def split: checked.splits prod.splits)
    have inv1: "clients_inv m1" using check_client_creation_streams [OF c] assms(2) by (simp add: clients_inv_def)
    show ?thesis
    proof (cases r)
      case (Some w)
      then show ?thesis using assms(1) Inr None c inv1 by (auto simp: send_file_stream_def Let_def)
    next
      case r: None
      then obtain cid m2 ms2 where c2: "create_client token ?key u t m1 = Checked (cid, m2, ms2)"
          "m' = register_file_stream i ?key m2" "ms = ms2 @ [StreamSetClient i cid, StartFileStream cid i f x]"
        using assms(1) Inr None c by (auto simp: send_file_stream_def Let_def split: checked.splits prod.splits)
      moreover have "StartFileStream k j g y \<notin> set ms2" for k j g y
        using c2(1) by (auto simp: create_client_def Let_def split: checked.splits)
      ultimately show ?thesis using create_client_inv [OF c2(1) inv1] reg by auto
    qed
  qed
qed

section \<open>The manager as a transition system\<close>

inductive manager_step ::
  "inet \<Rightarrow> (string \<Rightarrow> ip_address) \<Rightarrow> manager_params \<Rightarrow> (string \<Rightarrow> string) \<Rightarrow> client_manager \<Rightarrow> client_manager \<Rightarrow> bool"
  for os resolve mp db where
  step_stream: "i \<notin> cm_active_file_stream_ids m \<Longrightarrow>
     send_file_stream os resolve mp e now i token t f x ip m = Checked (m', ms) \<Longrightarrow> manager_step os resolve mp db m m'"
| step_release: "manager_step os resolve mp db m (release_file_stream i m)"
| step_query: "send_query os resolve mp db now q m = Checked (m', ms) \<Longrightarrow> manager_step os resolve mp db m m'"
| step_event: "manager_raw_event cid a m = Checked m' \<Longrightarrow> manager_step os resolve mp db m m'"
| step_hangup: "cm_token_to_id m key = Some cid \<Longrightarrow> hangup_shared cid m = Checked (m', ms) \<Longrightarrow> manager_step os resolve mp db m m'"
| step_close: "manager_step os resolve mp db m (fst (close_manager m))"
| step_timeout: "manager_step os resolve mp db m (fst (manager_timeout_expired mp now later gc m))"

text \<open>The operations that touch neither the streams nor the clients.\<close>

definition same_tables :: "client_manager \<Rightarrow> client_manager \<Rightarrow> bool" where
  "same_tables m m' \<longleftrightarrow>
     cm_active_file_stream_ids m' = cm_active_file_stream_ids m \<and>
     cm_active_file_stream_token m' = cm_active_file_stream_token m \<and>
     cm_active_file_streams_by_token m' = cm_active_file_streams_by_token m"

lemma same_tables_limits: "same_tables m m' \<Longrightarrow> limits_inv mp m \<Longrightarrow> limits_inv mp m'"
  using streams_inv_cong [of m' m] by (simp add: same_tables_def limits_inv_def stream_count_def)

lemma same_clients: "cm_clients m' = cm_clients m \<Longrightarrow> cm_token_to_id m' = cm_token_to_id m \<Longrightarrow> clients_inv m \<Longrightarrow> clients_inv m'"
  by (simp add: clients_inv_def)

lemma quiet_steps:
  "manager_raw_event cid a m = Checked m' \<Longrightarrow> same_tables m m' \<and> cm_clients m' = cm_clients m \<and> cm_token_to_id m' = cm_token_to_id m"
  "same_tables m (fst (close_manager m)) \<and> cm_clients (fst (close_manager m)) = cm_clients m \<and>
   cm_token_to_id (fst (close_manager m)) = cm_token_to_id m"
  "same_tables m (fst (manager_timeout_expired mp now later gc m)) \<and>
   cm_clients (fst (manager_timeout_expired mp now later gc m)) = cm_clients m \<and>
   cm_token_to_id (fst (manager_timeout_expired mp now later gc m)) = cm_token_to_id m"
  "hangup_shared cid m = Checked (m2, ms) \<Longrightarrow> same_tables m m2"
  by (auto simp: manager_raw_event_def close_manager_def close_db_def finish_close_def manager_timeout_expired_def
      hangup_shared_def same_tables_def Let_def split: option.splits if_splits checked.splits prod.splits)

lemma send_query_step:
  assumes "send_query os resolve mp db now q m = Checked (m', ms)" "clients_inv m"
  shows "same_tables m m' \<and> clients_inv m'"
proof -
  let ?key = "token_key (q_token q) (q_is_test_dc q)"
  consider "m' = m" | r m1 where "check_client_creation os resolve now (q_peer_ip q) m = Checked (r, m1)" "m' = m1"
    | m1 cid u ms2 where "check_client_creation os resolve now (q_peer_ip q) m = Checked (None, m1)"
        "create_client (q_token q) ?key u (q_is_test_dc q) m1 = Checked (cid, m', ms2)"
    using assms(1) by (auto simp: send_query_def Let_def split: if_splits sum.splits option.splits checked.splits prod.splits)
  then show ?thesis
  proof cases
    case 2
    then show ?thesis
      using check_client_creation_streams [OF 2(1)] assms(2) by (auto simp: same_tables_def intro: same_clients)
  next
    case 3
    note c = check_client_creation_streams [OF 3(1)]
    then have "clients_inv m1" using assms(2) by (auto intro: same_clients)
    then show ?thesis
      using create_client_inv [OF 3(2)] create_client_streams [OF 3(2)] c by (simp add: same_tables_def)
  qed (simp add: assms same_tables_def)
qed

lemma manager_step_inv:
  assumes "manager_step os resolve mp db m m'" "limits_inv mp m" "clients_inv m"
    "0 \<le> mp_file_stream_max_connections mp" "in_int32 (mp_file_stream_max_connections mp)"
  shows "limits_inv mp m' \<and> clients_inv m'"
  using assms(1)
proof cases
  case (step_stream i e now token t f x ip ms)
  then show ?thesis
    using send_file_stream_limits [OF step_stream(2)] send_file_stream_clients [OF step_stream(2)] assms by simp
next
  case (step_release i)
  then show ?thesis
    using release_limits assms
    by (auto simp: release_file_stream_def Let_def intro!: same_clients [OF _ _ assms(3)] split: option.splits)
next
  case (step_query now q ms)
  then show ?thesis using send_query_step same_tables_limits assms by blast
next
  case (step_event cid a)
  then show ?thesis using quiet_steps(1) same_tables_limits same_clients assms by metis
next
  case (step_hangup key cid ms)
  then show ?thesis using quiet_steps(4) same_tables_limits hangup_inv assms by blast
next
  case step_close
  then show ?thesis using quiet_steps(2) same_tables_limits same_clients assms by metis
next
  case (step_timeout now later gc)
  then show ?thesis using quiet_steps(3) same_tables_limits same_clients assms by metis
qed

lemma init_limits: "0 \<le> mp_file_stream_max_connections mp \<Longrightarrow> limits_inv mp new_client_manager"
  by (simp add: limits_inv_def streams_inv_def new_client_manager_def streams_of_def stream_count_def per_bot_limit_def)

lemma manager_reach_inv:
  assumes "(manager_step os resolve mp db)\<^sup>*\<^sup>* new_client_manager m"
    and "0 \<le> mp_file_stream_max_connections mp" "in_int32 (mp_file_stream_max_connections mp)"
  shows "limits_inv mp m \<and> clients_inv m"
  using assms(1)
proof (induction rule: rtranclp_induct)
  case base
  show ?case using init_limits [OF assms(2)] clients_inv_init by simp
next
  case (step m m')
  then show ?case using manager_step_inv assms(2,3) by blast
qed

section \<open>Properties of the manager\<close>


definition demo_params :: manager_params where
  "demo_params = \<lparr>mp_local_mode = False, mp_file_streaming_enabled = True, mp_file_stream_max_connections = 4,
     mp_token_range = \<lparr>tr_rem = 0, tr_mod = 1\<rparr>\<rparr>"

definition demo_os :: inet where
  "demo_os = \<lparr>pton4 = (\<lambda>_. None), pton6 = (\<lambda>_. None), ntop4 = (\<lambda>_. []), ntop6 = (\<lambda>_. [])\<rparr>"

definition demo_admitted :: "(client_manager \<times> manager_msg list) checked" where
  "demo_admitted = send_file_stream demo_os (\<lambda>_. Invalid) demo_params False 0 7 ''12:ab'' False ''f'' (- 1) [] new_client_manager"

fun manager_of :: "(client_manager \<times> manager_msg list) checked \<Rightarrow> client_manager" where
  "manager_of (Checked r) = fst r"
| "manager_of CheckFailed = new_client_manager"

fun messages_of :: "(client_manager \<times> manager_msg list) checked \<Rightarrow> manager_msg list" where
  "messages_of (Checked r) = snd r"
| "messages_of CheckFailed = []"

lemma checked_parts: "messages_of r \<noteq> [] \<Longrightarrow> r = Checked (manager_of r, messages_of r)"
  by (cases r) auto

lemma demo_admitted_run:
  "length (messages_of demo_admitted) = 3" "stream_count (manager_of demo_admitted) ''12:ab'' = 1"
  by code_simp+

lemma demo_admitted_step: "manager_step demo_os (\<lambda>_. Invalid) demo_params (\<lambda>_. []) new_client_manager (manager_of demo_admitted)"
proof -
  have "demo_admitted = Checked (manager_of demo_admitted, messages_of demo_admitted)"
    using demo_admitted_run(1) by (intro checked_parts) auto
  then show ?thesis
    unfolding demo_admitted_def by (rule step_stream [rotated]) (simp add: new_client_manager_def)
qed




text \<open>
  The webhook that a client stores is restored exactly: parsing the stored text gives the arguments of
  the original \<^verbatim>\<open>setwebhook\<close> query, as long as the address and the secret contain no slash and the URL does
  not start with a hash sign.
\<close>

theorem webhook_save_restore:
  assumes "CHR ''/'' \<notin> set (wh_ip_address w)" "CHR ''/'' \<notin> set (wh_secret_token w)"
    and "\<not> begins_with (wh_url w) ''#''" "\<not> ends_with token '':T''"
  shows "q_args (get_webhook_restore_query (token @ (if t then '':T'' else [])) (save_webhook dflt w)) = restored_args dflt w \<and>
         q_token (get_webhook_restore_query (token @ (if t then '':T'' else [])) (save_webhook dflt w)) = token \<and>
         q_is_test_dc (get_webhook_restore_query (token @ (if t then '':T'' else [])) (save_webhook dflt w)) = t"
  using webhook_restore [OF assms(1-3)] webhook_restore_token [OF assms(4)] by simp

definition demo_webhook :: webhook_settings where
  "demo_webhook = \<lparr>wh_has_certificate = True, wh_max_connections = 40, wh_ip_address = ''1.2.3.4'', wh_fix_ip_address = True,
     wh_secret_token = ''s'', wh_allowed_update_types = 5, wh_url = ''https://h/''\<rparr>"

theorem webhook_save_restore_witness:
  "q_args (get_webhook_restore_query ''12:ab:T'' (save_webhook 3 demo_webhook)) =
     [(''certificate'', ''previous''), (''max_connections'', ''40''), (''ip_address'', ''1.2.3.4''), (''fix_ip_address'', ''1''),
      (''secret_token'', ''s''), (''allowed_updates'', ''5''), (''url'', ''https://h/'')]"
proof -
  have "CHR ''/'' \<notin> set (wh_ip_address demo_webhook)" "CHR ''/'' \<notin> set (wh_secret_token demo_webhook)"
    "\<not> begins_with (wh_url demo_webhook) ''#''" "\<not> ends_with ''12:ab'' '':T''"
    by (simp_all add: demo_webhook_def begins_with_def ends_with_def)
  note restored = webhook_save_restore [OF this, of True 3]
  have "restored_args 3 demo_webhook = [(''certificate'', ''previous''), (''max_connections'', ''40''), (''ip_address'', ''1.2.3.4''),
      (''fix_ip_address'', ''1''), (''secret_token'', ''s''), (''allowed_updates'', ''5''), (''url'', ''https://h/'')]"
    by code_simp
  then show ?thesis using restored by simp
qed

end
