(* ===== verification/HttpConn.thy ===== *)
theory HttpConn
  imports FileStreamHolds ClientManager
begin

text \<open>
  \<^verbatim>\<open>HttpConnection\<close> of \<^verbatim>\<open>server/HttpConnection.cpp\<close>, the accessors of \<^verbatim>\<open>td::HttpQuery\<close> and the life of a
  \<^verbatim>\<open>Query\<close> (\<^verbatim>\<open>server/Query.cpp\<close>): routing of a request to the streaming endpoint or to the client manager,
  and the response that is written.  What the actor sends is appended to \<open>hn_log\<close>; log output and
  statistics are left out.
\<close>

datatype http_type = HttpEmpty | HttpGet | HttpHead | HttpPost | HttpResponse

record http_query =
  hq_type :: http_type
  hq_code :: int
  hq_url_path :: string
  hq_args :: "(string \<times> string) list"
  hq_reason :: string
  hq_keep_alive :: bool
  hq_headers :: "(string \<times> string) list"
  hq_peer_address :: ip_address

text \<open>\<^verbatim>\<open>std::find_if\<close> on a list of pairs: the value of the first pair with the key, or the empty slice.\<close>

definition find_key :: "string \<Rightarrow> (string \<times> string) list \<Rightarrow> string" where
  "find_key key kvs = (case List.find (\<lambda>kv. fst kv = key) kvs of None \<Rightarrow> [] | Some kv \<Rightarrow> snd kv)"

definition get_header :: "string \<Rightarrow> http_query \<Rightarrow> string" where
  "get_header key q = find_key key (hq_headers q)"

definition get_arg :: "string \<Rightarrow> http_query \<Rightarrow> string" where
  "get_arg key q = find_key key (hq_args q)"

definition get_retry_after :: "http_query \<Rightarrow> int" where
  "get_retry_after q =
     (let value = get_header ''retry-after'' q
      in if value = [] then 0
         else (case to_integer_safe 32 value of Inl _ \<Rightarrow> 0 | Inr n \<Rightarrow> max 0 n))"

section \<open>Queries\<close>

datatype query_state = QueryPending | QueryOk | QueryError

record api_query =
  qy_state :: query_state
  qy_peer_ip_address :: ip_address
  qy_token :: string
  qy_is_test_dc :: bool
  qy_method :: string
  qy_args :: "(string \<times> string) list"
  qy_headers :: "(string \<times> string) list"
  qy_is_internal :: bool
  qy_answer :: string
  qy_http_status_code :: int
  qy_retry_after :: int

definition new_query ::
  "string \<Rightarrow> bool \<Rightarrow> string \<Rightarrow> (string \<times> string) list \<Rightarrow> (string \<times> string) list \<Rightarrow> ip_address \<Rightarrow> bool \<Rightarrow> api_query" where
  "new_query token is_test_dc method args headers peer is_internal =
     \<lparr>qy_state = QueryPending, qy_peer_ip_address = peer, qy_token = token, qy_is_test_dc = is_test_dc,
      qy_method = to_lower (if method = [] then find_key ''method'' args else method),
      qy_args = args, qy_headers = headers, qy_is_internal = is_internal,
      qy_answer = [], qy_http_status_code = 0, qy_retry_after = 0\<rparr>"

definition get_peer_ip_address :: "inet \<Rightarrow> api_query \<Rightarrow> string checked" where
  "get_peer_ip_address os q =
     (if is_valid (qy_peer_ip_address q)
      then (case is_reserved os (qy_peer_ip_address q) of
              CheckFailed \<Rightarrow> CheckFailed
            | Checked r \<Rightarrow> Checked (if \<not> r then get_ip_str os (qy_peer_ip_address q)
                                   else find_key ''x-real-ip'' (qy_headers q)))
      else Checked (find_key ''x-real-ip'' (qy_headers q)))"

definition is_ready :: "api_query \<Rightarrow> bool" where
  "is_ready q \<longleftrightarrow> qy_state q \<noteq> QueryPending"

definition set_ok :: "string \<Rightarrow> api_query \<Rightarrow> api_query checked" where
  "set_ok res q =
     (if qy_state q \<noteq> QueryPending then CheckFailed
      else Checked (q\<lparr>qy_answer := res, qy_state := QueryOk, qy_http_status_code := 200\<rparr>))"

definition set_error :: "int \<Rightarrow> string \<Rightarrow> api_query \<Rightarrow> api_query checked" where
  "set_error http_status_code res q =
     (if qy_state q \<noteq> QueryPending then CheckFailed
      else Checked (q\<lparr>qy_answer := res, qy_state := QueryError, qy_http_status_code := http_status_code\<rparr>))"

definition retry_after_answer :: "int \<Rightarrow> string checked" where
  "retry_after_answer retry_after =
     json_encode False (JsonObject [(''ok'', JsonFalse), (''error_code'', JsonInt 429),
       (''description'', JsonString (''Too Many Requests: retry after '' @ print_int 32 retry_after)),
       (''parameters'', JsonObject [(''retry_after'', JsonInt retry_after)])])"

definition set_retry_after_error :: "int \<Rightarrow> api_query \<Rightarrow> api_query checked" where
  "set_retry_after_error retry_after q =
     (case retry_after_answer retry_after of
        CheckFailed \<Rightarrow> CheckFailed
      | Checked res \<Rightarrow> set_error 429 res (q\<lparr>qy_retry_after := retry_after\<rparr>))"

text \<open>\<^verbatim>\<open>PromiseDeleter\<close>: a query that is dropped unanswered is answered with a retry error; the value goes
  to the promise of the connection.\<close>

definition drop_query :: "api_query \<Rightarrow> api_query checked" where
  "drop_query q = (if \<not> is_ready q then set_retry_after_error 5 q else Checked q)"

section \<open>The connection\<close>

datatype http_msg =
    HnWriteNoflush string
  | HnWriteOk
  | HnWriteError status
  | HnCreateStream stream_conn
  | HnSendQuery api_query

record http_conn =
  hn_connection :: bool
  hn_head_response :: bool
  hn_config :: file_stream_config
  hn_log :: "http_msg list"

definition new_http_conn :: "file_stream_config \<Rightarrow> http_conn" where
  "new_http_conn config = \<lparr>hn_connection = False, hn_head_response = False, hn_config = config, hn_log = []\<rparr>"

definition send_http :: "http_msg \<Rightarrow> http_conn \<Rightarrow> http_conn" where
  "send_http m h = h\<lparr>hn_log := hn_log h @ [m]\<rparr>"

definition http_header :: "int \<Rightarrow> nat \<Rightarrow> int \<Rightarrow> string \<Rightarrow> string result" where
  "http_header http_status_code content_size retry_after allow =
     (let hc1 = set_content_type ''application/json'' (set_keep_alive (init_status_line http_status_code));
          hc2 = (if retry_after > 0 then add_header ''Retry-After'' (print_int 32 retry_after) hc1 else hc1);
          hc3 = (if allow \<noteq> [] then add_header ''Allow'' allow hc2 else hc2)
      in hc_finish [] (set_content_size content_size hc3))"

definition send_response :: "int \<Rightarrow> string \<Rightarrow> int \<Rightarrow> string \<Rightarrow> http_conn \<Rightarrow> http_conn" where
  "send_response http_status_code content retry_after allow h =
     (case http_header http_status_code (length content) retry_after allow of
        Inl e \<Rightarrow> (send_http (HnWriteError e) h)\<lparr>hn_connection := False\<rparr>
      | Inr header \<Rightarrow>
          (let h1 = send_http (HnWriteNoflush header) h;
               h2 = (if \<not> hn_head_response h1 then send_http (HnWriteNoflush content) h1 else h1)
           in (send_http HnWriteOk h2)\<lparr>hn_connection := False\<rparr>))"

definition send_http_error :: "int \<Rightarrow> string \<Rightarrow> string \<Rightarrow> http_conn \<Rightarrow> http_conn checked" where
  "send_http_error http_status_code description allow h =
     (case json_query_error http_status_code description of
        CheckFailed \<Rightarrow> CheckFailed
      | Checked content \<Rightarrow> Checked (send_response http_status_code content 0 allow h))"

abbreviation no_memory_message :: string where
  "no_memory_message \<equiv> ''Telegram workdir disk space exhausted; service is shutting down''"

text \<open>
  The branch of \<^verbatim>\<open>handle\<close> for the streaming endpoint.  \<open>emergency\<close> is the flag the cleanup manager sets,
  \<open>has_cleanup\<close> tells that there is a cleanup manager, \<open>stream_id\<close> is the next value of the counter of the
  constructor of \<^verbatim>\<open>FileStreamConnection\<close>.
\<close>

definition handle_stream ::
  "inet \<Rightarrow> bool \<Rightarrow> bool \<Rightarrow> int \<Rightarrow> http_query \<Rightarrow> http_conn \<Rightarrow> http_conn checked" where
  "handle_stream os emergency has_cleanup stream_id q h =
     (if emergency then send_http_error 507 no_memory_message [] h
      else if \<not> cfg_enabled (hn_config h) then send_http_error 404 ''Not Found'' [] h
      else if hq_type q \<noteq> HttpGet \<and> hq_type q \<noteq> HttpHead
      then send_http_error 405 ''Method Not Allowed: file streaming requires GET or HEAD'' ''GET, HEAD'' h
      else (case parse_file_stream_route (hq_url_path q) of
        Inl e \<Rightarrow> send_http_error (if status_code e \<ge> 400 \<and> status_code e \<le> 599 then status_code e else 400)
                   (status_message e) [] h
      | Inr route \<Rightarrow>
          (case is_file_stream_ip_allowed os (hq_peer_address q) (cfg_allow_ip (hn_config h)) of
             CheckFailed \<Rightarrow> CheckFailed
           | Checked False \<Rightarrow> send_http_error 403 ''Forbidden: streaming endpoint source address is not allowed'' [] h
           | Checked True \<Rightarrow>
               (case parse_file_stream_size_hint (get_header ''x-telegram-file-size'' q) of
                  Inl e \<Rightarrow> send_http_error 400 (status_message e) [] h
                | Inr expected_size \<Rightarrow>
                    (let parsed = route\<lparr>route_expected_size := expected_size,
                           route_no_cache := parse_file_stream_no_cache (get_header ''x-telegram-no-cache'' q),
                           route_range := get_header ''range'' q, route_head_only := (hq_type q = HttpHead)\<rparr>
                     in Checked ((send_http (HnCreateStream
                          (new_stream_conn stream_id has_cleanup parsed (hn_config h) (hq_peer_address q))) h)
                          \<lparr>hn_connection := False\<rparr>))))))"

text \<open>The branch for the methods of the Bot API.\<close>

definition handle_method :: "http_query \<Rightarrow> http_conn \<Rightarrow> http_conn checked" where
  "handle_method q h =
     (if hq_type q = HttpHead
      then send_http_error 405 ''Method Not Allowed: HEAD is only supported for file streaming'' ''GET, POST'' h
      else (let (is_bot, p1) = try_skip ''/bot'' (new_parser (hq_url_path q))
            in if \<not> is_bot then send_http_error 404 ''Not Found'' [] h
               else (let (token, p2) = read_till (CHR ''/'') p1;
                         (is_test_dc, p3) = try_skip ''/test'' p2;
                         p4 = skip (CHR ''/'') p3
                     in if status_of p4 \<noteq> None then send_http_error 404 ''Not Found'' [] h
                        else Checked (send_http (HnSendQuery (new_query token is_test_dc (data_of p4)
                               (hq_args q) (hq_headers q) (hq_peer_address q) False)) h))))"

definition handle ::
  "inet \<Rightarrow> bool \<Rightarrow> bool \<Rightarrow> int \<Rightarrow> http_query \<Rightarrow> http_conn \<Rightarrow> http_conn checked" where
  "handle os emergency has_cleanup stream_id q h =
     (if hn_connection h then CheckFailed
      else (let h1 = h\<lparr>hn_connection := True, hn_head_response := (hq_type q = HttpHead)\<rparr>
            in if peek_char (new_parser (hq_url_path q)) \<noteq> CHR ''/''
               then send_http_error 404 ''Not Found: absolute URI is specified in the Request-Line'' [] h1
               else if begins_with (hq_url_path q) ''/stream/file/bot''
               then handle_stream os emergency has_cleanup stream_id q h1
               else handle_method q h1))"

definition on_query_finished :: "api_query result \<Rightarrow> http_conn \<Rightarrow> http_conn checked" where
  "on_query_finished r h =
     (case r of
        Inl _ \<Rightarrow> CheckFailed
      | Inr q \<Rightarrow> Checked (send_response (qy_http_status_code q) (qy_answer q) (qy_retry_after q) [] h))"

section \<open>The header of a response\<close>

definition response_text :: "int \<Rightarrow> nat \<Rightarrow> int \<Rightarrow> string \<Rightarrow> string" where
  "response_text c n retry_after allow =
     status_text c @ header_line ''Connection'' ''keep-alive'' @ header_line ''Content-Type'' ''application/json'' @
     (if retry_after > 0 then header_line ''Retry-After'' (print_signed retry_after) else []) @
     (if allow \<noteq> [] then header_line ''Allow'' allow else []) @
     header_line ''Content-Length'' (print_uint n) @ crlf"

lemma http_header_text:
  assumes "in_signed 64 c" "in_signed 64 retry_after" "length allow \<le> 1000" "n \<le> size_t_max"
  shows "http_header c n retry_after allow = Ok (response_text c n retry_after allow)"
proof -
  let ?h1 = "set_content_type ''application/json'' (set_keep_alive (init_status_line c))"
  let ?h2 = "if retry_after > 0 then add_header ''Retry-After'' (print_int 32 retry_after) ?h1 else ?h1"
  let ?h3 = "if allow \<noteq> [] then add_header ''Allow'' allow ?h2 else ?h2"
  have grow: "filled sb m" if "filled sb k" "k \<le> m" for sb k m
    using that by (simp add: filled_def)
  have "filled (set_keep_alive (init_status_line c)) (100 + length ''Connection'' + length ''keep-alive'' + 4)"
    unfolding set_keep_alive_def by (rule filled_add_header [OF filled_status_line [OF assms(1)]]) simp
  then have "filled ?h1 (100 + length ''Connection'' + length ''keep-alive'' + 4 + length ''Content-Type'' + length ''application/json'' + 4)"
    unfolding set_content_type_def by (rule filled_add_header) simp
  then have h1: "filled ?h1 160" by (rule grow) simp
  have "filled (add_header ''Retry-After'' (print_int 32 retry_after) ?h1)
      (160 + length ''Retry-After'' + length (print_int 32 retry_after) + 4)"
    using h1 by (rule filled_add_header) (use print_int_length [OF assms(2), of 32] in simp)
  then have "filled (add_header ''Retry-After'' (print_int 32 retry_after) ?h1) 200"
    by (rule grow) (use print_int_length [OF assms(2), of 32] in simp)
  then have h2: "filled ?h2 200" using grow [OF h1, of 200] by simp
  have "filled (add_header ''Allow'' allow ?h2) (200 + length ''Allow'' + length allow + 4)"
    using h2 by (rule filled_add_header) (use assms(3) in simp)
  then have "filled (add_header ''Allow'' allow ?h2) 1300" by (rule grow) (use assms(3) in simp)
  then have h3: "filled ?h3 1300" using grow [OF h2, of 1300] by simp
  have len: "length (print_uint n) \<le> 20" using print_uint_length [of n 20] assms(4) by simp
  have "filled (set_content_size n ?h3) (1300 + length ''Content-Length'' + length (print_uint n) + 4)"
    unfolding set_content_size_def by (rule filled_add_header [OF h3]) (use len in simp)
  then have h4: "filled (set_content_size n ?h3) 1400" by (rule grow) (use len in simp)
  have ok: "\<not> sb_error (set_content_size n ?h3)" using h4 by (simp add: filled_def)
  have "sb_text (set_content_size n ?h3) @ crlf = response_text c n retry_after allow"
    using ok unfolding set_content_size_def set_content_type_def set_keep_alive_def response_text_def
    by (auto dest!: add_header_text init_status_line_text simp: print_int_eq split: if_splits)
  then show ?thesis
    unfolding http_header_def Let_def using hc_finish_filled [OF h4] by simp
qed

section \<open>Every request is answered\<close>

text \<open>What is written for a complete response: the body is left out for HEAD.\<close>

definition response_log :: "int \<Rightarrow> string \<Rightarrow> int \<Rightarrow> string \<Rightarrow> bool \<Rightarrow> http_msg list" where
  "response_log c content retry_after allow head =
     HnWriteNoflush (response_text c (length content) retry_after allow) #
     (if head then [] else [HnWriteNoflush content]) @ [HnWriteOk]"

lemma send_response_log:
  assumes "in_signed 64 c" "in_signed 64 retry_after" "length allow \<le> 1000" "length content \<le> size_t_max"
  shows "send_response c content retry_after allow h =
         h\<lparr>hn_log := hn_log h @ response_log c content retry_after allow (hn_head_response h), hn_connection := False\<rparr>"
  using http_header_text [OF assms] by (simp add: send_response_def send_http_def response_log_def Let_def)

lemma error_json_length:
  "in_signed 64 c \<Longrightarrow> length m \<le> 1000 \<Longrightarrow> length (error_json c m) \<le> size_t_max"
  using print_int_length [of c 64] by (simp add: error_json_def quoted_def print_int_eq)

lemma send_http_error_log:
  assumes "in_signed 64 c" "length allow \<le> 1000" "plain m" "length m \<le> 1000"
  shows "send_http_error c m allow h =
         Checked (h\<lparr>hn_log := hn_log h @ response_log c (error_json c m) 0 allow (hn_head_response h),
                    hn_connection := False\<rparr>)"
  using assms error_json_length [of c m]
  by (simp add: send_http_error_def json_query_error_plain send_response_log in_signed_def)

text \<open>How a request leaves the connection, at most one of three ways.\<close>

definition handled :: "http_query \<Rightarrow> http_conn \<Rightarrow> bool" where
  "handled q h \<longleftrightarrow>
     (\<exists>c m allow. 400 \<le> c \<and> c \<le> 599 \<and> \<not> hn_connection h \<and>
        hn_log h = response_log c (error_json c m) 0 allow (hq_type q = HttpHead)) \<or>
     (\<exists>sc. \<not> hn_connection h \<and> hn_log h = [HnCreateStream sc] \<and> route_head_only (sc_route sc) = (hq_type q = HttpHead)) \<or>
     (\<exists>qy. hn_connection h \<and> hn_log h = [HnSendQuery qy] \<and> qy_state qy = QueryPending \<and> hq_type q \<noteq> HttpHead)"

lemma error_handled:
  assumes "400 \<le> c" "c \<le> 599" "plain m" "length m \<le> 1000" "length allow \<le> 1000"
    "hn_log h = []" "hn_head_response h = (hq_type q = HttpHead)"
  shows "\<exists>h'. send_http_error c m allow h = Checked h' \<and> handled q h'"
proof -
  have "in_signed 64 c" using assms(1,2) by (simp add: in_signed_def)
  with assms show ?thesis by (auto simp: send_http_error_log handled_def)
qed

lemma validate_error:
  "validate_url_encoding s = Inl e \<Longrightarrow> e = Status 400 ''Invalid percent-encoding in file_id''"
proof (induction s rule: validate_url_encoding.induct)
  case (2 c s)
  consider "c \<noteq> CHR ''%''" | "c = CHR ''%''" "length s < 2" | a b r where "c = CHR ''%''" "s = a # b # r"
    by (metis One_nat_def Suc_1 less_Suc0 less_Suc_eq length_Suc_conv list.exhaust list.size(3))
  then show ?case
  proof cases
    case 2
    then have "s = [] \<or> (\<exists>a. s = [a])" by (cases s rule: list.exhaust; cases "tl s") auto
    with 2 show ?thesis using "2.prems" by auto
  qed (use 2 in \<open>auto split: if_splits\<close>)
qed simp

lemma route_error_plain:
  "parse_file_stream_route path = Inl e \<Longrightarrow>
   400 \<le> status_code e \<and> status_code e \<le> 599 \<and> plain (status_message e) \<and> length (status_message e) \<le> 1000"
  by (auto simp: parse_file_stream_route_def parse_file_stream_file_id_def plain_def code_def Let_def map_sum.simps
      dest!: validate_error split: if_splits sum.splits prod.splits)

lemma size_hint_error_plain:
  "parse_file_stream_size_hint s = Inl e \<Longrightarrow> plain (status_message e) \<and> length (status_message e) \<le> 1000"
  by (auto simp: parse_file_stream_size_hint_def plain_def code_def split: if_splits sum.splits)


lemma handle_method_handled:
  assumes "hn_log h = []" "hn_connection h" "hn_head_response h = (hq_type q = HttpHead)"
  shows "\<exists>h'. handle_method q h = Checked h' \<and> handled q h'"
proof -
  note err = error_handled [where h = h and q = q, OF _ _ _ _ _ assms(1,3)]
  have plain: "plain ''Not Found''" "plain ''Method Not Allowed: HEAD is only supported for file streaming''"
    by (simp_all add: plain_def code_def)
  have "handled q (send_http (HnSendQuery (new_query t d m a hs p i)) h)" if "hq_type q \<noteq> HttpHead" for t d m a hs p i
    using assms that by (simp add: handled_def send_http_def new_query_def)
  then show ?thesis
    using err [of 404 "''Not Found''" "[]"]
      err [of 405 "''Method Not Allowed: HEAD is only supported for file streaming''" "''GET, POST''"] plain
    by (auto simp: handle_method_def Let_def split: prod.splits)
qed

lemma handle_stream_handled:
  assumes "hn_log h = []" "hn_connection h" "hn_head_response h = (hq_type q = HttpHead)"
    "is_file_stream_ip_allowed os (hq_peer_address q) (cfg_allow_ip (hn_config h)) \<noteq> CheckFailed"
  shows "\<exists>h'. handle_stream os emergency has_cleanup stream_id q h = Checked h' \<and> handled q h'"
proof -
  note err = error_handled [where h = h and q = q, OF _ _ _ _ _ assms(1,3)]
  have plain: "plain ''Not Found''" "plain no_memory_message"
    "plain ''Method Not Allowed: file streaming requires GET or HEAD''"
    "plain ''Forbidden: streaming endpoint source address is not allowed''"
    by (simp_all add: plain_def code_def)
  obtain allowed where allowed:
    "is_file_stream_ip_allowed os (hq_peer_address q) (cfg_allow_ip (hn_config h)) = Checked allowed"
    using assms(4) by (cases "is_file_stream_ip_allowed os (hq_peer_address q) (cfg_allow_ip (hn_config h))") auto
  have created: "handled q ((send_http (HnCreateStream (new_stream_conn sid c (r\<lparr>route_expected_size := x,
       route_no_cache := y, route_range := z, route_head_only := b\<rparr>) cfg p)) h)\<lparr>hn_connection := False\<rparr>)"
    if "b = (hq_type q = HttpHead)" for sid c r x y z b cfg p
    using assms that by (simp add: handled_def send_http_def new_stream_conn_def)
  have bad_route: "\<exists>h'. send_http_error (if status_code e \<ge> 400 \<and> status_code e \<le> 599 then status_code e else 400)
      (status_message e) [] h = Checked h' \<and> handled q h'" if "parse_file_stream_route (hq_url_path q) = Inl e" for e
    using route_error_plain [OF that] err [of "status_code e" "status_message e" "[]"] by simp
  have bad_size: "\<exists>h'. send_http_error 400 (status_message e) [] h = Checked h' \<and> handled q h'"
    if "parse_file_stream_size_hint s = Inl e" for e s
    using size_hint_error_plain [OF that] err [of 400 "status_message e" "[]"] by simp
  show ?thesis
    using err [of 404 "''Not Found''" "[]"] err [of 507 no_memory_message "[]"]
      err [of 405 "''Method Not Allowed: file streaming requires GET or HEAD''" "''GET, HEAD''"]
      err [of 403 "''Forbidden: streaming endpoint source address is not allowed''" "[]"] plain allowed
    by (auto simp: handle_stream_def Let_def created bad_route bad_size split: sum.splits bool.splits)
qed

section \<open>Properties of the connection\<close>


definition demo_query :: http_query where
  "demo_query = \<lparr>hq_type = HttpHead, hq_code = 0, hq_url_path = ''/bot1:a/getMe'', hq_args = [], hq_reason = [], hq_keep_alive = True,
     hq_headers = [], hq_peer_address = Invalid\<rparr>"


lemma read_token:
  assumes "data_of p = token @ CHR ''/'' # rest" "status_of p = None" "CHR ''/'' \<notin> set token"
  shows "read_till (CHR ''/'') p = (token, p\<lparr>data_of := CHR ''/'' # rest\<rparr>)"
  using read_till_hit assms by simp

text \<open>
  A request for \<^verbatim>\<open>/bot<token>/<method>\<close>, or \<^verbatim>\<open>/bot<token>/test/<method>\<close> for the test data centre, becomes
  exactly one pending query with this token, data centre and lower-cased method, with the arguments and headers of the
  request; the connection waits for its answer. A method name that begins with \<^verbatim>\<open>test\<close> is not reachable this way.
\<close>

theorem bot_method_routed:
  assumes "CHR ''/'' \<notin> set token" "hq_type q \<noteq> HttpHead" "\<not> hn_connection h" "method \<noteq> []"
    and "hq_url_path q = ''/bot'' @ token @ (if test then ''/test'' else []) @ CHR ''/'' # method"
    and "test \<or> \<not> begins_with method ''test''"
  shows "handle os emergency has_cleanup stream_id q h =
         Checked (h\<lparr>hn_connection := True, hn_head_response := False,
           hn_log := hn_log h @ [HnSendQuery \<lparr>qy_state = QueryPending, qy_peer_ip_address = hq_peer_address q,
             qy_token = token, qy_is_test_dc = test, qy_method = to_lower method, qy_args = hq_args q,
             qy_headers = hq_headers q, qy_is_internal = False, qy_answer = [], qy_http_status_code = 0,
             qy_retry_after = 0\<rparr>]\<rparr>)"
proof -
  let ?rest = "(if test then ''/test'' else []) @ CHR ''/'' # method"
  let ?p = "\<lambda>s. \<lparr>data_of = s, status_of = None\<rparr>"
  have 1: "try_skip ''/bot'' (new_parser (hq_url_path q)) = (True, ?p (token @ ?rest))"
    using try_skip_hit [of "new_parser (hq_url_path q)" "''/bot''" "token @ ?rest"] assms(5) by (simp add: new_parser_def)
  have rest: "?rest = CHR ''/'' # tl ?rest" by simp
  have 2: "read_till (CHR ''/'') (?p (token @ ?rest)) = (token, ?p ?rest)"
    using read_token [of "?p (token @ ?rest)" token "tl ?rest"] assms(1) rest by simp
  have 3: "try_skip ''/test'' (?p ?rest) = (test, ?p (CHR ''/'' # method))"
    using try_skip_hit [of "?p ?rest" "''/test''" "CHR ''/'' # method"] try_skip_miss [of "?p ?rest" "''/test''"] assms(6)
    by (auto simp: begins_with_def)
  have 4: "skip (CHR ''/'') (?p (CHR ''/'' # method)) = ?p method"
    using skip_hit [of "?p (CHR ''/'' # method)"] by simp
  have 5: "\<not> begins_with (hq_url_path q) ''/stream/file/bot''" "peek_char (new_parser (hq_url_path q)) = CHR ''/''"
    using assms(5) by (simp_all add: begins_with_def peek_char_def)
  show ?thesis
    using assms(2-4) 5 by (simp add: handle_def handle_method_def 1 2 3 4 send_http_def new_query_def)
qed

theorem bot_method_routed_witness:
  "qy_method (case handle quad_inet False True 1 (demo_query\<lparr>hq_type := HttpGet\<rparr>) (new_http_conn default_config) of
     Checked h \<Rightarrow> (case hn_log h of [HnSendQuery qy] \<Rightarrow> qy)) = ''getme''"
proof -
  have l: "to_lower ''getMe'' = ''getme''" by code_simp
  have "CHR ''/'' \<notin> set ''1:a''" "\<not> begins_with ''getMe'' ''test''" by code_simp+
  then show ?thesis
    using bot_method_routed [of "''1:a''" "demo_query\<lparr>hq_type := HttpGet\<rparr>" "new_http_conn default_config" "''getMe''" False
      quad_inet False True 1] l
    by (simp add: demo_query_def new_http_conn_def)
qed

lemma retry_answer: "\<exists>t. retry_after_answer 5 = Checked t \<and> length t \<le> size_t_max"
proof -
  have "case retry_after_answer 5 of Checked t \<Rightarrow> length t \<le> size_t_max | CheckFailed \<Rightarrow> False" by code_simp
  then show ?thesis by (cases "retry_after_answer 5") auto
qed

text \<open>
  A query that is dropped without an answer is still answered, with the retry error 429, and the connection writes
  a complete response with a \<^verbatim>\<open>Retry-After\<close> header; a query that was answered keeps its answer. A second answer
  aborts.
\<close>

theorem dropped_query_answered:
  "\<exists>q'. drop_query q = Checked q' \<and> is_ready q' \<and> (is_ready q \<longrightarrow> q' = q) \<and>
     (\<not> is_ready q \<longrightarrow> on_query_finished (Ok q') h =
        Checked (h\<lparr>hn_log := hn_log h @ response_log 429 (qy_answer q') 5 [] (hn_head_response h), hn_connection := False\<rparr>)) \<and>
     set_ok res q' = CheckFailed \<and> set_error c res q' = CheckFailed"
proof (cases "is_ready q")
  case True
  then show ?thesis by (simp add: drop_query_def is_ready_def set_ok_def set_error_def)
next
  case False
  obtain t where t: "retry_after_answer 5 = Checked t" "length t \<le> size_t_max" using retry_answer by blast
  let ?q = "q\<lparr>qy_retry_after := 5, qy_answer := t, qy_state := QueryError, qy_http_status_code := 429\<rparr>"
  have "drop_query q = Checked ?q" using False t by (simp add: drop_query_def set_retry_after_error_def set_error_def is_ready_def)
  moreover have "on_query_finished (Ok ?q) h =
      Checked (h\<lparr>hn_log := hn_log h @ response_log 429 t 5 [] (hn_head_response h), hn_connection := False\<rparr>)"
    using send_response_log [of 429 5 "[]" t h] t(2) by (simp add: on_query_finished_def in_signed_def)
  ultimately show ?thesis using False by (simp add: is_ready_def set_ok_def set_error_def)
qed

theorem dropped_query_answered_witness:
  "\<exists>q'. drop_query (new_query ''1:a'' False ''getMe'' [] [] Invalid False) = Checked q' \<and> is_ready q'"
  using dropped_query_answered [of "new_query ''1:a'' False ''getMe'' [] [] Invalid False"] by blast

end
