(* ===== verification/ClientStreams.thy ===== *)
theory ClientStreams
  imports FileStreamRoute
begin

text \<open>
  The part of \<^verbatim>\<open>server/Client.cpp\<close> that serves file streams: the streams waiting for authorization, the
  active streams, and the streams listening to a file of TDLib.  Requests to TDLib and messages to the
  streams are appended to \<open>cs_log\<close>.  The queries of \<^verbatim>\<open>getFile\<close> that wait for a file are counted per
  file.
\<close>

record td_file =
  tf_id :: int
  tf_size :: int
  tf_path :: string
  tf_download_offset :: int
  tf_downloaded_prefix_size :: int
  tf_downloaded_size :: int
  tf_is_completed :: bool
  tf_is_active :: bool

datatype td_request =
    GetRemoteFile string int int
  | DownloadFile int
  | CancelDownloadFile int
  | DeleteFile int

datatype client_msg =
    TdRequest td_request
  | ToStreamError int status
  | ToStreamReady int td_file
  | ToStreamProgress int td_file
  | FailQueries nat status
  | AnswerQueries nat td_file

record pending_stream =
  ps_id :: int
  ps_file_id :: string
  ps_expected_size :: int

record client_streams =
  cs_local_mode :: bool
  cs_was_authorized :: bool
  cs_closing :: bool
  cs_logging_out :: bool
  cs_is_api_id_invalid :: bool
  cs_next_authorization_time :: real
  cs_clear_tqueue :: bool
  cs_active :: "int set"
  cs_pending :: "pending_stream list"
  cs_listeners :: "int \<Rightarrow> int list option"
  cs_download_listeners :: "int \<Rightarrow> nat option"
  cs_download_started :: "int set"
  cs_log :: "client_msg list"

definition client_send :: "client_msg \<Rightarrow> client_streams \<Rightarrow> client_streams" where
  "client_send msg s = s\<lparr>cs_log := cs_log s @ [msg]\<rparr>"

definition client_send_all :: "client_msg list \<Rightarrow> client_streams \<Rightarrow> client_streams" where
  "client_send_all msgs s = s\<lparr>cs_log := cs_log s @ msgs\<rparr>"

definition is_stopping :: "client_streams \<Rightarrow> bool" where
  "is_stopping s \<longleftrightarrow> cs_closing s \<or> cs_logging_out s"

text \<open>\<^verbatim>\<open>get_closing_error\<close>; its \<^verbatim>\<open>CHECK(closing_)\<close> holds where it is called, under \<open>is_stopping\<close>.\<close>

definition get_closing_error :: "real \<Rightarrow> client_streams \<Rightarrow> status" where
  "get_closing_error now s =
     (if cs_logging_out s
      then (if cs_is_api_id_invalid s then Status 401 ''Unauthorized: invalid api-id/api-hash''
            else if cs_next_authorization_time s > 0
            then (let retry_after = max \<lfloor>cs_next_authorization_time s - now\<rfloor> 0 + 1
                  in Status 429 (''Too Many Requests: retry after '' @ print_int 32 retry_after))
            else if cs_clear_tqueue s then Status 400 ''Logged out''
            else Status 401 ''Unauthorized'')
      else Status 500 ''Internal Server Error: restart'')"

definition listeners_of :: "client_streams \<Rightarrow> int \<Rightarrow> int list" where
  "listeners_of s f = (case cs_listeners s f of None \<Rightarrow> [] | Some xs \<Rightarrow> xs)"

text \<open>The error branch of the callback of \<^verbatim>\<open>downloadFile\<close>.\<close>

definition download_failed :: "int \<Rightarrow> status \<Rightarrow> client_streams \<Rightarrow> client_streams" where
  "download_failed f e s = client_send_all (map (\<lambda>i. ToStreamError i e) (listeners_of s f)) s"

text \<open>\<^verbatim>\<open>send_request\<close> for a download: a stopping client calls the callback with the closing error.\<close>

definition request_download :: "real \<Rightarrow> int \<Rightarrow> client_streams \<Rightarrow> client_streams" where
  "request_download now f s =
     (if is_stopping s then download_failed f (get_closing_error now s) s
      else client_send (TdRequest (DownloadFile f)) s)"

text \<open>\<^verbatim>\<open>send_request\<close> for requests whose callback only logs an error.\<close>

definition request_quiet :: "td_request \<Rightarrow> client_streams \<Rightarrow> client_streams" where
  "request_quiet r s = (if is_stopping s then s else client_send (TdRequest r) s)"

definition start_file_stream :: "real \<Rightarrow> int \<Rightarrow> string \<Rightarrow> int \<Rightarrow> client_streams \<Rightarrow> client_streams" where
  "start_file_stream now stream_id file_id expected_size s0 =
     (let s = s0\<lparr>cs_active := insert stream_id (cs_active s0)\<rparr>
      in if \<not> cs_was_authorized s
         then s\<lparr>cs_pending := cs_pending s @ [\<lparr>ps_id = stream_id, ps_file_id = file_id, ps_expected_size = expected_size\<rparr>]\<rparr>
         else if is_stopping s then client_send (ToStreamError stream_id (get_closing_error now s)) s
         else if file_id = [] \<or> length file_id > 4096
         then client_send (ToStreamError stream_id (Status 400 ''Invalid file_id specified'')) s
         else client_send (TdRequest (GetRemoteFile file_id stream_id expected_size)) s)"

text \<open>The callback of \<^verbatim>\<open>getRemoteFile\<close>.\<close>

definition on_remote_file :: "real \<Rightarrow> int \<Rightarrow> int \<Rightarrow> td_file result \<Rightarrow> client_streams \<Rightarrow> client_streams" where
  "on_remote_file now stream_id expected_size r s =
     (if stream_id \<notin> cs_active s then s
      else (case r of
        Inl e \<Rightarrow> client_send (ToStreamError stream_id e) s
      | Inr file \<Rightarrow>
          (case resolve_file_stream_size (tf_size file) expected_size of
             Inl e \<Rightarrow> client_send (ToStreamError stream_id e) s
           | Inr resolved_size \<Rightarrow>
               (let f = tf_id file;
                    need_start_download = (listeners_of s f = []);
                    s1 = s\<lparr>cs_listeners := (cs_listeners s)(f \<mapsto> listeners_of s f @ [stream_id])\<rparr>;
                    s2 = client_send (ToStreamReady stream_id (file\<lparr>tf_size := resolved_size\<rparr>)) s1
                in if need_start_download then request_download now f s2 else s2))))"

definition remove_file_stream :: "int \<Rightarrow> int \<Rightarrow> bool \<Rightarrow> client_streams \<Rightarrow> client_streams" where
  "remove_file_stream stream_id f remove_local_file s0 =
     (let s = s0\<lparr>cs_active := cs_active s0 - {stream_id},
                 cs_pending := filter (\<lambda>p. ps_id p \<noteq> stream_id) (cs_pending s0)\<rparr>
      in if f = 0 then s
         else (case cs_listeners s f of
           None \<Rightarrow> s
         | Some xs \<Rightarrow>
             (let xs' = filter (\<lambda>i. i \<noteq> stream_id) xs
              in if xs' \<noteq> [] then s\<lparr>cs_listeners := (cs_listeners s)(f \<mapsto> xs')\<rparr>
                 else (let s1 = s\<lparr>cs_listeners := (cs_listeners s)(f := None)\<rparr>
                       in if cs_download_listeners s1 f = None
                          then request_quiet (if remove_local_file then DeleteFile f else CancelDownloadFile f) s1
                          else s1))))"

definition on_file_download :: "int \<Rightarrow> td_file result \<Rightarrow> client_streams \<Rightarrow> client_streams" where
  "on_file_download f r s =
     (case cs_download_listeners s f of
        None \<Rightarrow> s
      | Some n \<Rightarrow>
          client_send (case r of Inl e \<Rightarrow> FailQueries n e | Inr file \<Rightarrow> AnswerQueries n file)
            (s\<lparr>cs_download_listeners := (cs_download_listeners s)(f := None),
               cs_download_started := cs_download_started s - {f}\<rparr>))"

abbreviation MAX_DOWNLOAD_FILE_SIZE :: int where
  "MAX_DOWNLOAD_FILE_SIZE \<equiv> 20971520"

definition on_update_file :: "real \<Rightarrow> td_file \<Rightarrow> client_streams \<Rightarrow> client_streams" where
  "on_update_file now file s0 =
     (let f = tf_id file;
          s = client_send_all (map (\<lambda>i. ToStreamProgress i file) (listeners_of s0 f)) s0
      in if cs_download_listeners s f = None then s
         else if \<not> cs_local_mode s \<and> tf_downloaded_size file > MAX_DOWNLOAD_FILE_SIZE
         then on_file_download f (Error 400 ''Bad Request: file is too big'')
                (if tf_is_active file then request_quiet (CancelDownloadFile f) s else s)
         else if tf_is_completed file then on_file_download f (Ok file) s
         else if \<not> tf_is_active file \<and> f \<in> cs_download_started s
         then on_file_download f
                (Inl (if is_stopping s then get_closing_error now s
                      else Status 400 ''Bad Request: wrong file_id or the file is temporarily unavailable'')) s
         else s)"

text \<open>The callback of \<^verbatim>\<open>downloadFile\<close>.\<close>

definition on_download_result :: "real \<Rightarrow> int \<Rightarrow> td_file result \<Rightarrow> client_streams \<Rightarrow> client_streams" where
  "on_download_result now f r s =
     (case r of Inl e \<Rightarrow> download_failed f e s | Inr file \<Rightarrow> on_update_file now file s)"

text \<open>The part of \<^verbatim>\<open>on_update_authorization_state\<close> that starts the waiting streams.\<close>

definition start_pending_streams :: "real \<Rightarrow> client_streams \<Rightarrow> client_streams" where
  "start_pending_streams now s =
     (if cs_was_authorized s then s
      else foldl (\<lambda>s p. start_file_stream now (ps_id p) (ps_file_id p) (ps_expected_size p) s)
             (s\<lparr>cs_was_authorized := True, cs_pending := []\<rparr>) (cs_pending s))"

text \<open>The part of the shutdown that ends the streams; their order is that of the hash map, here ascending.\<close>

definition close_streams :: "client_streams \<Rightarrow> client_streams" where
  "close_streams s =
     (client_send_all (map (\<lambda>i. ToStreamError i (Status 503 ''Bot API client is closing'')) (sorted_list_of_set (cs_active s))) s)
       \<lparr>cs_active := {}, cs_pending := [], cs_listeners := Map.empty, cs_download_started := {}\<rparr>"

section \<open>The invariant\<close>

text \<open>Waiting and listening streams; a listener list is never empty and never repeats a stream.\<close>

definition listens :: "client_streams \<Rightarrow> int \<Rightarrow> int \<Rightarrow> bool" where
  "listens s f i \<longleftrightarrow> i \<in> set (listeners_of s f)"

definition client_inv :: "client_streams \<Rightarrow> bool" where
  "client_inv s \<longleftrightarrow>
     finite (cs_active s) \<and> (\<forall>p \<in> set (cs_pending s). ps_id p \<in> cs_active s) \<and>
     (\<forall>f. cs_listeners s f \<noteq> Some []) \<and> (cs_was_authorized s \<longrightarrow> cs_pending s = [])"

lemmas client_defs = client_send_def client_send_all_def request_quiet_def request_download_def download_failed_def

lemma start_file_stream_inv: "client_inv s \<Longrightarrow> client_inv (start_file_stream now i f x s)"
  by (auto simp: start_file_stream_def client_inv_def client_defs Let_def)

lemma on_remote_file_inv: "client_inv s \<Longrightarrow> client_inv (on_remote_file now i x r s)"
  by (auto simp: on_remote_file_def client_inv_def client_defs Let_def split: sum.splits)

lemma remove_file_stream_inv: "client_inv s \<Longrightarrow> client_inv (remove_file_stream i f b s)"
  by (auto simp: remove_file_stream_def client_inv_def client_defs Let_def split: option.splits)

lemma on_update_file_inv: "client_inv s \<Longrightarrow> client_inv (on_update_file now file s)"
  by (auto simp: on_update_file_def on_file_download_def client_inv_def client_defs Let_def split: option.splits)

lemma start_pending_inv: "client_inv s \<Longrightarrow> client_inv (start_pending_streams now s)"
proof -
  assume s: "client_inv s"
  have "client_inv (foldl (\<lambda>s p. start_file_stream now (ps_id p) (ps_file_id p) (ps_expected_size p) s) t ps)"
    if "client_inv t" for t ps
    using that by (induction ps arbitrary: t) (simp_all add: start_file_stream_inv)
  moreover have "client_inv (s\<lparr>cs_was_authorized := True, cs_pending := []\<rparr>)" using s by (simp add: client_inv_def)
  ultimately show ?thesis using s unfolding start_pending_streams_def by (cases "cs_was_authorized s") auto
qed

text \<open>A stream that is removed with its file is gone.\<close>

lemma remove_gone:
  assumes "f \<noteq> 0" "\<forall>g. listens s g i \<longrightarrow> g = f"
  shows "i \<notin> cs_active (remove_file_stream i f b s) \<and>
         (\<forall>p \<in> set (cs_pending (remove_file_stream i f b s)). ps_id p \<noteq> i) \<and>
         (\<forall>g. \<not> listens (remove_file_stream i f b s) g i)"
proof -
  have "listeners_of (remove_file_stream i f b s) g = (if g = f then filter (\<lambda>j. j \<noteq> i) (listeners_of s f) else listeners_of s g)" for g
    using assms(1) by (auto simp: remove_file_stream_def listeners_of_def client_defs Let_def split: option.splits)
  then show ?thesis
    using assms by (auto simp: listens_def remove_file_stream_def client_defs Let_def split: option.splits if_splits)
qed

text \<open>When the last listener leaves, the download is cancelled, or deleted if so asked.\<close>

lemma remove_last:
  assumes "f \<noteq> 0" "cs_listeners s f = Some xs" "\<forall>j \<in> set xs. j = i" "cs_download_listeners s f = None" "\<not> is_stopping s"
  shows "cs_log (remove_file_stream i f b s) = cs_log s @ [TdRequest (if b then DeleteFile f else CancelDownloadFile f)]"
proof -
  have "filter (\<lambda>j. j \<noteq> i) xs = []" using assms(3) by (simp add: filter_empty_conv)
  then show ?thesis using assms by (simp add: remove_file_stream_def client_defs is_stopping_def Let_def)
qed

text \<open>
  A stream removed with the file identifier 0 keeps listening: this is what the connection sends when it
  ended before it received \<^verbatim>\<open>on_file_ready\<close>.
\<close>

lemma remove_zero_leaks: "cs_listeners (remove_file_stream i 0 b s) = cs_listeners s \<and> cs_log (remove_file_stream i 0 b s) = cs_log s"
  by (simp add: remove_file_stream_def Let_def)

text \<open>While a file has a listener, no new stream starts its download.\<close>

lemma no_download_while_listened:
  assumes "listeners_of s (tf_id file) \<noteq> []"
  shows "set (cs_log (on_remote_file now j x (Ok file) s)) \<inter> {TdRequest (DownloadFile f) | f. True} =
         set (cs_log s) \<inter> {TdRequest (DownloadFile f) | f. True}"
  using assms by (auto simp: on_remote_file_def client_defs Let_def split: sum.splits)

section \<open>Properties of the client's streams\<close>

inductive client_step :: "client_streams \<Rightarrow> client_streams \<Rightarrow> bool" where
  "client_step s (start_file_stream now i f x s)"
| "client_step s (on_remote_file now i x r s)"
| "client_step s (remove_file_stream i f b s)"
| "client_step s (on_update_file now file s)"
| "client_step s (on_download_result now f r s)"
| "client_step s (start_pending_streams now s)"
| "client_step s (close_streams s)"

lemma client_step_inv: "client_step s s' \<Longrightarrow> client_inv s \<Longrightarrow> client_inv s'"
proof (induction rule: client_step.induct)
  case (5 s now f r)
  then show ?case
    by (cases r) (auto simp: on_download_result_def on_update_file_inv, simp add: client_inv_def client_defs)
qed (simp_all add: start_file_stream_inv on_remote_file_inv remove_file_stream_inv on_update_file_inv start_pending_inv,
     simp add: close_streams_def client_inv_def client_defs)

definition new_client_streams :: "bool \<Rightarrow> client_streams" where
  "new_client_streams local =
     \<lparr>cs_local_mode = local, cs_was_authorized = False, cs_closing = False, cs_logging_out = False, cs_is_api_id_invalid = False,
      cs_next_authorization_time = 0, cs_clear_tqueue = False, cs_active = {}, cs_pending = [], cs_listeners = Map.empty,
      cs_download_listeners = Map.empty, cs_download_started = {}, cs_log = []\<rparr>"



text \<open>
  C34: a stream that ends before it received \<^verbatim>\<open>on_file_ready\<close> is removed with the file identifier 0 and stays a listener:
  nothing is cancelled, and while it is listed no later stream of the same file starts the download again.
\<close>

theorem removed_with_zero_leaks:
  assumes "listens s (tf_id file) i"
  shows "listens (remove_file_stream i 0 b s) (tf_id file) i \<and> cs_log (remove_file_stream i 0 b s) = cs_log s \<and>
         (TdRequest (DownloadFile f) \<in> set (cs_log (on_remote_file now j x (Ok file) (remove_file_stream i 0 b s))) \<longrightarrow>
          TdRequest (DownloadFile f) \<in> set (cs_log s))"
proof -
  let ?s = "remove_file_stream i 0 b s"
  have z: "cs_listeners ?s = cs_listeners s" "cs_log ?s = cs_log s" using remove_zero_leaks by blast+
  then have l: "listeners_of ?s (tf_id file) = listeners_of s (tf_id file)" by (simp add: listeners_of_def)
  then have "listeners_of ?s (tf_id file) \<noteq> []" using assms by (auto simp: listens_def)
  from no_download_while_listened [OF this, of now j x] show ?thesis using assms l z by (auto simp: listens_def)
qed

definition demo_file :: td_file where
  "demo_file = \<lparr>tf_id = 7, tf_size = 11, tf_path = [], tf_download_offset = 0, tf_downloaded_prefix_size = 0, tf_downloaded_size = 0,
     tf_is_completed = False, tf_is_active = False\<rparr>"

definition demo_listened :: client_streams where
  "demo_listened = on_remote_file 0 5 (- 1) (Ok demo_file)
     (start_file_stream 0 5 ''f'' (- 1) ((new_client_streams False)\<lparr>cs_was_authorized := True\<rparr>))"

theorem removed_with_zero_leaks_witness:
  "listens (remove_file_stream 5 0 False demo_listened) 7 5"
proof -
  have "listens demo_listened (tf_id demo_file) 5"
    by (simp add: demo_listened_def on_remote_file_def start_file_stream_def new_client_streams_def is_stopping_def client_defs
        demo_file_def resolve_file_stream_size_def Let_def listens_def listeners_of_def)
  from removed_with_zero_leaks [OF this] show ?thesis by (simp add: demo_file_def)
qed

end
