(* ===== verification/Td_PathView.thy ===== *)
theory Td_PathView
  imports Prelude
begin

text \<open>\<^verbatim>\<open>td::PathView\<close> of \<^verbatim>\<open>td/tdutils/td/utils/PathView.cpp\<close>: a path with the positions of its last
  slash and of the dot of its extension.\<close>

record path_view =
  pv_path :: string
  pv_last_slash :: int
  pv_last_dot :: int

definition is_slash :: "char \<Rightarrow> bool" where
  "is_slash c \<longleftrightarrow> c = CHR ''/'' \<or> c = CHR 0x5C"

text \<open>The loop that walks back from position \<open>i - 1\<close> to a slash; \<open>- 1\<close> when there is none.\<close>

fun slash_before :: "string \<Rightarrow> nat \<Rightarrow> int" where
  "slash_before s 0 = - 1"
| "slash_before s (Suc i) = (if is_slash (s ! i) then int i else slash_before s i)"

text \<open>The loop that walks back to a dot behind position \<open>lo\<close>; the size when there is none.\<close>

fun dot_before :: "string \<Rightarrow> int \<Rightarrow> nat \<Rightarrow> int" where
  "dot_before s lo 0 = int (length s)"
| "dot_before s lo (Suc i) =
     (if int i > lo then (if s ! i = CHR ''.'' then int i else dot_before s lo i) else int (length s))"

definition new_path_view :: "string \<Rightarrow> path_view" where
  "new_path_view path =
     (let last_slash = slash_before path (length path)
      in \<lparr>pv_path = path, pv_last_slash = last_slash,
          pv_last_dot = dot_before path (last_slash + 1) (length path)\<rparr>)"

definition pv_is_dir :: "path_view \<Rightarrow> bool" where
  "pv_is_dir v \<longleftrightarrow> pv_path v \<noteq> [] \<and> is_slash (last (pv_path v))"

definition parent_dir :: "path_view \<Rightarrow> string" where
  "parent_dir v = take (nat (pv_last_slash v + 1)) (pv_path v)"

definition parent_dir_noslash :: "path_view \<Rightarrow> string" where
  "parent_dir_noslash v =
     (if pv_last_slash v < 0 then ''.''
      else if pv_last_slash v = 0 then ''/''
      else take (nat (pv_last_slash v)) (pv_path v))"

definition extension :: "path_view \<Rightarrow> string" where
  "extension v =
     (if pv_last_dot v = int (length (pv_path v)) then [] else drop (nat (pv_last_dot v + 1)) (pv_path v))"

definition without_extension :: "path_view \<Rightarrow> string" where
  "without_extension v = take (nat (pv_last_dot v)) (pv_path v)"

definition file_stem :: "path_view \<Rightarrow> string" where
  "file_stem v =
     take (nat (pv_last_dot v - pv_last_slash v - 1)) (drop (nat (pv_last_slash v + 1)) (pv_path v))"

definition file_name :: "path_view \<Rightarrow> string" where
  "file_name v = drop (nat (pv_last_slash v + 1)) (pv_path v)"

definition pv_is_absolute :: "path_view \<Rightarrow> bool" where
  "pv_is_absolute v =
     (let p = pv_path v
      in p \<noteq> [] \<and> (is_slash (p ! 0) \<or> (length p \<ge> 3 \<and> p ! 1 = CHR '':'' \<and> is_slash (p ! 2))))"

definition pv_relative :: "string \<Rightarrow> string \<Rightarrow> bool \<Rightarrow> string" where
  "pv_relative path dir force =
     (if begins_with path dir then drop (length dir) path else if force then [] else path)"

definition dir_and_file :: "string \<Rightarrow> string" where
  "dir_and_file path =
     (let last_slash = slash_before path (length path)
      in if last_slash < 0 then []
         else (let prev = slash_before path (nat last_slash)
               in if prev < 0 then [] else drop (nat (prev + 1)) path))"

section \<open>What the parts are\<close>

lemma slash_before_range: "- 1 \<le> slash_before s n \<and> slash_before s n < int n"
  by (induction n) auto

lemma slash_before_none: "\<lbrakk>slash_before s n < int i; i < n\<rbrakk> \<Longrightarrow> \<not> is_slash (s ! i)"
  by (induction n) (auto simp: less_Suc_eq split: if_splits)

lemma slash_before_hit: "0 \<le> slash_before s n \<Longrightarrow> is_slash (s ! nat (slash_before s n))"
  by (induction n) auto

lemma dot_before_range: "lo < dot_before s lo n \<or> dot_before s lo n = int (length s)"
  by (induction n) auto

lemma dot_before_le: "n \<le> length s \<Longrightarrow> dot_before s lo n \<le> int (length s)"
  by (induction n) auto

lemma dot_before_hit: "dot_before s lo n \<noteq> int (length s) \<Longrightarrow> s ! nat (dot_before s lo n) = CHR ''.'' \<and> 0 \<le> dot_before s lo n"
  by (induction n) auto

lemma parent_file_name: "parent_dir (new_path_view p) @ file_name (new_path_view p) = p"
  by (simp add: parent_dir_def file_name_def new_path_view_def Let_def)

lemma file_name_no_slash: "c \<in> set (file_name (new_path_view p)) \<Longrightarrow> \<not> is_slash c"
proof -
  assume "c \<in> set (file_name (new_path_view p))"
  then obtain j where j: "j < length p - nat (slash_before p (length p) + 1)" "c = p ! (nat (slash_before p (length p) + 1) + j)"
    by (auto simp: file_name_def new_path_view_def Let_def in_set_conv_nth)
  let ?i = "nat (slash_before p (length p) + 1) + j"
  have "slash_before p (length p) < int ?i"
    using slash_before_range [of p "length p"] by simp
  then show ?thesis
    using slash_before_none [of p "length p" ?i] j by simp
qed

text \<open>The name of a file whose last component has no slash is that component.\<close>

lemma slash_before_append:
  assumes "\<forall>c \<in> set name. \<not> is_slash c" "k \<le> length name"
  shows "slash_before (dir @ CHR ''/'' # name) (length dir + 1 + k) = int (length dir)"
  using assms(2)
proof (induction k)
  case 0
  show ?case by (simp add: nth_append is_slash_def)
next
  case (Suc k)
  have "\<not> is_slash (name ! k)" using assms(1) Suc.prems by simp
  then show ?case using Suc by (simp add: nth_append)
qed

lemma file_name_append:
  assumes "\<forall>c \<in> set name. \<not> is_slash c"
  shows "file_name (new_path_view (dir @ CHR ''/'' # name)) = name"
proof -
  have "slash_before (dir @ CHR ''/'' # name) (length (dir @ CHR ''/'' # name)) = int (length dir)"
    using slash_before_append [OF assms order_refl, of dir] by simp
  moreover have "nat (int (length dir) + 1) = Suc (length dir)" by simp
  ultimately show ?thesis
    unfolding file_name_def new_path_view_def Let_def by simp
qed

lemma stem_extension:
  assumes "extension (new_path_view p) \<noteq> []"
  shows "file_name (new_path_view p) = file_stem (new_path_view p) @ CHR ''.'' # extension (new_path_view p)"
proof -
  define l d where "l = slash_before p (length p)" and "d = dot_before p (l + 1) (length p)"
  have d: "d \<noteq> int (length p)" using assms by (auto simp: extension_def new_path_view_def Let_def l_def d_def)
  then have hit: "p ! nat d = CHR ''.''" "0 \<le> d" and lo: "l + 1 < d"
    using dot_before_hit [of p "l + 1" "length p"] dot_before_range [of "l + 1" p "length p"] by (auto simp: d_def)
  have lt: "nat d < length p" using d dot_before_le [of "length p" p "l + 1"] hit by (auto simp: d_def)
  have l: "- 1 \<le> l" using slash_before_range [of p "length p"] by (simp add: l_def)
  have "drop (nat (l + 1)) p = take (nat d - nat (l + 1)) (drop (nat (l + 1)) p) @ drop (nat d) p"
    using lo by (metis append_take_drop_id drop_drop le_add_diff_inverse2 nat_le_iff_add nat_mono order_less_imp_le)
  moreover have "drop (nat d) p = CHR ''.'' # drop (nat (d + 1)) p"
    using lt hit by (simp add: Cons_nth_drop_Suc [symmetric] nat_add_distrib)
  moreover have "nat d - nat (l + 1) = nat (d - l - 1)" using l lo by simp
  ultimately show ?thesis
    using d by (simp add: file_name_def file_stem_def extension_def new_path_view_def Let_def l_def [symmetric] d_def [symmetric])
qed

end
