(* ===== verification/WorkdirCleanup.thy ===== *)
theory WorkdirCleanup
  imports Td_PathView "HOL-Library.Multiset"
begin

text \<open>
  \<^verbatim>\<open>server/WorkdirCleanupManager.cpp\<close>: which files of the working directory may be deleted, the
  cleanup run, and the actor that counts the streams reading a file.  The directory walk, \<^verbatim>\<open>stat\<close>,
  \<^verbatim>\<open>unlink\<close>, the free space and the clocks are arguments; sizes are integers, the nanosecond
  clock and the time to live are \<^verbatim>\<open>uint64\<close>.
\<close>

abbreviation TD_DIR_SLASH :: char where
  "TD_DIR_SLASH \<equiv> CHR ''/''"

definition persistent_suffixes :: "string list" where
  "persistent_suffixes = [''.binlog'', ''.binlog.new'', ''.sqlite'', ''.sqlite-wal'', ''.sqlite-shm'', ''.sqlite-journal'']"

definition is_tdlib_persistent_file :: "string \<Rightarrow> bool" where
  "is_tdlib_persistent_file path =
     (let name = file_name (new_path_view path)
      in if name = [] then False else \<exists>s \<in> set persistent_suffixes. ends_with name s)"

text \<open>\<^verbatim>\<open>relative.find("..")\<close>.\<close>

fun has_dot_dot :: "string \<Rightarrow> bool" where
  "has_dot_dot (a # b # s) \<longleftrightarrow> (a = CHR ''.'' \<and> b = CHR ''.'') \<or> has_dot_dot (b # s)"
| "has_dot_dot _ \<longleftrightarrow> False"

definition workdir_root :: "string \<Rightarrow> string" where
  "workdir_root workdir = (if last workdir \<noteq> TD_DIR_SLASH then workdir @ [TD_DIR_SLASH] else workdir)"

definition is_workdir_cleanup_candidate :: "string \<Rightarrow> string \<Rightarrow> bool" where
  "is_workdir_cleanup_candidate workdir path =
     (if workdir = [] \<or> path = [] then False
      else (let root = workdir_root workdir
            in if \<not> begins_with path root \<or> path = root then False
               else if has_dot_dot (drop (length root) path) then False
               else \<not> is_tdlib_persistent_file path))"

text \<open>The delete function is called at most \<open>max_retries + 1\<close> times; \<open>del path i\<close> is the outcome of call \<open>i\<close>.\<close>

function delete_attempts :: "(string \<Rightarrow> nat \<Rightarrow> bool) \<Rightarrow> string \<Rightarrow> nat \<Rightarrow> int \<Rightarrow> bool" where
  "delete_attempts del path attempt max_retries =
     (if int attempt \<le> max_retries
      then (if del path attempt then True else delete_attempts del path (Suc attempt) max_retries)
      else False)"
  by pat_completeness auto
termination
  by (relation "measure (\<lambda>(del, path, attempt, max_retries). nat (max_retries + 1 - int attempt))") auto

declare delete_attempts.simps [simp del]

definition delete_workdir_file_with_retries :: "(string \<Rightarrow> nat \<Rightarrow> bool) \<Rightarrow> string \<Rightarrow> int \<Rightarrow> bool" where
  "delete_workdir_file_with_retries del path max_retries = delete_attempts del path 0 max_retries"

record cleanup_config =
  cc_workdir :: string
  cc_threshold_bytes :: int
  cc_target_bytes :: int
  cc_interval :: real
  cc_file_ttl :: int
  cc_min_free_bytes :: int

record cleanup_result =
  cr_scanned_bytes :: int
  cr_scanned_files :: int
  cr_deleted_bytes :: int
  cr_deleted_files :: int
  cr_failed_files :: int
  cr_free_bytes :: int
  cr_threshold_cleanup :: bool
  cr_disk_emergency :: bool

record candidate =
  cand_path :: string
  cand_size :: int
  cand_access_time :: nat

text \<open>What the walk reports: the path, whether it is a regular file, and its \<^verbatim>\<open>stat\<close>.\<close>

record walk_entry =
  we_path :: string
  we_regular :: bool
  we_stat :: "(bool \<times> int \<times> nat) option"

type_synonym active_files = "string \<Rightarrow> int option"

definition is_active :: "active_files \<Rightarrow> string \<Rightarrow> bool" where
  "is_active active path = (case active path of None \<Rightarrow> False | Some n \<Rightarrow> n > 0)"

definition walk_step ::
  "string \<Rightarrow> active_files \<Rightarrow> walk_entry \<Rightarrow> int \<times> int \<times> candidate list \<Rightarrow> int \<times> int \<times> candidate list" where
  "walk_step workdir active e st =
     (case st of (files, bytes, cands) \<Rightarrow>
        (if \<not> we_regular e \<or> \<not> is_workdir_cleanup_candidate workdir (we_path e) then st
         else (case we_stat e of
           None \<Rightarrow> st
         | Some (is_reg, sz, atime) \<Rightarrow>
             (if \<not> is_reg then st
              else (files + 1, bytes + max 0 sz,
                    if is_active active (we_path e) then cands
                    else cands @ [\<lparr>cand_path = we_path e, cand_size = max 0 sz, cand_access_time = atime\<rparr>])))))"

definition walk :: "string \<Rightarrow> active_files \<Rightarrow> walk_entry list \<Rightarrow> int \<times> int \<times> candidate list" where
  "walk workdir active es = foldl (\<lambda>st e. walk_step workdir active e st) (0, 0, []) es"

definition ttl_nsec :: "cleanup_config \<Rightarrow> nat" where
  "ttl_nsec cfg = (if cc_file_ttl cfg > 0 then (nat (cc_file_ttl cfg) * 1000000000) mod 2 ^ 64 else 0)"

definition expired :: "cleanup_config \<Rightarrow> nat \<Rightarrow> candidate \<Rightarrow> bool" where
  "expired cfg now c \<longleftrightarrow>
     ttl_nsec cfg > 0 \<and> cand_access_time c \<le> now \<and> now - cand_access_time c \<ge> ttl_nsec cfg"

text \<open>The deletion loop; it returns the deleted candidates in order, whether it failed, and the remaining bytes.\<close>

fun cleanup_loop ::
  "cleanup_config \<Rightarrow> active_files \<Rightarrow> (string \<Rightarrow> nat \<Rightarrow> bool) \<Rightarrow> nat \<Rightarrow> bool \<Rightarrow> int \<Rightarrow> candidate list \<Rightarrow>
   candidate list \<times> bool \<times> int" where
  "cleanup_loop cfg active del now threshold remaining [] = ([], False, remaining)"
| "cleanup_loop cfg active del now threshold remaining (c # cs) =
     (let must_reduce = threshold \<and> remaining > cc_target_bytes cfg
      in if \<not> must_reduce \<and> \<not> expired cfg now c then cleanup_loop cfg active del now threshold remaining cs
         else if is_active active (cand_path c) then cleanup_loop cfg active del now threshold remaining cs
         else if \<not> delete_workdir_file_with_retries del (cand_path c) 3 then ([], True, remaining)
         else (let (ds, failed, rest) = cleanup_loop cfg active del now threshold (remaining - cand_size c) cs
               in (c # ds, failed, rest)))"

text \<open>\<^verbatim>\<open>get_free_space\<close>: an error, or a value above the range of \<^verbatim>\<open>int64\<close>, is reported as \<open>- 1\<close>.\<close>

definition get_free_space :: "nat option \<Rightarrow> int" where
  "get_free_space space =
     (case space of None \<Rightarrow> - 1 | Some n \<Rightarrow> (if int n > int64_max then - 1 else int n))"

definition sorted_candidates :: "candidate list \<Rightarrow> candidate list" where
  "sorted_candidates cs = sort_key cand_access_time cs"

text \<open>
  \<^verbatim>\<open>run_workdir_cleanup\<close>: the result and the deleted candidates.  \<^verbatim>\<open>std::sort\<close> may order equal access
  times in any way; the order of the walk is used here.
\<close>

definition run_workdir_cleanup ::
  "cleanup_config \<Rightarrow> active_files \<Rightarrow> (string \<Rightarrow> nat \<Rightarrow> bool) \<Rightarrow> nat \<Rightarrow> walk_entry list \<Rightarrow> nat option \<Rightarrow>
   cleanup_result \<times> candidate list" where
  "run_workdir_cleanup cfg active del now es space =
     (let (files, bytes, cands) = walk (cc_workdir cfg) active es;
          threshold = (cc_threshold_bytes cfg > 0 \<and> bytes \<ge> cc_threshold_bytes cfg);
          (deleted, failed, remaining) = cleanup_loop cfg active del now threshold bytes (sorted_candidates cands);
          free = get_free_space space
      in (\<lparr>cr_scanned_bytes = bytes, cr_scanned_files = files,
           cr_deleted_bytes = sum_list (map cand_size deleted), cr_deleted_files = int (length deleted),
           cr_failed_files = (if failed then 1 else 0), cr_free_bytes = free, cr_threshold_cleanup = threshold,
           cr_disk_emergency = (cc_min_free_bytes cfg > 0 \<and> free \<ge> 0 \<and> free < cc_min_free_bytes cfg)\<rparr>,
          deleted))"

section \<open>The actor\<close>

record cleanup_manager =
  cm_config :: cleanup_config
  cm_active_files :: active_files
  cm_next_periodic_cleanup :: real
  cm_next_threshold_check :: real
  cm_timeout :: "real option"
  cm_workdir_bytes :: int
  cm_workdir_files :: int
  cm_cleanup_runs :: int
  cm_deleted_bytes :: int
  cm_disk_emergency :: bool
  cm_shutdown_requested :: bool

definition new_cleanup_manager :: "cleanup_config \<Rightarrow> cleanup_manager" where
  "new_cleanup_manager cfg =
     \<lparr>cm_config = cfg, cm_active_files = Map.empty, cm_next_periodic_cleanup = 0, cm_next_threshold_check = 0,
      cm_timeout = None, cm_workdir_bytes = 0, cm_workdir_files = 0, cm_cleanup_runs = 0, cm_deleted_bytes = 0,
      cm_disk_emergency = False, cm_shutdown_requested = False\<rparr>"

definition retain_file :: "string \<Rightarrow> cleanup_manager \<Rightarrow> cleanup_manager" where
  "retain_file path m =
     (if is_workdir_cleanup_candidate (cc_workdir (cm_config m)) path
      then m\<lparr>cm_active_files := (cm_active_files m)(path \<mapsto>
               (case cm_active_files m path of None \<Rightarrow> 0 | Some n \<Rightarrow> n) + 1)\<rparr>
      else m)"

definition release_file :: "string \<Rightarrow> cleanup_manager \<Rightarrow> cleanup_manager" where
  "release_file path m =
     (case cm_active_files m path of
        None \<Rightarrow> m
      | Some n \<Rightarrow>
          (if n - 1 \<le> 0 then m\<lparr>cm_active_files := (cm_active_files m)(path := None)\<rparr>
           else m\<lparr>cm_active_files := (cm_active_files m)(path \<mapsto> n - 1)\<rparr>))"

definition schedule_next :: "cleanup_manager \<Rightarrow> cleanup_manager" where
  "schedule_next m = m\<lparr>cm_timeout := Some (min (cm_next_periodic_cleanup m) (cm_next_threshold_check m))\<rparr>"

definition run_cleanup ::
  "(string \<Rightarrow> nat \<Rightarrow> bool) \<Rightarrow> nat \<Rightarrow> walk_entry list \<Rightarrow> nat option \<Rightarrow> bool \<Rightarrow> cleanup_manager \<Rightarrow>
   cleanup_manager \<times> candidate list" where
  "run_cleanup del now es space periodic m =
     (let (r, deleted) = run_workdir_cleanup (cm_config m) (cm_active_files m) del now es space;
          m1 = m\<lparr>cm_workdir_bytes := cr_scanned_bytes r, cm_workdir_files := cr_scanned_files r,
                 cm_cleanup_runs := cm_cleanup_runs m + 1,
                 cm_deleted_bytes := cm_deleted_bytes m + cr_deleted_bytes r\<rparr>
      in (if cr_disk_emergency r then m1\<lparr>cm_disk_emergency := True, cm_shutdown_requested := True\<rparr> else m1, deleted))"

definition trigger_threshold_check ::
  "(string \<Rightarrow> nat \<Rightarrow> bool) \<Rightarrow> nat \<Rightarrow> walk_entry list \<Rightarrow> nat option \<Rightarrow> cleanup_manager \<Rightarrow> cleanup_manager \<times> candidate list" where
  "trigger_threshold_check del now es space m = run_cleanup del now es space False m"

definition cm_start_up :: "real \<Rightarrow> cleanup_manager \<Rightarrow> cleanup_manager" where
  "cm_start_up now m = schedule_next (m\<lparr>cm_next_periodic_cleanup := now, cm_next_threshold_check := now\<rparr>)"

abbreviation THRESHOLD_CHECK_INTERVAL :: real where
  "THRESHOLD_CHECK_INTERVAL \<equiv> 300"

definition cm_timeout_expired ::
  "real \<Rightarrow> (string \<Rightarrow> nat \<Rightarrow> bool) \<Rightarrow> nat \<Rightarrow> walk_entry list \<Rightarrow> nat option \<Rightarrow> cleanup_manager \<Rightarrow>
   cleanup_manager \<times> candidate list" where
  "cm_timeout_expired now del now_nsec es space m =
     (let periodic = (now \<ge> cm_next_periodic_cleanup m);
          (m1, deleted) = run_cleanup del now_nsec es space periodic m;
          m2 = (if periodic then m1\<lparr>cm_next_periodic_cleanup := now + cc_interval (cm_config m1)\<rparr> else m1);
          m3 = m2\<lparr>cm_next_threshold_check := now + min THRESHOLD_CHECK_INTERVAL (cc_interval (cm_config m2))\<rparr>
      in (schedule_next m3, deleted))"

section \<open>What may be deleted\<close>

lemma candidate_iff:
  "is_workdir_cleanup_candidate wd p \<longleftrightarrow>
   wd \<noteq> [] \<and> (\<exists>rel. rel \<noteq> [] \<and> p = workdir_root wd @ rel \<and> \<not> has_dot_dot rel) \<and> \<not> is_tdlib_persistent_file p"
proof -
  let ?r = "workdir_root wd"
  have "(begins_with p ?r \<and> p \<noteq> ?r \<and> \<not> has_dot_dot (drop (length ?r) p)) \<longleftrightarrow>
      (\<exists>rel. rel \<noteq> [] \<and> p = ?r @ rel \<and> \<not> has_dot_dot rel)"
    by (auto simp: begins_with_iff)
  then show ?thesis unfolding is_workdir_cleanup_candidate_def Let_def by auto
qed

lemma workdir_root_slash: "wd \<noteq> [] \<Longrightarrow> \<exists>d. workdir_root wd = d @ [TD_DIR_SLASH]"
  by (metis append_butlast_last_id workdir_root_def)

lemma persistent_name:
  assumes "\<forall>c \<in> set name. \<not> is_slash c" "s \<in> set persistent_suffixes" "ends_with name s"
  shows "is_tdlib_persistent_file (dir @ TD_DIR_SLASH # name)"
proof -
  have "s \<noteq> []" using assms(2) by (auto simp: persistent_suffixes_def)
  then have "name \<noteq> []" using assms(3) by (auto simp: ends_with_iff)
  then show ?thesis
    using assms(2,3) by (auto simp: is_tdlib_persistent_file_def file_name_append [OF assms(1)] Let_def)
qed

lemma delete_attempts_iff:
  "delete_attempts del path a r \<longleftrightarrow> (\<exists>i. a \<le> i \<and> int i \<le> r \<and> del path i)"
proof (induction del path a r rule: delete_attempts.induct)
  case (1 del path a r)
  show ?case
  proof (cases "int a \<le> r \<and> \<not> del path a")
    case True
    then have "delete_attempts del path a r = delete_attempts del path (Suc a) r"
      by (simp add: delete_attempts.simps [of del path a])
    also have "\<dots> = (\<exists>i. Suc a \<le> i \<and> int i \<le> r \<and> del path i)" using 1 True by blast
    finally show ?thesis using True by (metis Suc_leD le_antisym not_less_eq_eq)
  next
    case False
    then show ?thesis by (auto simp: delete_attempts.simps [of del path a])
  qed
qed

lemma delete_with_retries_iff:
  "delete_workdir_file_with_retries del path r \<longleftrightarrow> (\<exists>i. int i \<le> r \<and> del path i)"
  by (simp add: delete_workdir_file_with_retries_def delete_attempts_iff)

text \<open>What the walk collects.\<close>

definition collected :: "string \<Rightarrow> active_files \<Rightarrow> candidate list \<Rightarrow> bool" where
  "collected wd active cs \<longleftrightarrow>
     (\<forall>c \<in> set cs. is_workdir_cleanup_candidate wd (cand_path c) \<and> \<not> is_active active (cand_path c) \<and> 0 \<le> cand_size c)"

definition walk_inv :: "string \<Rightarrow> active_files \<Rightarrow> int \<times> int \<times> candidate list \<Rightarrow> bool" where
  "walk_inv wd active st \<longleftrightarrow>
     (case st of (files, bytes, cs) \<Rightarrow>
        collected wd active cs \<and> sum_list (map cand_size cs) \<le> bytes \<and> int (length cs) \<le> files)"

lemma walk_step_inv: "walk_inv wd active st \<Longrightarrow> walk_inv wd active (walk_step wd active e st)"
  by (cases st) (auto simp: walk_step_def walk_inv_def collected_def split: option.splits)

lemma walk_inv: "walk_inv wd active (walk wd active es)"
proof -
  have "walk_inv wd active (foldl (\<lambda>st e. walk_step wd active e st) st es)" if "walk_inv wd active st" for st
    using that by (induction es arbitrary: st) (simp_all add: walk_step_inv)
  then show ?thesis by (simp add: walk_def walk_inv_def collected_def)
qed

lemma sorted_candidates_props:
  "set (sorted_candidates cs) = set cs" "sorted (map cand_access_time (sorted_candidates cs))"
  "sum_list (map cand_size (sorted_candidates cs)) = sum_list (map cand_size cs)"
proof -
  show "set (sorted_candidates cs) = set cs" "sorted (map cand_access_time (sorted_candidates cs))"
    by (simp_all add: sorted_candidates_def)
  have "mset (map cand_size (sorted_candidates cs)) = mset (map cand_size cs)"
    by (simp add: sorted_candidates_def)
  then show "sum_list (map cand_size (sorted_candidates cs)) = sum_list (map cand_size cs)"
    by (metis sum_mset_sum_list)
qed

text \<open>The deletion loop: a sublist of unused candidates, all expired or needed to reduce the size.\<close>

lemma cleanup_loop_deleted:
  assumes "cleanup_loop cfg active del now th rem cs = (ds, failed, rest)"
  shows "set ds \<subseteq> set cs \<and> (\<forall>d \<in> set ds. \<not> is_active active (cand_path d)) \<and> rest = rem - sum_list (map cand_size ds)"
  using assms
proof (induction cs arbitrary: rem ds failed rest)
  case (Cons c cs)
  then show ?case
    by (fastforce simp: Let_def split: if_splits prod.splits)
qed auto

lemma cleanup_loop_reduces:
  assumes "cleanup_loop cfg active del now th rem cs = (ds, False, rest)" "th"
    "\<forall>c \<in> set cs. \<not> is_active active (cand_path c)" "\<forall>c \<in> set cs. 0 \<le> cand_size c"
  shows "rest \<le> cc_target_bytes cfg \<or> ds = cs"
  using assms
proof (induction cs arbitrary: rem ds rest)
  case (Cons c cs)
  obtain ds' f' rest' where IH: "cleanup_loop cfg active del now th (rem - cand_size c) cs = (ds', f', rest')"
    by (metis prod_cases3)
  show ?case
  proof (cases "cc_target_bytes cfg < rem \<or> expired cfg now c")
    case True
    then have "f' = False" "ds = c # ds'" "rest = rest'"
      using Cons.prems IH by (auto simp: Let_def split: if_splits)
    then show ?thesis using Cons.IH [of "rem - cand_size c" ds' rest'] IH Cons.prems by auto
  next
    case False
    then have "cleanup_loop cfg active del now th rem cs = (ds, False, rest)"
      using Cons.prems(1,2) by (auto simp: Let_def split: if_splits)
    note loop = cleanup_loop_deleted [OF this]
    have "0 \<le> sum_list (map cand_size ds)"
      using loop Cons.prems(4) by (intro sum_list_nonneg) auto
    then show ?thesis using loop False by auto
  qed
qed simp

text \<open>Without a time to live, the least recently used candidates are deleted first.\<close>

lemma cleanup_loop_prefix:
  assumes "cleanup_loop cfg active del now th rem cs = (ds, failed, rest)" "ttl_nsec cfg = 0"
    "\<forall>c \<in> set cs. \<not> is_active active (cand_path c)"
  shows "ds = take (length ds) cs"
  using assms
proof (induction cs arbitrary: rem ds failed rest)
  case (Cons c cs)
  have none: "cleanup_loop cfg active del now th r xs = (es, f, t) \<Longrightarrow> \<not> (th \<and> r > cc_target_bytes cfg) \<Longrightarrow> es = []" for r xs es f t
    using Cons.prems(2) by (induction xs) (auto simp: Let_def expired_def split: if_splits)
  show ?case
  proof (cases "th \<and> rem > cc_target_bytes cfg")
    case True
    then show ?thesis
      using Cons by (auto simp: Let_def split: if_splits prod.splits)
  next
    case False
    then show ?thesis using none [OF Cons.prems(1)] by simp
  qed
qed simp

section \<open>Counting the readers of a file\<close>

text \<open>
  The contract of a reference counter: taking a counted key adds one, giving it back takes one away,
  the count never is negative.  Which keys are counted does not change.
\<close>

datatype 'k ref_op = Take 'k | Give 'k

fun op_change :: "'k \<Rightarrow> 'k ref_op \<Rightarrow> int" where
  "op_change k (Take k') = (if k = k' then 1 else 0)"
| "op_change k (Give k') = (if k = k' then - 1 else 0)"

definition balance :: "'k \<Rightarrow> 'k ref_op list \<Rightarrow> int" where
  "balance k ops = sum_list (map (op_change k) ops)"

locale refcount =
  fixes inv :: "'s \<Rightarrow> bool"
    and inc :: "'k \<Rightarrow> 's \<Rightarrow> 's"
    and dec :: "'k \<Rightarrow> 's \<Rightarrow> 's"
    and cnt :: "'s \<Rightarrow> 'k \<Rightarrow> int"
    and counted :: "'s \<Rightarrow> 'k \<Rightarrow> bool"
  assumes inc_inv: "inv s \<Longrightarrow> inv (inc k s)"
    and dec_inv: "inv s \<Longrightarrow> inv (dec k s)"
    and cnt_nonneg: "inv s \<Longrightarrow> 0 \<le> cnt s k"
    and cnt_inc: "inv s \<Longrightarrow> cnt (inc k s) k' = cnt s k' + (if k = k' \<and> counted s k then 1 else 0)"
    and cnt_dec: "inv s \<Longrightarrow> cnt (dec k s) k' = max 0 (cnt s k' - (if k = k' then 1 else 0))"
    and counted_inc: "counted (inc k s) k' = counted s k'"
    and counted_dec: "counted (dec k s) k' = counted s k'"
begin

definition apply_op :: "'k ref_op \<Rightarrow> 's \<Rightarrow> 's" where
  "apply_op x s = (case x of Take k \<Rightarrow> inc k s | Give k \<Rightarrow> dec k s)"

definition run_ops :: "'k ref_op list \<Rightarrow> 's \<Rightarrow> 's" where
  "run_ops ops s = foldl (\<lambda>s x. apply_op x s) s ops"

lemma run_ops_inv: "inv s \<Longrightarrow> inv (run_ops ops s)"
  unfolding run_ops_def
  by (induction ops arbitrary: s) (auto simp: apply_op_def inc_inv dec_inv split: ref_op.splits)

lemma run_ops_counted: "counted (run_ops ops s) k = counted s k"
  unfolding run_ops_def
  by (induction ops arbitrary: s) (auto simp: apply_op_def counted_inc counted_dec split: ref_op.splits)

text \<open>If a counted key is never given back more often than taken, the count is the balance.\<close>

lemma run_ops_cnt:
  assumes "inv s" "counted s k" "\<forall>n. 0 \<le> cnt s k + balance k (take n ops)"
  shows "cnt (run_ops ops s) k = cnt s k + balance k ops"
  using assms(3)
proof (induction ops rule: rev_induct)
  case Nil
  show ?case by (simp add: run_ops_def balance_def)
next
  case (snoc x ops)
  have "\<forall>n. 0 \<le> cnt s k + balance k (take n ops)"
  proof
    fix n
    show "0 \<le> cnt s k + balance k (take n ops)"
      using snoc.prems [rule_format, of "min n (length ops)"] by (cases "n \<le> length ops") (simp_all add: min_def)
  qed
  then have IH: "cnt (run_ops ops s) k = cnt s k + balance k ops" by (rule snoc.IH)
  have all: "0 \<le> cnt s k + balance k (ops @ [x])"
    using snoc.prems [rule_format, of "Suc (length ops)"] by simp
  have step: "run_ops (ops @ [x]) s = apply_op x (run_ops ops s)" by (simp add: run_ops_def)
  have bal: "balance k (ops @ [x]) = balance k ops + op_change k x" by (simp add: balance_def)
  show ?case
    using IH all run_ops_inv [OF assms(1), of ops] run_ops_counted [of ops s k] assms(2)
    unfolding step bal
    by (cases x) (auto simp: apply_op_def cnt_inc cnt_dec)
qed

end

definition active_count :: "cleanup_manager \<Rightarrow> string \<Rightarrow> int" where
  "active_count m p = (case cm_active_files m p of None \<Rightarrow> 0 | Some n \<Rightarrow> n)"

definition counts_positive :: "cleanup_manager \<Rightarrow> bool" where
  "counts_positive m \<longleftrightarrow> (\<forall>p n. cm_active_files m p = Some n \<longrightarrow> 0 < n)"

interpretation files: refcount counts_positive retain_file release_file active_count
  "\<lambda>m. is_workdir_cleanup_candidate (cc_workdir (cm_config m))"
proof
  fix m :: cleanup_manager and p q :: string
  assume inv: "counts_positive m"
  then have pos: "0 < n" if "cm_active_files m p = Some n" for p n using that by (auto simp: counts_positive_def)
  show "counts_positive (retain_file p m)"
    using inv pos [THEN less_imp_le] by (auto simp: counts_positive_def retain_file_def active_count_def add_nonneg_pos split: option.splits if_splits)
  show "counts_positive (release_file p m)"
    using inv by (auto simp: counts_positive_def release_file_def split: option.splits if_splits)
  show "0 \<le> active_count m p"
    using pos [of p] by (auto simp: active_count_def split: option.splits dest: less_imp_le)
  show "active_count (retain_file p m) q =
      active_count m q + (if p = q \<and> is_workdir_cleanup_candidate (cc_workdir (cm_config m)) p then 1 else 0)"
    by (simp add: active_count_def retain_file_def)
  show "active_count (release_file p m) q = max 0 (active_count m q - (if p = q then 1 else 0))"
    using pos [of q] by (auto simp: active_count_def release_file_def split: option.splits dest: less_imp_le)
qed (simp_all add: retain_file_def release_file_def split: option.splits)

lemma is_active_count: "is_active (cm_active_files m) p \<longleftrightarrow> 0 < active_count m p"
  by (auto simp: is_active_def active_count_def split: option.splits)

section \<open>Properties of the cleanup\<close>

lemma run_workdir_cleanup_deleted:
  assumes "run_workdir_cleanup cfg active del now es space = (r, ds)"
  obtains files bytes cands th failed rest where "walk (cc_workdir cfg) active es = (files, bytes, cands)"
    "cleanup_loop cfg active del now th bytes (sorted_candidates cands) = (ds, failed, rest)"
    "th = (cc_threshold_bytes cfg > 0 \<and> bytes \<ge> cc_threshold_bytes cfg)" "cr_failed_files r = (if failed then 1 else 0)"
    "cr_deleted_bytes r = sum_list (map cand_size ds)" "cr_scanned_bytes r = bytes"
  using assms by (auto simp: run_workdir_cleanup_def Let_def split: prod.splits)

text \<open>
  C31: a cleanup run deletes only files strictly below the working directory, never through \<^verbatim>\<open>..\<close>, never a binlog or
  SQLite file of TDLib, and never a file that a stream has retained.
\<close>

theorem cleanup_deletes_only_cache:
  assumes "run_workdir_cleanup cfg active del now es space = (r, ds)" "d \<in> set ds"
  shows "(\<exists>rel. rel \<noteq> [] \<and> cand_path d = workdir_root (cc_workdir cfg) @ rel \<and> \<not> has_dot_dot rel) \<and>
         \<not> is_tdlib_persistent_file (cand_path d) \<and> \<not> is_active active (cand_path d)"
proof -
  from assms(1) obtain files bytes cands th failed rest where w: "walk (cc_workdir cfg) active es = (files, bytes, cands)"
    and l: "cleanup_loop cfg active del now th bytes (sorted_candidates cands) = (ds, failed, rest)"
    by (rule run_workdir_cleanup_deleted)
  have "d \<in> set cands" using cleanup_loop_deleted [OF l] assms(2) sorted_candidates_props(1) by blast
  then have "is_workdir_cleanup_candidate (cc_workdir cfg) (cand_path d)"
    using walk_inv [of "cc_workdir cfg" active es] w by (simp add: WorkdirCleanup.walk_inv_def collected_def)
  then show ?thesis using cleanup_loop_deleted [OF l] assms(2) by (simp add: candidate_iff)
qed

definition demo_cleanup :: cleanup_config where
  "demo_cleanup = \<lparr>cc_workdir = ''/w'', cc_threshold_bytes = 10, cc_target_bytes = 6, cc_interval = 3600, cc_file_ttl = 0, cc_min_free_bytes = 0\<rparr>"

definition demo_entries :: "walk_entry list" where
  "demo_entries =
     [\<lparr>we_path = ''/w/b/td.binlog'', we_regular = True, we_stat = Some (True, 50, 1)\<rparr>,
      \<lparr>we_path = ''/w/b/new'', we_regular = True, we_stat = Some (True, 7, 9)\<rparr>,
      \<lparr>we_path = ''/w/b/old'', we_regular = True, we_stat = Some (True, 5, 2)\<rparr>]"

definition demo_deleted :: "candidate list" where
  "demo_deleted = snd (run_workdir_cleanup demo_cleanup Map.empty (\<lambda>_ _. True) 100 demo_entries None)"

lemma demo_deleted_eq: "map cand_path demo_deleted = [''/w/b/old'', ''/w/b/new'']"
  by code_simp

theorem cleanup_deletes_only_cache_witness:
  "\<exists>d \<in> set demo_deleted. cand_path d = ''/w/b/old'' \<and> \<not> is_tdlib_persistent_file (cand_path d)"
proof -
  have "''/w/b/old'' \<in> set (map cand_path demo_deleted)" by (simp add: demo_deleted_eq)
  then obtain d where d: "d \<in> set demo_deleted" "cand_path d = ''/w/b/old''" by auto
  have "run_workdir_cleanup demo_cleanup Map.empty (\<lambda>_ _. True) 100 demo_entries None =
      (fst (run_workdir_cleanup demo_cleanup Map.empty (\<lambda>_ _. True) 100 demo_entries None), demo_deleted)"
    by (simp add: demo_deleted_def)
  from cleanup_deletes_only_cache [OF this d(1)] d show ?thesis by auto
qed



section \<open>Runs of the actor\<close>

text \<open>The states of the cleanup manager after the retain and release messages \<open>ops\<close>, with cleanups in between.\<close>

inductive cleanup_reach :: "cleanup_config \<Rightarrow> string ref_op list \<Rightarrow> cleanup_manager \<Rightarrow> bool" for cfg where
  clean_start: "cleanup_reach cfg [] (cm_start_up now (new_cleanup_manager cfg))"
| clean_retain: "cleanup_reach cfg ops m \<Longrightarrow> cleanup_reach cfg (ops @ [Take p]) (retain_file p m)"
| clean_release: "cleanup_reach cfg ops m \<Longrightarrow> cleanup_reach cfg (ops @ [Give p]) (release_file p m)"
| clean_timeout: "cleanup_reach cfg ops m \<Longrightarrow> cleanup_reach cfg ops (fst (cm_timeout_expired now del nsec es space m))"
| clean_check: "cleanup_reach cfg ops m \<Longrightarrow> cleanup_reach cfg ops (fst (trigger_threshold_check del nsec es space m))"

lemma run_cleanup_keeps:
  "cm_config (fst (run_cleanup del nsec es space b m)) = cm_config m"
  "cm_active_files (fst (run_cleanup del nsec es space b m)) = cm_active_files m"
  by (simp_all add: run_cleanup_def Let_def split: prod.splits)

lemma timeout_keeps:
  "cm_config (fst (cm_timeout_expired now del nsec es space m)) = cm_config m"
  "cm_active_files (fst (cm_timeout_expired now del nsec es space m)) = cm_active_files m"
  using run_cleanup_keeps [of del nsec es space "now \<ge> cm_next_periodic_cleanup m" m]
  by (auto simp: cm_timeout_expired_def schedule_next_def Let_def split: prod.splits)

lemma same_files:
  assumes "cm_active_files m = cm_active_files m'" "cm_config m = cm_config m'"
  shows "cm_active_files (retain_file p m) = cm_active_files (retain_file p m')"
    "cm_active_files (release_file p m) = cm_active_files (release_file p m')"
    "cm_config (retain_file p m) = cm_config (retain_file p m')" "cm_config (release_file p m) = cm_config (release_file p m')"
  using assms by (simp_all add: retain_file_def release_file_def split: option.splits)

lemma cleanup_reach_ops:
  assumes "cleanup_reach cfg ops m"
  shows "cm_active_files m = cm_active_files (files.run_ops ops (new_cleanup_manager cfg)) \<and>
         cm_config m = cm_config (files.run_ops ops (new_cleanup_manager cfg)) \<and> cm_config m = cfg"
  using assms
proof induction
  case (clean_start now)
  then show ?case by (simp add: cm_start_up_def schedule_next_def files.run_ops_def new_cleanup_manager_def)
next
  case (clean_retain ops m p)
  have "files.run_ops (ops @ [Take p]) s = retain_file p (files.run_ops ops s)" for s
    by (simp add: files.run_ops_def files.apply_op_def)
  moreover have "cm_config (retain_file p m) = cm_config m" by (simp add: retain_file_def)
  ultimately show ?case using clean_retain.IH same_files(1,3) [of m "files.run_ops ops (new_cleanup_manager cfg)" p] by metis
next
  case (clean_release ops m p)
  have "files.run_ops (ops @ [Give p]) s = release_file p (files.run_ops ops s)" for s
    by (simp add: files.run_ops_def files.apply_op_def)
  moreover have "cm_config (release_file p m) = cm_config m" by (simp add: release_file_def split: option.splits)
  ultimately show ?case using clean_release.IH same_files(2,4) [of m "files.run_ops ops (new_cleanup_manager cfg)" p] by metis
qed (unfold trigger_threshold_check_def timeout_keeps run_cleanup_keeps, assumption+)

lemma reach_active_count:
  assumes "cleanup_reach cfg ops m" "is_workdir_cleanup_candidate (cc_workdir cfg) p" "\<forall>n. 0 \<le> balance p (take n ops)"
  shows "active_count m p = balance p ops"
proof -
  let ?m = "new_cleanup_manager cfg"
  have "active_count m p = active_count (files.run_ops ops ?m) p"
    using cleanup_reach_ops [OF assms(1)] by (simp add: active_count_def)
  also have "\<dots> = active_count ?m p + balance p ops"
    by (rule files.run_ops_cnt) (use assms(2,3) in \<open>simp_all add: counts_positive_def new_cleanup_manager_def active_count_def\<close>)
  finally show ?thesis by (simp add: active_count_def new_cleanup_manager_def)
qed

lemma cleanup_spares:
  assumes "run_workdir_cleanup cfg active del now es space = (r, ds)" "d \<in> set ds"
  shows "is_workdir_cleanup_candidate (cc_workdir cfg) (cand_path d) \<and> \<not> is_active active (cand_path d)"
proof -
  from assms(1) obtain files bytes cands th failed rest where w: "walk (cc_workdir cfg) active es = (files, bytes, cands)"
    and l: "cleanup_loop cfg active del now th bytes (sorted_candidates cands) = (ds, failed, rest)"
    by (rule run_workdir_cleanup_deleted)
  have "d \<in> set cands" using cleanup_loop_deleted [OF l] assms(2) sorted_candidates_props(1) by blast
  then show ?thesis
    using walk_inv [of "cc_workdir cfg" active es] w cleanup_loop_deleted [OF l] assms(2)
    by (simp add: WorkdirCleanup.walk_inv_def collected_def)
qed

end
