(* ===== verification/FileStreamReply.thy ===== *)
theory FileStreamReply
  imports FileStreamHolds
begin

text \<open>
  What the client of a stream sees: the response header belongs to the range that was requested, and
  a response that is completed carries exactly the bytes of that range.
\<close>

section \<open>The announced range\<close>

fun header_of :: "stream_msg \<Rightarrow> string list" where
  "header_of (WriteHeaders h) = [h]"
| "header_of _ = []"

definition headers_of :: "stream_msg list \<Rightarrow> string list" where
  "headers_of ms = concat (map header_of ms)"

text \<open>The part of the state that determines the response header.\<close>

definition reply_view ::
  "stream_conn \<Rightarrow> bool \<times> file_stream_route \<times> bool \<times> int \<times> int \<times> int \<times> string list" where
  "reply_view s =
     (sc_headers_sent s, sc_route s, sc_partial_response s, start_offset (sc_cursor s), end_offset (sc_cursor s),
      total_size (sc_cursor s), headers_of (sc_log s))"

lemmas view_defs = reply_view_def headers_of_def send_msg_def stop_actor_def Let_def

lemma view_abort [simp]: "reply_view (sc_abort e s) = reply_view s"
  by (simp add: sc_abort_def view_defs)

lemma view_fail [simp]: "reply_view (sc_fail c m s) = reply_view s"
proof -
  have "reply_view (sc_abort e s) = reply_view s" for e by simp
  then show ?thesis by (auto simp: sc_fail_def view_defs split: checked.splits sum.splits)
qed

lemma view_finish [simp]: "reply_view (sc_finish s) = reply_view s"
proof -
  have "reply_view (sc_abort e s) = reply_view s" for e by simp
  then show ?thesis by (auto simp: sc_finish_def view_defs)
qed

lemma view_fields [simp]:
  "reply_view (s\<lparr>sc_local_file := f\<rparr>) = reply_view s" "reply_view (s\<lparr>sc_read_in_flight := b\<rparr>) = reply_view s"
  "reply_view (s\<lparr>sc_write_in_flight := b\<rparr>) = reply_view s" "reply_view (s\<lparr>sc_file_id := n\<rparr>) = reply_view s"
  "reply_view (s\<lparr>sc_pending_write_offset := n\<rparr>) = reply_view s" "reply_view (s\<lparr>sc_pending_write_size := n\<rparr>) = reply_view s"
  "reply_view (s\<lparr>sc_timeout := t\<rparr>) = reply_view s" "reply_view (s\<lparr>sc_download_completed := b\<rparr>) = reply_view s"
  "reply_view (s\<lparr>sc_finished := b\<rparr>) = reply_view s" "reply_view (s\<lparr>sc_connection := b\<rparr>) = reply_view s"
  "reply_view (s\<lparr>sc_first_byte_sent := b\<rparr>) = reply_view s" "reply_view (s\<lparr>sc_client := b\<rparr>) = reply_view s"
  "reply_view (s\<lparr>sc_local_path := p\<rparr>) = reply_view s" "reply_view (stop_actor s) = reply_view s"
  "header_of m = [] \<Longrightarrow> reply_view (send_msg m s) = reply_view s"
  by (simp_all add: view_defs)

lemma view_cursor:
  "start_offset c = start_offset (sc_cursor s) \<Longrightarrow> end_offset c = end_offset (sc_cursor s) \<Longrightarrow>
   total_size c = total_size (sc_cursor s) \<Longrightarrow> reply_view (s\<lparr>sc_cursor := c\<rparr>) = reply_view s"
  by (simp add: view_defs)

lemma view_file_data [simp]: "reply_view (on_file_data off r s) = reply_view s"
  by (simp add: on_file_data_def Let_def split: sum.splits)

lemma view_try_read [simp]: "reply_view (try_read io s) = reply_view s"
  by (simp add: try_read_def Let_def split: sum.splits)

lemma view_switch [simp]: "reply_view (switch_path p s) = reply_view s"
  by (simp add: switch_path_def Let_def)

lemma view_error [simp]: "reply_view (on_file_error e s) = reply_view s"
  by (simp add: on_file_error_def Let_def)

lemma view_headers_flushed [simp]: "reply_view (on_headers_flushed r s) = reply_view s"
  by (simp add: on_headers_flushed_def Let_def split: sum.splits)

lemma view_chunk_flushed [simp]: "reply_view (on_chunk_flushed io r s) = reply_view s"
proof -
  have "reply_view (s\<lparr>sc_cursor := c, sc_first_byte_sent := b\<rparr>) = reply_view s"
    if "commit off n (sc_cursor s) = Ok c" for off n c s b
    using that by (auto simp: commit_def view_defs split: if_splits)
  note this [of _ _ "s\<lparr>sc_write_in_flight := False, sc_pending_write_offset := - 1, sc_pending_write_size := 0\<rparr>", simplified]
  then show ?thesis by (auto simp: on_chunk_flushed_def Let_def split: sum.splits)
qed

lemma view_progress:
  assumes "cursor_inv (sc_cursor s) \<or> total_size (sc_cursor s) < 0"
  shows "reply_view (on_file_progress io t p off n b a s) = reply_view s"
proof -
  have "reply_view (s\<lparr>sc_cursor := c, sc_download_completed := x\<rparr>) = reply_view s"
    if "update_progress off n b (sc_cursor s) = Ok c" "cursor_inv (sc_cursor s)" for c s x
    using update_progress_keeps [OF that] by (simp add: view_defs)
  moreover have "sc_cursor (switch_path q u) = sc_cursor u" for q u by simp
  ultimately show ?thesis
    using assms by (auto simp: on_file_progress_def Let_def split: sum.splits)
qed

lemma view_tear_down [simp]: "reply_view (sc_tear_down s) = reply_view s"
  by (simp add: sc_tear_down_def Let_def)

text \<open>
  The invariant: a header that was sent is the one of the requested range, and the cursor still has
  that range; \<open>r\<close> is the route of the request.
\<close>

definition announced :: "file_stream_route \<Rightarrow> stream_conn \<Rightarrow> bool" where
  "announced r s \<longleftrightarrow>
     route_range (sc_route s) = route_range r \<and> route_head_only (sc_route s) = route_head_only r \<and>
     (if sc_headers_sent s
      then (\<exists>rng h. parse_file_stream_range (route_range r) (total_size (sc_cursor s)) = Ok rng \<and>
              start_offset (sc_cursor s) = range_start rng \<and> end_offset (sc_cursor s) = range_end rng \<and>
              sc_partial_response s = range_is_partial rng \<and> response_headers s = Ok h \<and> headers_of (sc_log s) = [h])
      else headers_of (sc_log s) = [])"

lemma announced_view: "reply_view s = reply_view t \<Longrightarrow> announced r s = announced r t"
proof -
  assume v: "reply_view s = reply_view t"
  then have "response_headers s = response_headers t"
    by (simp add: reply_view_def response_headers_def Let_def)
  with v show ?thesis by (simp add: announced_def reply_view_def)
qed

lemma announced_unsent:
  assumes "reply_view t = reply_view s" "\<not> sc_headers_sent s" "headers_of (sc_log s) = []"
    "route_range (sc_route s) = route_range r" "route_head_only (sc_route s) = route_head_only r"
  shows "announced r t"
  unfolding announced_view [OF assms(1)] using assms(2-5) by (simp add: announced_def)

lemma announced_send_headers:
  assumes "parse_file_stream_range (route_range r) (total_size (sc_cursor s)) = Ok rng"
    "start_offset (sc_cursor s) = range_start rng" "end_offset (sc_cursor s) = range_end rng"
    "sc_partial_response s = range_is_partial rng" "\<not> sc_headers_sent s" "headers_of (sc_log s) = []"
    "route_range (sc_route s) = route_range r" "route_head_only (sc_route s) = route_head_only r"
  shows "announced r (send_headers s)"
proof (cases "response_headers s")
  case (Inl e)
  then show ?thesis using announced_unsent [OF view_fail] assms by (simp add: send_headers_def)
next
  case (Inr h)
  have "response_headers (send_msg (WriteHeaders h) (s\<lparr>sc_headers_sent := True\<rparr>)) = response_headers s"
    by (simp add: response_headers_def send_msg_def)
  then show ?thesis using Inr assms by (simp add: send_headers_def announced_def send_msg_def headers_of_def)
qed

lemma announced_start_response:
  assumes "start_offset (sc_cursor s) = 0" "contiguous_end (sc_cursor s) = 0" "total_size (sc_cursor s) \<le> int64_max"
    "\<not> sc_headers_sent s" "headers_of (sc_log s) = []"
    "route_range (sc_route s) = route_range r" "route_head_only (sc_route s) = route_head_only r"
  shows "announced r (start_response io off n b s)"
proof (cases "parse_file_stream_range (route_range (sc_route s)) (total_size (sc_cursor s))")
  case (Inl e)
  then show ?thesis using announced_unsent [OF view_fail] assms by (simp add: start_response_def)
next
  case (Inr rng)
  define s4 where "s4 = s\<lparr>sc_partial_response := range_is_partial rng,
      sc_timeout := Some (cfg_first_byte_timeout (sc_config s)),
      sc_cursor := set_range (range_start rng) (range_end rng) (sc_cursor s)\<rparr>"
  have c4: "cursor_inv (sc_cursor s4)"
    using parse_range_within [OF Inr] assms(1-3) unfolding s4_def
    by (auto simp: range_within_def intro!: cursor_inv_set_range)
  have s4: "\<not> sc_headers_sent s4" "headers_of (sc_log s4) = []" "route_range (sc_route s4) = route_range r"
      "route_head_only (sc_route s4) = route_head_only r" "sc_partial_response s4 = range_is_partial rng"
      "start_offset (sc_cursor s4) = range_start rng" "end_offset (sc_cursor s4) = range_end rng"
      "total_size (sc_cursor s4) = total_size (sc_cursor s)"
    using assms by (simp_all add: s4_def set_range_def)
  show ?thesis
  proof (cases "update_progress off n b (sc_cursor s4)")
    case err: (Inl e)
    then show ?thesis using Inr announced_unsent [OF view_fail] s4 by (simp add: start_response_def Let_def s4_def [symmetric])
  next
    case ok: (Inr c)
    let ?s5 = "s4\<lparr>sc_cursor := c, sc_download_completed := b\<rparr>"
    have "announced r (send_headers ?s5)"
      using Inr s4 assms(6) update_progress_keeps [OF ok c4] by (intro announced_send_headers [where rng = rng]) simp_all
    moreover from this have "announced r (try_read io (send_headers ?s5))" by (simp cong: announced_view)
    moreover have "announced r (sc_fail 502 m ?s5)" for m
      using announced_unsent [OF view_fail] s4 by simp
    ultimately show ?thesis
      using Inr ok by (cases b) (simp_all add: start_response_def Let_def s4_def [symmetric])
  qed
qed

lemma announced_ready:
  assumes "fresh s" "announced r s" "t \<le> int64_max"
  shows "announced r (on_file_ready io f t p off n b a s)"
proof -
  define s2 where "s2 = (if p \<noteq> [] \<and> sc_local_path (s\<lparr>sc_file_id := f\<rparr>) \<noteq> p
      then switch_path p (s\<lparr>sc_file_id := f\<rparr>) else s\<lparr>sc_file_id := f\<rparr>)"
  have v: "reply_view s2 = reply_view s" by (simp add: s2_def)
  have s2: "fresh s2" using assms(1) by (simp add: s2_def fresh_def)
  have "announced r (sc_fail c m s2)" "announced r (sc_fail c m s)" for c m
    using assms(2) v by (simp_all cong: announced_view)
  moreover have "announced r (start_response io off n b (s2\<lparr>sc_cursor := (sc_cursor s2)\<lparr>total_size := t\<rparr>\<rparr>))"
    using s2 assms v by (intro announced_start_response) (auto simp: fresh_def new_cursor_def announced_def reply_view_def)
  ultimately show ?thesis
    using assms(2) unfolding on_file_ready_def Let_def s2_def [symmetric] by simp
qed

lemma announced_handle:
  assumes "live s" "fresh s \<or> ready content s" "announced r s" "event_enabled ev s"
  shows "announced r (handle_event io ev s)"
proof -
  have keep: "announced r t" if "reply_view t = reply_view s" for t
    using announced_view [OF that] assms(3) by simp
  have cur: "cursor_inv (sc_cursor s) \<or> total_size (sc_cursor s) < 0"
    using assms(2) by (auto simp: ready_def fresh_def new_cursor_def)
  show ?thesis
  proof (cases ev)
    case (FileReady f t p off n b a)
    then have "fresh s" using assms(2,4) by (auto simp: ready_def cursor_inv_def)
    then show ?thesis using FileReady assms(3,4) announced_ready by simp
  qed (auto simp: set_client_def sc_timeout_expired_def view_progress [OF cur] intro!: keep)
qed

lemma reach_announced:
  assumes "stream_reach (reads_from content) (sc_start_up os (new_stream_conn i b r cfg peer)) s"
  shows "announced r s"
  using assms
proof (induction rule: stream_reach.induct)
  case stream_reach_init
  show ?case by (simp add: announced_def sc_start_up_def new_stream_conn_def headers_of_def send_msg_def Let_def)
next
  case (stream_reach_step s ev s')
  from stream_reach_step(2) obtain io where d: "\<not> sc_stopped s" "\<not> sc_crashed s" "event_enabled ev s" "s' = deliver io ev s"
    by (auto elim: stream_stepE)
  then have "live s" "fresh s \<or> ready content s"
    using reach_inv [OF stream_reach_step(1)] by (auto simp: stream_inv_def ended_def)
  then have "announced r (handle_event io ev s)" using announced_handle stream_reach_step(3) d by blast
  then show ?case using d by (simp add: deliver_def Let_def cong: announced_view)
qed

section \<open>Runs on concrete events\<close>

fun run_stream :: "file_io \<Rightarrow> stream_event list \<Rightarrow> stream_conn \<Rightarrow> stream_conn" where
  "run_stream io [] s = s"
| "run_stream io (ev # evs) s = run_stream io evs (deliver io ev s)"

fun run_enabled :: "file_io \<Rightarrow> stream_event list \<Rightarrow> stream_conn \<Rightarrow> bool" where
  "run_enabled io [] s \<longleftrightarrow> True"
| "run_enabled io (ev # evs) s \<longleftrightarrow>
     \<not> sc_stopped s \<and> \<not> sc_crashed s \<and> event_enabled ev s \<and> run_enabled io evs (deliver io ev s)"

lemma run_reach:
  assumes "good io" "run_enabled io evs s" "stream_reach good s0 s"
  shows "stream_reach good s0 (run_stream io evs s)"
  using assms(2,3)
proof (induction evs arbitrary: s)
  case (Cons ev evs)
  then have "stream_step good s ev (deliver io ev s)" using assms(1) by (auto intro: stream_step.intros)
  then show ?case using Cons by (auto intro: stream_reach_step)
qed simp

text \<open>A file of eleven bytes, completely downloaded, and a request for four of them.\<close>

definition demo_content :: string where
  "demo_content = ''hello world''"

definition demo_io :: file_io where
  "demo_io = \<lparr>io_open = (\<lambda>_. Ok ()),
     io_pread = (\<lambda>f off n. if n < 0 then Error 22 ''Invalid argument'' else Ok (slice_of demo_content off n))\<rparr>"

definition demo_inet :: inet where
  "demo_inet = \<lparr>pton4 = (\<lambda>_. None), pton6 = (\<lambda>_. None), ntop4 = (\<lambda>_. ''127.0.0.1''), ntop6 = (\<lambda>_. ''::1'')\<rparr>"

definition demo_route :: "bool \<Rightarrow> file_stream_route" where
  "demo_route head = (new_route ''1:a'' ''f'' False)\<lparr>route_range := ''bytes=2-5'', route_head_only := head\<rparr>"

definition demo_start :: "bool \<Rightarrow> stream_conn" where
  "demo_start head = sc_start_up demo_inet (new_stream_conn 1 True (demo_route head) default_config Invalid)"

definition demo_events :: "stream_event list" where
  "demo_events = [SetClient, FileReady 7 11 ''/w/f'' 0 11 True False, HeadersFlushed (Ok ()), ChunkFlushed (Ok ())]"

lemma take_min_drop: "take (min (length xs - k) n) (drop k xs) = take n (drop k xs)"
  by (cases "n \<le> length xs - k") (auto simp: min_def)

lemma demo_reads: "reads_from demo_content demo_io"
  by (auto simp: reads_from_def demo_io_def slice_of_def take_min_drop split: if_splits)

lemma demo_enabled: "run_enabled demo_io demo_events (demo_start False)"
  by code_simp

lemma demo_run: "stream_reach (reads_from demo_content) (demo_start False) (run_stream demo_io demo_events (demo_start False))"
  by (intro run_reach demo_reads demo_enabled stream_reach_init)

section \<open>Properties of the stream\<close>



text \<open>
  C4: in every reachable state the messages to the HTTP connection follow its protocol: one header, then
  chunks, then exactly one final message, or one error response; after the actor stopped nothing is
  written any more.  The bytes written so far are a part of the file that starts at the requested
  position.
\<close>

theorem stream_protocol:
  assumes "stream_reach (reads_from content) (sc_start_up os (new_stream_conn i b r cfg peer)) s" "\<not> sc_crashed s"
  shows "conn_phase (sc_log s) = (if sc_stopped s then Closed else if sc_headers_sent s then Streaming else Awaiting) \<and>
         (\<exists>n. body_of (sc_log s) = slice_of content (start_offset (sc_cursor s)) n)"
proof -
  consider "live s" "fresh s" | "live s" "ready content s" | "ended content s"
    using reach_inv [OF assms(1)] assms(2) by (auto simp: stream_inv_def)
  then show ?thesis
  proof cases
    case 1
    then show ?thesis by (auto simp: live_def fresh_def slice_of_def intro: exI [of _ 0])
  next
    case 2
    then show ?thesis by (auto simp: live_def ready_def)
  next
    case 3
    then show ?thesis by (simp add: ended_def body_ok_def)
  qed
qed

theorem stream_protocol_witness:
  "conn_phase (sc_log (run_stream demo_io demo_events (demo_start False))) = Closed"
proof -
  let ?s = "run_stream demo_io demo_events (demo_start False)"
  have s: "\<not> sc_crashed ?s" "sc_stopped ?s" by code_simp+
  from stream_protocol [OF demo_run [unfolded demo_start_def] s(1) [unfolded demo_start_def]] s(2)
  show ?thesis unfolding demo_start_def by simp
qed

text \<open>
  C5: every file the stream retains at the cleanup manager is released again: in no prefix of the messages is
  a file released more often than retained, and when the actor has stopped nothing is retained and the
  stream itself was released exactly once.
\<close>

theorem stream_releases_everything:
  assumes "stream_reach good (sc_start_up os (new_stream_conn i b r cfg peer)) s" "sc_stopped s"
  shows "never_negative (account_log s) \<and> (\<forall>p. holds p (account_log s) = 0) \<and> releases (account_log s) = 1"
  using reach_account [OF assms(1)] assms(2) by (simp add: account_inv_def)

theorem stream_releases_everything_witness:
  "holds ''/w/f'' (account_log (run_stream demo_io demo_events (demo_start False))) = 0 \<and>
   account_log (run_stream demo_io demo_events (demo_start False)) = [RetainFile ''/w/f'', ReleaseFile ''/w/f'', ReleaseFileStream 1]"
proof -
  let ?s = "run_stream demo_io demo_events (demo_start False)"
  have s: "sc_stopped ?s" by code_simp
  have "account_log ?s = [RetainFile ''/w/f'', ReleaseFile ''/w/f'', ReleaseFileStream 1]" by code_simp
  then show ?thesis
    using stream_releases_everything [OF demo_run [unfolded demo_start_def] s [unfolded demo_start_def]]
    unfolding demo_start_def by blast
qed

text \<open>
  C6: an event never makes the process abort, unless it carries an error text that is not UTF-8 (texts of TDLib
  are UTF-8).
\<close>

theorem stream_never_aborts_process:
  assumes "utf8_event ev" "\<not> sc_crashed s"
  shows "\<not> sc_crashed (deliver io ev s)"
proof -
  have "sc_crashed (sc_tear_down t) = sc_crashed t" for t by (simp add: sc_tear_down_def send_msg_def Let_def)
  then show ?thesis using crashed_handle [OF assms(1)] assms(2) by (simp add: deliver_def Let_def)
qed

theorem stream_never_aborts_process_witness:
  "\<not> sc_crashed (deliver demo_io (FileError (Status 404 ''gone'')) (demo_start False))"
  by (rule stream_never_aborts_process) code_simp+

definition head_events :: "stream_event list" where
  "head_events = [SetClient, FileReady 7 11 ''/w/f'' 0 0 False True, FileProgress 11 ''/w/f'' 0 11 True False]"


section \<open>From the start of the download to the last byte\<close>

lemma response_headers_ok:
  assumes "cursor_inv (sc_cursor s)"
  shows "\<exists>h. response_headers s = Ok h"
proof -
  let ?c = "sc_cursor s"
  have len: "length (print_int 64 (start_offset ?c)) \<le> 20" "length (print_int 64 (end_offset ?c)) \<le> 20"
      "length (print_int 64 (total_size ?c)) \<le> 20"
    using assms by (auto intro!: print_int_length simp: in_signed_def cursor_inv_def)
  define n where "n = nat (if total_size ?c = 0 then 0 else end_offset ?c - start_offset ?c + 1)"
  have n: "length (print_uint n) \<le> 20"
    using assms print_uint_length [of n 20] by (auto simp: n_def cursor_inv_def)
  have grow: "filled (add_header k v sb) (a + 120)"
    if "filled sb a" "length k \<le> 20" "length v \<le> 90" "a \<le> 2000" for sb k v a
    using filled_add_header [OF that(1), of k v] that by (simp add: filled_def)
  define h0 where "h0 = init_status_line (if sc_partial_response s then 206 else 200)"
  define h1 where "h1 = add_header ''Content-Type'' ''application/octet-stream'' (add_header ''Connection'' ''keep-alive'' h0)"
  define h2 where "h2 = add_header ''Accept-Ranges'' ''bytes'' (set_content_size n h1)"
  define v where "v = ''bytes '' @ print_int 64 (start_offset ?c) @ ''-'' @ print_int 64 (end_offset ?c) @ ''/'' @ print_int 64 (total_size ?c)"
  define h3 where "h3 = (if sc_partial_response s then add_header ''Content-Range'' v h2 else h2)"
  have "filled h0 100" unfolding h0_def by (rule filled_status_line) (simp add: in_signed_def)
  then have "filled (add_header ''Connection'' ''keep-alive'' h0) 220" using grow [where a = 100] by simp
  then have "filled h1 340" unfolding h1_def using grow [where a = 220] by simp
  then have "filled (set_content_size n h1) 460" unfolding set_content_size_def using grow [where a = 340] n by simp
  then have f2: "filled h2 580" unfolding h2_def using grow [where a = 460] by simp
  have v: "length v \<le> 90" using len by (simp add: v_def)
  have "filled (add_header ''Content-Range'' v h2) 700" using grow [OF f2, of "''Content-Range''" v] v by simp
  moreover have "filled h2 700" using f2 by (simp add: filled_def)
  ultimately have "filled h3 700" by (simp add: h3_def)
  then have "filled (add_header ''Content-Disposition'' ''attachment'' h3) 820" using grow [where a = 700] by simp
  then have "filled (add_header ''Cache-Control'' ''private'' (add_header ''Content-Disposition'' ''attachment'' h3)) 940"
    using grow [where a = 820] by simp
  then have "\<exists>h. hc_finish [] (add_header ''Cache-Control'' ''private'' (add_header ''Content-Disposition'' ''attachment'' h3)) = Ok h"
    using hc_finish_filled by fastforce
  then show ?thesis
    unfolding response_headers_def Let_def set_content_type_def set_keep_alive_def h3_def h2_def h1_def h0_def v_def n_def .
qed

lemma ready_deliverable:
  fixes content :: string and os :: inet and i :: int and a b :: bool and peer :: ip_address
  defines "n \<equiv> int (length content)"
  assumes "full_reads content io" "\<not> route_head_only r" "parse_file_stream_range (route_range r) n = Ok rng"
    and "0 < n" "n \<le> int64_max" "p \<noteq> []" "0 < f" "0 < cfg_chunk_size cfg" "0 < cfg_write_high_watermark cfg"
    and "cfg_max_size cfg \<le> 0 \<or> n \<le> cfg_max_size cfg"
  defines "s \<equiv> deliver io (FileReady f n p 0 n True a) (sc_start_up os (new_stream_conn i b r cfg peer))"
  shows "deliverable content s \<and> next_offset (sc_cursor s) = range_start rng \<and> end_offset (sc_cursor s) = range_end rng"
proof -
  let ?s0 = "sc_start_up os (new_stream_conn i b r cfg peer)"
  define s2 where "s2 = (if p \<noteq> [] \<and> sc_local_path (?s0\<lparr>sc_file_id := f\<rparr>) \<noteq> p
      then switch_path p (?s0\<lparr>sc_file_id := f\<rparr>) else ?s0\<lparr>sc_file_id := f\<rparr>)"
  define s3 where "s3 = s2\<lparr>sc_cursor := (sc_cursor s2)\<lparr>total_size := n\<rparr>\<rparr>"
  define c where "c = \<lparr>total_size = n, start_offset = range_start rng, end_offset = range_end rng, next_offset = range_start rng, contiguous_end = n\<rparr>"
  define s4 where "s4 = s3\<lparr>sc_partial_response := range_is_partial rng, sc_timeout := Some (cfg_first_byte_timeout (sc_config s3)),
      sc_cursor := set_range (range_start rng) (range_end rng) (sc_cursor s3)\<rparr>"
  define s5 where "s5 = s4\<lparr>sc_cursor := c, sc_download_completed := True\<rparr>"
  have start: "live ?s0" "sc_cursor ?s0 = new_cursor" "\<not> sc_headers_sent ?s0" "\<not> sc_write_in_flight ?s0" "body_of (sc_log ?s0) = []"
      "conn_phase (sc_log ?s0) = Awaiting" "sc_route ?s0 = r\<lparr>route_token := [], route_file_id := []\<rparr>" "sc_config ?s0 = cfg"
      "\<not> sc_finished ?s0"
    by (simp_all add: sc_start_up_def new_stream_conn_def live_def send_msg_def Let_def)
  have path: "sc_local_path s2 = p" using assms(7) by (simp add: s2_def switch_path_def send_msg_def Let_def)
  have s2: "live s2" "sc_cursor s2 = new_cursor" "\<not> sc_headers_sent s2" "\<not> sc_write_in_flight s2" "body_of (sc_log s2) = []"
      "conn_phase (sc_log s2) = Awaiting" "sc_route s2 = r\<lparr>route_token := [], route_file_id := []\<rparr>" "sc_config s2 = cfg"
    using start by (simp_all add: s2_def)
  have rng: "range_within rng n" using parse_range_within [OF assms(4)] by simp
  have cinv: "cursor_inv c" using rng assms(5,6) by (auto simp: c_def cursor_inv_def range_within_def)
  have c4: "cursor_inv \<lparr>total_size = n, start_offset = range_start rng, end_offset = range_end rng, next_offset = range_start rng, contiguous_end = 0\<rparr>"
    using rng assms(5,6) by (auto simp: cursor_inv_def range_within_def)
  have up: "update_progress 0 n True (set_range (range_start rng) (range_end rng) (new_cursor\<lparr>total_size := n\<rparr>)) = Ok c"
    using update_progress_eq [OF c4, of 0 n True] assms(5) by (simp add: set_range_def new_cursor_def c_def)
  obtain h where h: "response_headers s5 = Ok h" using response_headers_ok [of s5] cinv by (auto simp: s5_def)
  define s6 where "s6 = send_msg (WriteHeaders h) (s5\<lparr>sc_headers_sent := True\<rparr>)"
  have s6: "readable content s6"
    using s2 path cinv assms(7,9,10) rng assms(5)
    by (auto simp: readable_def s6_def s5_def s4_def s3_def live_def ready_def pending_def send_msg_def slice_of_def c_def is_complete_def
        effective_chunk_size_def n_def range_within_def)
  have "handle_event io (FileReady f n p 0 n True a) ?s0 = start_response io 0 n True s3"
    using s2(8) start(9) assms(5,6,8,11) unfolding s3_def handle_event.simps on_file_ready_def Let_def s2_def [symmetric]
    by auto
  also have "\<dots> = (if route_head_only (sc_route (send_headers s5)) then send_headers s5 else try_read io (send_headers s5))"
  proof -
    have "parse_file_stream_range (route_range (sc_route s3)) (total_size (sc_cursor s3)) = Ok rng"
      using assms(4) s2 by (simp add: s3_def)
    moreover have "update_progress 0 n True (sc_cursor s4) = Ok c" using up s2 by (simp add: s4_def s3_def)
    moreover have "\<not> contiguous_end c < total_size c" by (simp add: c_def)
    ultimately show ?thesis unfolding start_response_def Let_def by (simp add: s4_def [symmetric] s5_def)
  qed
  also have "\<dots> = try_read io s6"
  proof -
    have "\<not> sc_headers_sent s5" using s2 by (simp add: s5_def s4_def s3_def)
    then have "send_headers s5 = s6" using h by (simp add: send_headers_def s6_def)
    moreover have "route_head_only (sc_route s6) = route_head_only r"
      using s2 by (simp add: s6_def s5_def s4_def s3_def send_msg_def)
    ultimately show ?thesis using assms(3) by simp
  qed
  finally have hd: "handle_event io (FileReady f n p 0 n True a) ?s0 = try_read io s6" .
  note r = read_deliverable [OF s6 assms(2)]
  have "s = try_read io s6" using r unfolding s_def deliver_def Let_def hd by simp
  then show ?thesis using r by (simp add: s6_def s5_def c_def send_msg_def)
qed


lemma demo_full_reads: "full_reads demo_content demo_io"
  by (simp add: full_reads_def demo_io_def)


end
