(* ===== verification/StreamCleanup.thy ===== *)
theory StreamCleanup
  imports WorkdirCleanup FileStreamReply
begin

text \<open>
  Several streams and one cleanup manager: the retain and release messages of all streams arrive in some
  interleaving.  Every stream gives back only what it took, so every interleaving keeps the counters of the
  manager non-negative, and the counter of a file is at least what one stream holds.
\<close>

section \<open>Interleavings\<close>

text \<open>All interleavings of several sequences.\<close>

fun merges :: "'a list list \<Rightarrow> 'a list set" where
  "merges [] = {[]}"
| "merges (xs # xss) = (\<Union>ys \<in> merges xss. shuffles xs ys)"

lemma shuffle_prefix: "zs \<in> shuffles xs ys \<Longrightarrow> \<exists>i j. take n zs \<in> shuffles (take i xs) (take j ys)"
proof (induction xs ys arbitrary: n zs rule: shuffles.induct)
  case (1 ys)
  then have "take n zs \<in> shuffles (take 0 []) (take n ys)" by simp
  then show ?case by blast
next
  case (2 xs)
  then have "take n zs \<in> shuffles (take n xs) (take 0 [])" by simp
  then show ?case by blast
next
  case (3 x xs y ys)
  consider "n = 0" | m zs' where "n = Suc m" "zs = x # zs'" "zs' \<in> shuffles xs (y # ys)"
    | m zs' where "n = Suc m" "zs = y # zs'" "zs' \<in> shuffles (x # xs) ys"
    using 3(3) by (cases n) auto
  then show ?case
  proof cases
    case 1
    then have "take n zs \<in> shuffles (take 0 (x # xs)) (take 0 (y # ys))" by simp
    then show ?thesis by blast
  next
    case (2 m zs')
    from 3(1) [OF this(3), of m] obtain i j where ij: "take m zs' \<in> shuffles (take i xs) (take j (y # ys))" by blast
    have "x # take m zs' \<in> shuffles (x # take i xs) (take j (y # ys))" by (rule Cons_in_shuffles_leftI [OF ij])
    then have "take n zs \<in> shuffles (take (Suc i) (x # xs)) (take j (y # ys))" using 2 by simp
    then show ?thesis by blast
  next
    case (3 m zs')
    from "3.IH"(2) [OF this(3), of m] obtain i j where ij: "take m zs' \<in> shuffles (take i (x # xs)) (take j ys)" by blast
    have "y # take m zs' \<in> shuffles (take i (x # xs)) (y # take j ys)" by (rule Cons_in_shuffles_rightI [OF ij])
    then have "take n zs \<in> shuffles (take i (x # xs)) (take (Suc j) (y # ys))" using 3 by simp
    then show ?thesis by blast
  qed
qed

lemma balance_shuffle: "zs \<in> shuffles xs ys \<Longrightarrow> balance k zs = balance k xs + balance k ys"
  unfolding balance_def
  by (metis map_append mset_append mset_map mset_shuffles sum_list_append sum_mset_sum_list)

definition never_owes :: "'k ref_op list \<Rightarrow> bool" where
  "never_owes ops \<longleftrightarrow> (\<forall>k n. 0 \<le> balance k (take n ops))"

lemma never_owes_total: "never_owes ops \<Longrightarrow> 0 \<le> balance k ops"
  unfolding never_owes_def by (metis order_refl take_all)

lemma never_owes_take: "never_owes ops \<Longrightarrow> never_owes (take i ops)"
  by (simp add: never_owes_def)

lemma never_owes_shuffle:
  assumes "never_owes xs" "never_owes ys" "zs \<in> shuffles xs ys"
  shows "never_owes zs"
  unfolding never_owes_def
proof (intro allI)
  fix k n
  obtain i j where "take n zs \<in> shuffles (take i xs) (take j ys)" using shuffle_prefix [OF assms(3)] by blast
  then have "balance k (take n zs) = balance k (take i xs) + balance k (take j ys)" by (rule balance_shuffle)
  then show "0 \<le> balance k (take n zs)" using assms(1,2) by (simp add: never_owes_def)
qed

lemma merges_balance:
  assumes "zs \<in> merges xss" "\<forall>xs \<in> set xss. never_owes xs"
  shows "never_owes zs \<and> (xs \<in> set xss \<longrightarrow> balance k xs \<le> balance k zs)"
  using assms
proof (induction xss arbitrary: zs)
  case Nil
  then show ?case by (simp add: never_owes_def balance_def)
next
  case (Cons x xss)
  then obtain ys where ys: "ys \<in> merges xss" "zs \<in> shuffles x ys" by auto
  have IH: "never_owes ys" "xs \<in> set xss \<longrightarrow> balance k xs \<le> balance k ys" using Cons.IH [OF ys(1)] Cons.prems(2) by auto
  have b: "balance k zs = balance k x + balance k ys" by (rule balance_shuffle [OF ys(2)])
  show ?case
    using IH b never_owes_shuffle [OF _ _ ys(2)] Cons.prems(2) never_owes_total [of x k] never_owes_total [OF IH(1), of k] by auto
qed

text \<open>The messages of a stream to the cleanup manager.\<close>

fun file_op :: "stream_msg \<Rightarrow> string ref_op option" where
  "file_op (RetainFile p) = Some (Take p)"
| "file_op (ReleaseFile p) = Some (Give p)"
| "file_op _ = None"

definition file_ops :: "stream_conn \<Rightarrow> string ref_op list" where
  "file_ops s = List.map_filter file_op (account_log s)"

lemma balance_file_ops: "balance p (List.map_filter file_op ms) = holds p ms"
proof (induction ms)
  case (Cons m ms)
  then show ?case by (cases m) (simp_all add: map_filter_simps balance_def)
qed (simp add: map_filter_simps balance_def)

lemma map_filter_prefix: "\<exists>i. take n (List.map_filter f xs) = List.map_filter f (take i xs)"
proof (induction xs arbitrary: n)
  case (Cons x xs)
  show ?case
  proof (cases "f x")
    case None
    obtain i where "take n (List.map_filter f xs) = List.map_filter f (take i xs)" using Cons by blast
    then have "take n (List.map_filter f (x # xs)) = List.map_filter f (take (Suc i) (x # xs))" using None by (simp add: map_filter_simps)
    then show ?thesis by blast
  next
    case (Some y)
    show ?thesis
    proof (cases n)
      case 0
      then have "take n (List.map_filter f (x # xs)) = List.map_filter f (take 0 (x # xs))" by (simp add: map_filter_simps)
      then show ?thesis by blast
    next
      case (Suc m)
      obtain i where "take m (List.map_filter f xs) = List.map_filter f (take i xs)" using Cons by blast
      then have "take n (List.map_filter f (x # xs)) = List.map_filter f (take (Suc i) (x # xs))"
        using Some Suc by (simp add: map_filter_simps)
      then show ?thesis by blast
    qed
  qed
qed (simp add: map_filter_simps)

lemma file_ops_never_owe: "never_negative (account_log s) \<Longrightarrow> never_owes (file_ops s)"
  unfolding never_owes_def file_ops_def never_negative_def by (metis balance_file_ops map_filter_prefix)

text \<open>A connection that some run of the server leads to.\<close>

definition started :: "stream_conn \<Rightarrow> bool" where
  "started s \<longleftrightarrow> (\<exists>good os i b r cfg peer. stream_reach good (sc_start_up os (new_stream_conn i b r cfg peer)) s)"

lemma started_account: "started s \<Longrightarrow> account_inv s"
  unfolding started_def using reach_account by blast

lemma started_never_owes: "started s \<Longrightarrow> never_owes (file_ops s)"
  using started_account [of s] file_ops_never_owe [of s] by (auto simp: account_inv_def hold_ok_def split: if_splits)

end
