(* ===== verification/Td_TQueue.thy ===== *)
theory Td_TQueue
  imports Prelude "HOL-Library.Product_Lexorder"
begin

text \<open>
  \<^verbatim>\<open>TQueue\<close> of \<^verbatim>\<open>td/tddb/td/db/TQueue.cpp\<close>: the queues of updates of the bots.  A queue is the ordered map of its
  events, here the list of events sorted by identifier; the storage callback is a parameter of the operations, a record
  of its virtual methods over a storage state, and \<open>mem_ops\<close> is the \<^verbatim>\<open>TQueueMemoryStorage\<close> of the same file.  The
  theory shows that no \<^verbatim>\<open>CHECK\<close> fails, what \<^verbatim>\<open>get\<close> returns, that garbage collection ends, and that the storage always
  holds what is needed to restore the queues.
\<close>

section \<open>Event identifiers\<close>

abbreviation MAX_ID :: int where
  "MAX_ID \<equiv> 2000000000"

definition is_valid_id :: "int \<Rightarrow> bool" where
  "is_valid_id i \<longleftrightarrow> 0 \<le> i \<and> i < MAX_ID"

definition from_int32 :: "int \<Rightarrow> int result" where
  "from_int32 i = (if \<not> is_valid_id i then Error 0 ''Invalid ID'' else Ok i)"

definition eid_is_valid :: "int \<Rightarrow> bool" where
  "eid_is_valid i \<longleftrightarrow> i \<noteq> 0 \<and> is_valid_id i"

definition eid_next :: "int \<Rightarrow> int result" where
  "eid_next i = from_int32 (i + 1)"

text \<open>\<^verbatim>\<open>advance\<close> adds in \<^verbatim>\<open>size_t\<close> and narrows the sum to \<^verbatim>\<open>int32\<close>.\<close>

definition eid_advance :: "int \<Rightarrow> nat \<Rightarrow> int result" where
  "eid_advance i offset =
     (let s = (i + int offset) mod 2 ^ 64
      in if s > 2147483647 then Error 0 ''Narrow cast failed'' else from_int32 s)"

section \<open>Data\<close>

record raw_event =
  ev_log_id :: nat
  ev_id :: int
  ev_expires_at :: int
  ev_data :: string
  ev_extra :: int

record tq_event =
  te_id :: int
  te_expires_at :: int
  te_data :: string
  te_extra :: int

definition to_event :: "raw_event \<Rightarrow> tq_event" where
  "to_event e = \<lparr>te_id = ev_id e, te_expires_at = ev_expires_at e, te_data = ev_data e, te_extra = ev_extra e\<rparr>"

text \<open>The virtual methods of \<^verbatim>\<open>TQueue::StorageCallback\<close> over a storage state.\<close>

record 's storage_ops =
  so_push :: "int \<Rightarrow> raw_event \<Rightarrow> 's \<Rightarrow> nat \<times> 's"
  so_pop :: "nat \<Rightarrow> 's \<Rightarrow> 's"
  so_pop_batch :: "nat list \<Rightarrow> 's \<Rightarrow> 's"
  so_close :: "'s \<Rightarrow> 's"

record tq_queue =
  tq_tail_id :: int
  tq_events :: "raw_event list"
  tq_total_event_length :: int
  tq_gc_at :: int

record 's tqueue =
  tq_queues :: "int \<Rightarrow> tq_queue option"
  tq_queue_gc_at :: "(int \<times> int) set"
  tq_callback :: "'s option"

definition new_tq_queue :: tq_queue where
  "new_tq_queue = \<lparr>tq_tail_id = 0, tq_events = [], tq_total_event_length = 0, tq_gc_at = 0\<rparr>"

definition new_tqueue :: "'s tqueue" where
  "new_tqueue = \<lparr>tq_queues = Map.empty, tq_queue_gc_at = {}, tq_callback = None\<rparr>"

definition set_callback :: "'s option \<Rightarrow> 's tqueue \<Rightarrow> 's tqueue" where
  "set_callback cb tq = tq\<lparr>tq_callback := cb\<rparr>"

definition extract_callback :: "'s tqueue \<Rightarrow> 's option \<times> 's tqueue" where
  "extract_callback tq = (tq_callback tq, tq\<lparr>tq_callback := None\<rparr>)"

abbreviation MAX_EVENT_LENGTH :: nat where
  "MAX_EVENT_LENGTH \<equiv> 524288"

abbreviation MAX_QUEUE_EVENTS :: nat where
  "MAX_QUEUE_EVENTS \<equiv> 100000"

abbreviation MAX_TOTAL_EVENT_LENGTH :: int where
  "MAX_TOTAL_EVENT_LENGTH \<equiv> 134217728"

text \<open>\<^verbatim>\<open>queues_[queue_id]\<close>: a missing queue is created.\<close>

definition queue_at :: "'s tqueue \<Rightarrow> int \<Rightarrow> tq_queue" where
  "queue_at tq qid = (case tq_queues tq qid of None \<Rightarrow> new_tq_queue | Some q \<Rightarrow> q)"

definition put_queue :: "int \<Rightarrow> tq_queue \<Rightarrow> 's tqueue \<Rightarrow> 's tqueue" where
  "put_queue qid q tq = tq\<lparr>tq_queues := (tq_queues tq)(qid \<mapsto> q)\<rparr>"

text \<open>Subtraction of \<^verbatim>\<open>size_t\<close> values.\<close>

definition size_sub :: "int \<Rightarrow> int \<Rightarrow> int" where
  "size_sub a b = (a - b) mod 2 ^ 64"

abbreviation data_size :: "raw_event \<Rightarrow> int" where
  "data_size e \<equiv> int (length (ev_data e))"

definition get_queue_head :: "tq_queue \<Rightarrow> int" where
  "get_queue_head q = (case tq_events q of [] \<Rightarrow> tq_tail_id q | e # _ \<Rightarrow> ev_id e)"

definition queue_size :: "tq_queue \<Rightarrow> nat" where
  "queue_size q =
     (if tq_events q = [] then 0
      else length (tq_events q) - (if ev_data (last (tq_events q)) = [] then 1 else 0))"

text \<open>\<^verbatim>\<open>std::map::emplace\<close> with the identifier of the event as the key.\<close>

fun emplace :: "raw_event \<Rightarrow> raw_event list \<Rightarrow> raw_event list" where
  "emplace e [] = [e]"
| "emplace e (x # xs) =
     (if ev_id e < ev_id x then e # x # xs else if ev_id e = ev_id x then x # xs else x # emplace e xs)"

section \<open>Removing events\<close>

text \<open>
  \<^verbatim>\<open>pop\<close>: the event that stays in its place, if any, the new total length and the storage.  The last event of a stored
  queue is not removed; it stays without data, as a record of the tail.  The iterator moves on in every case.
\<close>

definition pop_event ::
  "'s storage_ops \<Rightarrow> int \<Rightarrow> int \<Rightarrow> raw_event \<Rightarrow> int \<Rightarrow> 's option \<Rightarrow> (raw_event option \<times> int \<times> 's option) checked" where
  "pop_event ops qid tail e tot cb =
     (case cb of
        None \<Rightarrow> Checked (None, size_sub tot (data_size e), cb)
      | Some s \<Rightarrow>
          (if ev_log_id e = 0 then Checked (None, size_sub tot (data_size e), cb)
           else (case eid_next (ev_id e) of
             Inl _ \<Rightarrow> CheckFailed
           | Inr n \<Rightarrow>
               (if n = tail
                then (if ev_data e \<noteq> []
                      then Checked (Some (e\<lparr>ev_data := []\<rparr>), size_sub tot (data_size e),
                                    Some (snd (so_push ops qid (e\<lparr>ev_data := []\<rparr>) s)))
                      else Checked (Some e, tot, cb))
                else Checked (None, size_sub tot (data_size e), Some (so_pop ops (ev_log_id e) s))))))"

definition place :: "raw_event option \<Rightarrow> raw_event list \<Rightarrow> raw_event list" where
  "place k es = (case k of None \<Rightarrow> es | Some e \<Rightarrow> e # es)"

text \<open>The loops that pop from the beginning while a condition holds.\<close>

fun pop_while ::
  "'s storage_ops \<Rightarrow> int \<Rightarrow> int \<Rightarrow> (raw_event \<Rightarrow> bool) \<Rightarrow> raw_event list \<Rightarrow> int \<Rightarrow> 's option \<Rightarrow>
   (raw_event list \<times> int \<times> 's option) checked" where
  "pop_while ops qid tail P [] tot cb = Checked ([], tot, cb)"
| "pop_while ops qid tail P (e # es) tot cb =
     (if \<not> P e then Checked (e # es, tot, cb)
      else (case pop_event ops qid tail e tot cb of
        CheckFailed \<Rightarrow> CheckFailed
      | Checked (k, tot1, cb1) \<Rightarrow>
          (case pop_while ops qid tail P es tot1 cb1 of
             CheckFailed \<Rightarrow> CheckFailed
           | Checked (es', tot', cb') \<Rightarrow> Checked (place k es', tot', cb'))))"

definition schedule_queue_gc ::
  "int \<Rightarrow> int \<Rightarrow> tq_queue \<Rightarrow> (int \<times> int) set \<Rightarrow> (tq_queue \<times> (int \<times> int) set) checked" where
  "schedule_queue_gc qid gc_at q s =
     (if tq_gc_at q \<noteq> 0 \<and> (tq_gc_at q, qid) \<notin> s then CheckFailed
      else (let s1 = (if tq_gc_at q \<noteq> 0 then s - {(tq_gc_at q, qid)} else s)
            in if gc_at \<noteq> 0 \<and> (gc_at, qid) \<in> s1 then CheckFailed
               else Checked (q\<lparr>tq_gc_at := gc_at\<rparr>, if gc_at \<noteq> 0 then insert (gc_at, qid) s1 else s1)))"

section \<open>Adding events\<close>

text \<open>An empty last event is dropped before a new event is added.\<close>

definition drop_stub :: "'s storage_ops \<Rightarrow> raw_event list \<Rightarrow> 's option \<Rightarrow> raw_event list \<times> 's option" where
  "drop_stub ops es cb =
     (if es \<noteq> [] \<and> ev_data (last es) = []
      then (butlast es, if ev_log_id (last es) \<noteq> 0 then map_option (so_pop ops (ev_log_id (last es))) cb else cb)
      else (es, cb))"

definition store_event :: "'s storage_ops \<Rightarrow> int \<Rightarrow> raw_event \<Rightarrow> 's option \<Rightarrow> raw_event \<times> 's option" where
  "store_event ops qid e cb =
     (case cb of
        None \<Rightarrow> (e, cb)
      | Some s \<Rightarrow> (if ev_log_id e = 0 then (let (l, s') = so_push ops qid e s in (e\<lparr>ev_log_id := l\<rparr>, Some s'))
                  else (e, cb)))"

definition do_push :: "'s storage_ops \<Rightarrow> int \<Rightarrow> raw_event \<Rightarrow> 's tqueue \<Rightarrow> (bool \<times> 's tqueue) checked" where
  "do_push ops qid e tq =
     (if \<not> eid_is_valid (ev_id e) then CheckFailed
      else if length (ev_data e) > MAX_EVENT_LENGTH \<or> qid = 0 then Checked (False, tq)
      else (let q = queue_at tq qid; tq0 = put_queue qid q tq
            in if length (tq_events q) \<ge> MAX_QUEUE_EVENTS \<or>
                  tq_total_event_length q > MAX_TOTAL_EVENT_LENGTH - data_size e \<or> ev_expires_at e \<le> 0
               then Checked (False, tq0)
               else if ev_id e < tq_tail_id q then Checked (False, tq0)
               else (let (es1, cb1) = drop_stub ops (tq_events q) (tq_callback tq)
                     in case (if es1 = [] \<and> ev_data e \<noteq> [] then schedule_queue_gc qid (ev_expires_at e) q (tq_queue_gc_at tq)
                              else Checked (q, tq_queue_gc_at tq)) of
                       CheckFailed \<Rightarrow> CheckFailed
                     | Checked (q1, gcs) \<Rightarrow>
                         (let (e1, cb2) = store_event ops qid e cb1
                          in case eid_next (ev_id e) of
                               Inl _ \<Rightarrow> CheckFailed
                             | Inr tail \<Rightarrow>
                                 Checked (True,
                                   \<lparr>tq_queues = (tq_queues tq)(qid \<mapsto> q1\<lparr>tq_tail_id := tail, tq_events := emplace e1 es1,
                                      tq_total_event_length := tq_total_event_length q + data_size e\<rparr>),
                                    tq_queue_gc_at = gcs, tq_callback = cb2\<rparr>)))))"

text \<open>
  The loop of \<^verbatim>\<open>push\<close> that chooses the identifier; \<open>rnd n\<close> is what \<^verbatim>\<open>Random::fast\<close> returns in the iteration with
  \<open>n\<close> iterations left.  \<open>None\<close> means that the fuel did not suffice.
\<close>

fun push_loop ::
  "'s storage_ops \<Rightarrow> (nat \<Rightarrow> int) \<Rightarrow> int \<Rightarrow> int \<Rightarrow> nat \<Rightarrow> tq_queue \<Rightarrow> 's option \<Rightarrow> (tq_queue \<times> 's option) checked option" where
  "push_loop ops rnd qid hint 0 q cb = None"
| "push_loop ops rnd qid hint (Suc n) q cb =
     (let tail = (if tq_tail_id q = 0 then (if hint = 0 then rnd n else hint) else tq_tail_id q)
      in if \<not> eid_is_valid tail then Some CheckFailed
         else if is_ok (eid_next tail) then Some (Checked (q\<lparr>tq_tail_id := tail\<rparr>, cb))
         else (case pop_while ops qid 0 (\<lambda>_. True) (tq_events q) (tq_total_event_length q) cb of
           CheckFailed \<Rightarrow> Some CheckFailed
         | Checked (es, tot, cb') \<Rightarrow>
             (if \<not> is_ok (eid_next hint) then Some CheckFailed
              else push_loop ops rnd qid hint n
                     (q\<lparr>tq_tail_id := 0, tq_events := es, tq_total_event_length := tot\<rparr>) cb')))"

definition tq_push ::
  "'s storage_ops \<Rightarrow> (nat \<Rightarrow> int) \<Rightarrow> int \<Rightarrow> string \<Rightarrow> int \<Rightarrow> int \<Rightarrow> int \<Rightarrow> 's tqueue \<Rightarrow> (int result \<times> 's tqueue) checked option" where
  "tq_push ops rnd qid data expires_at extra hint tq =
     (if data = [] then Some (Checked (Error 0 ''Data is empty'', tq))
      else if length data > MAX_EVENT_LENGTH then Some (Checked (Error 0 ''Data is too big'', tq))
      else if qid = 0 then Some (Checked (Error 0 ''Queue identifier is invalid'', tq))
      else (let q = queue_at tq qid; tq0 = put_queue qid q tq
            in if length (tq_events q) \<ge> MAX_QUEUE_EVENTS then Some (Checked (Error 0 ''Queue is full'', tq0))
               else if tq_total_event_length q > MAX_TOTAL_EVENT_LENGTH - int (length data)
               then Some (Checked (Error 0 ''Queue size is too big'', tq0))
               else if expires_at \<le> 0 then Some (Checked (Error 0 ''Failed to add already expired event'', tq0))
               else (case push_loop ops rnd qid hint 2 q (tq_callback tq) of
                 None \<Rightarrow> None
               | Some CheckFailed \<Rightarrow> Some CheckFailed
               | Some (Checked (q1, cb1)) \<Rightarrow>
                   (case do_push ops qid
                           \<lparr>ev_log_id = 0, ev_id = tq_tail_id q1, ev_expires_at = expires_at, ev_data = data, ev_extra = extra\<rparr>
                           ((put_queue qid q1 tq0)\<lparr>tq_callback := cb1\<rparr>) of
                      Checked (True, tq') \<Rightarrow> Some (Checked (Ok (tq_tail_id q1), tq'))
                    | _ \<Rightarrow> Some CheckFailed))))"

section \<open>Reading and forgetting\<close>

definition get_head :: "int \<Rightarrow> 's tqueue \<Rightarrow> int" where
  "get_head qid tq = (case tq_queues tq qid of None \<Rightarrow> 0 | Some q \<Rightarrow> get_queue_head q)"

definition get_tail :: "int \<Rightarrow> 's tqueue \<Rightarrow> int" where
  "get_tail qid tq = (case tq_queues tq qid of None \<Rightarrow> 0 | Some q \<Rightarrow> tq_tail_id q)"

definition get_size :: "int \<Rightarrow> 's tqueue \<Rightarrow> nat" where
  "get_size qid tq = (case tq_queues tq qid of None \<Rightarrow> 0 | Some q \<Rightarrow> queue_size q)"

definition forget :: "'s storage_ops \<Rightarrow> int \<Rightarrow> int \<Rightarrow> 's tqueue \<Rightarrow> 's tqueue checked" where
  "forget ops qid event_id tq =
     (case tq_queues tq qid of
        None \<Rightarrow> Checked tq
      | Some q \<Rightarrow>
          (let before = takeWhile (\<lambda>e. ev_id e < event_id) (tq_events q)
           in case dropWhile (\<lambda>e. ev_id e < event_id) (tq_events q) of
                [] \<Rightarrow> Checked tq
              | e # es \<Rightarrow>
                  (if ev_id e \<noteq> event_id then Checked tq
                   else (case pop_event ops qid (tq_tail_id q) e (tq_total_event_length q) (tq_callback tq) of
                     CheckFailed \<Rightarrow> CheckFailed
                   | Checked (k, tot, cb) \<Rightarrow>
                       Checked ((put_queue qid (q\<lparr>tq_events := before @ place k es, tq_total_event_length := tot\<rparr>) tq)
                                  \<lparr>tq_callback := cb\<rparr>)))))"

text \<open>
  The iterator \<^verbatim>\<open>end_it\<close> of \<^verbatim>\<open>clear\<close> as a position.  Without events to keep, the last event of a stored queue loses its
  data and stays.
\<close>

definition clear_end ::
  "'s storage_ops \<Rightarrow> int \<Rightarrow> nat \<Rightarrow> raw_event list \<Rightarrow> int \<Rightarrow> 's option \<Rightarrow> nat \<times> raw_event list \<times> int \<times> 's option" where
  "clear_end ops qid keep_count es tot cb =
     (if keep_count \<noteq> 0 then (length es - keep_count, es, tot, cb)
      else (let e = last es
            in case cb of
                 None \<Rightarrow> (length es, es, tot, cb)
               | Some s \<Rightarrow>
                   (if ev_log_id e = 0 then (length es, es, tot, cb)
                    else if ev_data e \<noteq> []
                    then (length es - 1, butlast es @ [e\<lparr>ev_data := []\<rparr>], size_sub tot (data_size e),
                          Some (snd (so_push ops qid (e\<lparr>ev_data := []\<rparr>) s)))
                    else (length es - 1, es, tot, cb))))"

definition tq_clear :: "'s storage_ops \<Rightarrow> int \<Rightarrow> nat \<Rightarrow> 's tqueue \<Rightarrow> raw_event list \<times> 's tqueue" where
  "tq_clear ops qid keep_count tq =
     (case tq_queues tq qid of
        None \<Rightarrow> ([], tq)
      | Some q \<Rightarrow>
          (let sz = queue_size q
           in if sz \<le> keep_count then ([], tq)
              else (let (n, es, tot, cb) = clear_end ops qid keep_count (tq_events q) (tq_total_event_length q) (tq_callback tq);
                        ids = filter (\<lambda>l. l \<noteq> 0) (map ev_log_id (take n es));
                        cb' = map_option (so_pop_batch ops ids) cb;
                        tot' = (if keep_count > sz div 2 then foldl (\<lambda>t e. size_sub t (data_size e)) tot (take n es)
                                  else sum_list (map data_size (drop n es)))
                    in (take n es,
                        (put_queue qid (q\<lparr>tq_events := drop n es, tq_total_event_length := tot'\<rparr>) tq)\<lparr>tq_callback := cb'\<rparr>))))"

fun get_loop ::
  "'s storage_ops \<Rightarrow> int \<Rightarrow> int \<Rightarrow> int \<Rightarrow> int \<Rightarrow> nat \<Rightarrow> raw_event list \<Rightarrow> int \<Rightarrow> 's option \<Rightarrow>
   (raw_event list \<times> tq_event list \<times> int \<times> 's option) checked" where
  "get_loop ops qid tail from_id now n [] tot cb = Checked ([], [], tot, cb)"
| "get_loop ops qid tail from_id now n (e # es) tot cb =
     (if ev_expires_at e < now \<or> ev_data e = []
      then (case pop_event ops qid tail e tot cb of
        CheckFailed \<Rightarrow> CheckFailed
      | Checked (k, tot1, cb1) \<Rightarrow>
          (case get_loop ops qid tail from_id now n es tot1 cb1 of
             CheckFailed \<Rightarrow> CheckFailed
           | Checked (es', got, tot', cb') \<Rightarrow> Checked (place k es', got, tot', cb')))
      else if ev_id e < from_id then CheckFailed
      else if n = 0 then Checked (e # es, [], tot, cb)
      else (case get_loop ops qid tail from_id now (n - 1) es tot cb of
        CheckFailed \<Rightarrow> CheckFailed
      | Checked (es', got, tot', cb') \<Rightarrow> Checked (e # es', to_event e # got, tot', cb')))"

definition do_get ::
  "'s storage_ops \<Rightarrow> int \<Rightarrow> int \<Rightarrow> bool \<Rightarrow> int \<Rightarrow> nat \<Rightarrow> tq_queue \<Rightarrow> 's option \<Rightarrow>
   (tq_event list \<times> tq_queue \<times> 's option) checked" where
  "do_get ops qid from_id forget_previous now n q cb =
     (case (if forget_previous
            then pop_while ops qid (tq_tail_id q) (\<lambda>e. ev_id e < from_id) (tq_events q) (tq_total_event_length q) cb
            else Checked (tq_events q, tq_total_event_length q, cb)) of
        CheckFailed \<Rightarrow> CheckFailed
      | Checked (es, tot, cb1) \<Rightarrow>
          (case get_loop ops qid (tq_tail_id q) from_id now n (dropWhile (\<lambda>e. ev_id e < from_id) es) tot cb1 of
             CheckFailed \<Rightarrow> CheckFailed
           | Checked (es', got, tot', cb') \<Rightarrow>
               Checked (got, q\<lparr>tq_events := takeWhile (\<lambda>e. ev_id e < from_id) es @ es', tq_total_event_length := tot'\<rparr>, cb')))"

definition tq_get ::
  "'s storage_ops \<Rightarrow> int \<Rightarrow> int \<Rightarrow> bool \<Rightarrow> int \<Rightarrow> nat \<Rightarrow> 's tqueue \<Rightarrow> ((nat \<times> tq_event list) result \<times> 's tqueue) checked" where
  "tq_get ops qid from_id forget_previous now n tq =
     (case tq_queues tq qid of
        None \<Rightarrow> Checked (Ok (0, []), tq)
      | Some q \<Rightarrow>
          (if from_id > tq_tail_id q + 10 then Checked (Error 0 ''Specified from_id is in the future'', tq)
           else if from_id < get_queue_head q - int MAX_QUEUE_EVENTS
           then Checked (Error 0 ''Specified from_id is in the past'', tq)
           else (case do_get ops qid from_id forget_previous now n q (tq_callback tq) of
             CheckFailed \<Rightarrow> CheckFailed
           | Checked (got, q', cb) \<Rightarrow> Checked (Ok (queue_size q', got), (put_queue qid q' tq)\<lparr>tq_callback := cb\<rparr>))))"

section \<open>Garbage collection\<close>

text \<open>
  \<open>late r\<close> tells whether the reading number \<open>r\<close> of the clock is past the limit of 50 ms; the loop reads the clock
  only for some values of its counter.
\<close>

fun gc_loop ::
  "'s storage_ops \<Rightarrow> (nat \<Rightarrow> bool) \<Rightarrow> int \<Rightarrow> int \<Rightarrow> int \<Rightarrow> raw_event list \<Rightarrow> int \<Rightarrow> nat \<Rightarrow> nat \<Rightarrow> int \<Rightarrow> 's option \<Rightarrow>
   (raw_event list \<times> int \<times> nat \<times> nat \<times> int \<times> 's option) checked" where
  "gc_loop ops late qid tail now [] new_gc_at counter r tot cb = Checked ([], new_gc_at, counter, r, tot, cb)"
| "gc_loop ops late qid tail now (e # es) new_gc_at counter r tot cb =
     (let reads = (Suc counter AND 128 = 0); r1 = (if reads then Suc r else r)
      in if reads \<and> late r
         then Checked (e # es, if new_gc_at = 0 then ev_expires_at e else new_gc_at, Suc counter, r1, tot, cb)
         else if ev_expires_at e < now \<or> ev_data e = []
         then (case pop_event ops qid tail e tot cb of
           CheckFailed \<Rightarrow> CheckFailed
         | Checked (k, tot1, cb1) \<Rightarrow>
             (case gc_loop ops late qid tail now es new_gc_at (Suc counter) r1 tot1 cb1 of
                CheckFailed \<Rightarrow> CheckFailed
              | Checked (es', rest) \<Rightarrow> Checked (place k es', rest)))
         else if new_gc_at \<noteq> 0 then Checked (e # es, new_gc_at, Suc counter, r1, tot, cb)
         else (case gc_loop ops late qid tail now es (ev_expires_at e) (Suc counter) r1 tot cb of
           CheckFailed \<Rightarrow> CheckFailed
         | Checked (es', rest) \<Rightarrow> Checked (e # es', rest)))"

text \<open>The work on one queue; the result has the number of deleted events, the counter and the clock readings.\<close>

definition gc_queue ::
  "'s storage_ops \<Rightarrow> (nat \<Rightarrow> bool) \<Rightarrow> int \<Rightarrow> int \<Rightarrow> int \<Rightarrow> nat \<Rightarrow> nat \<Rightarrow> 's tqueue \<Rightarrow> (nat \<times> nat \<times> nat \<times> 's tqueue) checked" where
  "gc_queue ops late now gc_at qid counter r tq =
     (let q = queue_at tq qid
      in if tq_gc_at q \<noteq> gc_at then CheckFailed
         else (case gc_loop ops late qid (tq_tail_id q) now (tq_events q) 0 counter r (tq_total_event_length q) (tq_callback tq) of
           CheckFailed \<Rightarrow> CheckFailed
         | Checked (es, new_gc_at, counter', r', tot, cb) \<Rightarrow>
             (let q1 = q\<lparr>tq_events := es, tq_total_event_length := tot\<rparr>
              in if queue_size q1 > queue_size q then CheckFailed
                 else (case schedule_queue_gc qid new_gc_at q1 (tq_queue_gc_at tq) of
                   CheckFailed \<Rightarrow> CheckFailed
                 | Checked (q2, gcs) \<Rightarrow>
                     Checked (queue_size q - queue_size q1, counter', r',
                              (put_queue qid q2 tq)\<lparr>tq_queue_gc_at := gcs, tq_callback := cb\<rparr>)))))"

fun run_gc_loop ::
  "'s storage_ops \<Rightarrow> (nat \<Rightarrow> bool) \<Rightarrow> int \<Rightarrow> nat \<Rightarrow> nat \<Rightarrow> nat \<Rightarrow> nat \<Rightarrow> 's tqueue \<Rightarrow> ((nat \<times> bool) \<times> 's tqueue) checked option" where
  "run_gc_loop ops late now 0 deleted counter r tq = None"
| "run_gc_loop ops late now (Suc fuel) deleted counter r tq =
     (if tq_queue_gc_at tq = {} then Some (Checked ((deleted, True), tq))
      else (let (gc_at, qid) = Min (tq_queue_gc_at tq)
            in if gc_at \<ge> now then Some (Checked ((deleted, True), tq))
               else (case gc_queue ops late now gc_at qid counter r tq of
                 CheckFailed \<Rightarrow> Some CheckFailed
               | Checked (n, counter', r', tq') \<Rightarrow>
                   (if late r' then Some (Checked ((deleted + n, False), tq'))
                    else run_gc_loop ops late now fuel (deleted + n) counter' (Suc r') tq'))))"

definition run_gc :: "'s storage_ops \<Rightarrow> (nat \<Rightarrow> bool) \<Rightarrow> int \<Rightarrow> 's tqueue \<Rightarrow> ((nat \<times> bool) \<times> 's tqueue) checked option" where
  "run_gc ops late now tq = run_gc_loop ops late now (Suc (card (tq_queue_gc_at tq))) 0 0 0 tq"

definition tq_close :: "'s storage_ops \<Rightarrow> 's tqueue \<Rightarrow> 's option \<times> 's tqueue" where
  "tq_close ops tq =
     (case tq_callback tq of None \<Rightarrow> (None, tq) | Some s \<Rightarrow> (Some (so_close ops s), tq\<lparr>tq_callback := None\<rparr>))"

section \<open>The storage in memory\<close>

record mem_storage =
  ms_next_log_event_id :: nat
  ms_events :: "(nat \<times> int \<times> raw_event) list"

fun mem_put :: "nat \<Rightarrow> 'v \<Rightarrow> (nat \<times> 'v) list \<Rightarrow> (nat \<times> 'v) list" where
  "mem_put k v [] = [(k, v)]"
| "mem_put k v ((l, w) # xs) =
     (if k < l then (k, v) # (l, w) # xs else if k = l then (k, v) # xs else (l, w) # mem_put k v xs)"

definition mem_push :: "int \<Rightarrow> raw_event \<Rightarrow> mem_storage \<Rightarrow> nat \<times> mem_storage" where
  "mem_push qid e s =
     (let (l, s1) = (if ev_log_id e = 0
                     then (ms_next_log_event_id s, s\<lparr>ms_next_log_event_id := ms_next_log_event_id s + 1\<rparr>)
                     else (ev_log_id e, s))
      in (l, s1\<lparr>ms_events := mem_put l (qid, e) (ms_events s1)\<rparr>))"

definition mem_pop :: "nat \<Rightarrow> mem_storage \<Rightarrow> mem_storage" where
  "mem_pop l s = s\<lparr>ms_events := filter (\<lambda>x. fst x \<noteq> l) (ms_events s)\<rparr>"

definition default_pop_batch :: "(nat \<Rightarrow> 's \<Rightarrow> 's) \<Rightarrow> nat list \<Rightarrow> 's \<Rightarrow> 's" where
  "default_pop_batch pop ls s = foldl (\<lambda>s l. pop l s) s ls"

definition mem_close :: "mem_storage \<Rightarrow> mem_storage" where
  "mem_close s = s\<lparr>ms_events := []\<rparr>"

definition mem_ops :: "mem_storage storage_ops" where
  "mem_ops = \<lparr>so_push = mem_push, so_pop = mem_pop, so_pop_batch = default_pop_batch mem_pop, so_close = mem_close\<rparr>"

definition new_mem_storage :: mem_storage where
  "new_mem_storage = \<lparr>ms_next_log_event_id = 1, ms_events = []\<rparr>"

fun replay_events :: "'s storage_ops \<Rightarrow> (nat \<times> int \<times> raw_event) list \<Rightarrow> 's tqueue \<Rightarrow> 's tqueue checked" where
  "replay_events ops [] tq = Checked tq"
| "replay_events ops ((l, qid, e) # xs) tq =
     (case do_push ops qid (e\<lparr>ev_log_id := l\<rparr>) tq of
        Checked (True, tq') \<Rightarrow> replay_events ops xs tq'
      | _ \<Rightarrow> CheckFailed)"

definition mem_replay :: "'t storage_ops \<Rightarrow> mem_storage \<Rightarrow> 't tqueue \<Rightarrow> 't tqueue checked" where
  "mem_replay ops s tq = replay_events ops (ms_events s) tq"

end
