(* ===== verification/Td_TQueueInv.thy ===== *)
theory Td_TQueueInv
  imports Td_TQueue
begin

text \<open>
  The invariant of the update queues and its preservation.  \<open>queue_ok\<close> describes one queue (identifiers increasing and
  below the tail, the stored length is the sum of the lengths, only the last event may be empty) and \<open>tq_inv\<close> all queues with
  the schedule of the garbage collection; every operation of \<^verbatim>\<open>TQueueImpl\<close> keeps it without a failed \<^verbatim>\<open>CHECK\<close>.
  The relation \<open>popped\<close> is the common description of the loops that remove events.
\<close>

section \<open>What a pop does\<close>

lemma eid_next_ok: "0 \<le> i \<Longrightarrow> i + 1 < MAX_ID \<Longrightarrow> eid_next i = Ok (i + 1)"
  by (simp add: eid_next_def from_int32_def is_valid_id_def)

lemma eid_next_val: "eid_next i = Ok j \<Longrightarrow> j = i + 1"
  by (simp add: eid_next_def from_int32_def split: if_splits)

lemma eid_next_is_ok: "is_ok (eid_next i) \<longleftrightarrow> - 1 \<le> i \<and> i + 1 < MAX_ID"
  by (auto simp: eid_next_def from_int32_def is_valid_id_def)

definition sizes :: "raw_event list \<Rightarrow> int" where
  "sizes es = sum_list (map data_size es)"

lemma sizes_simps [simp]: "sizes [] = 0" "sizes (e # es) = data_size e + sizes es" "sizes (xs @ ys) = sizes xs + sizes ys"
  by (simp_all add: sizes_def)

lemma sizes_nonneg: "0 \<le> sizes es"
  by (induction es) simp_all

lemma size_sub_eq: "0 \<le> b \<Longrightarrow> b \<le> a \<Longrightarrow> a < 2 ^ 64 \<Longrightarrow> size_sub a b = a - b"
  by (simp add: size_sub_def)

lemma pop_event_cases:
  assumes "pop_event ops qid tail e tot cb = Checked (k, tot', cb')"
  obtains (removed) "k = None" "tot' = size_sub tot (data_size e)"
    | (emptied) "k = Some (e\<lparr>ev_data := []\<rparr>)" "tot' = size_sub tot (data_size e)" "ev_id e + 1 = tail" "ev_data e \<noteq> []"
    | (kept) "k = Some e" "tot' = tot" "ev_id e + 1 = tail" "ev_data e = []"
  using assms by (auto simp: pop_event_def dest: eid_next_val split: option.splits if_splits sum.splits)

lemma pop_event_defined: "0 \<le> ev_id e \<Longrightarrow> ev_id e + 1 < MAX_ID \<Longrightarrow> \<exists>r. pop_event ops qid tail e tot cb = Checked r"
  by (auto simp: pop_event_def eid_next_ok split: option.splits)

lemma place_simps [simp]: "place None es = es" "place (Some e) es = e # es"
  by (simp_all add: place_def)

text \<open>The common effect of the loops: some events are popped, the others stay, up to some point.\<close>

inductive popped ::
  "'s storage_ops \<Rightarrow> int \<Rightarrow> int \<Rightarrow> raw_event list \<Rightarrow> int \<Rightarrow> 's option \<Rightarrow> raw_event list \<Rightarrow> int \<Rightarrow> 's option \<Rightarrow> bool"
  for ops qid tail where
  popped_stop: "popped ops qid tail es tot cb es tot cb"
| popped_pop: "pop_event ops qid tail e tot cb = Checked (k, tot1, cb1) \<Longrightarrow> popped ops qid tail es tot1 cb1 es' tot' cb' \<Longrightarrow>
    popped ops qid tail (e # es) tot cb (place k es') tot' cb'"
| popped_keep: "popped ops qid tail es tot cb es' tot' cb' \<Longrightarrow> popped ops qid tail (e # es) tot cb (e # es') tot' cb'"

lemma popped_prefix: "popped ops qid tail es tot cb es' tot' cb' \<Longrightarrow> popped ops qid tail (pre @ es) tot cb (pre @ es') tot' cb'"
  by (induction pre) (simp_all add: popped_keep)

lemma pop_while_popped:
  "pop_while ops qid tail P es tot cb = Checked (es', tot', cb') \<Longrightarrow> popped ops qid tail es tot cb es' tot' cb'"
  by (induction ops qid tail P es tot cb arbitrary: es' tot' cb' rule: pop_while.induct)
     (auto intro: popped.intros split: if_splits checked.splits prod.splits)

lemma get_loop_popped:
  "get_loop ops qid tail from now n es tot cb = Checked (es', got, tot', cb') \<Longrightarrow> popped ops qid tail es tot cb es' tot' cb'"
  by (induction ops qid tail "from" now n es tot cb arbitrary: es' got tot' cb' rule: get_loop.induct)
     (auto intro: popped.intros split: if_splits checked.splits prod.splits)

lemma gc_loop_popped:
  "gc_loop ops late qid tail now es g c r tot cb = Checked (es', g', c', r', tot', cb') \<Longrightarrow>
   popped ops qid tail es tot cb es' tot' cb'"
proof (induction es arbitrary: g c r tot cb es')
  case (Cons e es)
  let ?r = "if Suc c AND 128 = 0 then Suc r else r"
  consider "es' = e # es" "tot' = tot" "cb' = cb"
    | k t d es1 where "pop_event ops qid tail e tot cb = Checked (k, t, d)" "es' = place k es1"
        "gc_loop ops late qid tail now es g (Suc c) ?r t d = Checked (es1, g', c', r', tot', cb')"
    | es1 where "es' = e # es1" "gc_loop ops late qid tail now es (ev_expires_at e) (Suc c) ?r tot cb = Checked (es1, g', c', r', tot', cb')"
    using Cons.prems by (auto simp: Let_def split: if_splits checked.splits prod.splits)
  then show ?case
    by cases (auto intro: popped.intros Cons.IH)
qed (auto intro: popped.intros)

text \<open>The loops do not fail on valid identifiers.\<close>

definition ids_ok :: "raw_event list \<Rightarrow> bool" where
  "ids_ok es \<longleftrightarrow> (\<forall>e \<in> set es. 0 < ev_id e \<and> ev_id e + 1 < MAX_ID)"

lemma ids_ok_Cons [simp]: "ids_ok (e # es) \<longleftrightarrow> 0 < ev_id e \<and> ev_id e + 1 < MAX_ID \<and> ids_ok es"
  by (auto simp: ids_ok_def)

lemma pop_event_ids: "ids_ok (e # es) \<Longrightarrow> \<exists>k t c. pop_event ops qid tail e tot cb = Checked (k, t, c)"
  using pop_event_defined [of e ops qid tail tot cb] by (auto simp: less_imp_le)

lemma pop_while_defined: "ids_ok es \<Longrightarrow> \<exists>es' tot' cb'. pop_while ops qid tail P es tot cb = Checked (es', tot', cb')"
proof (induction es arbitrary: tot cb)
  case (Cons e es)
  obtain k t c where p: "pop_event ops qid tail e tot cb = Checked (k, t, c)" using pop_event_ids [OF Cons.prems] by blast
  obtain es' t' c' where "pop_while ops qid tail P es t c = Checked (es', t', c')" using Cons by fastforce
  then show ?case using p by simp
qed simp

lemma get_loop_defined:
  "ids_ok es \<Longrightarrow> \<forall>e \<in> set es. from \<le> ev_id e \<Longrightarrow>
   \<exists>es' got tot' cb'. get_loop ops qid tail from now n es tot cb = Checked (es', got, tot', cb')"
proof (induction es arbitrary: n tot cb)
  case (Cons e es)
  obtain k t c where p: "pop_event ops qid tail e tot cb = Checked (k, t, c)" using pop_event_ids [OF Cons.prems(1)] by blast
  obtain es1 g1 t1 c1 where 1: "get_loop ops qid tail from now n es t c = Checked (es1, g1, t1, c1)" using Cons by fastforce
  obtain es2 g2 t2 c2 where 2: "get_loop ops qid tail from now (n - 1) es tot cb = Checked (es2, g2, t2, c2)" using Cons by fastforce
  show ?case using p 1 2 Cons.prems(2) by simp
qed simp

lemma gc_loop_defined: "ids_ok es \<Longrightarrow> \<exists>x. gc_loop ops late qid tail now es g c r tot cb = Checked x"
proof (induction es arbitrary: g c r tot cb)
  case (Cons e es)
  obtain k t d where p: "pop_event ops qid tail e tot cb = Checked (k, t, d)" using pop_event_ids [OF Cons.prems] by blast
  have IH: "\<exists>x. gc_loop ops late qid tail now es g c r tot cb = Checked x" for g c r tot cb using Cons by simp
  show ?case
    using IH [of g "Suc c" "Suc r" t d] IH [of g "Suc c" r t d]
      IH [of "ev_expires_at e" "Suc c" "Suc r" tot cb] IH [of "ev_expires_at e" "Suc c" r tot cb]
    by (auto simp: Let_def p)
qed simp

section \<open>The invariant of a queue\<close>

definition event_ok :: "int \<Rightarrow> raw_event \<Rightarrow> bool" where
  "event_ok tail e \<longleftrightarrow> 0 < ev_id e \<and> ev_id e < tail \<and>
     length (ev_data e) \<le> MAX_EVENT_LENGTH \<and> 0 < ev_expires_at e"

definition queue_ok :: "tq_queue \<Rightarrow> bool" where
  "queue_ok q \<longleftrightarrow>
     sorted_wrt (<) (map ev_id (tq_events q)) \<and> (\<forall>e \<in> set (tq_events q). event_ok (tq_tail_id q) e) \<and>
     (\<forall>e \<in> set (tq_events q). ev_data e = [] \<longrightarrow> (\<forall>x \<in> set (tq_events q). ev_id x \<le> ev_id e)) \<and>
     length (tq_events q) \<le> MAX_QUEUE_EVENTS \<and> tq_total_event_length q = sizes (tq_events q) \<and>
     sizes (tq_events q) \<le> MAX_TOTAL_EVENT_LENGTH \<and> 0 \<le> tq_tail_id q \<and> tq_tail_id q < MAX_ID"

lemma queue_ok_ids: "queue_ok q \<Longrightarrow> ids_ok (tq_events q)"
  by (force simp: queue_ok_def ids_ok_def event_ok_def)

lemma popped_effect:
  assumes "popped ops qid tail es tot cb es' tot' cb'"
  shows "(\<forall>e' \<in> set es'. \<exists>e \<in> set es. e' = e \<or> (e' = e\<lparr>ev_data := []\<rparr> \<and> ev_id e + 1 = tail)) \<and>
         length es' \<le> length es \<and> (sorted_wrt (<) (map ev_id es) \<longrightarrow> sorted_wrt (<) (map ev_id es')) \<and>
         sizes es' \<le> sizes es \<and> (sizes es \<le> tot \<and> tot < 2 ^ 64 \<longrightarrow> tot' = tot - (sizes es - sizes es'))"
  using assms
proof induction
  case (popped_pop e tot cb k tot1 cb1 es es' tot' cb')
  have sub: "size_sub tot (data_size e) = tot - data_size e" if "data_size e + sizes es \<le> tot" "tot < 2 ^ 64"
    using that sizes_nonneg [of es] by (intro size_sub_eq) simp_all
  have less: "ev_id e < ev_id x'" if "\<forall>x \<in> set es. ev_id e < ev_id x" "x' \<in> set es'" for x'
    using popped_pop.IH that by fastforce
  from popped_pop.hyps(1) show ?case
  proof (cases rule: pop_event_cases)
    case removed
    then show ?thesis using popped_pop.IH sub sizes_nonneg [of es] by auto
  next
    case emptied
    then show ?thesis using popped_pop.IH sub sizes_nonneg [of es] less by auto
  next
    case kept
    then show ?thesis using popped_pop.IH less by auto
  qed
next
  case (popped_keep es tot cb es' tot' cb' e)
  have "ev_id e < ev_id x'" if "\<forall>x \<in> set es. ev_id e < ev_id x" "x' \<in> set es'" for x'
    using popped_keep.IH that by fastforce
  then show ?case using popped_keep.IH by auto
qed auto

lemma popped_from:
  assumes "popped ops qid tail es tot cb es' tot' cb'" "e' \<in> set es'"
  obtains e where "e \<in> set es" "e' = e \<or> (e' = e\<lparr>ev_data := []\<rparr> \<and> ev_id e + 1 = tail)"
  using bspec [OF popped_effect [OF assms(1), THEN conjunct1] assms(2)] by blast

lemmas popped_rest = popped_effect [THEN conjunct2]

lemma popped_queue_ok:
  assumes "queue_ok q" "popped ops qid (tq_tail_id q) (tq_events q) (tq_total_event_length q) cb es' tot' cb'"
  shows "queue_ok (q\<lparr>tq_events := es', tq_total_event_length := tot'\<rparr>)"
proof -
  note eff = popped_rest [OF assms(2)]
  have "tq_total_event_length q < 2 ^ 64" using assms(1) by (simp add: queue_ok_def)
  then have tot: "tot' = sizes es'" using eff assms(1) by (simp add: queue_ok_def)
  have "event_ok (tq_tail_id q) e'" if e': "e' \<in> set es'" for e'
  proof -
    obtain e where "e \<in> set (tq_events q)" "e' = e \<or> (e' = e\<lparr>ev_data := []\<rparr> \<and> ev_id e + 1 = tq_tail_id q)"
      by (rule popped_from [OF assms(2) e'])
    moreover from this have "event_ok (tq_tail_id q) e" using assms(1) by (simp add: queue_ok_def)
    ultimately show ?thesis by (auto simp: event_ok_def)
  qed
  moreover have "ev_id x' \<le> ev_id e'" if e': "e' \<in> set es'" "ev_data e' = []" and x': "x' \<in> set es'" for e' x'
  proof -
    obtain e where e: "e \<in> set (tq_events q)" "e' = e \<or> (e' = e\<lparr>ev_data := []\<rparr> \<and> ev_id e + 1 = tq_tail_id q)"
      by (rule popped_from [OF assms(2) e'(1)])
    obtain x where x: "x \<in> set (tq_events q)" "x' = x \<or> (x' = x\<lparr>ev_data := []\<rparr> \<and> ev_id x + 1 = tq_tail_id q)"
      by (rule popped_from [OF assms(2) x'])
    have "ev_id x \<le> ev_id e" if "ev_data e = []" using assms(1) e(1) x(1) that by (auto simp: queue_ok_def)
    moreover have "ev_id x < tq_tail_id q" using assms(1) x(1) by (auto simp: queue_ok_def event_ok_def)
    ultimately show ?thesis using e(2) x(2) e'(2) by auto
  qed
  ultimately show ?thesis using eff assms(1) tot by (simp add: queue_ok_def)
qed

text \<open>Only the last event can be empty.\<close>

lemma stub_is_last:
  assumes "queue_ok q" "e \<in> set (tq_events q)" "ev_data e = []"
  shows "e = last (tq_events q)"
proof -
  let ?es = "tq_events q"
  from assms(2) obtain xs ys where xs: "?es = xs @ e # ys" by (meson split_list)
  have "ys = []"
  proof (rule ccontr)
    assume "ys \<noteq> []"
    then obtain y zs where ys: "ys = y # zs" by (cases ys) auto
    have "ev_id e < ev_id y" using assms(1) xs ys by (simp add: queue_ok_def sorted_wrt_append)
    moreover have "ev_id y \<le> ev_id e" using assms xs ys by (simp add: queue_ok_def)
    ultimately show False by simp
  qed
  then show ?thesis using xs by simp
qed

lemma live_filter:
  assumes "queue_ok q"
  shows "filter (\<lambda>e. ev_data e \<noteq> []) (tq_events q) =
         (if tq_events q \<noteq> [] \<and> ev_data (last (tq_events q)) = [] then butlast (tq_events q) else tq_events q)"
proof (cases "tq_events q" rule: rev_cases)
  case (snoc xs e)
  have "ev_data x \<noteq> []" if "x \<in> set xs" for x
  proof
    assume "ev_data x = []"
    then have "x = e" using stub_is_last [OF assms, of x] that snoc by simp
    moreover have "ev_id x < ev_id e" using assms that snoc by (auto simp: queue_ok_def sorted_wrt_append)
    ultimately show False by simp
  qed
  then show ?thesis using snoc by (simp add: filter_id_conv)
qed simp

lemma queue_size_live: "queue_ok q \<Longrightarrow> queue_size q = length (filter (\<lambda>e. ev_data e \<noteq> []) (tq_events q))"
  by (simp add: live_filter queue_size_def)

section \<open>The invariant of all queues\<close>

definition has_live :: "tq_queue \<Rightarrow> bool" where
  "has_live q \<longleftrightarrow> (\<exists>e \<in> set (tq_events q). ev_data e \<noteq> [])"

definition tq_inv :: "'s tqueue \<Rightarrow> bool" where
  "tq_inv tq \<longleftrightarrow>
     finite (tq_queue_gc_at tq) \<and> (\<forall>i. queue_ok (queue_at tq i)) \<and> tq_events (queue_at tq 0) = [] \<and>
     (\<forall>g i. (g, i) \<in> tq_queue_gc_at tq \<longleftrightarrow> g \<noteq> 0 \<and> tq_gc_at (queue_at tq i) = g) \<and>
     (\<forall>i. has_live (queue_at tq i) \<longrightarrow> tq_gc_at (queue_at tq i) \<noteq> 0)"

lemma queue_at_simps [simp]:
  "queue_at (put_queue i q tq) j = (if j = i then q else queue_at tq j)"
  "queue_at (tq\<lparr>tq_callback := cb\<rparr>) j = queue_at tq j" "queue_at (tq\<lparr>tq_queue_gc_at := s\<rparr>) j = queue_at tq j"
  "queue_at \<lparr>tq_queues = (tq_queues tq)(i \<mapsto> q), tq_queue_gc_at = s, tq_callback = cb\<rparr> j = (if j = i then q else queue_at tq j)"
  "tq_queues tq i = Some q \<Longrightarrow> queue_at tq i = q"
  "tq_queue_gc_at (put_queue i q tq) = tq_queue_gc_at tq" "tq_callback (put_queue i q tq) = tq_callback tq"
  by (simp_all add: queue_at_def put_queue_def)

lemma new_queue_ok: "queue_ok new_tq_queue"
  by (simp add: queue_ok_def new_tq_queue_def)

lemma new_tqueue_inv: "tq_inv (new_tqueue\<lparr>tq_callback := cb\<rparr>)"
  by (simp add: tq_inv_def new_tqueue_def queue_at_def new_queue_ok) (simp add: new_tq_queue_def has_live_def)

lemma tq_inv_put:
  assumes "tq_inv tq" "queue_ok q" "tq_gc_at q = tq_gc_at (queue_at tq i)" "has_live q \<Longrightarrow> has_live (queue_at tq i)"
    "tq_events (queue_at tq i) = [] \<Longrightarrow> tq_events q = []"
  shows "tq_inv ((put_queue i q tq)\<lparr>tq_callback := cb\<rparr>)"
  using assms by (auto simp: tq_inv_def)

lemma tq_inv_queue: "tq_inv tq \<Longrightarrow> queue_ok (queue_at tq i)"
  by (simp add: tq_inv_def)

lemma schedule_defined:
  assumes "tq_inv tq" "tq_gc_at q = tq_gc_at (queue_at tq qid)"
  obtains s where "schedule_queue_gc qid g q (tq_queue_gc_at tq) = Checked (q\<lparr>tq_gc_at := g\<rparr>, s)" "finite s"
    "\<forall>h i. (h, i) \<in> s \<longleftrightarrow> h \<noteq> 0 \<and> (if i = qid then g else tq_gc_at (queue_at tq i)) = h"
proof -
  let ?s = "if tq_gc_at q \<noteq> 0 then tq_queue_gc_at tq - {(tq_gc_at q, qid)} else tq_queue_gc_at tq"
  have s: "(h, i) \<in> ?s \<longleftrightarrow> h \<noteq> 0 \<and> i \<noteq> qid \<and> tq_gc_at (queue_at tq i) = h" for h i
    using assms by (auto simp: tq_inv_def)
  have "schedule_queue_gc qid g q (tq_queue_gc_at tq) = Checked (q\<lparr>tq_gc_at := g\<rparr>, if g \<noteq> 0 then insert (g, qid) ?s else ?s)"
    using assms s by (auto simp: schedule_queue_gc_def Let_def tq_inv_def)
  moreover have "finite ?s" using assms(1) by (simp add: tq_inv_def)
  ultimately show thesis using s by (intro that [of "if g \<noteq> 0 then insert (g, qid) ?s else ?s"]) auto
qed

section \<open>Adding\<close>

lemma emplace_last: "\<forall>x \<in> set es. ev_id x < ev_id e \<Longrightarrow> emplace e es = es @ [e]"
  by (induction es) auto

lemma drop_stub_live: "queue_ok q \<Longrightarrow> fst (drop_stub ops (tq_events q) cb) = filter (\<lambda>e. ev_data e \<noteq> []) (tq_events q)"
  by (simp add: live_filter drop_stub_def)

lemma store_event_keeps:
  "ev_id (fst (store_event ops qid e cb)) = ev_id e" "ev_data (fst (store_event ops qid e cb)) = ev_data e"
  "ev_expires_at (fst (store_event ops qid e cb)) = ev_expires_at e"
  by (auto simp: store_event_def split: option.splits prod.splits)

definition pushable :: "int \<Rightarrow> raw_event \<Rightarrow> tq_queue \<Rightarrow> bool" where
  "pushable qid e q \<longleftrightarrow>
     length (ev_data e) \<le> MAX_EVENT_LENGTH \<and> qid \<noteq> 0 \<and> length (tq_events q) < MAX_QUEUE_EVENTS \<and>
     tq_total_event_length q \<le> MAX_TOTAL_EVENT_LENGTH - data_size e \<and> 0 < ev_expires_at e \<and> tq_tail_id q \<le> ev_id e"

definition pushed_queue :: "raw_event \<Rightarrow> tq_queue \<Rightarrow> tq_queue" where
  "pushed_queue e q =
     q\<lparr>tq_tail_id := ev_id e + 1, tq_events := filter (\<lambda>e. ev_data e \<noteq> []) (tq_events q) @ [e],
       tq_total_event_length := tq_total_event_length q + data_size e\<rparr>"

lemma sizes_live: "sizes (filter (\<lambda>e. ev_data e \<noteq> []) es) = sizes es"
  by (induction es) auto

lemma pushed_queue_ok:
  assumes "queue_ok q" "pushable qid e q" "0 < ev_id e" "ev_id e + 1 < MAX_ID"
  shows "queue_ok (pushed_queue e q)"
proof -
  let ?es = "filter (\<lambda>e. ev_data e \<noteq> []) (tq_events q)"
  have old: "ev_id x < tq_tail_id q" "event_ok (ev_id e + 1) x" if "x \<in> set ?es" for x
  proof -
    have "event_ok (tq_tail_id q) x" "ev_data x \<noteq> []" using that assms(1) by (auto simp: queue_ok_def)
    then show "ev_id x < tq_tail_id q" "event_ok (ev_id e + 1) x" using assms(2) by (auto simp: event_ok_def pushable_def)
  qed
  have "sorted_wrt (<) (map ev_id ?es)" using assms(1) by (simp add: queue_ok_def sorted_wrt_map sorted_wrt_filter)
  moreover have "ev_id x < ev_id e" if "x \<in> set ?es" for x using old(1) [OF that] assms(2) by (simp add: pushable_def)
  moreover have "event_ok (ev_id e + 1) e" using assms by (simp add: event_ok_def pushable_def)
  moreover have "length ?es + 1 \<le> MAX_QUEUE_EVENTS" 
    using length_filter_le [of "\<lambda>e. ev_data e \<noteq> []" "tq_events q"] assms(2) unfolding pushable_def by linarith
  ultimately show ?thesis
    using old(2) assms by (auto simp: queue_ok_def pushed_queue_def pushable_def sorted_wrt_append sizes_live less_imp_le)
qed

lemma do_push_success:
  fixes ops :: "'s storage_ops" and tq :: "'s tqueue" and e :: raw_event and qid :: int
  assumes "tq_inv tq" "0 < ev_id e" "ev_id e + 1 < MAX_ID" "pushable qid e (queue_at tq qid)"
  defines "cb1 \<equiv> snd (drop_stub ops (tq_events (queue_at tq qid)) (tq_callback tq))"
  defines "e1 \<equiv> fst (store_event ops qid e cb1)"
  obtains tq' g where "do_push ops qid e tq = Checked (True, tq')" "tq_inv tq'"
    "tq_callback tq' = snd (store_event ops qid e cb1)" "queue_at tq' qid = pushed_queue e1 ((queue_at tq qid)\<lparr>tq_gc_at := g\<rparr>)"
    "\<forall>i. i \<noteq> qid \<longrightarrow> queue_at tq' i = queue_at tq i"
proof -
  let ?q = "queue_at tq qid"
  let ?es = "filter (\<lambda>e. ev_data e \<noteq> []) (tq_events ?q)"
  have q: "queue_ok ?q" using assms(1) by (rule tq_inv_queue)
  have e1: "ev_id e1 = ev_id e" "ev_data e1 = ev_data e" "ev_expires_at e1 = ev_expires_at e"
    by (simp_all add: e1_def store_event_keeps)
  have below: "\<forall>x \<in> set ?es. ev_id x < ev_id e1" using q assms(4) e1 by (auto simp: queue_ok_def event_ok_def pushable_def)
  have valid: "eid_is_valid (ev_id e)" "eid_next (ev_id e) = Ok (ev_id e + 1)"
    using assms(2,3) by (simp_all add: eid_is_valid_def is_valid_id_def eid_next_ok)
  have drop: "drop_stub ops (tq_events ?q) (tq_callback tq) = (?es, cb1)"
    unfolding cb1_def using drop_stub_live [OF q] by (metis prod.collapse)
  define cb2 where "cb2 = snd (store_event ops qid e cb1)"
  have store: "store_event ops qid e cb1 = (e1, cb2)" by (simp add: e1_def cb2_def)
  have gc: "\<exists>g s. (if ?es = [] \<and> ev_data e \<noteq> [] then schedule_queue_gc qid (ev_expires_at e) ?q (tq_queue_gc_at tq)
        else Checked (?q, tq_queue_gc_at tq)) = Checked (?q\<lparr>tq_gc_at := g\<rparr>, s) \<and> finite s \<and>
      (\<forall>h i. (h, i) \<in> s \<longleftrightarrow> h \<noteq> 0 \<and> (if i = qid then g else tq_gc_at (queue_at tq i)) = h) \<and>
      (?es \<noteq> [] \<or> ev_data e \<noteq> [] \<longrightarrow> g \<noteq> 0)"
  proof (cases "?es = [] \<and> ev_data e \<noteq> []")
    case True
    obtain s where "schedule_queue_gc qid (ev_expires_at e) ?q (tq_queue_gc_at tq) = Checked (?q\<lparr>tq_gc_at := ev_expires_at e\<rparr>, s)" "finite s"
      "\<forall>h i. (h, i) \<in> s \<longleftrightarrow> h \<noteq> 0 \<and> (if i = qid then ev_expires_at e else tq_gc_at (queue_at tq i)) = h"
      using schedule_defined [OF assms(1) refl] by blast
    then show ?thesis using True assms(4) by (intro exI [of _ "ev_expires_at e"] exI [of _ s]) (simp add: pushable_def)
  next
    case False
    have "has_live ?q \<Longrightarrow> tq_gc_at ?q \<noteq> 0" using assms(1) by (simp add: tq_inv_def)
    moreover have "?es \<noteq> [] \<Longrightarrow> has_live ?q" by (auto simp: has_live_def filter_empty_conv)
    ultimately show ?thesis
      using False assms(1) by (intro exI [of _ "tq_gc_at ?q"] exI [of _ "tq_queue_gc_at tq"]) (auto simp: tq_inv_def)
  qed
  then obtain g s where g: "(if ?es = [] \<and> ev_data e \<noteq> [] then schedule_queue_gc qid (ev_expires_at e) ?q (tq_queue_gc_at tq)
        else Checked (?q, tq_queue_gc_at tq)) = Checked (?q\<lparr>tq_gc_at := g\<rparr>, s)" "finite s"
      "\<forall>h i. (h, i) \<in> s \<longleftrightarrow> h \<noteq> 0 \<and> (if i = qid then g else tq_gc_at (queue_at tq i)) = h"
      "?es \<noteq> [] \<or> ev_data e \<noteq> [] \<longrightarrow> g \<noteq> 0" by blast
  define q' where "q' = pushed_queue e1 (?q\<lparr>tq_gc_at := g\<rparr>)"
  define tq' where "tq' = \<lparr>tq_queues = (tq_queues tq)(qid \<mapsto> q'), tq_queue_gc_at = s, tq_callback = cb2\<rparr>"
  have "do_push ops qid e tq = Checked (True, tq')"
    unfolding do_push_def Let_def drop prod.case g(1) valid(2) checked.case sum.case
    using assms(4) valid(1) e1
    by (simp add: store pushable_def tq'_def q'_def pushed_queue_def emplace_last [OF below])
  moreover have "queue_ok q'"
    unfolding q'_def
    by (rule pushed_queue_ok [of _ qid]) (use q assms(2-4) e1 in \<open>simp_all add: queue_ok_def pushable_def\<close>)
  then have "tq_inv tq'"
    using g(2-4) assms(1,4) e1
    by (auto simp: tq_inv_def tq'_def q'_def pushed_queue_def has_live_def filter_empty_conv pushable_def)
  ultimately show thesis by (rule that) (simp_all add: tq'_def q'_def cb2_def)
qed

lemma do_push_refused:
  assumes "eid_is_valid (ev_id e)" "\<not> pushable qid e (queue_at tq qid)"
  shows "do_push ops qid e tq = Checked (False, tq) \<or> do_push ops qid e tq = Checked (False, put_queue qid (queue_at tq qid) tq)"
  using assms by (auto simp: do_push_def pushable_def Let_def)

section \<open>Popping keeps the invariant\<close>

lemma popped_live:
  "popped ops qid tail es tot cb es' tot' cb' \<Longrightarrow>
   length (filter (\<lambda>e. ev_data e \<noteq> []) es') \<le> length (filter (\<lambda>e. ev_data e \<noteq> []) es)"
proof (induction rule: popped.induct)
  case (popped_pop e tot cb k tot1 cb1 es es' tot' cb')
  from popped_pop.hyps(1) show ?case
    by (cases rule: pop_event_cases) (use popped_pop.IH in auto)
qed auto

lemma popped_has_live:
  assumes "popped ops qid tail (tq_events q) tot cb es' tot' cb'" "has_live (q\<lparr>tq_events := es', tq_total_event_length := t\<rparr>)"
  shows "has_live q"
proof -
  from assms(2) obtain e' where e': "e' \<in> set es'" "ev_data e' \<noteq> []" by (auto simp: has_live_def)
  obtain e where "e \<in> set (tq_events q)" "e' = e \<or> (e' = e\<lparr>ev_data := []\<rparr> \<and> ev_id e + 1 = tail)"
    by (rule popped_from [OF assms(1) e'(1)])
  then show ?thesis using e'(2) by (auto simp: has_live_def)
qed

lemma popped_empty: "popped ops qid tail es tot cb es' tot' cb' \<Longrightarrow> es = [] \<Longrightarrow> es' = []"
  using popped_rest by fastforce

lemma popped_tq_inv:
  assumes "tq_inv tq" "q = queue_at tq i"
    "popped ops qid (tq_tail_id q) (tq_events q) (tq_total_event_length q) cb es' tot' cb'"
  shows "tq_inv ((put_queue i (q\<lparr>tq_events := es', tq_total_event_length := tot'\<rparr>) tq)\<lparr>tq_callback := cb2\<rparr>)"
  using popped_queue_ok [OF _ assms(3)] popped_has_live [OF assms(3)] popped_empty [OF assms(3)]
    tq_inv_queue [OF assms(1), of i] assms(1,2)
  by (intro tq_inv_put) simp_all

lemma pop_one_popped:
  "pop_event ops qid tail e tot cb = Checked (k, tot', cb') \<Longrightarrow> popped ops qid tail (xs @ e # ys) tot cb (xs @ place k ys) tot' cb'"
  by (rule popped_prefix, rule popped_pop, assumption, rule popped_stop)

section \<open>Forgetting and reading\<close>

lemma dropWhile_id: "sorted_wrt (<) (map ev_id es) \<Longrightarrow> dropWhile (\<lambda>e. ev_id e < i) es = filter (\<lambda>e. i \<le> ev_id e) es"
proof (induction es)
  case (Cons e es)
  then show ?case by (auto simp: filter_id_conv intro!: filter_True [symmetric])
qed simp

lemma forget_inv:
  assumes "tq_inv tq"
  shows "\<exists>tq'. forget ops qid i tq = Checked tq' \<and> tq_inv tq'"
proof (cases "tq_queues tq qid")
  case (Some q)
  let ?pre = "takeWhile (\<lambda>e. ev_id e < i) (tq_events q)"
  have q: "q = queue_at tq qid" "queue_ok q" using Some tq_inv_queue [OF assms, of qid] by simp_all
  show ?thesis
  proof (cases "dropWhile (\<lambda>e. ev_id e < i) (tq_events q)")
    case (Cons e es)
    then have es: "tq_events q = ?pre @ e # es" by (metis takeWhile_dropWhile_id)
    then have "ids_ok (e # es)" using queue_ok_ids [OF q(2)] by (metis ids_ok_def Un_iff set_append)
    then obtain k t c where p: "pop_event ops qid (tq_tail_id q) e (tq_total_event_length q) (tq_callback tq) = Checked (k, t, c)"
      using pop_event_ids by blast
    have "popped ops qid (tq_tail_id q) (tq_events q) (tq_total_event_length q) (tq_callback tq) (?pre @ place k es) t c"
      using pop_one_popped [OF p, of ?pre es] es by simp
    from popped_tq_inv [OF assms q(1) this, of c] show ?thesis using assms Some Cons p by (simp add: forget_def)
  next
    case Nil
    then show ?thesis unfolding forget_def Some option.case Let_def Nil list.case using assms by blast
  qed
qed (use assms in \<open>simp add: forget_def\<close>)

definition due :: "int \<Rightarrow> raw_event \<Rightarrow> bool" where
  "due now e \<longleftrightarrow> now \<le> ev_expires_at e \<and> ev_data e \<noteq> []"

lemma get_loop_got:
  "get_loop ops qid tail from now n es tot cb = Checked (es', got, tot', cb') \<Longrightarrow>
   got = map to_event (take n (filter (due now) es))"
proof (induction es arbitrary: n tot cb es' got)
  case (Cons e es)
  show ?case
  proof (cases "due now e")
    case True
    then show ?thesis
      using Cons.prems Cons.IH [of "n - 1" tot cb]
      by (cases n) (auto simp: due_def split: if_splits checked.splits prod.splits)
  next
    case False
    then show ?thesis
      using Cons.prems Cons.IH by (auto simp: due_def split: if_splits checked.splits prod.splits)
  qed
qed simp

lemma get_loop_kept:
  "get_loop ops qid tail from now n es tot cb = Checked (es', got, tot', cb') \<Longrightarrow>
   length got \<le> length (filter (\<lambda>e. ev_data e \<noteq> []) es')"
proof (induction es arbitrary: n tot cb es' got)
  case (Cons e es)
  consider "es' = e # es" "got = []"
    | k t c es1 where "get_loop ops qid tail from now n es t c = Checked (es1, got, tot', cb')" "es' = place k es1"
    | es1 g1 where "get_loop ops qid tail from now (n - 1) es tot cb = Checked (es1, g1, tot', cb')" "es' = e # es1"
        "got = to_event e # g1" "ev_data e \<noteq> []"
    using Cons.prems by (auto split: if_splits checked.splits prod.splits)
  then show ?case
  proof cases
    case (2 k t c es1)
    then show ?thesis using Cons.IH [OF 2(1)] by (cases k) auto
  next
    case (3 es1 g1)
    then show ?thesis using Cons.IH [OF 3(1)] by simp
  qed simp
qed simp

lemma pop_while_rest:
  assumes "pop_while ops qid tail P es tot cb = Checked (es', tot', cb')" "\<forall>e. P (e\<lparr>ev_data := []\<rparr>) = P e"
  shows "dropWhile P es' = dropWhile P es"
  using assms(1)
proof (induction es arbitrary: tot cb es')
  case (Cons e es)
  show ?case
  proof (cases "P e")
    case True
    then obtain k t c es1 where p: "pop_event ops qid tail e tot cb = Checked (k, t, c)"
        "pop_while ops qid tail P es t c = Checked (es1, tot', cb')" "es' = place k es1"
      using Cons.prems by (auto split: checked.splits prod.splits)
    from p(1) show ?thesis
      by (cases rule: pop_event_cases) (use Cons.IH [OF p(2)] p(3) True assms(2) in auto)
  next
    case False
    then show ?thesis using Cons.prems by simp
  qed
qed simp

lemma do_get_effect:
  assumes "queue_ok q"
  obtains es' tot' cb' where
    "do_get ops qid from forget_previous now n q cb =
       Checked (map to_event (take n (filter (due now) (filter (\<lambda>e. from \<le> ev_id e) (tq_events q)))),
                q\<lparr>tq_events := es', tq_total_event_length := tot'\<rparr>, cb')"
    "queue_ok (q\<lparr>tq_events := es', tq_total_event_length := tot'\<rparr>)"
    "has_live (q\<lparr>tq_events := es', tq_total_event_length := tot'\<rparr>) \<Longrightarrow> has_live q"
    "length (take n (filter (due now) (filter (\<lambda>e. from \<le> ev_id e) (tq_events q)))) \<le>
       queue_size (q\<lparr>tq_events := es', tq_total_event_length := tot'\<rparr>)"
    "\<exists>es1 t1 c1. popped ops qid (tq_tail_id q) (tq_events q) (tq_total_event_length q) cb es1 t1 c1 \<and>
       popped ops qid (tq_tail_id q) es1 t1 c1 es' tot' cb'"
proof -
  let ?P = "\<lambda>e. ev_id e < from"
  let ?es = "tq_events q"
  obtain es1 t1 c1 where 1: "(if forget_previous then pop_while ops qid (tq_tail_id q) ?P ?es (tq_total_event_length q) cb
      else Checked (?es, tq_total_event_length q, cb)) = Checked (es1, t1, c1)"
    using pop_while_defined [OF queue_ok_ids [OF assms], of ops qid "tq_tail_id q" ?P] by (cases forget_previous) force+
  have p1: "popped ops qid (tq_tail_id q) ?es (tq_total_event_length q) cb es1 t1 c1"
    using 1 by (cases forget_previous) (auto intro: pop_while_popped popped_stop)
  let ?q1 = "q\<lparr>tq_events := es1, tq_total_event_length := t1\<rparr>"
  have q1: "queue_ok ?q1" by (rule popped_queue_ok [OF assms p1])
  have drop: "dropWhile ?P es1 = filter (\<lambda>e. from \<le> ev_id e) ?es"
    using 1 pop_while_rest [of ops qid "tq_tail_id q" ?P] dropWhile_id [of ?es "from"] assms
    by (cases forget_previous) (auto simp: queue_ok_def)
  have ids: "ids_ok (filter (\<lambda>e. from \<le> ev_id e) ?es)" using queue_ok_ids [OF assms] by (auto simp: ids_ok_def)
  obtain es2 got t2 c2 where 2: "get_loop ops qid (tq_tail_id q) from now n (dropWhile ?P es1) t1 c1 = Checked (es2, got, t2, c2)"
    unfolding drop using get_loop_defined [OF ids, of "from" ops qid "tq_tail_id q" now n t1 c1] by auto
  let ?es2 = "takeWhile ?P es1 @ es2"
  have p2: "popped ops qid (tq_tail_id q) es1 t1 c1 ?es2 t2 c2"
    using popped_prefix [OF get_loop_popped [OF 2], of "takeWhile ?P es1"] by simp
  have "do_get ops qid from forget_previous now n q cb = Checked (got, q\<lparr>tq_events := ?es2, tq_total_event_length := t2\<rparr>, c2)"
    unfolding do_get_def 1 by (simp add: 2)
  moreover have got: "got = map to_event (take n (filter (due now) (filter (\<lambda>e. from \<le> ev_id e) ?es)))"
    using get_loop_got [OF 2] drop by simp
  moreover have q2: "queue_ok (q\<lparr>tq_events := ?es2, tq_total_event_length := t2\<rparr>)"
    using popped_queue_ok [OF q1, of ops qid c1 ?es2 t2 c2] p2 by simp
  moreover have "length (take n (filter (due now) (filter (\<lambda>e. from \<le> ev_id e) ?es))) \<le>
      queue_size (q\<lparr>tq_events := ?es2, tq_total_event_length := t2\<rparr>)"
    using get_loop_kept [OF 2] got by (simp add: queue_size_live [OF q2])
  moreover have "has_live (q\<lparr>tq_events := ?es2, tq_total_event_length := t2\<rparr>) \<Longrightarrow> has_live q"
    using popped_has_live [OF p1, of t1] popped_has_live [of ops qid "tq_tail_id q" ?q1 t1 c1 ?es2 t2 c2 t2] p2 by simp
  moreover have "\<exists>es1 t1 c1. popped ops qid (tq_tail_id q) ?es (tq_total_event_length q) cb es1 t1 c1 \<and>
      popped ops qid (tq_tail_id q) es1 t1 c1 ?es2 t2 c2" using p1 p2 by blast
  ultimately show thesis using that [where es' = ?es2 and tot' = t2 and cb' = c2] by simp
qed

lemma tq_get_effect:
  assumes "tq_inv tq"
  shows "\<exists>r tq'. tq_get ops qid from f now n tq = Checked (r, tq') \<and> tq_inv tq' \<and> (\<forall>j. j \<noteq> qid \<longrightarrow> queue_at tq' j = queue_at tq j) \<and>
     (\<forall>m got. r = Ok (m, got) \<longrightarrow> length got \<le> m \<and>
        got = map to_event (take n (filter (due now) (filter (\<lambda>e. from \<le> ev_id e) (tq_events (queue_at tq qid))))))"
proof (cases "tq_queues tq qid")
  case None
  then show ?thesis using assms by (simp add: tq_get_def queue_at_def new_tq_queue_def)
next
  case (Some q)
  have q: "q = queue_at tq qid" "queue_ok q" using Some tq_inv_queue [OF assms, of qid] by simp_all
  obtain es' tot' cb' where g: "do_get ops qid from f now n q (tq_callback tq) =
       Checked (map to_event (take n (filter (due now) (filter (\<lambda>e. from \<le> ev_id e) (tq_events q)))),
                q\<lparr>tq_events := es', tq_total_event_length := tot'\<rparr>, cb')"
    "queue_ok (q\<lparr>tq_events := es', tq_total_event_length := tot'\<rparr>)"
    "has_live (q\<lparr>tq_events := es', tq_total_event_length := tot'\<rparr>) \<Longrightarrow> has_live q"
    and le: "length (take n (filter (due now) (filter (\<lambda>e. from \<le> ev_id e) (tq_events q)))) \<le>
       queue_size (q\<lparr>tq_events := es', tq_total_event_length := tot'\<rparr>)"
    and chain: "\<exists>es1 t1 c1. popped ops qid (tq_tail_id q) (tq_events q) (tq_total_event_length q) (tq_callback tq) es1 t1 c1 \<and>
       popped ops qid (tq_tail_id q) es1 t1 c1 es' tot' cb'"
    by (rule do_get_effect [OF q(2), of ops qid "from" f now n "tq_callback tq"]) (rule that)
  have "es' = []" if "tq_events q = []" using chain popped_empty that by blast
  then have inv: "tq_inv ((put_queue qid (q\<lparr>tq_events := es', tq_total_event_length := tot'\<rparr>) tq)\<lparr>tq_callback := cb'\<rparr>)"
    using assms g(2,3) by (intro tq_inv_put) (simp_all add: q(1) [symmetric])
  show ?thesis
    using inv le assms Some unfolding q(1) [symmetric]
    by (cases "from > tq_tail_id q + 10"; cases "from < get_queue_head q - int MAX_QUEUE_EVENTS") (simp_all add: tq_get_def g(1))
qed

section \<open>Clearing\<close>

lemma foldl_size_sub: "sizes es \<le> t \<Longrightarrow> t < 2 ^ 64 \<Longrightarrow> foldl (\<lambda>t e. size_sub t (data_size e)) t es = t - sizes es"
proof (induction es arbitrary: t)
  case (Cons e es)
  have "size_sub t (data_size e) = t - data_size e" using Cons.prems sizes_nonneg [of es] by (intro size_sub_eq) simp_all
  then show ?case using Cons by simp
qed simp

text \<open>The suffix of a queue, possibly with its last event emptied.\<close>

lemma clear_end_cases:
  assumes "clear_end ops qid keep es tot cb = (n, es1, tot1, cb1)" "es \<noteq> []"
  obtains (same) "es1 = es" "tot1 = tot" "cb1 = cb"
    | (emptied) s where "cb = Some s" "ev_log_id (last es) \<noteq> 0" "ev_data (last es) \<noteq> []" "n = length es - 1" "keep = 0"
        "es1 = butlast es @ [(last es)\<lparr>ev_data := []\<rparr>]" "tot1 = size_sub tot (data_size (last es))"
        "cb1 = Some (snd (so_push ops qid ((last es)\<lparr>ev_data := []\<rparr>) s))"
  using assms by (auto simp: clear_end_def Let_def split: if_splits option.splits)

lemma emptied_last_ok:
  assumes "queue_ok q" "tq_events q \<noteq> []"
  shows "queue_ok (q\<lparr>tq_events := butlast (tq_events q) @ [(last (tq_events q))\<lparr>ev_data := []\<rparr>],
            tq_total_event_length := size_sub (tq_total_event_length q) (data_size (last (tq_events q)))\<rparr>)"
proof -
  let ?e = "last (tq_events q)"
  have es: "tq_events q = butlast (tq_events q) @ [?e]" using assms(2) by simp
  define xs e where "xs = butlast (tq_events q)" "e = ?e"
  have q: "tq_events q = xs @ [e]" using es by (simp add: xs_e_def)
  have "size_sub (tq_total_event_length q) (data_size e) = sizes xs"
    using assms(1) sizes_nonneg [of xs] q by (subst size_sub_eq) (auto simp: queue_ok_def)
  then show ?thesis
    unfolding xs_e_def [symmetric] using assms(1) q sizes_nonneg [of xs]
    by (auto simp: queue_ok_def sorted_wrt_append event_ok_def less_imp_le)
qed

lemma queue_ok_drop:
  assumes "queue_ok q"
  shows "queue_ok (q\<lparr>tq_events := drop n (tq_events q), tq_total_event_length := sizes (drop n (tq_events q))\<rparr>)"
proof -
  have "sizes (take n (tq_events q)) + sizes (drop n (tq_events q)) = sizes (tq_events q)"
    by (metis append_take_drop_id sizes_simps(3))
  then have "sizes (drop n (tq_events q)) \<le> sizes (tq_events q)" using sizes_nonneg [of "take n (tq_events q)"] by simp
  then show ?thesis
    using assms by (auto simp: queue_ok_def drop_map [symmetric] sorted_wrt_drop dest: in_set_dropD)
qed

lemma clear_inv:
  assumes "tq_inv tq"
  shows "tq_inv (snd (tq_clear ops qid keep tq))"
proof (cases "tq_queues tq qid")
  case (Some q)
  have q: "queue_at tq qid = q" "queue_ok q" using Some tq_inv_queue [OF assms, of qid] by simp_all
  obtain n es1 tot1 cb1 where c: "clear_end ops qid keep (tq_events q) (tq_total_event_length q) (tq_callback tq) = (n, es1, tot1, cb1)"
    by (metis prod_cases4)
  show ?thesis
  proof (cases "queue_size q \<le> keep")
    case False
    then have ne: "tq_events q \<noteq> []" by (auto simp: queue_size_def)
    let ?q1 = "q\<lparr>tq_events := es1, tq_total_event_length := tot1\<rparr>"
    from c ne have q1: "queue_ok ?q1"
      by (cases rule: clear_end_cases) (use q(2) emptied_last_ok [OF q(2) ne] in simp_all)
    from c ne have live: "e \<in> set (tq_events q)" if "e \<in> set es1" "ev_data e \<noteq> []" for e
      by (cases rule: clear_end_cases) (use that in \<open>auto dest: in_set_butlastD\<close>)
    define tot' where "tot' = (if keep > queue_size q div 2 then foldl (\<lambda>t e. size_sub t (data_size e)) tot1 (take n es1)
        else sum_list (map data_size (drop n es1)))"
    have split: "sizes (take n es1) + sizes (drop n es1) = sizes es1" by (metis append_take_drop_id sizes_simps(3))
    have "tot1 = sizes es1" "sizes es1 \<le> MAX_TOTAL_EVENT_LENGTH" using q1 by (simp_all add: queue_ok_def)
    then have tot': "tot' = sizes (drop n es1)"
      using split sizes_nonneg [of "drop n es1"] foldl_size_sub [of "take n es1" tot1]
      by (simp add: tot'_def sizes_def)
    have ok: "queue_ok (q\<lparr>tq_events := drop n es1, tq_total_event_length := tot'\<rparr>)"
      using queue_ok_drop [OF q1, of n] by (simp add: tot')
    have hl: "has_live q" if "has_live (q\<lparr>tq_events := drop n es1, tq_total_event_length := tot'\<rparr>)"
      using that live by (auto simp: has_live_def dest: in_set_dropD)
    have "snd (tq_clear ops qid keep tq) =
        (put_queue qid (q\<lparr>tq_events := drop n es1, tq_total_event_length := tot'\<rparr>) tq)
          \<lparr>tq_callback := map_option (so_pop_batch ops (filter (\<lambda>l. l \<noteq> 0) (map ev_log_id (take n es1)))) cb1\<rparr>"
      using False Some c by (simp add: tq_clear_def Let_def tot'_def)
    then show ?thesis using tq_inv_put [OF assms ok, of qid] hl ne unfolding q(1) by simp
  qed (use assms Some in \<open>simp add: tq_clear_def\<close>)
qed (use assms in \<open>simp add: tq_clear_def\<close>)

section \<open>Pushing\<close>

lemma pop_all_empty:
  assumes "pop_while ops qid 0 (\<lambda>_. True) es tot cb = Checked (es', tot', cb')" "ids_ok es" "tot = sizes es" "sizes es < 2 ^ 64"
  shows "es' = [] \<and> tot' = 0"
  using assms
proof (induction es arbitrary: tot cb es')
  case (Cons e es)
  obtain k t c es1 where p: "pop_event ops qid 0 e tot cb = Checked (k, t, c)"
      "pop_while ops qid 0 (\<lambda>_. True) es t c = Checked (es1, tot', cb')" "es' = place k es1"
    using Cons.prems(1) by (auto split: checked.splits prod.splits)
  have "size_sub tot (data_size e) = sizes es"
    using Cons.prems(3,4) sizes_nonneg [of es] by (subst size_sub_eq) simp_all
  then have "k = None" "t = sizes es" using p(1) Cons.prems(2) by (auto elim!: pop_event_cases)
  then show ?case using Cons.IH [OF p(2)] p(3) Cons.prems sizes_nonneg [of es] by simp
qed simp

definition fresh_id :: "(nat \<Rightarrow> int) \<Rightarrow> int \<Rightarrow> bool" where
  "fresh_id rnd hint \<longleftrightarrow> (\<forall>n. 0 < rnd n \<and> rnd n + 1 < MAX_ID) \<and> 0 \<le> hint \<and> hint + 1 < MAX_ID"

lemma push_loop_result:
  assumes "queue_ok q" "fresh_id rnd hint"
  obtains (plain) t where "push_loop ops rnd qid hint 2 q cb = Some (Checked (q\<lparr>tq_tail_id := t\<rparr>, cb))"
      "t + 1 < MAX_ID" "if tq_tail_id q = 0 then 0 < t else t = tq_tail_id q"
    | (wrapped) t cb' where
      "push_loop ops rnd qid hint 2 q cb = Some (Checked (q\<lparr>tq_tail_id := t, tq_events := [], tq_total_event_length := 0\<rparr>, cb'))"
      "0 < t" "t + 1 < MAX_ID" "tq_tail_id q + 1 = MAX_ID"
      "pop_while ops qid 0 (\<lambda>_. True) (tq_events q) (tq_total_event_length q) cb = Checked ([], 0, cb')"
proof -
  define t where "t = (if tq_tail_id q = 0 then (if hint = 0 then rnd (Suc 0) else hint) else tq_tail_id q)"
  define u where "u = (if hint = 0 then rnd 0 else hint)"
  have tail: "0 \<le> tq_tail_id q" "tq_tail_id q < MAX_ID" using assms(1) by (simp_all add: queue_ok_def)
  have rnd: "0 < rnd n" "rnd n + 1 < MAX_ID" for n using assms(2) by (simp_all add: fresh_id_def)
  have hint: "0 \<le> hint" "hint + 1 < MAX_ID" using assms(2) by (simp_all add: fresh_id_def)
  have u: "0 < u" "u + 1 < MAX_ID" "eid_is_valid u" "is_ok (eid_next u)" "is_ok (eid_next hint)"
    using hint rnd [of 0] by (auto simp: u_def eid_is_valid_def is_valid_id_def eid_next_is_ok)
  have t: "eid_is_valid t" "0 < t" using hint tail rnd [of "Suc 0"] by (auto simp: t_def eid_is_valid_def is_valid_id_def)
  have t2: "t + 1 < MAX_ID" if "tq_tail_id q = 0" using hint rnd [of "Suc 0"] that by (simp add: t_def)
  show thesis
  proof (cases "is_ok (eid_next t)")
    case True
    have "push_loop ops rnd qid hint 2 q cb = Some (Checked (q\<lparr>tq_tail_id := t\<rparr>, cb))"
      unfolding numeral_2_eq_2 push_loop.simps(2) [of ops rnd qid hint "Suc 0" q] Let_def t_def [symmetric] using t(1) True by simp
    then show thesis by (rule plain) (use True t in \<open>simp_all add: eid_next_is_ok t_def split: if_splits\<close>)
  next
    case False
    then have last: "tq_tail_id q + 1 = MAX_ID" "t = tq_tail_id q"
      using t(2) t2 tail by (auto simp: eid_next_is_ok t_def split: if_splits)
    obtain es tot cb' where p: "pop_while ops qid 0 (\<lambda>_. True) (tq_events q) (tq_total_event_length q) cb = Checked (es, tot, cb')"
      using pop_while_defined [OF queue_ok_ids [OF assms(1)]] by blast
    have "es = [] \<and> tot = 0"
      by (rule pop_all_empty [OF p queue_ok_ids [OF assms(1)]]) (use assms(1) in \<open>simp_all add: queue_ok_def\<close>)
    then have p': "pop_while ops qid 0 (\<lambda>_. True) (tq_events q) (tq_total_event_length q) cb = Checked ([], 0, cb')" using p by simp
    have "push_loop ops rnd qid hint 2 q cb =
        push_loop ops rnd qid hint (Suc 0) (q\<lparr>tq_tail_id := 0, tq_events := [], tq_total_event_length := 0\<rparr>) cb'"
      unfolding numeral_2_eq_2 push_loop.simps(2) [of ops rnd qid hint "Suc 0" q] Let_def t_def [symmetric]
      using t(1) False p' u(5) by simp
    also have "\<dots> = Some (Checked (q\<lparr>tq_tail_id := u, tq_events := [], tq_total_event_length := 0\<rparr>, cb'))"
      using u(3,4) by (simp add: u_def [symmetric] Let_def)
    finally show thesis by (rule wrapped) (use u last p' in simp_all)
  qed
qed

definition new_event :: "int \<Rightarrow> string \<Rightarrow> int \<Rightarrow> int \<Rightarrow> raw_event" where
  "new_event i data expires_at extra =
     \<lparr>ev_log_id = 0, ev_id = i, ev_expires_at = expires_at, ev_data = data, ev_extra = extra\<rparr>"

lemma tq_inv_touch: "tq_inv tq \<Longrightarrow> tq_inv (put_queue i (queue_at tq i) tq)"
  by (simp add: tq_inv_def)

lemma push_cases:
  assumes "tq_inv tq" "fresh_id rnd hint"
  obtains (refused) err tq' where "tq_push ops rnd qid data x extra hint tq = Some (Checked (Inl err, tq'))"
      "tq' = tq \<or> tq' = put_queue qid (queue_at tq qid) tq"
    | (added) q1 cb1 tq1 tq' where
      "tq_push ops rnd qid data x extra hint tq = Some (Checked (Ok (tq_tail_id q1), tq'))" "data \<noteq> []"
      "push_loop ops rnd qid hint 2 (queue_at tq qid) (tq_callback tq) = Some (Checked (q1, cb1))"
      "tq1 = (put_queue qid q1 (put_queue qid (queue_at tq qid) tq))\<lparr>tq_callback := cb1\<rparr>"
      "do_push ops qid (new_event (tq_tail_id q1) data x extra) tq1 = Checked (True, tq')"
      "tq_inv tq1" "pushable qid (new_event (tq_tail_id q1) data x extra) q1" "0 < tq_tail_id q1" "tq_tail_id q1 + 1 < MAX_ID"
      "tq_inv tq'"
proof -
  let ?q = "queue_at tq qid"
  let ?ok = "data \<noteq> [] \<and> length data \<le> MAX_EVENT_LENGTH \<and> qid \<noteq> 0 \<and> length (tq_events ?q) < MAX_QUEUE_EVENTS \<and>
    tq_total_event_length ?q \<le> MAX_TOTAL_EVENT_LENGTH - int (length data) \<and> 0 < x"
  have q: "queue_ok ?q" using assms(1) by (rule tq_inv_queue)
  show thesis
  proof (cases ?ok)
    case False
    then have "\<exists>err tq'. tq_push ops rnd qid data x extra hint tq = Some (Checked (Inl err, tq')) \<and>
        (tq' = tq \<or> tq' = put_queue qid ?q tq)"
      unfolding tq_push_def Let_def by (auto simp: not_le not_less)
    then show thesis using refused by blast
  next
    case True
    obtain q1 cb1 where l: "push_loop ops rnd qid hint 2 ?q (tq_callback tq) = Some (Checked (q1, cb1))"
      and q1: "queue_ok q1" "tq_gc_at q1 = tq_gc_at ?q" "has_live q1 \<Longrightarrow> has_live ?q" "tq_events ?q = [] \<Longrightarrow> tq_events q1 = []" "0 < tq_tail_id q1" "tq_tail_id q1 + 1 < MAX_ID"
        "length (tq_events q1) \<le> length (tq_events ?q)" "tq_total_event_length q1 \<le> tq_total_event_length ?q"
      using q assms(2)
    proof (cases rule: push_loop_result [where ops = ops and qid = qid and cb = "tq_callback tq"])
      case (plain t)
      have "0 < t" "tq_tail_id ?q \<le> t" using plain(3) q by (auto simp: queue_ok_def split: if_splits)
      moreover from this have "queue_ok (?q\<lparr>tq_tail_id := t\<rparr>)" using q plain(2) by (auto simp: queue_ok_def event_ok_def)
      ultimately show ?thesis using plain by (intro that [of "?q\<lparr>tq_tail_id := t\<rparr>" "tq_callback tq"]) (auto simp: has_live_def)
    next
      case (wrapped t cb')
      have "0 \<le> tq_total_event_length ?q" using q sizes_nonneg by (simp add: queue_ok_def)
      then show ?thesis
        using wrapped
        by (intro that [of "?q\<lparr>tq_tail_id := t, tq_events := [], tq_total_event_length := 0\<rparr>" cb'])
           (auto simp: has_live_def queue_ok_def)
    qed
    let ?tq0 = "put_queue qid ?q tq"
    define tq1 where "tq1 = (put_queue qid q1 ?tq0)\<lparr>tq_callback := cb1\<rparr>"
    have tq1: "tq_inv tq1" unfolding tq1_def
      using tq_inv_touch [OF assms(1), of qid] q1(1-4) by (intro tq_inv_put) simp_all
    have at: "queue_at tq1 qid = q1" by (simp add: tq1_def)
    let ?e = "new_event (tq_tail_id q1) data x extra"
    have p: "pushable qid ?e q1" using True q1(7,8) by (auto simp: pushable_def new_event_def)
    obtain tq' where d: "do_push ops qid ?e tq1 = Checked (True, tq')" "tq_inv tq'"
      using do_push_success [OF tq1, of ?e qid ops] p at q1(5,6) by (auto simp: new_event_def)
    have "tq_push ops rnd qid data x extra hint tq = Some (Checked (Ok (tq_tail_id q1), tq'))"
      using True l d(1) by (simp add: tq_push_def Let_def new_event_def tq1_def)
    then show thesis by (rule added [OF _ _ l tq1_def d(1) tq1 p q1(5,6) d(2)]) (use True in simp)
  qed
qed

section \<open>Garbage collection\<close>

lemma gc_loop_schedule:
  assumes "gc_loop ops late qid tail now es g c r tot cb = Checked (es', g', c', r', tot', cb')" "\<forall>e \<in> set es. 0 < ev_expires_at e"
  shows "(g' = 0 \<longrightarrow> g = 0 \<and> (\<forall>e \<in> set es'. ev_data e = [])) \<and> r \<le> r' \<and>
         (g' = 0 \<or> g' = g \<or> now \<le> g' \<or> (\<exists>i. r \<le> i \<and> i < r' \<and> late i))"
  using assms
proof (induction es arbitrary: g c r tot cb es')
  case (Cons e es)
  let ?r = "if Suc c AND 128 = 0 then Suc r else r"
  have x: "0 < ev_expires_at e" "\<forall>e \<in> set es. 0 < ev_expires_at e" using Cons.prems(2) by simp_all
  consider (stop) "Suc c AND 128 = 0" "late r" "es' = e # es" "g' = (if g = 0 then ev_expires_at e else g)" "r' = ?r"
    | (pop) k t d es1 where "pop_event ops qid tail e tot cb = Checked (k, t, d)" "es' = place k es1"
        "gc_loop ops late qid tail now es g (Suc c) ?r t d = Checked (es1, g', c', r', tot', cb')" "ev_expires_at e < now \<or> ev_data e = []"
    | (next_found) "es' = e # es" "g \<noteq> 0" "g' = g" "r' = ?r"
    | (keep) es1 where "es' = e # es1" "\<not> ev_expires_at e < now" "g = 0"
        "gc_loop ops late qid tail now es (ev_expires_at e) (Suc c) ?r tot cb = Checked (es1, g', c', r', tot', cb')"
    using Cons.prems(1) by (auto simp: Let_def split: if_splits checked.splits prod.splits)
  then show ?case
  proof cases
    case stop
    then show ?thesis using x by auto
  next
    case (pop k t d es1)
    note IH = Cons.IH [OF pop(3) x(2)]
    from pop(1) have "\<forall>e' \<in> set es'. e' \<in> set es1 \<or> ev_data e' = []"
      by (cases rule: pop_event_cases) (use pop(2) in auto)
    then show ?thesis using IH by (auto intro: le_trans split: if_splits)
  next
    case next_found
    then show ?thesis by auto
  next
    case (keep es1)
    note IH = Cons.IH [OF keep(4) x(2)]
    have "r \<le> ?r" by simp
    then show ?thesis using IH keep x(1) by (metis le_trans less_irrefl not_less)
  qed
qed simp

lemma gc_queue_effect:
  assumes "tq_inv tq" "tq_gc_at (queue_at tq qid) = g" "g \<noteq> 0"
  obtains n c' r' tq' g' where "gc_queue ops late now g qid c r tq = Checked (n, c', r', tq')" "tq_inv tq'"
    "\<forall>h i. (h, i) \<in> tq_queue_gc_at tq' \<longleftrightarrow> h \<noteq> 0 \<and> (if i = qid then g' else tq_gc_at (queue_at tq i)) = h"
    "g' = 0 \<or> now \<le> g' \<or> (\<exists>i. r \<le> i \<and> i < r' \<and> late i)"
    "\<exists>es' tot'. popped ops qid (tq_tail_id (queue_at tq qid)) (tq_events (queue_at tq qid))
         (tq_total_event_length (queue_at tq qid)) (tq_callback tq) es' tot' (tq_callback tq') \<and>
       queue_at tq' qid = (queue_at tq qid)\<lparr>tq_events := es', tq_total_event_length := tot', tq_gc_at := g'\<rparr> \<and>
       (\<forall>i. i \<noteq> qid \<longrightarrow> queue_at tq' i = queue_at tq i)"
proof -
  let ?q = "queue_at tq qid"
  have q: "queue_ok ?q" using assms(1) by (rule tq_inv_queue)
  obtain es' g' c' r' tot' cb' where l: "gc_loop ops late qid (tq_tail_id ?q) now (tq_events ?q) 0 c r (tq_total_event_length ?q) (tq_callback tq) =
      Checked (es', g', c', r', tot', cb')"
    using gc_loop_defined [OF queue_ok_ids [OF q]] by (metis prod_cases6)
  let ?q1 = "?q\<lparr>tq_events := es', tq_total_event_length := tot'\<rparr>"
  note p = gc_loop_popped [OF l]
  have q1: "queue_ok ?q1" by (rule popped_queue_ok [OF q p])
  have "queue_size ?q1 \<le> queue_size ?q" using popped_live [OF p] by (simp add: queue_size_live [OF q] queue_size_live [OF q1])
  moreover obtain s where s: "schedule_queue_gc qid g' ?q1 (tq_queue_gc_at tq) = Checked (?q1\<lparr>tq_gc_at := g'\<rparr>, s)" "finite s"
      "\<forall>h i. (h, i) \<in> s \<longleftrightarrow> h \<noteq> 0 \<and> (if i = qid then g' else tq_gc_at (queue_at tq i)) = h"
    by (rule schedule_defined [OF assms(1), of ?q1 qid g']) simp_all
  ultimately have r: "gc_queue ops late now g qid c r tq =
      Checked (queue_size ?q - queue_size ?q1, c', r', (put_queue qid (?q1\<lparr>tq_gc_at := g'\<rparr>) tq)\<lparr>tq_queue_gc_at := s, tq_callback := cb'\<rparr>)"
    using assms(2) l by (simp add: gc_queue_def Let_def)
  have "\<forall>e \<in> set (tq_events ?q). 0 < ev_expires_at e" using q by (auto simp: queue_ok_def event_ok_def)
  note sched = gc_loop_schedule [OF l this]
  have "queue_ok (?q1\<lparr>tq_gc_at := g'\<rparr>)" using q1 by (simp add: queue_ok_def)
  moreover have "has_live (?q1\<lparr>tq_gc_at := g'\<rparr>) \<Longrightarrow> g' \<noteq> 0" using sched by (auto simp: has_live_def)
  ultimately have inv: "tq_inv ((put_queue qid (?q1\<lparr>tq_gc_at := g'\<rparr>) tq)\<lparr>tq_queue_gc_at := s, tq_callback := cb'\<rparr>)"
    using assms(1) s(2,3) popped_empty [OF p] by (auto simp: tq_inv_def)
  show thesis
    by (rule that [OF r inv, of g']) (use s(3) sched p in auto)
qed

text \<open>The clock does not go back.\<close>

definition clock_mono :: "(nat \<Rightarrow> bool) \<Rightarrow> bool" where
  "clock_mono late \<longleftrightarrow> (\<forall>i j. late i \<longrightarrow> i \<le> j \<longrightarrow> late j)"

lemma run_gc_loop_ends:
  assumes "tq_inv tq" "clock_mono late" "card {x \<in> tq_queue_gc_at tq. fst x < now} < fuel"
  shows "\<exists>n b tq'. run_gc_loop ops late now fuel deleted c r tq = Some (Checked ((n, b), tq')) \<and> tq_inv tq' \<and>
           (b \<longrightarrow> (\<forall>i. tq_gc_at (queue_at tq' i) = 0 \<or> now \<le> tq_gc_at (queue_at tq' i)))"
  using assms(1,3)
proof (induction fuel arbitrary: deleted c r tq)
  case (Suc fuel)
  let ?S = "tq_queue_gc_at tq"
  have S: "finite ?S" "(g, i) \<in> ?S \<longleftrightarrow> g \<noteq> 0 \<and> tq_gc_at (queue_at tq i) = g" for g i
    using Suc.prems(1) by (auto simp: tq_inv_def)
  show ?case
  proof (cases "?S = {} \<or> now \<le> fst (Min ?S)")
    case True
    have "now \<le> g" if "(g, i) \<in> ?S" for g i
    proof -
      have "Min ?S \<le> (g, i)" using S(1) that by simp
      then show ?thesis using True that by (auto simp: less_eq_prod_def)
    qed
    then have "tq_gc_at (queue_at tq i) = 0 \<or> now \<le> tq_gc_at (queue_at tq i)" for i using S(2) by blast
    then show ?thesis using True Suc.prems(1) by (auto simp: case_prod_beta)
  next
    case False
    obtain g qid where m: "Min ?S = (g, qid)" by (metis surj_pair)
    have in_S: "(g, qid) \<in> ?S" using Min_in [OF S(1)] False m by simp
    then have at: "tq_gc_at (queue_at tq qid) = g" "g \<noteq> 0" using S(2) by blast+
    obtain n c' r' tq' g' where e: "gc_queue ops late now g qid c r tq = Checked (n, c', r', tq')" "tq_inv tq'"
      "\<forall>h i. (h, i) \<in> tq_queue_gc_at tq' \<longleftrightarrow> h \<noteq> 0 \<and> (if i = qid then g' else tq_gc_at (queue_at tq i)) = h"
      "g' = 0 \<or> now \<le> g' \<or> (\<exists>i. r \<le> i \<and> i < r' \<and> late i)"
      by (rule gc_queue_effect [OF Suc.prems(1) at, of ops late now c r]) (rule that)
    have step: "run_gc_loop ops late now (Suc fuel) deleted c r tq =
        (if late r' then Some (Checked ((deleted + n, False), tq')) else run_gc_loop ops late now fuel (deleted + n) c' (Suc r') tq')"
      using False m e(1) by simp
    show ?thesis
    proof (cases "late r'")
      case True
      then show ?thesis unfolding step using e(2) by auto
    next
      case False
      then have g': "g' = 0 \<or> now \<le> g'" using e(4) assms(2) by (metis clock_mono_def less_imp_le)
      have "{x \<in> tq_queue_gc_at tq'. fst x < now} \<subset> {x \<in> ?S. fst x < now}"
      proof
        have "(h, i) \<in> ?S" if "(h, i) \<in> tq_queue_gc_at tq'" "h < now" for h i
          using that e(3) [rule_format, of h i] g' unfolding S(2) by (cases "i = qid") auto
        then show "{x \<in> tq_queue_gc_at tq'. fst x < now} \<subseteq> {x \<in> ?S. fst x < now}" by auto
        have "(g, qid) \<in> {x \<in> ?S. fst x < now}" using in_S \<open>\<not> (?S = {} \<or> now \<le> fst (Min ?S))\<close> m by simp
        moreover have "(g, qid) \<notin> {x \<in> tq_queue_gc_at tq'. fst x < now}" using e(3) [rule_format, of g qid] g' at(2) by auto
        ultimately show "{x \<in> tq_queue_gc_at tq'. fst x < now} \<noteq> {x \<in> ?S. fst x < now}" by blast
      qed
      then have "card {x \<in> tq_queue_gc_at tq'. fst x < now} < card {x \<in> ?S. fst x < now}"
        using S(1) by (intro psubset_card_mono) simp_all
      then have "card {x \<in> tq_queue_gc_at tq'. fst x < now} < fuel" using Suc.prems(2) by simp
      from Suc.IH [OF e(2) this] show ?thesis unfolding step using False by simp
    qed
  qed
qed simp

lemma run_gc_ends:
  assumes "tq_inv tq" "clock_mono late"
  shows "\<exists>n b tq'. run_gc ops late now tq = Some (Checked ((n, b), tq')) \<and> tq_inv tq' \<and>
           (b \<longrightarrow> (\<forall>i. tq_gc_at (queue_at tq' i) = 0 \<or> now \<le> tq_gc_at (queue_at tq' i)))"
proof -
  have "finite (tq_queue_gc_at tq)" using assms(1) by (simp add: tq_inv_def)
  then have "card {x \<in> tq_queue_gc_at tq. fst x < now} < Suc (card (tq_queue_gc_at tq))"
    by (intro le_imp_less_Suc card_mono) auto
  from run_gc_loop_ends [OF assms this] show ?thesis by (simp add: run_gc_def)
qed

end
