(* ===== verification/Td_TQueueStore.thy ===== *)
theory Td_TQueueStore
  imports Td_TQueueInv
begin

text \<open>
  The storage of the update queues.  The locale \<open>event_storage\<close> states what the queues need from a
  \<^verbatim>\<open>TQueue::StorageCallback\<close>: what the storage contains after a push and after a pop.  Inside it every operation is
  shown to keep the storage equal to the contents of the queues; \<^verbatim>\<open>TQueueMemoryStorage\<close> is an interpretation.  The theory
  ends with the properties of the queues: no failed check, what \<^verbatim>\<open>push\<close>, \<^verbatim>\<open>get\<close> and \<^verbatim>\<open>clear\<close> do, the
  end of garbage collection and the replay of a stored queue.
\<close>

section \<open>The contract of a storage\<close>

definition strip :: "raw_event \<Rightarrow> raw_event" where
  "strip e = e\<lparr>ev_log_id := 0\<rparr>"

text \<open>The contents of a storage agree with the events of one queue, in the order of the log.\<close>

definition queue_stored :: "(nat \<Rightarrow> (int \<times> raw_event) option) \<Rightarrow> int \<Rightarrow> raw_event list \<Rightarrow> bool" where
  "queue_stored c qid es \<longleftrightarrow>
     (\<forall>e \<in> set es. ev_log_id e \<noteq> 0 \<and> (\<exists>x. c (ev_log_id e) = Some (qid, x) \<and> strip x = strip e)) \<and>
     sorted_wrt (<) (map ev_log_id es) \<and> (\<forall>l x. c l = Some (qid, x) \<longrightarrow> l \<in> ev_log_id ` set es)"

definition same_off :: "int \<Rightarrow> (nat \<Rightarrow> (int \<times> raw_event) option) \<Rightarrow> (nat \<Rightarrow> (int \<times> raw_event) option) \<Rightarrow> bool" where
  "same_off qid c c' \<longleftrightarrow> (\<forall>l j x. j \<noteq> qid \<longrightarrow> (c' l = Some (j, x) \<longleftrightarrow> c l = Some (j, x)))"

lemma same_off_stored: "same_off qid c c' \<Longrightarrow> j \<noteq> qid \<Longrightarrow> queue_stored c j es \<Longrightarrow> queue_stored c' j es"
  by (simp add: same_off_def queue_stored_def)

lemma same_off_refl [simp]: "same_off qid c c"
  by (simp add: same_off_def)

lemma same_off_trans: "same_off qid c c' \<Longrightarrow> same_off qid c' c'' \<Longrightarrow> same_off qid c c''"
  by (simp add: same_off_def)

lemma stored_remove:
  assumes "queue_stored c qid (xs @ e # ys)"
  shows "queue_stored (c(ev_log_id e := None)) qid (xs @ ys) \<and> same_off qid c (c(ev_log_id e := None))"
proof -
  have d: "ev_log_id x \<noteq> ev_log_id e" if "x \<in> set (xs @ ys)" for x
    using assms that by (auto simp: queue_stored_def sorted_wrt_append)
  show ?thesis
    using assms d by (auto simp: queue_stored_def sorted_wrt_append same_off_def)
qed

lemma stored_change:
  assumes "queue_stored c qid (xs @ e # ys)" "ev_log_id e' = ev_log_id e"
  shows "queue_stored (c(ev_log_id e \<mapsto> (qid, e'))) qid (xs @ e' # ys) \<and> same_off qid c (c(ev_log_id e \<mapsto> (qid, e')))"
proof -
  have d: "ev_log_id x \<noteq> ev_log_id e" if "x \<in> set (xs @ ys)" for x
    using assms that by (auto simp: queue_stored_def sorted_wrt_append)
  show ?thesis
    using assms d by (auto simp: queue_stored_def sorted_wrt_append same_off_def)
qed

lemma stored_add:
  assumes "queue_stored c qid es" "\<forall>k \<in> dom c. k < l" "l \<noteq> 0"
  shows "queue_stored (c(l \<mapsto> (qid, e))) qid (es @ [e\<lparr>ev_log_id := l\<rparr>]) \<and> same_off qid c (c(l \<mapsto> (qid, e)))"
proof -
  have less: "ev_log_id x < l" if "x \<in> set es" for x using assms(1,2) that by (auto simp: queue_stored_def dom_def)
  have "c l = None" using assms(2) by (metis domI less_irrefl not_None_eq)
  then show ?thesis
    using assms(1,3) less by (auto simp: queue_stored_def sorted_wrt_append same_off_def strip_def dest: less)
qed

locale event_storage =
  fixes ops :: "'s storage_ops" and sinv :: "'s \<Rightarrow> bool" and contents :: "'s \<Rightarrow> nat \<Rightarrow> (int \<times> raw_event) option"
  assumes push_new: "sinv s \<Longrightarrow> ev_log_id e = 0 \<Longrightarrow> so_push ops q e s = (l, s') \<Longrightarrow>
      sinv s' \<and> l \<noteq> 0 \<and> (\<forall>k \<in> dom (contents s). k < l) \<and> contents s' = (contents s)(l \<mapsto> (q, e))"
    and push_again: "sinv s \<Longrightarrow> contents s (ev_log_id e) \<noteq> None \<Longrightarrow> ev_log_id e \<noteq> 0 \<Longrightarrow> so_push ops q e s = (l, s') \<Longrightarrow>
      sinv s' \<and> contents s' = (contents s)(ev_log_id e \<mapsto> (q, e))"
    and pop_one: "sinv s \<Longrightarrow> sinv (so_pop ops l s) \<and> contents (so_pop ops l s) = (contents s)(l := None)"
    and pop_many: "sinv s \<Longrightarrow> sinv (so_pop_batch ops ls s) \<and>
      contents (so_pop_batch ops ls s) = (\<lambda>l. if l \<in> set ls then None else contents s l)"
begin

lemma pop_event_stored:
  assumes "pop_event ops qid tail e tot (Some s) = Checked (k, tot', cb')" "sinv s" "queue_stored (contents s) qid (xs @ e # ys)"
  shows "\<exists>s'. cb' = Some s' \<and> sinv s' \<and> queue_stored (contents s') qid (xs @ place k ys) \<and> same_off qid (contents s) (contents s') \<and>
           (ev_id e + 1 = tail \<longrightarrow> (\<exists>e'. k = Some e' \<and> ev_id e' = ev_id e))"
proof -
  have l: "ev_log_id e \<noteq> 0" "contents s (ev_log_id e) \<noteq> None" using assms(3) by (auto simp: queue_stored_def)
  obtain n where n1: "eid_next (ev_id e) = Ok n"
    using assms(1) l(1) by (cases "eid_next (ev_id e)") (auto simp: pop_event_def)
  note n = n1 eid_next_val [OF n1]
  let ?e = "e\<lparr>ev_data := []\<rparr>"
  obtain l' s' where p: "so_push ops qid ?e s = (l', s')" by (metis surj_pair)
  have push: "sinv s' \<and> contents s' = (contents s)(ev_log_id e \<mapsto> (qid, ?e))"
    using push_again [OF assms(2) _ _ p] l by simp
  have push_ok: "queue_stored (contents s') qid (xs @ ?e # ys)" "same_off qid (contents s) (contents s')"
    using stored_change [OF assms(3), of ?e] push by simp_all
  have pop_ok: "sinv (so_pop ops (ev_log_id e) s)" "queue_stored (contents (so_pop ops (ev_log_id e) s)) qid (xs @ ys)"
      "same_off qid (contents s) (contents (so_pop ops (ev_log_id e) s))"
    using stored_remove [OF assms(3)] pop_one [OF assms(2), of "ev_log_id e"] by simp_all
  show ?thesis
  proof (cases "n = tail")
    case True
    then show ?thesis
      using assms l(1) n p push push_ok by (cases "ev_data e = []") (auto simp: pop_event_def)
  next
    case False
    then show ?thesis using assms(1) l(1) n pop_ok by (auto simp: pop_event_def)
  qed
qed

lemma popped_stored:
  assumes "popped ops qid tail es tot cb es' tot' cb'" "cb = Some s" "sinv s" "queue_stored (contents s) qid (xs @ es)"
  shows "\<exists>s'. cb' = Some s' \<and> sinv s' \<and> queue_stored (contents s') qid (xs @ es') \<and> same_off qid (contents s) (contents s') \<and>
           (es \<noteq> [] \<and> ev_id (last es) + 1 = tail \<longrightarrow> es' \<noteq> [] \<and> ev_id (last es') = ev_id (last es))"
  using assms
proof (induction arbitrary: s xs)
  case (popped_stop es tot cb)
  then show ?case by simp
next
  case (popped_pop e tot cb k tot1 cb1 es es' tot' cb')
  obtain s1 where s1: "cb1 = Some s1" "sinv s1" "queue_stored (contents s1) qid (xs @ place k es)" "same_off qid (contents s) (contents s1)"
      "ev_id e + 1 = tail \<longrightarrow> (\<exists>e'. k = Some e' \<and> ev_id e' = ev_id e)"
    using pop_event_stored [OF _ popped_pop.prems(2,3)] popped_pop.hyps(1) popped_pop.prems(1) by blast
  let ?xs = "xs @ place k []"
  have "queue_stored (contents s1) qid (?xs @ es)" using s1(3) by (cases k) simp_all
  from popped_pop.IH [OF s1(1,2) this] obtain s' where s': "cb' = Some s'" "sinv s'" "queue_stored (contents s') qid (?xs @ es')"
      "same_off qid (contents s1) (contents s')" "es \<noteq> [] \<and> ev_id (last es) + 1 = tail \<longrightarrow> es' \<noteq> [] \<and> ev_id (last es') = ev_id (last es)" by blast
  have "queue_stored (contents s') qid (xs @ place k es')" using s'(3) by (cases k) simp_all
  moreover have "popped ops qid tail es tot1 cb1 es' tot' cb'" by (rule popped_pop.hyps(2))
  then have "es = [] \<Longrightarrow> es' = []" using popped_rest by fastforce
  ultimately show ?case
    using s' s1(4,5) same_off_trans [OF s1(4) s'(4)] by (cases "es = []"; cases k) auto
next
  case (popped_keep es tot cb es' tot' cb' e)
  from popped_keep.IH [of s "xs @ [e]"] popped_keep.prems obtain s' where s': "cb' = Some s'" "sinv s'"
      "queue_stored (contents s') qid (xs @ e # es')" "same_off qid (contents s) (contents s')"
      "es \<noteq> [] \<and> ev_id (last es) + 1 = tail \<longrightarrow> es' \<noteq> [] \<and> ev_id (last es') = ev_id (last es)" by auto
  have "es = [] \<Longrightarrow> es' = []" using popped_rest [OF popped_keep.hyps] by fastforce
  then show ?case using s' by (cases "es = []") auto
qed

end

text \<open>The storage holds all queues, and an empty last event is kept so that the tail can be restored.\<close>

definition tail_kept :: "tq_queue \<Rightarrow> bool" where
  "tail_kept q \<longleftrightarrow> (tq_tail_id q \<noteq> 0 \<longrightarrow> tq_events q \<noteq> [] \<and> ev_id (last (tq_events q)) + 1 = tq_tail_id q)"

definition db_inv :: "('s \<Rightarrow> bool) \<Rightarrow> ('s \<Rightarrow> nat \<Rightarrow> (int \<times> raw_event) option) \<Rightarrow> 's tqueue \<Rightarrow> bool" where
  "db_inv sinv contents tq \<longleftrightarrow>
     (\<exists>s. tq_callback tq = Some s \<and> sinv s \<and> (\<forall>i. queue_stored (contents s) i (tq_events (queue_at tq i)))) \<and>
     (\<forall>i. tail_kept (queue_at tq i))"

definition stored_all :: "('s \<Rightarrow> bool) \<Rightarrow> ('s \<Rightarrow> nat \<Rightarrow> (int \<times> raw_event) option) \<Rightarrow> 's tqueue \<Rightarrow> bool" where
  "stored_all sinv contents tq \<longleftrightarrow>
     (\<exists>s. tq_callback tq = Some s \<and> sinv s \<and> (\<forall>i. queue_stored (contents s) i (tq_events (queue_at tq i))))"

lemma db_inv_split: "db_inv sinv contents tq \<longleftrightarrow> stored_all sinv contents tq \<and> (\<forall>i. tail_kept (queue_at tq i))"
  by (simp add: db_inv_def stored_all_def)

lemma stored_all_change:
  assumes "stored_all sinv contents tq" "tq_callback tq = Some s" "sinv s'" "same_off qid (contents s) (contents s')"
    "queue_stored (contents s') qid (tq_events (queue_at tq' qid))" "tq_callback tq' = Some s'"
    "\<forall>i. i \<noteq> qid \<longrightarrow> queue_at tq' i = queue_at tq i"
  shows "stored_all sinv contents tq'"
proof -
  have "queue_stored (contents s') i (tq_events (queue_at tq' i))" for i
    using assms by (cases "i = qid") (auto simp: stored_all_def intro: same_off_stored)
  then show ?thesis using assms(3,6) by (simp add: stored_all_def)
qed

lemma stored_drop:
  assumes "queue_stored c qid es"
  shows "queue_stored (\<lambda>l. if l \<in> ev_log_id ` set (take n es) then None else c l) qid (drop n es) \<and>
         same_off qid c (\<lambda>l. if l \<in> ev_log_id ` set (take n es) then None else c l)"
proof -
  define xs ys where "xs = take n es" "ys = drop n es"
  have es: "es = xs @ ys" by (simp add: xs_ys_def)
  have "ev_log_id y \<notin> ev_log_id ` set xs" if "y \<in> set ys" for y
    using assms that unfolding es by (fastforce simp: queue_stored_def sorted_wrt_append)
  then have "queue_stored (\<lambda>l. if l \<in> ev_log_id ` set xs then None else c l) qid ys"
    using assms unfolding es by (auto simp: queue_stored_def sorted_wrt_append)
  moreover have "j = qid" if "x \<in> set xs" "c (ev_log_id x) = Some (j, y)" for x j y
    using assms that unfolding es by (force simp: queue_stored_def)
  then have "same_off qid c (\<lambda>l. if l \<in> ev_log_id ` set xs then None else c l)"
    by (auto simp: same_off_def)
  ultimately show ?thesis by (simp add: xs_ys_def)
qed

context event_storage
begin

lemma popped_db:
  assumes "db_inv sinv contents tq" "popped ops qid (tq_tail_id q) (tq_events q) (tq_total_event_length q) (tq_callback tq) es' tot' cb'"
    "q = queue_at tq qid" "tq_callback tq' = cb'" "\<forall>i. i \<noteq> qid \<longrightarrow> queue_at tq' i = queue_at tq i"
    "tq_events (queue_at tq' qid) = es'" "tq_tail_id (queue_at tq' qid) = tq_tail_id q"
  shows "db_inv sinv contents tq'"
proof -
  from assms(1) obtain s where s: "tq_callback tq = Some s" "sinv s" "queue_stored (contents s) qid (tq_events q)" "tail_kept q"
    using assms(3) by (auto simp: db_inv_def)
  obtain s' where s': "cb' = Some s'" "sinv s'" "queue_stored (contents s') qid es'" "same_off qid (contents s) (contents s')"
      "tq_events q \<noteq> [] \<and> ev_id (last (tq_events q)) + 1 = tq_tail_id q \<longrightarrow> es' \<noteq> [] \<and> ev_id (last es') = ev_id (last (tq_events q))"
    using popped_stored [OF assms(2) s(1,2), of "[]"] s(3) by auto
  have "tail_kept (queue_at tq' qid)" using s(4) s'(5) assms(6,7) by (auto simp: tail_kept_def)
  then have "\<forall>i. tail_kept (queue_at tq' i)" using assms(1,5) by (metis db_inv_def)
  moreover have "stored_all sinv contents tq'"
    by (rule stored_all_change [where s = s and s' = s' and sinv = sinv and contents = contents and tq = tq and qid = qid])
       (use assms s s' in \<open>simp_all add: db_inv_split\<close>)
  ultimately show ?thesis by (simp add: db_inv_split)
qed

lemma forget_db:
  assumes "tq_inv tq" "db_inv sinv contents tq" "forget ops qid i tq = Checked tq'"
  shows "db_inv sinv contents tq'"
proof (cases "tq_queues tq qid")
  case (Some q)
  have q: "queue_at tq qid = q" using Some by simp
  let ?pre = "takeWhile (\<lambda>e. ev_id e < i) (tq_events q)"
  show ?thesis
  proof (cases "dropWhile (\<lambda>e. ev_id e < i) (tq_events q)")
    case (Cons e es)
    then have es: "tq_events q = ?pre @ e # es" by (metis takeWhile_dropWhile_id)
    show ?thesis
    proof (cases "ev_id e = i")
      case True
      then obtain k t c where p: "pop_event ops qid (tq_tail_id q) e (tq_total_event_length q) (tq_callback tq) = Checked (k, t, c)"
          "tq' = (put_queue qid (q\<lparr>tq_events := ?pre @ place k es, tq_total_event_length := t\<rparr>) tq)\<lparr>tq_callback := c\<rparr>"
        using assms(3) Some Cons by (auto simp: forget_def split: checked.splits)
      have "popped ops qid (tq_tail_id q) (tq_events q) (tq_total_event_length q) (tq_callback tq) (?pre @ place k es) t c"
        using pop_one_popped [OF p(1), of ?pre es] es by simp
      from popped_db [OF assms(2) this q [symmetric]] show ?thesis using p(2) by simp
    next
      case False
      then show ?thesis using assms(2,3) Some Cons by (simp add: forget_def)
    qed
  next
    case Nil
    then show ?thesis using assms(2,3) unfolding forget_def Some option.case Let_def Nil list.case by simp
  qed
qed (use assms(2,3) in \<open>simp add: forget_def\<close>)

lemma get_db:
  assumes "tq_inv tq" "db_inv sinv contents tq" "tq_get ops qid from f now n tq = Checked (r, tq')"
  shows "db_inv sinv contents tq'"
proof (cases "tq_queues tq qid")
  case None
  then show ?thesis using assms(2,3) by (simp add: tq_get_def)
next
  case (Some q)
  have q: "queue_at tq qid = q" "queue_ok q" using Some tq_inv_queue [OF assms(1), of qid] by simp_all
  obtain es' tot' cb' es1 t1 c1 where g: "do_get ops qid from f now n q (tq_callback tq) =
       Checked (map to_event (take n (filter (due now) (filter (\<lambda>e. from \<le> ev_id e) (tq_events q)))),
                q\<lparr>tq_events := es', tq_total_event_length := tot'\<rparr>, cb')"
    and p: "popped ops qid (tq_tail_id q) (tq_events q) (tq_total_event_length q) (tq_callback tq) es1 t1 c1"
       "popped ops qid (tq_tail_id q) es1 t1 c1 es' tot' cb'"
    by (rule do_get_effect [OF q(2), of ops qid "from" f now n "tq_callback tq"]) blast
  let ?q1 = "q\<lparr>tq_events := es1, tq_total_event_length := t1\<rparr>"
  let ?tq1 = "(put_queue qid ?q1 tq)\<lparr>tq_callback := c1\<rparr>"
  let ?tq2 = "(put_queue qid (q\<lparr>tq_events := es', tq_total_event_length := tot'\<rparr>) tq)\<lparr>tq_callback := cb'\<rparr>"
  have "db_inv sinv contents ?tq1" by (rule popped_db [OF assms(2) p(1) q(1) [symmetric]]) simp_all
  then have "db_inv sinv contents ?tq2" by (rule popped_db [where q = ?q1 and qid = qid]) (use p(2) in simp_all)
  then show ?thesis using assms(2,3) Some g by (auto simp: tq_get_def split: if_splits)
qed

lemma run_gc_db:
  assumes "tq_inv tq" "db_inv sinv contents tq" "run_gc_loop ops late now fuel d c r tq = Some (Checked (x, tq'))"
  shows "db_inv sinv contents tq'"
  using assms
proof (induction fuel arbitrary: d c r tq)
  case (Suc fuel)
  let ?S = "tq_queue_gc_at tq"
  obtain g qid where m: "Min ?S = (g, qid)" by (metis surj_pair)
  show ?case
  proof (cases "?S = {} \<or> now \<le> g")
    case True
    then show ?thesis using Suc.prems(2,3) m by (auto split: if_splits)
  next
    case False
    have "(g, qid) \<in> ?S" using Min_in [of ?S] False m Suc.prems(1) by (simp add: tq_inv_def)
    then have at: "tq_gc_at (queue_at tq qid) = g" "g \<noteq> 0" using Suc.prems(1) by (simp_all add: tq_inv_def)
    obtain n c' r' tq1 g' where e: "gc_queue ops late now g qid c r tq = Checked (n, c', r', tq1)" "tq_inv tq1"
      and "\<exists>es' tot'. popped ops qid (tq_tail_id (queue_at tq qid)) (tq_events (queue_at tq qid))
           (tq_total_event_length (queue_at tq qid)) (tq_callback tq) es' tot' (tq_callback tq1) \<and>
         queue_at tq1 qid = (queue_at tq qid)\<lparr>tq_events := es', tq_total_event_length := tot', tq_gc_at := g'\<rparr> \<and>
         (\<forall>i. i \<noteq> qid \<longrightarrow> queue_at tq1 i = queue_at tq i)"
      by (rule gc_queue_effect [OF Suc.prems(1) at, of ops late now c r]) (rule that)
    then obtain es' tot' where p: "popped ops qid (tq_tail_id (queue_at tq qid)) (tq_events (queue_at tq qid))
         (tq_total_event_length (queue_at tq qid)) (tq_callback tq) es' tot' (tq_callback tq1)"
       "queue_at tq1 qid = (queue_at tq qid)\<lparr>tq_events := es', tq_total_event_length := tot', tq_gc_at := g'\<rparr>"
       "\<forall>i. i \<noteq> qid \<longrightarrow> queue_at tq1 i = queue_at tq i"
      by (elim exE conjE) (rule that)
    have db: "db_inv sinv contents tq1"
      by (rule popped_db [OF Suc.prems(2) p(1) refl]) (use p in simp_all)
    show ?thesis
      using Suc.prems(3) False m e(1) Suc.IH [OF e(2) db] db by (auto split: if_splits)
  qed
qed simp

end

context event_storage
begin

lemma clear_db:
  assumes "tq_inv tq" "db_inv sinv contents tq"
  shows "db_inv sinv contents (snd (tq_clear ops qid keep tq))"
proof (cases "tq_queues tq qid")
  case (Some q)
  have q: "queue_at tq qid = q" "queue_ok q" using Some tq_inv_queue [OF assms(1), of qid] by simp_all
  obtain s where s: "tq_callback tq = Some s" "sinv s" "queue_stored (contents s) qid (tq_events q)" "tail_kept q"
    using assms(2) q(1) by (auto simp: db_inv_def)
  show ?thesis
  proof (cases "queue_size q \<le> keep")
    case False
    then have ne: "tq_events q \<noteq> []" by (auto simp: queue_size_def)
    define xs e where "xs = butlast (tq_events q)" "e = last (tq_events q)"
    have es: "tq_events q = xs @ [e]" using ne by (simp add: xs_e_def)
    have log: "ev_log_id e \<noteq> 0" "contents s (ev_log_id e) \<noteq> None" using s(3) es by (auto simp: queue_stored_def)
    have keep: "keep < length (tq_events q)" using False by (auto simp: queue_size_def split: if_splits)
    obtain n es1 tot1 cb1 where c: "clear_end ops qid keep (tq_events q) (tq_total_event_length q) (tq_callback tq) = (n, es1, tot1, cb1)"
      by (metis prod_cases4)
    have n: "n < length es1 \<and> es1 \<noteq> [] \<and> ev_id (last es1) = ev_id e"
      using c log s(1) keep by (auto simp: clear_end_def es Let_def split: if_splits)
    from c ne have "\<exists>s1. cb1 = Some s1 \<and> sinv s1 \<and> queue_stored (contents s1) qid es1 \<and> same_off qid (contents s) (contents s1)"
    proof (cases rule: clear_end_cases)
      case same
      then show ?thesis using s by simp
    next
      case (emptied s0)
      let ?e = "e\<lparr>ev_data := []\<rparr>"
      obtain l' s1 where p: "so_push ops qid ?e s = (l', s1)" by (metis surj_pair)
      have "sinv s1 \<and> contents s1 = (contents s)(ev_log_id e \<mapsto> (qid, ?e))" using push_again [OF s(2) _ _ p] log by simp
      then show ?thesis
        using stored_change [of "contents s" qid xs e "[]" ?e] s(1,3) es emptied p by simp
    qed
    then obtain s1 where s1: "cb1 = Some s1" "sinv s1" "queue_stored (contents s1) qid es1" "same_off qid (contents s) (contents s1)" by blast
    let ?ids = "filter (\<lambda>l. l \<noteq> 0) (map ev_log_id (take n es1))"
    have ids: "set ?ids = ev_log_id ` set (take n es1)" using s1(3) by (auto simp: queue_stored_def dest: in_set_takeD)
    define s2 where "s2 = so_pop_batch ops ?ids s1"
    have s2: "sinv s2" "queue_stored (contents s2) qid (drop n es1)" "same_off qid (contents s) (contents s2)"
      using pop_many [OF s1(2), of ?ids] stored_drop [OF s1(3), of n] same_off_trans [OF s1(4)]
      unfolding ids s2_def by simp_all
    define tot2 where "tot2 = (if keep > queue_size q div 2 then foldl (\<lambda>t e. size_sub t (data_size e)) tot1 (take n es1)
        else sum_list (map data_size (drop n es1)))"
    have tq': "snd (tq_clear ops qid keep tq) = (put_queue qid (q\<lparr>tq_events := drop n es1, tq_total_event_length := tot2\<rparr>) tq)\<lparr>tq_callback := Some s2\<rparr>"
      using False Some c s1(1) by (simp add: tq_clear_def Let_def tot2_def s2_def)
    have "stored_all sinv contents (snd (tq_clear ops qid keep tq))"
      by (rule stored_all_change [where s = s and s' = s2 and sinv = sinv and contents = contents and tq = tq and qid = qid])
         (use assms(2) s s2 tq' in \<open>simp_all add: db_inv_split\<close>)
    moreover have "tail_kept (queue_at (snd (tq_clear ops qid keep tq)) i)" for i
      using n s(4) es assms(2) tq' by (auto simp: tail_kept_def db_inv_def)
    ultimately show ?thesis by (simp add: db_inv_split)
  qed (use assms(2) Some in \<open>simp add: tq_clear_def\<close>)
qed (use assms(2) in \<open>simp add: tq_clear_def\<close>)

text \<open>A new event is logged after all others.\<close>

lemma do_push_db:
  assumes "tq_inv tq" "stored_all sinv contents tq" "\<forall>i. i \<noteq> qid \<longrightarrow> tail_kept (queue_at tq i)"
    "0 < ev_id e" "ev_id e + 1 < MAX_ID" "pushable qid e (queue_at tq qid)" "ev_log_id e = 0"
    "do_push ops qid e tq = Checked (True, tq')"
  shows "db_inv sinv contents tq'"
proof -
  let ?q = "queue_at tq qid"
  have q: "queue_ok ?q" using assms(1) by (rule tq_inv_queue)
  obtain s where s: "tq_callback tq = Some s" "sinv s" "queue_stored (contents s) qid (tq_events ?q)" using assms(2) by (auto simp: stored_all_def)
  let ?es = "filter (\<lambda>e. ev_data e \<noteq> []) (tq_events ?q)"
  define cb1 where "cb1 = snd (drop_stub ops (tq_events ?q) (tq_callback tq))"
  obtain s1 where s1: "cb1 = Some s1" "sinv s1" "queue_stored (contents s1) qid ?es" "same_off qid (contents s) (contents s1)"
  proof (cases "tq_events ?q \<noteq> [] \<and> ev_data (last (tq_events ?q)) = []")
    case True
    let ?e = "last (tq_events ?q)"
    have es: "tq_events ?q = butlast (tq_events ?q) @ [?e]" using True by simp
    then have "ev_log_id ?e \<noteq> 0" using s(3) True by (simp add: queue_stored_def)
    then have "cb1 = Some (so_pop ops (ev_log_id ?e) s)" using True s(1) by (simp add: cb1_def drop_stub_def)
    moreover have "queue_stored ((contents s)(ev_log_id ?e := None)) qid (butlast (tq_events ?q) @ []) \<and>
        same_off qid (contents s) ((contents s)(ev_log_id ?e := None))"
      by (rule stored_remove) (use s(3) es in simp)
    ultimately show ?thesis
      using pop_one [OF s(2), of "ev_log_id ?e"] True live_filter [OF q] that by simp
  next
    case False
    then show ?thesis using s live_filter [OF q] that by (auto simp: cb1_def drop_stub_def)
  qed
  obtain l s2 where p: "so_push ops qid e s1 = (l, s2)" by (metis surj_pair)
  have n: "sinv s2" "l \<noteq> 0" "\<forall>k \<in> dom (contents s1). k < l" "contents s2 = (contents s1)(l \<mapsto> (qid, e))"
    using push_new [OF s1(2) assms(7) p] by simp_all
  have st: "store_event ops qid e cb1 = (e\<lparr>ev_log_id := l\<rparr>, Some s2)" using s1(1) assms(7) p by (simp add: store_event_def)
  have s2: "queue_stored (contents s2) qid (?es @ [e\<lparr>ev_log_id := l\<rparr>])" "same_off qid (contents s1) (contents s2)"
    using stored_add [OF s1(3) n(3,2), of e] n(4) by simp_all
  obtain g where t: "tq_callback tq' = Some s2" "queue_at tq' qid = pushed_queue (e\<lparr>ev_log_id := l\<rparr>) (?q\<lparr>tq_gc_at := g\<rparr>)"
      "\<forall>i. i \<noteq> qid \<longrightarrow> queue_at tq' i = queue_at tq i"
  proof (rule do_push_success [OF assms(1,4-6), of ops])
    fix tq2 g
    assume "do_push ops qid e tq = Checked (True, tq2)"
      "tq_callback tq2 = snd (store_event ops qid e (snd (drop_stub ops (tq_events ?q) (tq_callback tq))))"
      "queue_at tq2 qid = pushed_queue (fst (store_event ops qid e (snd (drop_stub ops (tq_events ?q) (tq_callback tq))))) (?q\<lparr>tq_gc_at := g\<rparr>)"
      "\<forall>i. i \<noteq> qid \<longrightarrow> queue_at tq2 i = queue_at tq i"
    then show ?thesis using that assms(8) st unfolding cb1_def [symmetric] by simp
  qed
  have "stored_all sinv contents tq'"
    by (rule stored_all_change [where s = s and s' = s2 and sinv = sinv and contents = contents and tq = tq and qid = qid])
       (use assms(2) s s2 n t same_off_trans [OF s1(4)] in \<open>simp_all add: pushed_queue_def\<close>)
  moreover have "tail_kept (queue_at tq' i)" for i
    using t assms(3) by (cases "i = qid") (simp_all add: tail_kept_def pushed_queue_def)
  ultimately show ?thesis by (simp add: db_inv_split)
qed

lemma push_db:
  assumes "tq_inv tq" "db_inv sinv contents tq" "fresh_id rnd hint" "tq_push ops rnd qid data x extra hint tq = Some (Checked (r, tq'))"
  shows "db_inv sinv contents tq'"
  using assms(1,3)
proof (cases rule: push_cases [where ops = ops and qid = qid and data = data and x = x and extra = extra])
  case (refused err tq2)
  then have "tq' = tq \<or> tq' = put_queue qid (queue_at tq qid) tq" using assms(4) by auto
  then show ?thesis using assms(2) by (auto simp: db_inv_def)
next
  case (added q1 cb1 tq1 tq2)
  have tq2: "tq2 = tq'" using added(1) assms(4) by simp
  let ?q = "queue_at tq qid"
  obtain s where s: "tq_callback tq = Some s" "sinv s" "queue_stored (contents s) qid (tq_events ?q)" using assms(2) by (auto simp: db_inv_def)
  have "\<exists>s1. cb1 = Some s1 \<and> sinv s1 \<and> queue_stored (contents s1) qid (tq_events q1) \<and> same_off qid (contents s) (contents s1)"
    using tq_inv_queue [OF assms(1), of qid] assms(3)
  proof (cases rule: push_loop_result [where ops = ops and qid = qid and cb = "tq_callback tq"])
    case (plain t)
    then have "q1 = ?q\<lparr>tq_tail_id := t\<rparr>" "cb1 = Some s" using added(3) s(1) by auto
    then show ?thesis using s by simp
  next
    case (wrapped t cb')
    from popped_stored [OF pop_while_popped [OF wrapped(5)] s(1,2), of "[]"] s(3)
    show ?thesis using wrapped(1) added(3) by auto
  qed
  then obtain s1 where s1: "cb1 = Some s1" "sinv s1" "queue_stored (contents s1) qid (tq_events q1)" "same_off qid (contents s) (contents s1)" by blast
  have "stored_all sinv contents tq1"
    by (rule stored_all_change [where s = s and s' = s1 and sinv = sinv and contents = contents and tq = tq and qid = qid])
       (use assms(2) s s1 added(4) in \<open>simp_all add: db_inv_split\<close>)
  then show ?thesis
    using do_push_db [OF added(6), of qid "new_event (tq_tail_id q1) data x extra" tq2] added assms(2) tq2
    by (simp add: new_event_def db_inv_def)
qed

end

section \<open>The storage in memory keeps the contract\<close>

definition mem_inv :: "mem_storage \<Rightarrow> bool" where
  "mem_inv s \<longleftrightarrow>
     sorted_wrt (<) (map fst (ms_events s)) \<and> 0 < ms_next_log_event_id s \<and>
     (\<forall>x \<in> set (ms_events s). 0 < fst x \<and> fst x < ms_next_log_event_id s)"

definition mem_contents :: "mem_storage \<Rightarrow> nat \<Rightarrow> (int \<times> raw_event) option" where
  "mem_contents s = map_of (ms_events s)"

lemma mem_put_keys: "fst ` set (mem_put k v xs) = insert k (fst ` set xs)"
  by (induction k v xs rule: mem_put.induct) auto

lemma mem_put_sorted: "sorted_wrt (<) (map fst xs) \<Longrightarrow> sorted_wrt (<) (map fst (mem_put k v xs))"
proof (induction k v xs rule: mem_put.induct)
  case (2 k v l w xs)
  have "l < fst x" if "x \<in> set (mem_put k v xs)" "l < k" "\<forall>y \<in> set xs. l < fst y" for x
    using mem_put_keys [of k v xs] that by (metis image_iff insert_iff)
  then show ?case using 2 by auto
qed simp

lemma mem_put_map: "sorted_wrt (<) (map fst xs) \<Longrightarrow> map_of (mem_put k v xs) = (map_of xs)(k \<mapsto> v)"
  by (induction k v xs rule: mem_put.induct) (auto simp: fun_eq_iff)

lemma map_of_without: "map_of (filter (\<lambda>x. fst x \<noteq> l) xs) = (map_of xs)(l := None)"
  by (induction xs) (auto simp: fun_eq_iff)

lemma mem_pop_ok: "mem_inv s \<Longrightarrow> mem_inv (mem_pop l s) \<and> mem_contents (mem_pop l s) = (mem_contents s)(l := None)"
  by (auto simp: mem_inv_def mem_contents_def mem_pop_def map_of_without sorted_wrt_map intro: sorted_wrt_filter)

lemma mem_pop_batch_ok:
  "mem_inv s \<Longrightarrow> mem_inv (default_pop_batch mem_pop ls s) \<and>
   mem_contents (default_pop_batch mem_pop ls s) = (\<lambda>l. if l \<in> set ls then None else mem_contents s l)"
  unfolding default_pop_batch_def
proof (induction ls arbitrary: s)
  case (Cons l ls)
  have "mem_inv (mem_pop l s)" "mem_contents (mem_pop l s) = (mem_contents s)(l := None)" using mem_pop_ok Cons.prems by blast+
  then show ?case using Cons.IH [of "mem_pop l s"] by (auto simp: fun_eq_iff)
qed simp

lemma mem_put_inv:
  assumes "mem_inv s" "0 < k" "k < n" "ms_next_log_event_id s \<le> n"
  shows "mem_inv \<lparr>ms_next_log_event_id = n, ms_events = mem_put k v (ms_events s)\<rparr>"
proof -
  have "fst x = k \<or> fst x \<in> fst ` set (ms_events s)" if "x \<in> set (mem_put k v (ms_events s))" for x
    using mem_put_keys [of k v "ms_events s"] that by (metis imageI insert_iff)
  then show ?thesis using assms mem_put_sorted by (fastforce simp: mem_inv_def)
qed

interpretation mem: event_storage mem_ops mem_inv mem_contents
proof
  fix s s' :: mem_storage and e :: raw_event and q :: int and l :: nat and ls :: "nat list"
  assume s: "mem_inv s"
  have rec: "s\<lparr>ms_next_log_event_id := a, ms_events := b\<rparr> = \<lparr>ms_next_log_event_id = a, ms_events = b\<rparr>"
    "s\<lparr>ms_events := b\<rparr> = \<lparr>ms_next_log_event_id = ms_next_log_event_id s, ms_events = b\<rparr>" for a b
    by simp_all
  {
    assume "ev_log_id e = 0" "so_push mem_ops q e s = (l, s')"
    then have l: "l = ms_next_log_event_id s" "s' = \<lparr>ms_next_log_event_id = l + 1, ms_events = mem_put l (q, e) (ms_events s)\<rparr>"
      by (auto simp: mem_ops_def mem_push_def Let_def rec)
    have "k < l" if "k \<in> dom (mem_contents s)" for k
      using that s l(1) by (auto simp: mem_contents_def mem_inv_def dest!: map_of_SomeD)
    moreover have "mem_inv s'" unfolding l(2) by (rule mem_put_inv [OF s]) (use s l(1) in \<open>simp_all add: mem_inv_def\<close>)
    moreover have "mem_contents s' = (mem_contents s)(l \<mapsto> (q, e))" using s l(2) by (simp add: mem_contents_def mem_put_map mem_inv_def)
    ultimately show "mem_inv s' \<and> l \<noteq> 0 \<and> (\<forall>k \<in> dom (mem_contents s). k < l) \<and> mem_contents s' = (mem_contents s)(l \<mapsto> (q, e))"
      using s l(1) by (simp add: mem_inv_def)
  next
    assume a: "mem_contents s (ev_log_id e) \<noteq> None" "ev_log_id e \<noteq> 0" "so_push mem_ops q e s = (l, s')"
    then have l: "s' = \<lparr>ms_next_log_event_id = ms_next_log_event_id s, ms_events = mem_put (ev_log_id e) (q, e) (ms_events s)\<rparr>"
      by (auto simp: mem_ops_def mem_push_def Let_def rec)
    have "ev_log_id e < ms_next_log_event_id s" using a(1) s by (auto simp: mem_contents_def mem_inv_def dest!: map_of_SomeD)
    then have "mem_inv s'" unfolding l using a(2) by (intro mem_put_inv [OF s]) simp_all
    then show "mem_inv s' \<and> mem_contents s' = (mem_contents s)(ev_log_id e \<mapsto> (q, e))"
      using s l by (simp add: mem_contents_def mem_put_map mem_inv_def)
  }
  show "mem_inv (so_pop mem_ops l s) \<and> mem_contents (so_pop mem_ops l s) = (mem_contents s)(l := None)"
    using mem_pop_ok [OF s] by (simp add: mem_ops_def)
  show "mem_inv (so_pop_batch mem_ops ls s) \<and>
      mem_contents (so_pop_batch mem_ops ls s) = (\<lambda>l. if l \<in> set ls then None else mem_contents s l)"
    using mem_pop_batch_ok [OF s] by (simp add: mem_ops_def)
qed

section \<open>Runs\<close>

inductive tq_step :: "'s storage_ops \<Rightarrow> 's tqueue \<Rightarrow> 's tqueue \<Rightarrow> bool" for ops where
  step_push: "fresh_id rnd hint \<Longrightarrow> tq_push ops rnd qid data expires_at extra hint tq = Some (Checked (r, tq')) \<Longrightarrow> tq_step ops tq tq'"
| step_forget: "forget ops qid i tq = Checked tq' \<Longrightarrow> tq_step ops tq tq'"
| step_clear: "tq_step ops tq (snd (tq_clear ops qid keep tq))"
| step_get: "tq_get ops qid from f now n tq = Checked (r, tq') \<Longrightarrow> tq_step ops tq tq'"
| step_gc: "clock_mono late \<Longrightarrow> run_gc ops late now tq = Some (Checked (r, tq')) \<Longrightarrow> tq_step ops tq tq'"

lemma push_inv:
  assumes "tq_inv tq" "fresh_id rnd hint"
  shows "\<exists>r tq'. tq_push ops rnd qid data x extra hint tq = Some (Checked (r, tq')) \<and> tq_inv tq'"
  using assms
proof (cases rule: push_cases [where ops = ops and qid = qid and data = data and x = x and extra = extra])
  case (refused err tq')
  then show ?thesis using assms(1) tq_inv_touch by auto
next
  case (added q1 cb1 tq1 tq')
  then show ?thesis by auto
qed

lemma tq_step_inv: "tq_step ops tq tq' \<Longrightarrow> tq_inv tq \<Longrightarrow> tq_inv tq'"
proof (induction rule: tq_step.induct)
  case (step_push rnd hint qid data expires_at extra tq r tq')
  then show ?case using push_inv [OF step_push.prems step_push.hyps(1), of ops qid data expires_at extra] by auto
next
  case (step_forget qid i tq tq')
  then show ?case using forget_inv [OF step_forget.prems, of ops qid i] by auto
next
  case (step_clear tq qid keep)
  then show ?case by (rule clear_inv)
next
  case (step_get qid "from" f now n tq r tq')
  then show ?case using tq_get_effect [OF step_get.prems, of ops qid "from" f now n] by auto
next
  case (step_gc late now tq r tq')
  then show ?case using run_gc_ends [OF step_gc.prems step_gc.hyps(1), of ops now] by auto
qed

lemma tq_steps_inv: "(tq_step ops)\<^sup>*\<^sup>* tq tq' \<Longrightarrow> tq_inv tq \<Longrightarrow> tq_inv tq'"
  by (induction rule: rtranclp_induct) (auto intro: tq_step_inv)

context event_storage
begin

lemma tq_step_db: "tq_step ops tq tq' \<Longrightarrow> tq_inv tq \<Longrightarrow> db_inv sinv contents tq \<Longrightarrow> db_inv sinv contents tq'"
proof (induction rule: tq_step.induct)
  case (step_gc late now tq r tq')
  then show ?case unfolding run_gc_def by (blast intro: run_gc_db)
qed (auto intro: push_db forget_db clear_db get_db)

lemma tq_steps_db:
  "(tq_step ops)\<^sup>*\<^sup>* tq tq' \<Longrightarrow> tq_inv tq \<Longrightarrow> db_inv sinv contents tq \<Longrightarrow> tq_inv tq' \<and> db_inv sinv contents tq'"
  by (induction rule: rtranclp_induct) (auto intro: tq_step_inv tq_step_db)

end

section \<open>Restoring the queues\<close>

lemma sorted_key_unique:
  fixes f :: "'a \<Rightarrow> 'b::linorder"
  assumes "sorted_wrt (<) (map f xs)" "sorted_wrt (<) (map f ys)" "set xs = set ys"
  shows "xs = ys"
proof -
  have "map f xs = map f ys"
    by (rule sorted_distinct_set_unique) (use assms in \<open>auto simp: strict_sorted_iff\<close>)
  moreover have "inj_on f (set xs \<union> set ys)"
    using assms(1,3) by (simp add: strict_sorted_iff distinct_map)
  ultimately show ?thesis by (simp add: inj_on_map_eq_map)
qed

definition of_queue :: "int \<Rightarrow> (nat \<times> int \<times> raw_event) list \<Rightarrow> raw_event list" where
  "of_queue i xs = map (\<lambda>(l, q, e). e\<lparr>ev_log_id := l\<rparr>) (filter (\<lambda>(l, q, e). q = i) xs)"

lemma of_queue_simps [simp]: "of_queue i [] = []"
  "of_queue i ((l, q, e) # xs) = (if q = i then e\<lparr>ev_log_id := l\<rparr> # of_queue i xs else of_queue i xs)"
  by (simp_all add: of_queue_def)

lemma stored_of_queue:
  assumes "mem_inv s" "queue_stored (mem_contents s) i es"
  shows "of_queue i (ms_events s) = es"
proof (rule sorted_key_unique [of ev_log_id])
  have d: "distinct (map fst (ms_events s))" "sorted_wrt (<) (map fst (ms_events s))"
    using assms(1) by (simp_all add: mem_inv_def strict_sorted_iff)
  have k: "map ev_log_id (of_queue i (ms_events s)) = map fst (filter (\<lambda>(l, q, e). q = i) (ms_events s))"
    by (auto simp: of_queue_def)
  show "sorted_wrt (<) (map ev_log_id (of_queue i (ms_events s)))"
    unfolding k using d(2) by (simp add: sorted_wrt_map sorted_wrt_filter)
  show "sorted_wrt (<) (map ev_log_id es)" using assms(2) by (simp add: queue_stored_def)
  have m: "mem_contents s l = Some (q, e) \<longleftrightarrow> (l, q, e) \<in> set (ms_events s)" for l q e
    using d(1) by (auto simp: mem_contents_def dest: map_of_SomeD intro: map_of_is_SomeI)
  have same: "x\<lparr>ev_log_id := ev_log_id e\<rparr> = e" if "strip x = strip e" for x e
    using that by (cases x; cases e) (simp add: strip_def)
  show "set (of_queue i (ms_events s)) = set es"
  proof (intro set_eqI iffI)
    fix e assume "e \<in> set es"
    then obtain x where x: "(ev_log_id e, i, x) \<in> set (ms_events s)" "strip x = strip e" using assms(2) m by (auto simp: queue_stored_def)
    have "x\<lparr>ev_log_id := ev_log_id e\<rparr> \<in> set (of_queue i (ms_events s))" using x(1) by (force simp: of_queue_def)
    then show "e \<in> set (of_queue i (ms_events s))" using same [OF x(2)] by simp
  next
    fix e assume "e \<in> set (of_queue i (ms_events s))"
    then obtain l x where x: "(l, i, x) \<in> set (ms_events s)" "e = x\<lparr>ev_log_id := l\<rparr>" by (auto simp: of_queue_def)
    then have "l \<in> ev_log_id ` set es" using assms(2) m by (auto simp: queue_stored_def)
    then obtain y where "y \<in> set es" "ev_log_id y = l" by auto
    moreover from this obtain z where "mem_contents s l = Some (i, z)" "strip z = strip y" using assms(2) by (auto simp: queue_stored_def)
    ultimately have y: "y \<in> set es" "ev_log_id y = l" "mem_contents s l = Some (i, z)" "strip z = strip y" by simp_all
    have "mem_contents s l = Some (i, x)" using x(1) m by blast
    then have "z = x" using y(3) by simp
    then show "e \<in> set es" using same [OF y(4)] y x(2) by simp
  qed
qed

text \<open>The tail that belongs to a list of events.\<close>

definition tail_of :: "raw_event list \<Rightarrow> int" where
  "tail_of es = (if es = [] then 0 else ev_id (last es) + 1)"

definition replayed :: "tq_queue \<Rightarrow> raw_event list \<Rightarrow> bool" where
  "replayed q es \<longleftrightarrow> tq_events q = es \<and> tq_tail_id q = tail_of es"

lemma replay_events_ok:
  assumes "tq_inv tq" "tq_callback tq = None"
    "\<forall>i. \<exists>pre. replayed (queue_at tq i) pre \<and> pre @ of_queue i xs = tq_events (queue_at tq0 i)"
    "tq_inv tq0" "\<forall>(l, q, e) \<in> set xs. q \<noteq> 0"
  shows "\<exists>tq'. replay_events ops xs tq = Checked tq' \<and> tq_inv tq' \<and> (\<forall>i. replayed (queue_at tq' i) (tq_events (queue_at tq0 i)))"
  using assms(1-3,5)
proof (induction xs arbitrary: tq)
  case Nil
  have "replayed (queue_at tq i) (tq_events (queue_at tq0 i))" for i using Nil.prems(3) [rule_format, of i] by auto
  then show ?case using Nil.prems(1) by simp
next
  case (Cons x xs)
  obtain l qid e0 where x: "x = (l, qid, e0)" by (metis prod_cases3)
  define e where "e = e0\<lparr>ev_log_id := l\<rparr>"
  let ?q = "queue_at tq qid" and ?t = "queue_at tq0 qid"
  obtain pre where pre: "tq_events ?q = pre" "tq_tail_id ?q = tail_of pre" "pre @ e # of_queue qid xs = tq_events ?t"
    using Cons.prems(3) [rule_format, of qid] x by (auto simp: replayed_def e_def)
  have t: "queue_ok ?t" and q: "queue_ok ?q" using assms(4) Cons.prems(1) by (simp_all add: tq_inv_queue)
  have e: "event_ok (tq_tail_id ?t) e" using t pre(3) [symmetric] by (auto simp: queue_ok_def)
  have lt: "ev_id y < ev_id e" if "y \<in> set pre" for y
    using t that unfolding queue_ok_def pre(3) [symmetric] by (simp add: sorted_wrt_append)
  have full: "ev_data y \<noteq> []" if "y \<in> set pre" for y
  proof
    assume "ev_data y = []"
    then have "ev_id e \<le> ev_id y" using t that unfolding queue_ok_def pre(3) [symmetric] by auto
    then show False using lt [OF that] by simp
  qed
  have "sizes pre + data_size e \<le> MAX_TOTAL_EVENT_LENGTH" "length pre < MAX_QUEUE_EVENTS"
    using t sizes_nonneg [of "of_queue qid xs"] unfolding queue_ok_def pre(3) [symmetric] by auto
  moreover have "tail_of pre \<le> ev_id e"
    using lt [of "last pre"] e by (cases "pre = []") (auto simp: tail_of_def event_ok_def)
  ultimately have p: "pushable qid e ?q"
    using q e pre(1,2) Cons.prems(4) x by (simp add: pushable_def queue_ok_def event_ok_def)
  have id: "0 < ev_id e" "ev_id e + 1 < MAX_ID" using e t by (auto simp: event_ok_def queue_ok_def)
  have store: "store_event ops qid e (snd (drop_stub ops pre None)) = (e, None)"
    by (simp add: drop_stub_def store_event_def)
  obtain tq' g where d: "do_push ops qid e tq = Checked (True, tq')" "tq_inv tq'" "tq_callback tq' = None"
      "queue_at tq' qid = pushed_queue e (?q\<lparr>tq_gc_at := g\<rparr>)" "\<forall>i. i \<noteq> qid \<longrightarrow> queue_at tq' i = queue_at tq i"
    by (rule do_push_success [OF Cons.prems(1) id p, of ops]) (use that pre(1) Cons.prems(2) store in simp)
  have "filter (\<lambda>e. ev_data e \<noteq> []) pre = pre" using full by (simp add: filter_id_conv)
  then have "replayed (queue_at tq' qid) (pre @ [e])" using d(4) pre(1) by (simp add: replayed_def pushed_queue_def tail_of_def)
  then have "\<forall>i. \<exists>pre. replayed (queue_at tq' i) pre \<and> pre @ of_queue i xs = tq_events (queue_at tq0 i)"
    using d(5) Cons.prems(3) pre(3) x by (metis append.assoc append_Cons append_Nil of_queue_simps(2))
  from Cons.IH [OF d(2,3) this] Cons.prems(4) show ?case using d(1) x by (auto simp: e_def)
qed

lemma mem_keys_nonzero:
  assumes "tq_inv tq" "db_inv mem_inv mem_contents tq" "tq_callback tq = Some s"
  shows "\<forall>(l, q, e) \<in> set (ms_events s). q \<noteq> 0"
proof -
  have m: "mem_inv s" "queue_stored (mem_contents s) 0 []"
    using assms by (auto simp: db_inv_def tq_inv_def dest!: spec [of _ 0])
  have "(l, 0, e) \<notin> set (ms_events s)" for l e
    using m map_of_is_SomeI [of "ms_events s" l "(0, e)"]
    by (auto simp: mem_inv_def strict_sorted_iff queue_stored_def mem_contents_def)
  then show ?thesis by auto
qed

section \<open>Properties of the queues\<close>

text \<open>A run used by the witnesses: two updates for the queue 7 and their storage.\<close>

definition demo_tq0 :: "mem_storage tqueue" where
  "demo_tq0 = new_tqueue\<lparr>tq_callback := Some new_mem_storage\<rparr>"

definition demo_push :: "string \<Rightarrow> mem_storage tqueue \<Rightarrow> mem_storage tqueue" where
  "demo_push data tq = (case tq_push mem_ops (\<lambda>_. 5) 7 data 100 3 0 tq of Some (Checked (r, tq')) \<Rightarrow> tq' | _ \<Rightarrow> tq)"

definition demo_tq :: "mem_storage tqueue" where
  "demo_tq = demo_push ''two'' (demo_push ''one'' demo_tq0)"

lemma demo_fresh: "fresh_id (\<lambda>_. 5) 0"
  by (simp add: fresh_id_def)

lemma demo_push_step: "tq_inv tq \<Longrightarrow> tq_step mem_ops tq (demo_push data tq)"
  using push_inv [OF _ demo_fresh, of tq mem_ops 7 data 100 3] by (auto simp: demo_push_def intro: step_push [OF demo_fresh])

lemma demo_reach: "(tq_step mem_ops)\<^sup>*\<^sup>* demo_tq0 demo_tq"
proof -
  have 0: "tq_inv demo_tq0" unfolding demo_tq0_def by (rule new_tqueue_inv)
  have "tq_step mem_ops demo_tq0 (demo_push ''one'' demo_tq0)" by (rule demo_push_step [OF 0])
  moreover from tq_step_inv [OF this 0] have "tq_step mem_ops (demo_push ''one'' demo_tq0) demo_tq"
    unfolding demo_tq_def by (rule demo_push_step)
  ultimately show ?thesis by (meson rtranclp.simps)
qed

text \<open>
  C10: in every state that the operations lead to, with or without a storage, \<^verbatim>\<open>push\<close>, \<^verbatim>\<open>forget\<close> and \<^verbatim>\<open>get\<close> return: no \<^verbatim>\<open>CHECK\<close> fails,
  the search for an identifier in \<^verbatim>\<open>push\<close> ends, the identifiers of a queue increase strictly and lie between 1 and the
  tail, and the limits for the number and the total size of the events hold.
\<close>

theorem tqueue_operations_safe:
  assumes "(tq_step ops)\<^sup>*\<^sup>* (new_tqueue\<lparr>tq_callback := cb\<rparr>) tq" "fresh_id rnd hint"
  shows "(\<exists>r tq'. tq_push ops rnd qid data expires_at extra hint tq = Some (Checked (r, tq'))) \<and>
         (\<exists>tq'. forget ops qid i tq = Checked tq') \<and> (\<exists>r tq'. tq_get ops qid i f now n tq = Checked (r, tq')) \<and>
         sorted_wrt (<) (map ev_id (tq_events (queue_at tq qid))) \<and>
         (\<forall>e \<in> set (tq_events (queue_at tq qid)). 0 < ev_id e \<and> ev_id e < get_tail qid tq) \<and>
         get_size qid tq \<le> MAX_QUEUE_EVENTS \<and> sizes (tq_events (queue_at tq qid)) \<le> MAX_TOTAL_EVENT_LENGTH"
proof -
  have inv: "tq_inv tq" by (rule tq_steps_inv [OF assms(1) new_tqueue_inv])
  have q: "queue_ok (queue_at tq qid)" by (rule tq_inv_queue [OF inv])
  have tail: "get_tail qid tq = tq_tail_id (queue_at tq qid)" "get_size qid tq = queue_size (queue_at tq qid)"
    by (auto simp: get_tail_def get_size_def queue_at_def new_tq_queue_def queue_size_def split: option.splits)
  have "queue_size (queue_at tq qid) \<le> length (tq_events (queue_at tq qid))" by (simp add: queue_size_def)
  moreover have "\<exists>r tq'. tq_push ops rnd qid data expires_at extra hint tq = Some (Checked (r, tq'))"
    using push_inv [OF inv assms(2)] by blast
  moreover have "\<exists>tq'. forget ops qid i tq = Checked tq'" using forget_inv [OF inv] by blast
  moreover have "\<exists>r tq'. tq_get ops qid i f now n tq = Checked (r, tq')" using tq_get_effect [OF inv] by blast
  ultimately show ?thesis using q unfolding tail by (auto simp: queue_ok_def event_ok_def)
qed

theorem tqueue_operations_safe_witness:
  "map ev_id (tq_events (queue_at demo_tq 7)) = [5, 6] \<and> sorted_wrt (<) (map ev_id (tq_events (queue_at demo_tq 7)))"
proof -
  have "map ev_id (tq_events (queue_at demo_tq 7)) = [5, 6]" by code_simp
  then show ?thesis using tqueue_operations_safe [OF demo_reach [unfolded demo_tq0_def] demo_fresh, of 7] by simp
qed

text \<open>
  An update that \<^verbatim>\<open>push\<close> accepts becomes the last event of its queue, with the returned identifier, which is the
  tail of the queue unless the queue was new or the identifiers were used up; the new tail follows it.
\<close>

theorem push_appends:
  assumes "(tq_step ops)\<^sup>*\<^sup>* (new_tqueue\<lparr>tq_callback := cb\<rparr>) tq" "fresh_id rnd hint"
    and "tq_push ops rnd qid data expires_at extra hint tq = Some (Checked (Ok i, tq'))"
  shows "\<exists>e. last (tq_events (queue_at tq' qid)) = e \<and> tq_events (queue_at tq' qid) \<noteq> [] \<and>
           to_event e = \<lparr>te_id = i, te_expires_at = expires_at, te_data = data, te_extra = extra\<rparr> \<and>
           get_tail qid tq' = i + 1 \<and> (0 < get_tail qid tq \<and> get_tail qid tq + 1 < MAX_ID \<longrightarrow> i = get_tail qid tq)"
proof -
  have inv: "tq_inv tq" by (rule tq_steps_inv [OF assms(1) new_tqueue_inv])
  have tail: "get_tail qid t = tq_tail_id (queue_at t qid)" for t :: "'a tqueue"
    by (auto simp: get_tail_def queue_at_def new_tq_queue_def split: option.splits)
  from inv assms(2) show ?thesis
  proof (cases rule: push_cases [where ops = ops and qid = qid and data = data and x = expires_at and extra = extra])
    case (refused err tq2)
    then show ?thesis using assms(3) by simp
  next
    case (added q1 cb1 tq1 tq2)
    let ?e = "new_event (tq_tail_id q1) data expires_at extra"
    have i: "i = tq_tail_id q1" "tq2 = tq'" using added(1) assms(3) by auto
    have at: "queue_at tq1 qid = q1" using added(4) by simp
    have id: "0 < ev_id ?e" "ev_id ?e + 1 < MAX_ID" "pushable qid ?e (queue_at tq1 qid)" using added(7-9) at by (simp_all add: new_event_def)
    obtain g e1 where "queue_at tq' qid = pushed_queue e1 (q1\<lparr>tq_gc_at := g\<rparr>)" "to_event e1 = to_event ?e"
    proof (rule do_push_success [OF added(6) id, of ops])
      fix tq3 g
      let ?e1 = "fst (store_event ops qid ?e (snd (drop_stub ops (tq_events (queue_at tq1 qid)) (tq_callback tq1))))"
      assume "do_push ops qid ?e tq1 = Checked (True, tq3)" "queue_at tq3 qid = pushed_queue ?e1 ((queue_at tq1 qid)\<lparr>tq_gc_at := g\<rparr>)"
      moreover have "to_event ?e1 = to_event ?e" by (simp add: to_event_def store_event_def split: option.splits prod.splits)
      ultimately show ?thesis using that added(5) i(2) at by simp
    qed
    moreover have "i = tq_tail_id (queue_at tq qid)" if "0 < tq_tail_id (queue_at tq qid)" "tq_tail_id (queue_at tq qid) + 1 < MAX_ID"
      using tq_inv_queue [OF inv, of qid] assms(2)
      by (cases rule: push_loop_result [where ops = ops and qid = qid and cb = "tq_callback tq"]) (use that added(3) i(1) in auto)
    ultimately show ?thesis unfolding tail using i(1) by (auto simp: pushed_queue_def to_event_def new_event_def)
  qed
qed

theorem push_appends_witness:
  "\<exists>e. last (tq_events (queue_at demo_tq 7)) = e \<and> te_data (to_event e) = ''two'' \<and> get_tail 7 demo_tq = 7"
proof -
  let ?t = "demo_push ''one'' demo_tq0"
  have 0: "tq_inv demo_tq0" unfolding demo_tq0_def by (rule new_tqueue_inv)
  have r: "(tq_step mem_ops)\<^sup>*\<^sup>* demo_tq0 ?t" by (rule r_into_rtranclp [of "tq_step mem_ops", OF demo_push_step [OF 0]])
  have "case tq_push mem_ops (\<lambda>_. 5) 7 ''two'' 100 3 0 ?t of Some (Checked (Inr i, t)) \<Rightarrow> i = 6 | _ \<Rightarrow> False" by code_simp
  then obtain t where t: "tq_push mem_ops (\<lambda>_. 5) 7 ''two'' 100 3 0 ?t = Some (Checked (Ok 6, t))"
    by (auto split: option.splits checked.splits prod.splits sum.splits)
  then have "t = demo_tq" by (simp add: demo_tq_def demo_push_def)
  then show ?thesis using push_appends [OF r [unfolded demo_tq0_def] demo_fresh t [unfolded demo_tq0_def]] by (auto simp: demo_tq0_def)
qed

text \<open>
  \<^verbatim>\<open>get\<close> returns the first \<open>n\<close> events from the given identifier on that have data and have not expired, in the
  order of their identifiers, and a size of the queue that is at least their number; the other queues do not change.
\<close>

theorem get_returns_due:
  assumes "(tq_step ops)\<^sup>*\<^sup>* (new_tqueue\<lparr>tq_callback := cb\<rparr>) tq" "tq_get ops qid from_id f now n tq = Checked (Ok (m, got), tq')"
  shows "got = map to_event (take n (filter (\<lambda>e. now \<le> ev_expires_at e \<and> ev_data e \<noteq> [] \<and> from_id \<le> ev_id e) (tq_events (queue_at tq qid)))) \<and>
         length got \<le> m \<and> (\<forall>j. j \<noteq> qid \<longrightarrow> queue_at tq' j = queue_at tq j)"
proof -
  have inv: "tq_inv tq" by (rule tq_steps_inv [OF assms(1) new_tqueue_inv])
  have "filter (due now) (filter (\<lambda>e. from_id \<le> ev_id e) es) = filter (\<lambda>e. now \<le> ev_expires_at e \<and> ev_data e \<noteq> [] \<and> from_id \<le> ev_id e) es" for es
    by (simp add: due_def conj_ac)
  then show ?thesis using tq_get_effect [OF inv, of ops qid from_id f now n] assms(2) by auto
qed

theorem get_returns_due_witness:
  "\<exists>m got tq'. tq_get mem_ops 7 6 True 50 10 demo_tq = Checked (Ok (m, got), tq') \<and> map te_data got = [''two''] \<and> length got \<le> m"
proof -
  have "case tq_get mem_ops 7 6 True 50 10 demo_tq of Checked (Inr (m, got), t) \<Rightarrow> map te_data got = [''two''] | _ \<Rightarrow> False" by code_simp
  then obtain m got t where g: "tq_get mem_ops 7 6 True 50 10 demo_tq = Checked (Ok (m, got), t)" "map te_data got = [''two'']"
    by (auto split: checked.splits prod.splits sum.splits)
  have "length got \<le> m" using get_returns_due [OF demo_reach [unfolded demo_tq0_def] g(1)] by blast
  then show ?thesis using g by simp
qed

text \<open>
  C11: garbage collection ends: after at most one iteration per scheduled queue and one more, if the clock does not go
  back; when it reports completion, no queue is scheduled for a time before now.
\<close>

theorem run_gc_terminates:
  assumes "(tq_step ops)\<^sup>*\<^sup>* (new_tqueue\<lparr>tq_callback := cb\<rparr>) tq" "clock_mono late"
  shows "\<exists>n b tq'. run_gc ops late now tq = Some (Checked ((n, b), tq')) \<and>
           (b \<longrightarrow> (\<forall>i. tq_gc_at (queue_at tq' i) = 0 \<or> now \<le> tq_gc_at (queue_at tq' i)))"
  using run_gc_ends [OF tq_steps_inv [OF assms(1) new_tqueue_inv] assms(2), of ops now] by blast

theorem run_gc_terminates_witness:
  "\<exists>n b tq'. run_gc mem_ops (\<lambda>_. False) 200 demo_tq = Some (Checked ((n, b), tq')) \<and> n = 2"
proof -
  have "clock_mono (\<lambda>_. False)" by (simp add: clock_mono_def)
  from run_gc_terminates [OF demo_reach [unfolded demo_tq0_def] this, of 200] obtain n b tq' where
    r: "run_gc mem_ops (\<lambda>_. False) 200 demo_tq = Some (Checked ((n, b), tq'))" by blast
  have "case run_gc mem_ops (\<lambda>_. False) 200 demo_tq of Some (Checked ((n, b), t)) \<Rightarrow> n = 2 | _ \<Rightarrow> False" by code_simp
  then show ?thesis using r by auto
qed

text \<open>
  C9: the storage refines the queues: whatever operations are performed on a queue with a storage in memory, replaying
  the stored events into an empty \<^verbatim>\<open>TQueue\<close> succeeds and gives back every queue with its events and its tail, so that
  identifiers are not reused after a restart.
\<close>

theorem replay_restores:
  assumes "(tq_step mem_ops)\<^sup>*\<^sup>* (new_tqueue\<lparr>tq_callback := Some new_mem_storage\<rparr>) tq" "tq_callback tq = Some s"
  shows "\<exists>tq'. mem_replay ops s new_tqueue = Checked tq' \<and>
           (\<forall>i. tq_events (queue_at tq' i) = tq_events (queue_at tq i) \<and> get_tail i tq' = get_tail i tq \<and> get_size i tq' = get_size i tq)"
proof -
  let ?start = "new_tqueue\<lparr>tq_callback := Some new_mem_storage\<rparr>"
  have "mem_inv new_mem_storage" "queue_stored (mem_contents new_mem_storage) i []" for i
    by (simp_all add: mem_inv_def new_mem_storage_def queue_stored_def mem_contents_def)
  then have "db_inv mem_inv mem_contents ?start"
    by (simp add: db_inv_def new_tqueue_def queue_at_def new_tq_queue_def tail_kept_def)
  with assms(1) have inv: "tq_inv tq" "db_inv mem_inv mem_contents tq"
    using mem.tq_steps_db [OF _ new_tqueue_inv] by blast+
  have s: "mem_inv s" "queue_stored (mem_contents s) i (tq_events (queue_at tq i))" "tail_kept (queue_at tq i)" for i
    using inv(2) assms(2) by (auto simp: db_inv_def)
  let ?new = "new_tqueue :: 'a tqueue"
  have new: "tq_inv ?new" using new_tqueue_inv [of None] by (simp add: new_tqueue_def)
  have rep: "replayed (queue_at ?new i) []" for i by (simp add: replayed_def queue_at_def new_tqueue_def new_tq_queue_def tail_of_def)
  have all: "\<forall>i. \<exists>pre. replayed (queue_at ?new i) pre \<and> pre @ of_queue i (ms_events s) = tq_events (queue_at tq i)"
    using rep stored_of_queue [OF s(1,2)] by (intro allI exI [of _ "[]"]) simp
  have "tq_callback ?new = None" by (simp add: new_tqueue_def)
  from replay_events_ok [OF new this all inv(1) mem_keys_nonzero [OF inv assms(2)], of ops]
  have "\<exists>tq'. mem_replay ops s ?new = Checked tq' \<and> tq_inv tq' \<and> (\<forall>i. replayed (queue_at tq' i) (tq_events (queue_at tq i)))"
    unfolding mem_replay_def .
  then obtain tq' where r: "mem_replay ops s ?new = Checked tq'" "\<And>i. replayed (queue_at tq' i) (tq_events (queue_at tq i))" by blast
  have tail: "tail_of (tq_events (queue_at tq i)) = tq_tail_id (queue_at tq i)" for i
  proof -
    have "queue_ok (queue_at tq i)" by (rule tq_inv_queue [OF inv(1)])
    then have "tq_events (queue_at tq i) = []" if "tq_tail_id (queue_at tq i) = 0"
      using that by (cases "tq_events (queue_at tq i)") (auto simp: queue_ok_def event_ok_def)
    then show ?thesis using s(3) [of i] by (auto simp: tail_kept_def tail_of_def)
  qed
  have get: "get_tail i t = tq_tail_id (queue_at t i)" "get_size i t = queue_size (queue_at t i)" for i and t :: "'b tqueue"
    by (auto simp: get_tail_def get_size_def queue_at_def new_tq_queue_def queue_size_def split: option.splits)
  have get': "get_tail i t = tq_tail_id (queue_at t i)" "get_size i t = queue_size (queue_at t i)" for i and t :: "'a tqueue"
    by (auto simp: get_tail_def get_size_def queue_at_def new_tq_queue_def queue_size_def split: option.splits)
  have "tq_events (queue_at tq' i) = tq_events (queue_at tq i) \<and> tq_tail_id (queue_at tq' i) = tq_tail_id (queue_at tq i)" for i
    using r(2) [of i] tail by (simp add: replayed_def)
  then show ?thesis using r(1) by (auto simp: get get' queue_size_def)
qed

theorem replay_restores_witness:
  "\<exists>tq'. mem_replay mem_ops (the (tq_callback demo_tq)) new_tqueue = Checked tq' \<and> get_tail 7 tq' = 7 \<and>
     map ev_data (tq_events (queue_at tq' 7)) = [''one'', ''two'']"
proof -
  have "tq_callback demo_tq \<noteq> None" "get_tail 7 demo_tq = 7" "map ev_data (tq_events (queue_at demo_tq 7)) = [''one'', ''two'']"
    by code_simp+
  moreover obtain tq' where "mem_replay mem_ops (the (tq_callback demo_tq)) new_tqueue = Checked tq'"
      "\<And>i. tq_events (queue_at tq' i) = tq_events (queue_at demo_tq i) \<and> get_tail i tq' = get_tail i demo_tq"
    using replay_restores [OF demo_reach [unfolded demo_tq0_def], of "the (tq_callback demo_tq)" mem_ops] calculation(1) by auto
  ultimately show ?thesis by auto
qed

text \<open>
  \<^verbatim>\<open>clear\<close> counts the empty last event as one of the events to keep: when the last event of the queue was forgotten
  and only its record is left, one pending update less than requested is kept.
\<close>

theorem clear_keeps_one_less:
  assumes "tq_queues tq qid = Some q" "tq_events q \<noteq> []" "ev_data (last (tq_events q)) = []" "0 < keep" "keep < get_size qid tq"
  shows "get_size qid (snd (tq_clear ops qid keep tq)) = keep - 1"
proof -
  have k: "keep < length (tq_events q) - 1" "queue_size q = length (tq_events q) - 1"
    using assms by (simp_all add: get_size_def queue_size_def)
  then have n: "clear_end ops qid keep (tq_events q) (tq_total_event_length q) (tq_callback tq) =
      (length (tq_events q) - keep, tq_events q, tq_total_event_length q, tq_callback tq)"
    using assms(4) by (simp add: clear_end_def)
  let ?es = "drop (length (tq_events q) - keep) (tq_events q)"
  have "length ?es = keep" "?es \<noteq> []" "last ?es = last (tq_events q)" using k assms(4) by auto
  then show ?thesis
    using assms k n by (simp add: tq_clear_def Let_def get_size_def put_queue_def queue_size_def)
qed

definition demo_forgot :: "mem_storage tqueue" where
  "demo_forgot = (case forget mem_ops 7 7 (demo_push ''three'' demo_tq) of Checked tq \<Rightarrow> tq | _ \<Rightarrow> demo_tq)"

theorem clear_keeps_one_less_witness:
  "get_size 7 demo_forgot = 2 \<and> get_size 7 (snd (tq_clear mem_ops 7 1 demo_forgot)) = 0"
proof -
  have c: "case tq_queues demo_forgot 7 of Some q \<Rightarrow> tq_events q \<noteq> [] \<and> ev_data (last (tq_events q)) = [] | None \<Rightarrow> False"
    "get_size 7 demo_forgot = 2" by code_simp+
  then obtain q where "tq_queues demo_forgot 7 = Some q" "tq_events q \<noteq> []" "ev_data (last (tq_events q)) = []"
    by (auto split: option.splits)
  from clear_keeps_one_less [OF this, of 1 mem_ops] c(2) show ?thesis by simp
qed

end
