(* ===== verification/Td_Base64.thy ===== *)
theory Td_Base64
  imports Td_Misc
begin

text \<open>
  \<^verbatim>\<open>td/tdutils/td/utils/base64.cpp\<close>: both alphabets, encoding, decoding into a buffer of a size computed in advance,
  and the validity tests.  The theory shows that decoding inverts encoding, that the decoder writes exactly the bytes of
  its buffer, and that the tests accept exactly the strings that can be decoded.  The shifts and masks of the sources are
  written as divisions and remainders by powers of two.
\<close>

section \<open>Alphabets\<close>

definition get_characters :: "bool \<Rightarrow> string" where
  "get_characters is_url =
     (if is_url then ''ABCDEFGHIJKLMNOPQRSTUVWXYZabcdefghijklmnopqrstuvwxyz0123456789-_''
      else ''ABCDEFGHIJKLMNOPQRSTUVWXYZabcdefghijklmnopqrstuvwxyz0123456789+/'')"

definition get_character_table :: "bool \<Rightarrow> char \<Rightarrow> nat" where
  "get_character_table is_url = foldl (\<lambda>t i. t(get_characters is_url ! i := i)) (\<lambda>_. 64) [0..<64]"

section \<open>Encoding\<close>

fun base64_encode_impl :: "bool \<Rightarrow> string \<Rightarrow> string" where
  "base64_encode_impl is_url [] = []"
| "base64_encode_impl is_url [x] =
     (let cs = get_characters is_url; c = code x * 2 ^ 16
      in [cs ! (c div 2 ^ 18), cs ! ((c div 2 ^ 12) mod 64)] @ (if is_url then [] else ''==''))"
| "base64_encode_impl is_url [x, y] =
     (let cs = get_characters is_url; c = code x * 2 ^ 16 + code y * 2 ^ 8
      in [cs ! (c div 2 ^ 18), cs ! ((c div 2 ^ 12) mod 64), cs ! ((c div 2 ^ 6) mod 64)] @ (if is_url then [] else ''=''))"
| "base64_encode_impl is_url (x # y # z # s) =
     (let cs = get_characters is_url; c = code x * 2 ^ 16 + code y * 2 ^ 8 + code z
      in [cs ! (c div 2 ^ 18), cs ! ((c div 2 ^ 12) mod 64), cs ! ((c div 2 ^ 6) mod 64), cs ! (c mod 64)] @
         base64_encode_impl is_url s)"

definition base64_encode :: "string \<Rightarrow> string" where
  "base64_encode = base64_encode_impl False"

definition base64url_encode :: "string \<Rightarrow> string" where
  "base64url_encode = base64_encode_impl True"

section \<open>Decoding\<close>

definition padding_length :: "string \<Rightarrow> nat" where
  "padding_length s = length (takeWhile (\<lambda>c. c = CHR ''='') (rev s))"

definition without_padding :: "string \<Rightarrow> string" where
  "without_padding s = take (length s - padding_length s) s"

definition base64_drop_padding :: "bool \<Rightarrow> string \<Rightarrow> string result" where
  "base64_drop_padding is_url base64 =
     (let n = padding_length base64; s = without_padding base64
      in if n \<ge> 3 then Error 0 ''Wrong string padding''
         else if (\<not> is_url \<or> n > 0) \<and> (length s + n) mod 4 \<noteq> 0 then Error 0 ''Wrong padding length''
         else if is_url \<and> length s mod 4 = 1 then Error 0 ''Wrong string length''
         else Ok s)"

text \<open>The bytes that \<^verbatim>\<open>do_base64_decode_impl\<close> writes from the beginning of its buffer.\<close>

fun do_base64_decode_impl :: "(char \<Rightarrow> nat) \<Rightarrow> string \<Rightarrow> string result" where
  "do_base64_decode_impl table [] = Ok []"
| "do_base64_decode_impl table [a] =
     (if table a = 64 then Error 0 ''Wrong character in the string''
      else (let c = table a * 2 ^ 18 in Ok [char_of (c div 2 ^ 16), char_of (c div 2 ^ 8), char_of c]))"
| "do_base64_decode_impl table [a, b] =
     (if table a = 64 \<or> table b = 64 then Error 0 ''Wrong character in the string''
      else (let c = table a * 2 ^ 18 + table b * 2 ^ 12
            in if c mod 2 ^ 16 \<noteq> 0 then Error 0 ''Wrong padding in the string'' else Ok [char_of (c div 2 ^ 16)]))"
| "do_base64_decode_impl table [a, b, d] =
     (if table a = 64 \<or> table b = 64 \<or> table d = 64 then Error 0 ''Wrong character in the string''
      else (let c = table a * 2 ^ 18 + table b * 2 ^ 12 + table d * 2 ^ 6
            in if c mod 2 ^ 8 \<noteq> 0 then Error 0 ''Wrong padding in the string''
               else Ok [char_of (c div 2 ^ 16), char_of (c div 2 ^ 8)]))"
| "do_base64_decode_impl table (a # b # d # e # s) =
     (if table a = 64 \<or> table b = 64 \<or> table d = 64 \<or> table e = 64 then Error 0 ''Wrong character in the string''
      else (let c = table a * 2 ^ 18 + table b * 2 ^ 12 + table d * 2 ^ 6 + table e
            in case do_base64_decode_impl table s of
                 Inl err \<Rightarrow> Inl err
               | Inr r \<Rightarrow> Ok ([char_of (c div 2 ^ 16), char_of (c div 2 ^ 8), char_of c] @ r)))"

definition decoded_size :: "nat \<Rightarrow> nat" where
  "decoded_size n = n div 4 * 3 + (n mod 4 + 1) div 2"

text \<open>The buffer is created with zero bytes; the written bytes replace its beginning.\<close>

definition base64_decode_impl :: "bool \<Rightarrow> string \<Rightarrow> string result" where
  "base64_decode_impl is_url base64 =
     (case base64_drop_padding is_url base64 of
        Inl err \<Rightarrow> Inl err
      | Inr s \<Rightarrow>
          (case do_base64_decode_impl (get_character_table is_url) s of
             Inl err \<Rightarrow> Inl err
           | Inr out \<Rightarrow> Ok (out @ drop (length out) (replicate (decoded_size (length s)) (CHR 0x00)))))"

definition base64_decode :: "string \<Rightarrow> string result" where
  "base64_decode = base64_decode_impl False"

definition base64url_decode :: "string \<Rightarrow> string result" where
  "base64url_decode = base64_decode_impl True"

text \<open>The variants for \<^verbatim>\<open>SecureString\<close> differ only in the type of the result.\<close>

definition base64_decode_secure :: "string \<Rightarrow> string result" where
  "base64_decode_secure = base64_decode_impl False"

definition base64url_decode_secure :: "string \<Rightarrow> string result" where
  "base64url_decode_secure = base64_decode_impl True"

section \<open>Validity\<close>

definition is_base64_characters_impl :: "bool \<Rightarrow> string \<Rightarrow> bool" where
  "is_base64_characters_impl is_url s \<longleftrightarrow> (\<forall>c \<in> set s. get_character_table is_url c \<noteq> 64)"

definition is_base64url_characters :: "string \<Rightarrow> bool" where
  "is_base64url_characters = is_base64_characters_impl True"

definition is_base64_characters :: "string \<Rightarrow> bool" where
  "is_base64_characters = is_base64_characters_impl False"

definition is_base64_impl :: "bool \<Rightarrow> string \<Rightarrow> bool" where
  "is_base64_impl is_url input =
     (let n = padding_length input; s = without_padding input; table = get_character_table is_url
      in if n \<ge> 3 then False
         else if (\<not> is_url \<or> n > 0) \<and> (length s + n) mod 4 \<noteq> 0 then False
         else if is_url \<and> length s mod 4 = 1 then False
         else if \<not> (\<forall>c \<in> set s. table c \<noteq> 64) then False
         else if length s mod 4 = 2 \<and> table (last s) mod 16 \<noteq> 0 then False
         else if length s mod 4 = 3 \<and> table (last s) mod 4 \<noteq> 0 then False
         else True)"

definition is_base64 :: "string \<Rightarrow> bool" where
  "is_base64 = is_base64_impl False"

definition is_base64url :: "string \<Rightarrow> bool" where
  "is_base64url = is_base64_impl True"

definition base64_filter :: "string \<Rightarrow> string" where
  "base64_filter s = filter (\<lambda>c. get_character_table False c \<noteq> 64 \<or> c = CHR ''='') s"

section \<open>The table inverts the alphabet\<close>

lemma foldl_table:
  "foldl (\<lambda>t i. t(cs ! i := i)) (\<lambda>_. d) [0..<n] c = (if \<exists>i<n. cs ! i = c then (GREATEST i. i < n \<and> cs ! i = c) else d)"
proof (induction n)
  case (Suc n)
  show ?case
  proof (cases "cs ! n = c")
    case True
    then have "(GREATEST i. i < Suc n \<and> cs ! i = c) = n" by (intro Greatest_equality) auto
    then show ?thesis using True by auto
  next
    case False
    then have "(i < Suc n \<and> cs ! i = c) \<longleftrightarrow> (i < n \<and> cs ! i = c)" for i by (auto simp: less_Suc_eq)
    then show ?thesis using False Suc by auto
  qed
qed simp

lemma length_characters [simp]: "length (get_characters u) = 64"
  by (cases u) (simp_all add: get_characters_def)

lemma distinct_characters: "distinct (get_characters u)"
proof -
  have "distinct (get_characters True)" "distinct (get_characters False)" by code_simp+
  then show ?thesis by (cases u) simp_all
qed

lemma table_at [simp]: "i < 64 \<Longrightarrow> get_character_table u (get_characters u ! i) = i"
proof -
  assume "i < 64"
  then have "(j < 64 \<and> get_characters u ! j = get_characters u ! i) \<longleftrightarrow> j = i" for j
    using nth_eq_iff_index_eq [OF distinct_characters [of u]] by auto
  moreover have "(GREATEST j. j = i) = i" by (rule Greatest_equality) auto
  ultimately show ?thesis unfolding get_character_table_def foldl_table using \<open>i < 64\<close> by auto
qed

lemma table_range: "get_character_table u c < 64 \<and> get_characters u ! get_character_table u c = c \<or> get_character_table u c = 64"
proof (cases "\<exists>i<64. get_characters u ! i = c")
  case True
  then obtain i where "i < 64" "get_characters u ! i = c" by blast
  then show ?thesis using table_at [of i u] by simp
next
  case False
  then show ?thesis unfolding get_character_table_def foldl_table by auto
qed

lemma table_less: "get_character_table u c \<noteq> 64 \<Longrightarrow> get_character_table u c < 64"
  using table_range [of u c] by auto

section \<open>Round trip\<close>

lemma table_ne_64 [simp]: "i < 64 \<Longrightarrow> get_character_table u (get_characters u ! i) \<noteq> 64"
  by simp

lemma sextets: "c div 262144 * 262144 + c div 4096 mod 64 * 4096 + c div 64 mod 64 * 64 + c mod 64 = c" for c :: nat
proof -
  have q: "c div 4096 = c div 64 div 64" "c div 262144 = c div 4096 div 64" by (simp_all flip: div_mult2_eq)
  have "c = c div 64 * 64 + c mod 64" "c div 64 = c div 4096 * 64 + c div 64 mod 64" "c div 4096 = c div 262144 * 64 + c div 4096 mod 64"
    unfolding q by simp_all
  then show ?thesis by linarith
qed

lemma octets:
  fixes c :: nat
  assumes "x < 256" "y < 256" "z < 256" "c = x * 65536 + y * 256 + z"
  shows "c div 262144 < 64 \<and> char_of (c div 65536) = (char_of x :: char) \<and> char_of (c div 256) = (char_of y :: char) \<and>
         char_of c = (char_of z :: char)"
proof -
  have "c = (x * 256 + y) * 256 + z" using assms(4) by simp
  then have c: "c div 256 = x * 256 + y" "c mod 256 = z" using assms(3) by (simp_all only: div_mult_self3 mod_mult_self3) simp_all
  have "c div 65536 = c div 256 div 256" by (simp flip: div_mult2_eq)
  then have "c div 65536 = x" using c(1) assms(2) by simp
  moreover have "c div 262144 < 64" using assms by simp
  moreover have "char_of (x * 256 + y) = (char_of y :: char)" "char_of c = (char_of z :: char)"
    by (metis c(2) assms(4) char_of_mod_256 mod_mult_self3)+
  ultimately show ?thesis using c by simp
qed

lemma character_not_padding: "i < 64 \<Longrightarrow> CHR ''='' \<noteq> get_characters u ! i"
proof -
  have "CHR ''='' \<notin> set (get_characters u)" by (cases u) (simp_all add: get_characters_def)
  then show "i < 64 \<Longrightarrow> ?thesis" by (metis length_characters nth_mem)
qed

lemma replicate_2: "replicate 2 x = [x, x]"
  by (simp add: numeral_2_eq_2)

text \<open>An encoded string: its digits, which decode to the string, and its padding.\<close>

definition encodes :: "bool \<Rightarrow> string \<Rightarrow> string \<Rightarrow> nat \<Rightarrow> bool" where
  "encodes u s b k \<longleftrightarrow> CHR ''='' \<notin> set b \<and> do_base64_decode_impl (get_character_table u) b = Ok s \<and>
     k < 3 \<and> (if u then k = 0 else (length b + k) mod 4 = 0) \<and> length b mod 4 \<noteq> 1"

lemma encode_encodes: "\<exists>b k. base64_encode_impl u s = b @ replicate k (CHR ''='') \<and> encodes u s b k"
proof (induction u s rule: base64_encode_impl.induct)
  case (1 u)
  show ?case by (intro exI [of _ "[]"] exI [of _ 0]) (simp add: encodes_def)
next
  case (2 u x)
  let ?cs = "get_characters u" and ?k = "if u then 0 else 2 :: nat"
  define c where "c = code x * 65536"
  define i j where "i = c div 262144" and "j = c div 4096 mod 64"
  have "c = code x * 65536 + 0 * 256 + 0" by (simp add: c_def)
  from octets [OF code_less _ _ this] sextets [of c] have c: "i < 64" "char_of (c div 65536) = x" "i * 262144 + j * 4096 = c"
    by (simp_all add: c_def i_def j_def)
  have "base64_encode_impl u [x] = [?cs ! i, ?cs ! j] @ replicate ?k (CHR ''='')"
    by (simp add: i_def j_def c_def Let_def replicate_2)
  moreover have "c mod 65536 = 0" "j < 64" by (simp_all add: c_def j_def)
  then have "encodes u [x] [?cs ! i, ?cs ! j] ?k" using c by (auto simp: encodes_def character_not_padding)
  ultimately show ?case by blast
next
  case (3 u x y)
  let ?cs = "get_characters u" and ?k = "if u then 0 else 1 :: nat"
  define c where "c = code x * 65536 + code y * 256"
  define i j k where "i = c div 262144" and "j = c div 4096 mod 64" and "k = c div 64 mod 64"
  have "c = code x * 65536 + code y * 256 + 0" by (simp add: c_def)
  note c = octets [OF code_less code_less _ this, simplified]
  have m: "c mod 256 = 0" by (simp add: c_def mod_add_eq [symmetric])
  then have "c mod 64 = 0" by presburger
  with sextets [of c] have s: "i * 262144 + j * 4096 + k * 64 = c" by (simp add: i_def j_def k_def)
  have "base64_encode_impl u [x, y] = [?cs ! i, ?cs ! j, ?cs ! k] @ replicate ?k (CHR ''='')"
    by (simp add: i_def j_def k_def c_def Let_def)
  moreover have "i < 64" "j < 64" "k < 64" using c by (simp_all add: i_def j_def k_def)
  then have "encodes u [x, y] [?cs ! i, ?cs ! j, ?cs ! k] ?k" using c s m by (auto simp: encodes_def character_not_padding)
  ultimately show ?case by blast
next
  case (4 u x y z s)
  let ?cs = "get_characters u"
  define c where "c = code x * 65536 + code y * 256 + code z"
  define i j k l where "i = c div 262144" and "j = c div 4096 mod 64" and "k = c div 64 mod 64" and "l = c mod 64"
  note c = octets [OF code_less code_less code_less c_def, simplified]
  have s: "i * 262144 + j * 4096 + k * 64 + l = c" using sextets [of c] by (simp add: i_def j_def k_def l_def)
  have lt: "i < 64" "j < 64" "k < 64" "l < 64" using c by (simp_all add: i_def j_def k_def l_def)
  obtain b n where b: "base64_encode_impl u s = b @ replicate n (CHR ''='')" "encodes u s b n" using "4.IH" [OF refl refl] by blast
  have "base64_encode_impl u (x # y # z # s) = [?cs ! i, ?cs ! j, ?cs ! k, ?cs ! l] @ base64_encode_impl u s"
    by (simp add: i_def j_def k_def l_def c_def Let_def)
  moreover have "encodes u (x # y # z # s) (?cs ! i # ?cs ! j # ?cs ! k # ?cs ! l # b) n"
    using b(2) c s lt by (auto simp: encodes_def character_not_padding)
  ultimately show ?case using b(1) by (intro exI conjI) auto
qed

lemma padding_append: "CHR ''='' \<notin> set b \<Longrightarrow> padding_length (b @ replicate k (CHR ''='')) = k"
proof -
  assume "CHR ''='' \<notin> set b"
  then have "takeWhile (\<lambda>c. c = CHR ''='') (rev b) = []" by (cases b rule: rev_cases) auto
  then show ?thesis by (simp add: padding_length_def takeWhile_append)
qed

text \<open>The decoder writes as many bytes as the buffer has, when the length is one that passes the padding checks.\<close>

lemma decode_length:
  "do_base64_decode_impl t s = Ok out \<Longrightarrow> length s mod 4 \<noteq> 1 \<Longrightarrow> length out = decoded_size (length s)"
proof (induction t s arbitrary: out rule: do_base64_decode_impl.induct)
  case (5 t a b d e s)
  then show ?case by (auto simp: decoded_size_def Let_def split: if_splits sum.splits)
qed (auto simp: decoded_size_def Let_def split: if_splits)

lemma decode_encode: "base64_decode_impl u (base64_encode_impl u s) = Ok s"
proof -
  obtain b k where b: "base64_encode_impl u s = b @ replicate k (CHR ''='')" "encodes u s b k" using encode_encodes by blast
  have "padding_length (base64_encode_impl u s) = k" "without_padding (base64_encode_impl u s) = b"
    using b by (simp_all add: without_padding_def padding_append encodes_def)
  then have "base64_drop_padding u (base64_encode_impl u s) = Ok b" using b(2) by (auto simp: base64_drop_padding_def encodes_def split: if_splits)
  moreover have "length s = decoded_size (length b)" using b(2) decode_length by (auto simp: encodes_def)
  ultimately show ?thesis using b(2) by (simp add: base64_decode_impl_def encodes_def)
qed

interpretation b64: codec base64_encode "\<lambda>s. result_opt (base64_decode s)"
  by unfold_locales (simp add: base64_encode_def base64_decode_def decode_encode)

interpretation b64url: codec base64url_encode "\<lambda>s. result_opt (base64url_decode s)"
  by unfold_locales (simp add: base64url_encode_def base64url_decode_def decode_encode)

section \<open>The validity test\<close>

text \<open>The digits that the decoder accepts.\<close>

definition good_digits :: "(char \<Rightarrow> nat) \<Rightarrow> string \<Rightarrow> bool" where
  "good_digits t s \<longleftrightarrow> (\<forall>c \<in> set s. t c \<noteq> 64) \<and> (length s mod 4 = 2 \<longrightarrow> t (last s) mod 16 = 0) \<and>
     (length s mod 4 = 3 \<longrightarrow> t (last s) mod 4 = 0)"

lemma good_digits_step: "good_digits t (a # b # d # e # s) \<longleftrightarrow> t a \<noteq> 64 \<and> t b \<noteq> 64 \<and> t d \<noteq> 64 \<and> t e \<noteq> 64 \<and> good_digits t s"
proof -
  have "length (a # b # d # e # s) mod 4 = length s mod 4" by simp
  moreover have "last (a # b # d # e # s) = last s" if "length s mod 4 \<noteq> 0" using that by (cases s) simp_all
  ultimately show ?thesis unfolding good_digits_def by (auto simp del: length_Cons list.size)
qed

lemma low_bits:
  "(x * 262144 + y * 4096) mod 65536 = y mod 16 * 4096" "(x * 262144 + y * 4096 + z * 64) mod 256 = z mod 4 * 64"
  for x y z :: nat
proof -
  have "(x * 262144 + y * 4096) mod 65536 = (x * 4 * 65536 + y * 4096) mod 65536" by (simp add: mult.assoc)
  also have "\<dots> = y * 4096 mod (16 * 4096)" by (simp only: mod_mult_self3) simp
  finally show "(x * 262144 + y * 4096) mod 65536 = y mod 16 * 4096" by (simp only: mod_mult_mult2)
  have "(x * 262144 + y * 4096 + z * 64) mod 256 = ((x * 1024 + y * 16) * 256 + z * 64) mod 256" by (simp add: add_mult_distrib mult.assoc)
  also have "\<dots> = z * 64 mod (4 * 64)" by (simp only: mod_mult_self3) simp
  finally show "(x * 262144 + y * 4096 + z * 64) mod 256 = z mod 4 * 64" by (simp only: mod_mult_mult2)
qed

lemma decode_ok_iff: "is_ok (do_base64_decode_impl t s) \<longleftrightarrow> good_digits t s"
proof (induction t s rule: do_base64_decode_impl.induct)
  case (3 t a b)
  show ?case using low_bits(1) [of "t a" "t b"] by (auto simp: good_digits_def Let_def is_ok_def)
next
  case (4 t a b d)
  show ?case using low_bits(2) [of "t a" "t b" "t d"] by (auto simp: good_digits_def Let_def is_ok_def)
next
  case (5 t a b d e s)
  then show ?case unfolding good_digits_step by (auto simp: Let_def is_ok_def split: sum.splits)
qed (auto simp: good_digits_def is_ok_def)

lemma is_base64_iff: "is_base64_impl u s \<longleftrightarrow> is_ok (base64_decode_impl u s)"
proof -
  have "is_ok (base64_decode_impl u s) \<longleftrightarrow>
      is_ok (base64_drop_padding u s) \<and> is_ok (do_base64_decode_impl (get_character_table u) (without_padding s))"
    by (auto simp: base64_decode_impl_def base64_drop_padding_def is_ok_def Let_def split: sum.splits)
  moreover have "is_base64_impl u s \<longleftrightarrow> is_ok (base64_drop_padding u s) \<and> good_digits (get_character_table u) (without_padding s)"
    unfolding is_base64_impl_def base64_drop_padding_def good_digits_def Let_def is_ok_def by simp
  ultimately show ?thesis by (simp add: decode_ok_iff)
qed

text \<open>
  C39: decoding inverts encoding in both base64 variants, the decoder writes exactly the bytes of its buffer, and the
  validity tests accept exactly the strings that can be decoded.
\<close>

theorem base64_correct:
  "base64_decode (base64_encode s) = Ok s \<and> base64url_decode (base64url_encode s) = Ok s \<and>
   (is_base64_impl u t \<longleftrightarrow> is_ok (base64_decode_impl u t)) \<and>
   (base64_drop_padding u t = Ok r \<and> do_base64_decode_impl (get_character_table u) r = Ok out \<longrightarrow> length out = decoded_size (length r))"
proof -
  have "length r mod 4 \<noteq> 1" if "base64_drop_padding u t = Ok r"
  proof -
    from that have n: "r = without_padding t" "padding_length t < 3" "u \<longrightarrow> length r mod 4 \<noteq> 1" "u \<or> (length r + padding_length t) mod 4 = 0"
      by (auto simp: base64_drop_padding_def Let_def split: if_splits)
    have "k < 3 \<Longrightarrow> (m + k) mod 4 = 0 \<Longrightarrow> m mod 4 \<noteq> 1" for m k :: nat by presburger
    from this [OF n(2), of "length r"] show ?thesis using n(3,4) by (cases u) simp_all
  qed
  then show ?thesis
    using is_base64_iff [of u t] decode_length by (auto simp: decode_encode base64_decode_def base64_encode_def base64url_decode_def base64url_encode_def)
qed

theorem base64_correct_witness:
  "base64_drop_padding False ''QUI='' = Ok ''QUI'' \<and> (\<exists>out. base64_decode ''QUI='' = Ok out \<and> length out = decoded_size 3)"
proof -
  have d: "base64_drop_padding False ''QUI='' = Ok ''QUI''" "base64_encode ''AB'' = ''QUI=''"
    "do_base64_decode_impl (get_character_table False) ''QUI'' = Ok ''AB''" by code_simp+
  have "length ''AB'' = decoded_size (length ''QUI'')"
    using base64_correct [of "''AB''" False "''QUI=''" "''QUI''" "''AB''"] d by blast
  moreover have "base64_decode ''QUI='' = Ok ''AB''" using base64_correct [of "''AB''"] d(2) by metis
  ultimately show ?thesis using d(1) by (simp add: numeral_3_eq_3)
qed

end
