(* ===== verification/Td_HttpUrl.thy ===== *)
theory Td_HttpUrl
  imports Td_Parser Td_Net Td_Http
begin

text \<open>
  \<^verbatim>\<open>td/tdutils/td/utils/HttpUrl.cpp\<close>: parsing and printing of URLs.  The theory shows that an accepted URL has fields
  that are safe in an HTTP request (no spaces, line breaks or other control characters in host, user information and
  query), that its port is valid, and that parsing the printed form of an accepted URL gives the URL back.
\<close>

section \<open>Model\<close>

record http_url =
  hu_protocol :: protocol
  hu_userinfo :: string
  hu_host :: string
  hu_is_ipv6 :: bool
  hu_specified_port :: int
  hu_port :: int
  hu_query :: string

definition get_url :: "http_url \<Rightarrow> string checked" where
  "get_url u =
     (if hu_query u = [] \<or> hd (hu_query u) \<noteq> CHR ''/'' then CheckFailed
      else Checked ((case hu_protocol u of Http \<Rightarrow> ''http://'' | Https \<Rightarrow> ''https://'') @
        (if hu_userinfo u \<noteq> [] then hu_userinfo u @ ''@'' else []) @ hu_host u @
        (if hu_specified_port u > 0 then '':'' @ print_int 32 (hu_specified_port u) else []) @ hu_query u))"

text \<open>
  The search for the last colon, closing bracket or at sign of \<^verbatim>\<open>userinfo_host_port\<close>: the position where the pointer
  \<^verbatim>\<open>colon\<close> stops; it never goes below the first character.
\<close>

fun colon_loop :: "string \<Rightarrow> nat \<Rightarrow> nat" where
  "colon_loop s 0 = 0"
| "colon_loop s (Suc n) =
     (if s ! Suc n \<noteq> CHR '':'' \<and> s ! Suc n \<noteq> CHR '']'' \<and> s ! Suc n \<noteq> CHR ''@'' then colon_loop s n else Suc n)"

definition port_text :: "string \<Rightarrow> string" where
  "port_text s = (let t = dropWhile (\<lambda>c. c = CHR ''0'') s in if t = [] \<and> s \<noteq> [] then ''0'' else t)"

definition parse_port :: "string \<Rightarrow> int" where
  "parse_port s =
     (case to_integer_safe 32 (port_text s) of Inl _ \<Rightarrow> -1 | Inr p \<Rightarrow> if p = 0 then -1 else p)"

text \<open>The part before the port and the port; 0 stands for no port.\<close>

definition split_port :: "string \<Rightarrow> string \<times> int" where
  "split_port s =
     (let colon = colon_loop s (length s - 1)
      in if colon > 0 \<and> s ! colon = CHR '':'' then (take colon s, parse_port (drop (Suc colon) s)) else (s, 0))"

definition split_userinfo :: "string \<Rightarrow> string \<times> string" where
  "split_userinfo s =
     (case rfind_char s (CHR ''@'') of None \<Rightarrow> ([], s) | Some p \<Rightarrow> (take p s, drop (Suc p) s))"

definition drop_trailing_spaces :: "string \<Rightarrow> string" where
  "drop_trailing_spaces s = rev (dropWhile is_space (rev s))"

definition escape_query_char :: "char \<Rightarrow> string" where
  "escape_query_char c =
     (if code c \<le> 32 then [CHR ''%'', ''0123456789ABCDEF'' ! (code c div 16), ''0123456789ABCDEF'' ! (code c mod 16)]
      else [c])"

definition url_query :: "string \<Rightarrow> string" where
  "url_query rest =
     (let q0 = drop_trailing_spaces rest; q = (if q0 = [] then ''/'' else q0)
      in (if hd q \<noteq> CHR ''/'' then ''/'' else []) @ concat (map escape_query_char q))"

definition is_plain_url_char :: "bool \<Rightarrow> char \<Rightarrow> bool" where
  "is_plain_url_char allow_colon c \<longleftrightarrow>
     is_alnum c \<or> c \<in> {CHR ''.'', CHR ''-'', CHR ''_'', CHR ''!'', CHR ''$'', CHR '','', CHR ''~'', CHR ''*'', CHR 0x27,
       CHR ''('', CHR '')'', CHR '';'', CHR ''&'', CHR ''+'', CHR ''=''} \<or> allow_colon \<and> c = CHR '':''"

text \<open>
  \<^verbatim>\<open>check_url_part\<close>.  The bytes read behind the end of the part are the terminating zero of the host or the at sign
  behind the user information, which are no hexadecimal digits.
\<close>

fun check_url_part :: "string \<Rightarrow> bool \<Rightarrow> string \<Rightarrow> unit result" where
  "check_url_part name allow_colon [] = Ok ()"
| "check_url_part name allow_colon (c # s) =
     (if is_plain_url_char allow_colon c then check_url_part name allow_colon s
      else if c = CHR ''%''
      then (case s of
              x # y # s' \<Rightarrow>
                (if is_hex_digit x \<and> is_hex_digit y then check_url_part name allow_colon s'
                 else Error 0 (''Wrong percent-encoded symbol in URL '' @ name))
            | _ \<Rightarrow> Error 0 (''Wrong percent-encoded symbol in URL '' @ name))
      else if code c \<ge> 128 then check_url_part name allow_colon s
      else Error 0 (''Disallowed character in URL '' @ name))"

definition is_ipv6_host_char :: "char \<Rightarrow> bool" where
  "is_ipv6_host_char c \<longleftrightarrow>
     c = CHR '':'' \<or> code (CHR ''0'') \<le> code c \<and> code c \<le> code (CHR ''9'') \<or>
     code (CHR ''a'') \<le> code c \<and> code c \<le> code (CHR ''f'') \<or> c = CHR ''.''"

definition url_protocol :: "string \<Rightarrow> protocol \<Rightarrow> (protocol \<times> parser) result" where
  "url_protocol url default_protocol =
     (let (p, rest) = read_till_any_nofail '':/?#@[]'' (new_parser url);
          (ok, rest') = try_skip ''://'' rest
      in if ok
         then (if to_lower p = ''http'' then Ok (Http, rest')
               else if to_lower p = ''https'' then Ok (Https, rest')
               else Error 0 ''Unsupported URL protocol'')
         else Ok (default_protocol, new_parser url))"

text \<open>The checks of the host and the construction of the result.\<close>

definition finish_url :: "inet \<Rightarrow> protocol \<Rightarrow> string \<Rightarrow> string \<Rightarrow> int \<Rightarrow> string \<Rightarrow> http_url result checked" where
  "finish_url os protocol userinfo host port rest =
     (let brackets = (host \<noteq> [] \<and> hd host = CHR ''['' \<and> last host = CHR '']'');
          ip = init_ipv6_port os host 1
      in if brackets \<and> \<not> is_ok ip then Checked (Error 0 ''Wrong IPv6 address specified in the URL'')
         else if brackets \<and> (case ip of Inr a \<Rightarrow> \<not> is_ipv6 a | Inl _ \<Rightarrow> False) then CheckFailed
         else if host = [] then Checked (Error 0 ''URL host is empty'')
         else if host = ''.'' then Checked (Error 0 ''Host is invalid'')
         else (let host_str = to_lower host;
                   u = \<lparr>hu_protocol = protocol, hu_userinfo = userinfo, hu_host = host_str, hu_is_ipv6 = brackets,
                        hu_specified_port = port,
                        hu_port = (if port = 0 then (case protocol of Http \<Rightarrow> 80 | Https \<Rightarrow> 443) else port),
                        hu_query = url_query rest\<rparr>
               in if brackets
                  then (if list_all is_ipv6_host_char (butlast (tl host_str)) then Checked (Ok u)
                        else Checked (Error 0 ''Wrong IPv6 URL host''))
                  else (case check_url_part ''host'' False host_str of
                          Inl e \<Rightarrow> Checked (Inl e)
                        | Inr _ \<Rightarrow>
                            (case check_url_part ''userinfo'' True userinfo of
                               Inl e \<Rightarrow> Checked (Inl e)
                             | Inr _ \<Rightarrow> Checked (Ok u)))))"

definition parse_url :: "inet \<Rightarrow> string \<Rightarrow> protocol \<Rightarrow> http_url result checked" where
  "parse_url os url default_protocol =
     (case url_protocol url default_protocol of
        Inl e \<Rightarrow> Checked (Inl e)
      | Inr (protocol, parser) \<Rightarrow>
          (let (uhp, rest) = read_till_any_nofail ''/?#'' parser;
               (uh, port) = split_port uhp;
               (userinfo, host) = split_userinfo uh
           in if port < 0 \<or> port > 65535 then Checked (Error 0 ''Wrong port number specified in the URL'')
              else finish_url os protocol userinfo host port (fst (read_all rest))))"

definition get_url_host :: "inet \<Rightarrow> string \<Rightarrow> string checked" where
  "get_url_host os url =
     (case parse_url os url Http of
        CheckFailed \<Rightarrow> CheckFailed
      | Checked (Inl _) \<Rightarrow> Checked []
      | Checked (Inr u) \<Rightarrow> Checked (hu_host u))"

section \<open>Queries\<close>

record http_url_query =
  uq_path :: "string list"
  uq_args :: "(string \<times> string) list"

text \<open>The loop over the arguments; none of the parser operations in it can fail, so the state is the unread text.\<close>

function parse_args :: "string \<Rightarrow> (string \<times> string) list" where
  "parse_args s =
     (if s = [] then []
      else (let (kv, p) = read_till_nofail (CHR ''&'') (new_parser s);
                (k, v) = split_at_char kv (CHR ''='');
                key = url_decode True k;
                as = parse_args (data_of (skip_nofail (CHR ''&'') p))
            in if key \<noteq> [] then (key, url_decode True v) # as else as))"
  by auto
termination
proof (relation "measure length", goal_cases)
  case (2 s x kv p)
  then have p: "p = snd (read_till_nofail (CHR ''&'') (new_parser s))" by (metis snd_conv)
  show ?case
  proof (cases "CHR ''&'' \<in> set s")
    case True
    then obtain xs ys where "s = xs @ CHR ''&'' # ys" "CHR ''&'' \<notin> set xs" using split_list_first by metis
    then show ?thesis by (simp add: p read_till_nofail_hit skip_nofail_def)
  next
    case False
    then show ?thesis using 2 by (simp add: p read_till_nofail_miss skip_nofail_def)
  qed
qed simp

definition parse_url_query :: "string \<Rightarrow> http_url_query" where
  "parse_url_query query0 =
     (let query = (if query0 \<noteq> [] \<and> hd query0 = CHR ''/'' then tl query0 else query0);
          path_text = takeWhile (\<lambda>c. c \<noteq> CHR ''?'' \<and> c \<noteq> CHR ''#'') query;
          rest = drop (length path_text) query;
          path = map (url_decode False) (full_split path_text (CHR ''/'') size_t_max);
          args = (if rest \<noteq> [] \<and> hd rest = CHR ''?''
                  then parse_args (takeWhile (\<lambda>c. c \<noteq> CHR ''#'') (tl rest)) else [])
      in \<lparr>uq_path = rev (dropWhile (\<lambda>x. x = []) (rev path)), uq_args = args\<rparr>)"

definition get_url_query_file_name :: "string \<Rightarrow> string" where
  "get_url_query_file_name query =
     (let q = takeWhile (\<lambda>c. c \<noteq> CHR ''?'' \<and> c \<noteq> CHR ''#'') query
      in case rfind_char q (CHR ''/'') of Some p \<Rightarrow> drop (Suc p) q | None \<Rightarrow> q)"

definition get_url_file_name :: "inet \<Rightarrow> string \<Rightarrow> string checked" where
  "get_url_file_name os url =
     (case parse_url os url Http of
        CheckFailed \<Rightarrow> CheckFailed
      | Checked (Inl _) \<Rightarrow> Checked []
      | Checked (Inr u) \<Rightarrow> Checked (get_url_query_file_name (hu_query u)))"

definition uq_has_arg :: "string \<Rightarrow> http_url_query \<Rightarrow> bool" where
  "uq_has_arg key q \<longleftrightarrow> List.find (\<lambda>kv. fst kv = key) (uq_args q) \<noteq> None"

definition uq_get_arg :: "string \<Rightarrow> http_url_query \<Rightarrow> string" where
  "uq_get_arg key q = (case List.find (\<lambda>kv. fst kv = key) (uq_args q) of None \<Rightarrow> [] | Some kv \<Rightarrow> snd kv)"

section \<open>Accepted URLs\<close>

lemma alnum_visible: "is_alnum c \<or> is_hex_digit c \<Longrightarrow> 32 < code c"
proof -
  have "0 \<le> (int (code c) AND 32)" by simp
  moreover have "int (code c OR 32) = (int (code c) OR 32)" using of_nat_or_eq [of "code c" 32, where 'a = int] by simp
  ultimately have "int (code c OR 32) \<le> int (code c) + 32" using plus_and_or [of "int (code c)" 32] by linarith
  then have "or_0x20 c \<le> code c + 32" unfolding or_0x20_def by linarith
  then show "is_alnum c \<or> is_hex_digit c \<Longrightarrow> ?thesis" by (auto simp: is_alnum_def is_alpha_def is_digit_def is_hex_digit_def)
qed

lemma plain_visible: "is_plain_url_char b c \<Longrightarrow> 32 < code c"
  using alnum_visible [of c] by (auto simp: is_plain_url_char_def code_def)

lemma check_url_part_visible: "check_url_part name b s = Ok () \<Longrightarrow> c \<in> set s \<Longrightarrow> 32 < code c"
proof (induction name b s rule: check_url_part.induct)
  case (2 name b c' s)
  then show ?case using plain_visible alnum_visible by (auto split: if_splits list.splits simp: code_def)
qed simp

lemma ipv6_char_visible: "is_ipv6_host_char c \<Longrightarrow> 32 < code c"
proof -
  have "code (CHR ''0'') = 48" "code (CHR ''a'') = 97" "code (CHR '':'') = 58" "code (CHR ''.'') = 46" by (simp_all add: code_def)
  then show "is_ipv6_host_char c \<Longrightarrow> ?thesis" by (auto simp: is_ipv6_host_char_def)
qed

lemma parse_url_accepted:
  assumes "parse_url os url d = Checked (Ok u)"
  obtains prot parser uhp rest uh port userinfo host where
    "url_protocol url d = Ok (prot, parser)" "read_till_any_nofail ''/?#'' parser = (uhp, rest)" "split_port uhp = (uh, port)"
    "0 \<le> port" "port \<le> 65535" "split_userinfo uh = (userinfo, host)" "host \<noteq> []" "host \<noteq> ''.''"
    "hu_protocol u = prot" "hu_userinfo u = userinfo" "hu_host u = to_lower host" "hu_specified_port u = port"
    "hu_port u = (if port = 0 then (case prot of Http \<Rightarrow> 80 | Https \<Rightarrow> 443) else port)" "hu_query u = url_query (data_of rest)"
    "hu_is_ipv6 u \<longleftrightarrow> hd host = CHR ''['' \<and> last host = CHR '']''"
    "hu_is_ipv6 u \<longrightarrow> is_ok (init_ipv6_port os host 1) \<and> list_all is_ipv6_host_char (butlast (tl (to_lower host)))"
    "hu_is_ipv6 u \<or> check_url_part ''host'' False (to_lower host) = Ok () \<and> check_url_part ''userinfo'' True userinfo = Ok ()"
  using assms unfolding parse_url_def finish_url_def
  by (auto simp: Let_def read_all_def split: sum.splits prod.splits if_splits)

lemma escape_visible: "c \<in> set (escape_query_char x) \<Longrightarrow> 32 < code c"
proof (cases "code x \<le> 32")
  case True
  let ?hex = "''0123456789ABCDEF''"
  have h: "\<forall>y \<in> set ?hex. 32 < code y" by (simp add: code_def)
  have "code x div 16 < length ?hex" "code x mod 16 < length ?hex" using True by simp_all
  then have "?hex ! (code x div 16) \<in> set ?hex" "?hex ! (code x mod 16) \<in> set ?hex" using nth_mem by blast+
  moreover assume "c \<in> set (escape_query_char x)"
  ultimately show ?thesis using True h by (auto simp: escape_query_char_def code_def)
qed (simp add: escape_query_char_def)

lemma url_query_visible: "c \<in> set (url_query s) \<Longrightarrow> 32 < code c"
  using escape_visible by (auto simp: url_query_def Let_def code_def split: if_splits)

lemma url_query_slash: "\<exists>q. url_query s = CHR ''/'' # q"
proof -
  have "code (CHR ''/'') = 47" by (simp add: code_def)
  then have "escape_query_char (CHR ''/'') = ''/''" by (simp add: escape_query_char_def)
  then show ?thesis
    by (cases "drop_trailing_spaces s") (auto simp: url_query_def Let_def)
qed

text \<open>
  C28: an accepted URL is safe to send: its host and its query, and its user information unless the host is an IPv6
  address, contain no space, line break or other control character, so that no header can be smuggled into the
  request; the query starts with a slash and the port lies between 1 and 65535.
\<close>

theorem accepted_url_safe:
  assumes "parse_url os url d = Checked (Ok u)"
  shows "(\<forall>c. c \<in> set (hu_host u) \<union> set (hu_query u) \<or> \<not> hu_is_ipv6 u \<and> c \<in> set (hu_userinfo u) \<longrightarrow> 32 < code c) \<and>
         hu_host u \<noteq> [] \<and> (\<exists>q. hu_query u = CHR ''/'' # q) \<and> 1 \<le> hu_port u \<and> hu_port u \<le> 65535"
  using assms
proof (rule parse_url_accepted)
  fix prot parser uhp rest uh port userinfo host
  assume u: "0 \<le> port" "port \<le> 65535" "host \<noteq> []" "hu_userinfo u = userinfo" "hu_host u = to_lower host"
    "hu_port u = (if port = 0 then (case prot of Http \<Rightarrow> 80 | Https \<Rightarrow> 443) else port)" "hu_query u = url_query (data_of rest)"
    "hu_is_ipv6 u \<longleftrightarrow> hd host = CHR ''['' \<and> last host = CHR '']''"
    "hu_is_ipv6 u \<longrightarrow> is_ok (init_ipv6_port os host 1) \<and> list_all is_ipv6_host_char (butlast (tl (to_lower host)))"
    "hu_is_ipv6 u \<or> check_url_part ''host'' False (to_lower host) = Ok () \<and> check_url_part ''userinfo'' True userinfo = Ok ()"
  have "32 < code c" if c: "c \<in> set (to_lower host)" for c
  proof (cases "hu_is_ipv6 u")
    case True
    define h where "h = to_lower host"
    have h: "h \<noteq> []" "hd h = CHR ''[''" "last h = CHR '']''" "list_all is_ipv6_host_char (butlast (tl h))"
      using u(3,8,9) True by (simp_all add: h_def to_lower_def hd_map last_map to_lower_char_def code_def)
    then have "set h \<subseteq> {hd h, last h} \<union> set (butlast (tl h))"
      by (cases h; cases "tl h" rule: rev_cases) (auto simp: butlast_append)
    then have "c = CHR ''['' \<or> c = CHR '']'' \<or> is_ipv6_host_char c"
      using h c unfolding h_def [symmetric] list_all_iff by blast
    moreover have "code (CHR ''['') = 91" "code (CHR '']'') = 93" by (simp_all add: code_def)
    ultimately show ?thesis using ipv6_char_visible by auto
  next
    case False
    then show ?thesis using u(10) c check_url_part_visible by blast
  qed
  then have "\<forall>c. c \<in> set (hu_host u) \<union> set (hu_query u) \<or> \<not> hu_is_ipv6 u \<and> c \<in> set (hu_userinfo u) \<longrightarrow> 32 < code c"
    unfolding u(4,5,7) using u(10) url_query_visible check_url_part_visible by blast
  moreover have "1 \<le> hu_port u" "hu_port u \<le> 65535" using u(1,2,6) by (simp_all split: protocol.splits)
  moreover have "hu_host u \<noteq> []" "\<exists>q. hu_query u = CHR ''/'' # q" using u(3,5,7) url_query_slash by (simp_all add: to_lower_def)
  ultimately show ?thesis by blast
qed

section \<open>Printing and parsing\<close>

lemma takeWhile_conj_length:
  "length (takeWhile (\<lambda>x. P x \<and> Q x) s) = min (length (takeWhile P s)) (length (takeWhile Q s))"
  by (induction s) auto

lemma find_char_takeWhile:
  "(case find_char s c of None \<Rightarrow> length s | Some k \<Rightarrow> k) = length (takeWhile (\<lambda>x. x \<noteq> c) s)"
  by (induction s) (auto split: option.splits simp del: find_char_None)

lemma best_till_takeWhile: "best_till s cs = length (takeWhile (\<lambda>x. x \<notin> set cs) s)"
proof -
  let ?f = "\<lambda>best c. case find_char s c of None \<Rightarrow> best | Some k \<Rightarrow> if k < best then k else best"
  have "foldl ?f b cs = min b (length (takeWhile (\<lambda>x. x \<notin> set cs) s))" if "b \<le> length s" for b
    using that
  proof (induction cs arbitrary: b)
    case Nil
    then show ?case by (simp add: takeWhile_eq_all_conv [THEN iffD2])
  next
    case (Cons c cs)
    have f: "?f b c = min b (length (takeWhile (\<lambda>x. x \<noteq> c) s))"
      using Cons.prems find_char_takeWhile [of s c] by (cases "find_char s c") (auto simp del: find_char_None)
    have "length (takeWhile (\<lambda>x. x \<notin> set (c # cs)) s) = min (length (takeWhile (\<lambda>x. x \<noteq> c) s)) (length (takeWhile (\<lambda>x. x \<notin> set cs) s))"
      using takeWhile_conj_length [of "\<lambda>x. x \<noteq> c" "\<lambda>x. x \<notin> set cs" s] by simp
    moreover have "?f b c \<le> length s" using Cons.prems f by simp
    ultimately show ?case using Cons.IH [of "?f b c"] f by (simp add: min.assoc)
  qed
  from this [of "length s"] show ?thesis by (simp add: best_till_def length_takeWhile_le min_absorb2)
qed

lemma read_till_any_hit:
  "status_of p = None \<Longrightarrow> data_of p = xs @ c # ys \<Longrightarrow> c \<in> set cs \<Longrightarrow> \<forall>x \<in> set xs. x \<notin> set cs \<Longrightarrow>
   read_till_any_nofail cs p = (xs, p\<lparr>data_of := c # ys\<rparr>)"
  by (simp add: read_till_any_nofail_def best_till_takeWhile Let_def takeWhile_append)

lemma read_till_any_free:
  "status_of p = None \<Longrightarrow> read_till_any_nofail cs p = (xs, q) \<Longrightarrow> x \<in> set xs \<Longrightarrow> x \<notin> set cs"
  by (auto simp: read_till_any_nofail_def best_till_takeWhile Let_def simp flip: takeWhile_eq_take dest: set_takeWhileD)

definition stops :: "char \<Rightarrow> bool" where
  "stops c \<longleftrightarrow> c = CHR '':'' \<or> c = CHR '']'' \<or> c = CHR ''@''"

lemma colon_loop_at:
  "k \<le> n \<Longrightarrow> \<forall>i. k < i \<and> i \<le> n \<longrightarrow> \<not> stops (s ! i) \<Longrightarrow> k = 0 \<or> stops (s ! k) \<Longrightarrow> colon_loop s n = k"
proof (induction n)
  case (Suc n)
  show ?case
  proof (cases "k = Suc n")
    case True
    then show ?thesis using Suc.prems(3) by (auto simp: stops_def)
  next
    case False
    then have "k \<le> n" "\<not> stops (s ! Suc n)" using Suc.prems by auto
    then show ?thesis using Suc by (auto simp: stops_def)
  qed
qed simp

lemma colon_loop_append:
  assumes "\<forall>y \<in> set ys. \<not> stops y" "stops c"
  shows "colon_loop (xs @ c # ys) (length (xs @ c # ys) - 1) = length xs"
proof (rule colon_loop_at)
  show "\<forall>i. length xs < i \<and> i \<le> length (xs @ c # ys) - 1 \<longrightarrow> \<not> stops ((xs @ c # ys) ! i)"
  proof (intro allI impI)
    fix i assume i: "length xs < i \<and> i \<le> length (xs @ c # ys) - 1"
    then have "(xs @ c # ys) ! i = ys ! (i - length xs - 1)" "i - length xs - 1 < length ys"
      by (auto simp: nth_append nth_Cons')
    then show "\<not> stops ((xs @ c # ys) ! i)" using assms(1) by (metis nth_mem)
  qed
qed (use assms in \<open>auto simp: nth_append\<close>)

lemma colon_loop_free:
  assumes "\<forall>y \<in> set s. \<not> stops y"
  shows "colon_loop s (length s - 1) = 0"
proof (rule colon_loop_at)
  show "\<forall>i. 0 < i \<and> i \<le> length s - 1 \<longrightarrow> \<not> stops (s ! i)"
  proof (intro allI impI)
    fix i assume "0 < i \<and> i \<le> length s - 1"
    then have "i < length s" by linarith
    then show "\<not> stops (s ! i)" using assms by simp
  qed
qed auto

lemma stops_digit: "is_digit c \<Longrightarrow> \<not> stops c"
  by (auto simp: is_digit_def stops_def code_def)

lemma last_print_digits: "0 < x \<Longrightarrow> last (print_digits_reversed x) \<noteq> CHR ''0''"
proof (induction x rule: print_digits_reversed.induct)
  case (1 x)
  have ne: "print_digits_reversed y \<noteq> []" for y by (subst print_digits_reversed.simps) simp
  show ?case
  proof (cases "x div 10 > 0")
    case True
    then show ?thesis using 1 ne by (subst print_digits_reversed.simps) simp
  next
    case False
    then have "x < 10" by simp
    moreover have "char_of (48 + x) \<noteq> CHR ''0''"
    proof
      assume "char_of (48 + x) = CHR ''0''"
      then have "code (char_of (48 + x)) = 48" by (simp add: code_def)
      then show False using \<open>x < 10\<close> 1 by simp
    qed
    ultimately show ?thesis by (subst print_digits_reversed.simps) simp
  qed
qed

lemma print_uint_no_zero: "0 < n \<Longrightarrow> hd (print_uint n) \<noteq> CHR ''0''"
  using last_print_digits by (simp add: print_uint_eq hd_rev)

text \<open>A positive port is found again behind the colon.\<close>

lemma split_port_print:
  assumes "0 < p" "p \<le> 65535" "xs \<noteq> []"
  shows "split_port (xs @ '':'' @ print_int 32 p) = (xs, p)"
proof -
  have p: "print_int 32 p = print_uint (nat p)" using assms(1) by (simp add: print_int_eq print_signed_def)
  have d: "\<forall>y \<in> set (print_uint (nat p)). \<not> stops y" using print_uint_digits stops_digit by blast
  have "stops (CHR '':'')" by (simp add: stops_def)
  from colon_loop_append [OF d this, of xs] have "colon_loop (xs @ CHR '':'' # print_uint (nat p)) (length xs + length (print_uint (nat p))) = length xs"
    by simp
  moreover have "to_integer_safe 32 (print_uint (nat p)) = Ok p"
    using to_integer_safe_iff [of 32 "print_uint (nat p)" p] p assms by (simp add: in_signed_def print_int_eq)
  moreover have "port_text (print_uint (nat p)) = print_uint (nat p)"
    using print_uint_no_zero [of "nat p"] assms(1) by (cases "print_uint (nat p)") (auto simp: port_text_def)
  ultimately show ?thesis using assms by (simp add: split_port_def p parse_port_def Let_def)
qed

text \<open>Without a port the search ends at the bracket of an IPv6 address, at the at sign, or at the first character.\<close>

lemma split_port_none:
  assumes "s \<noteq> []" "(\<exists>xs ys c. s = xs @ c # ys \<and> (c = CHR '']'' \<or> c = CHR ''@'') \<and> (\<forall>y \<in> set ys. \<not> stops y)) \<or> (\<forall>y \<in> set s. \<not> stops y)"
  shows "split_port s = (s, 0)"
  using assms(2)
proof
  assume "\<exists>xs ys c. s = xs @ c # ys \<and> (c = CHR '']'' \<or> c = CHR ''@'') \<and> (\<forall>y \<in> set ys. \<not> stops y)"
  then obtain xs ys c where s: "s = xs @ c # ys" "c = CHR '']'' \<or> c = CHR ''@''" "\<forall>y \<in> set ys. \<not> stops y" by blast
  then have "colon_loop s (length s - 1) = length xs" using colon_loop_append [OF s(3), of c xs] by (auto simp: stops_def)
  moreover have "s ! length xs \<noteq> CHR '':''" using s by (auto simp: nth_append)
  ultimately show ?thesis unfolding split_port_def by simp
next
  assume "\<forall>y \<in> set s. \<not> stops y"
  then show ?thesis using colon_loop_free by (simp add: split_port_def)
qed

lemma hex_no_stop: "is_hex_digit y \<Longrightarrow> \<not> stops y"
  by (auto simp: is_hex_digit_def stops_def is_digit_def or_0x20_def code_def)

lemma plain_no_stop: "is_plain_url_char False y \<Longrightarrow> \<not> stops y"
  by (auto simp: is_plain_url_char_def stops_def is_alnum_def is_alpha_def is_digit_def or_0x20_def code_def)

lemma check_url_part_free: "check_url_part name b s = Ok () \<Longrightarrow> \<not> b \<Longrightarrow> c \<in> set s \<Longrightarrow> \<not> stops c"
proof (induction name b s rule: check_url_part.induct)
  case (2 name b x s)
  have "\<not> stops y" if "code y \<ge> 128 \<or> y = CHR ''%''" for y using that by (auto simp: stops_def code_def)
  then show ?case using 2 hex_no_stop plain_no_stop by (auto split: if_splits list.splits)
qed simp

lemma to_lower_idem [simp]: "to_lower (to_lower s) = to_lower s"
  by (induction s) (auto simp: to_lower_def to_lower_char_def)

lemma to_lower_char_fixed: "to_lower_char c = d \<Longrightarrow> \<not> is_alpha d \<Longrightarrow> c = d"
proof -
  have *: "is_alpha (char_of (code c - 65 + 97))" if "65 \<le> code c" "code c \<le> 90"
  proof -
    from that have "code c \<in> {65..<91}" by simp
    then show ?thesis by (simp add: atLeastLessThan_nat_numeral is_alpha_def or_0x20_def) auto
  qed
  show "to_lower_char c = d \<Longrightarrow> \<not> is_alpha d \<Longrightarrow> c = d" using * by (auto simp: to_lower_char_def split: if_splits)
qed

lemma to_lower_char_iff: "\<not> is_alpha d \<Longrightarrow> to_lower_char c = d \<longleftrightarrow> c = d"
proof
  assume d: "\<not> is_alpha d" "c = d"
  have "is_alpha c" if "65 \<le> code c" "code c \<le> 90"
  proof -
    from that have "code c \<in> {65..<91}" by simp
    then show ?thesis by (simp add: atLeastLessThan_nat_numeral is_alpha_def or_0x20_def) auto
  qed
  then show "to_lower_char c = d" using d by (auto simp: to_lower_char_def)
qed (rule to_lower_char_fixed)

lemma to_lower_mem: "d \<in> set (to_lower s) \<Longrightarrow> \<not> is_alpha d \<Longrightarrow> d \<in> set s"
proof -
  assume "d \<in> set (to_lower s)" and d: "\<not> is_alpha d"
  then obtain x where "x \<in> set s" "to_lower_char x = d" by (auto simp: to_lower_def)
  then show ?thesis using to_lower_char_fixed [of x d] d by simp
qed

lemma not_alpha: "\<not> is_alpha (CHR ''/'')" "\<not> is_alpha (CHR ''?'')" "\<not> is_alpha (CHR ''#'')" "\<not> is_alpha (CHR ''@'')"
  "\<not> is_alpha (CHR ''['')" "\<not> is_alpha (CHR '']'')" "\<not> is_alpha (CHR ''.'')" "\<not> is_alpha (CHR 0x00)"
  by (simp_all add: is_alpha_def or_0x20_def code_def)

definition pton6_ignores_case :: "inet \<Rightarrow> bool" where
  "pton6_ignores_case os \<longleftrightarrow> (\<forall>s. pton6 os (to_lower s) = pton6 os s)"

lemmas to_lower_char_at = not_alpha [THEN to_lower_char_iff]

lemma to_lower_brackets: "s \<noteq> [] \<Longrightarrow> hd (to_lower s) = CHR ''['' \<longleftrightarrow> hd s = CHR ''[''"
    "s \<noteq> [] \<Longrightarrow> last (to_lower s) = CHR '']'' \<longleftrightarrow> last s = CHR '']''"
  by (simp_all add: to_lower_def hd_map last_map to_lower_char_at)

lemma c_str_lower: "c_str (to_lower s) = to_lower (c_str s)"
  by (induction s) (simp_all add: c_str_def to_lower_def to_lower_char_at)

lemma init_ipv6_lower:
  assumes "pton6_ignores_case os" "s \<noteq> []"
  shows "is_ok (init_ipv6_port os (to_lower s) 1) = is_ok (init_ipv6_port os s 1)"
proof -
  have "butlast (tl (to_lower s)) = to_lower (butlast (tl s))" by (simp add: to_lower_def map_butlast map_tl)
  moreover have "length (to_lower s) = length s" by (simp add: to_lower_def)
  ultimately show ?thesis
    using assms c_str_lower by (simp add: init_ipv6_port_def to_lower_brackets pton6_ignores_case_def is_ok_def Let_def split: option.splits)
qed

lemma url_query_idem:
  assumes "q = CHR ''/'' # r" "\<forall>c \<in> set q. 32 < code c"
  shows "url_query q = q"
proof -
  have "32 < code (last q)" using assms by simp
  then have "\<not> is_space (last q)" by (auto simp: is_space_def)
  moreover have "rev q \<noteq> []" "hd (rev q) = last q" using assms(1) by (simp_all only: hd_rev) simp
  ultimately have "dropWhile is_space (rev q) = rev q" by (simp only: dropWhile_eq_self_iff) simp
  then have "drop_trailing_spaces q = q" by (simp add: drop_trailing_spaces_def)
  moreover have "concat (map escape_query_char q) = q"
    using assms(2) by (induction q) (simp_all add: escape_query_char_def)
  ultimately show ?thesis using assms(1) by (simp add: url_query_def)
qed

lemma url_protocol_print:
  assumes "p = Http \<and> s = ''http'' \<or> p = Https \<and> s = ''https''"
  shows "url_protocol (s @ ''://'' @ r) d = Ok (p, new_parser r)"
proof -
  have c: "c \<notin> set '':/?#@[]''" if "c \<in> set s" for c using that assms by auto
  have "read_till_any_nofail '':/?#@[]'' (new_parser (s @ ''://'' @ r)) = (s, (new_parser (s @ ''://'' @ r))\<lparr>data_of := ''://'' @ r\<rparr>)"
    using read_till_any_hit [of "new_parser (s @ ''://'' @ r)" s "CHR '':''" "''//'' @ r" "'':/?#@[]''"] c by simp
  moreover have "to_lower s = s" using assms by (auto simp: to_lower_def to_lower_char_def code_def)
  ultimately show ?thesis using assms by (auto simp: url_protocol_def try_skip_def new_parser_def)
qed

lemma split_userinfo_print: "CHR ''@'' \<notin> set h \<Longrightarrow> split_userinfo ((if ui \<noteq> [] then ui @ ''@'' else []) @ h) = (ui, h)"
proof -
  assume h: "CHR ''@'' \<notin> set h"
  then have "rfind_char h (CHR ''@'') = None" by simp
  then show ?thesis using rfind_char_append [OF h, of ui] by (simp add: split_userinfo_def del: rfind_char_None)
qed

text \<open>The text before the query of a printed URL splits into the parts it was printed from.\<close>

lemma split_port_printed:
  assumes "0 \<le> port" "port \<le> 65535" "h \<noteq> []" "(h \<noteq> [] \<and> last h = CHR '']'') \<or> (\<forall>c \<in> set h. \<not> stops c)"
  shows "split_port ((if ui \<noteq> [] then ui @ ''@'' else []) @ h @ (if port > 0 then '':'' @ print_int 32 port else [])) =
         ((if ui \<noteq> [] then ui @ ''@'' else []) @ h, port)"
proof (cases "port > 0")
  case True
  then show ?thesis using split_port_print [OF True assms(2), of "(if ui \<noteq> [] then ui @ ''@'' else []) @ h"] assms(3) by simp
next
  case False
  let ?s = "(if ui \<noteq> [] then ui @ ''@'' else []) @ h"
  have "(\<exists>xs ys c. ?s = xs @ c # ys \<and> (c = CHR '']'' \<or> c = CHR ''@'') \<and> (\<forall>y \<in> set ys. \<not> stops y)) \<or> (\<forall>y \<in> set ?s. \<not> stops y)"
    using assms(4)
  proof
    assume "h \<noteq> [] \<and> last h = CHR '']''"
    then have "?s = ((if ui \<noteq> [] then ui @ ''@'' else []) @ butlast h) @ CHR '']'' # []" using append_butlast_last_id by fastforce
    then show ?thesis by (metis empty_iff list.set(1))
  next
    assume "\<forall>c \<in> set h. \<not> stops c"
    then show ?thesis by (cases "ui = []") auto
  qed
  then show ?thesis using split_port_none [of ?s] False assms(1,3) by simp
qed

lemma url_protocol_status: "url_protocol url d = Ok (p, parser) \<Longrightarrow> status_of parser = None"
  by (auto simp: url_protocol_def read_till_any_nofail_def try_skip_def Let_def split: if_splits prod.splits)

lemma split_parts:
  assumes "split_port uhp = (uh, port)" "split_userinfo uh = (ui, host)"
  shows "set ui \<subseteq> set uhp" "set host \<subseteq> set uhp" "CHR ''@'' \<notin> set host"
proof -
  have "set uh \<subseteq> set uhp" using assms(1) by (auto simp: split_port_def Let_def split: if_splits dest: in_set_takeD)
  moreover have "set ui \<subseteq> set uh \<and> set host \<subseteq> set uh \<and> CHR ''@'' \<notin> set host"
  proof (cases "rfind_char uh (CHR ''@'')")
    case None
    then have "CHR ''@'' \<notin> set uh" by simp
    then show ?thesis using assms(2) None by (simp add: split_userinfo_def del: rfind_char_None)
  next
    case (Some p)
    then show ?thesis using assms(2) rfind_char_Some [OF Some] by (auto simp: split_userinfo_def dest: in_set_takeD in_set_dropD)
  qed
  ultimately show "set ui \<subseteq> set uhp" "set host \<subseteq> set uhp" "CHR ''@'' \<notin> set host" by auto
qed

text \<open>
  C29: printing an accepted URL and parsing the result gives the URL back, whatever the default protocol, as long as
  \<^verbatim>\<open>inet_pton\<close> reads hexadecimal digits of either case.
\<close>

theorem url_roundtrip:
  assumes "pton6_ignores_case os" "parse_url os url d = Checked (Ok u)"
  shows "\<exists>t. get_url u = Checked t \<and> parse_url os t d' = Checked (Ok u)"
  using assms(2)
proof (rule parse_url_accepted)
  fix prot parser uhp rest uh port userinfo host
  assume u: "url_protocol url d = Ok (prot, parser)" "read_till_any_nofail ''/?#'' parser = (uhp, rest)" "split_port uhp = (uh, port)"
    "0 \<le> port" "port \<le> 65535" "split_userinfo uh = (userinfo, host)" "host \<noteq> []" "host \<noteq> ''.''"
    and f: "hu_protocol u = prot" "hu_userinfo u = userinfo" "hu_host u = to_lower host" "hu_specified_port u = port"
    "hu_port u = (if port = 0 then (case prot of Http \<Rightarrow> 80 | Https \<Rightarrow> 443) else port)" "hu_query u = url_query (data_of rest)"
    and v: "hu_is_ipv6 u \<longleftrightarrow> hd host = CHR ''['' \<and> last host = CHR '']''"
    "hu_is_ipv6 u \<longrightarrow> is_ok (init_ipv6_port os host 1) \<and> list_all is_ipv6_host_char (butlast (tl (to_lower host)))"
    "hu_is_ipv6 u \<or> check_url_part ''host'' False (to_lower host) = Ok () \<and> check_url_part ''userinfo'' True userinfo = Ok ()"
  define h where "h = to_lower host"
  obtain q where q: "hu_query u = CHR ''/'' # q" using url_query_slash f(6) by auto
  let ?s = "case prot of Http \<Rightarrow> ''http'' | Https \<Rightarrow> ''https''"
  let ?ui = "if userinfo \<noteq> [] then userinfo @ ''@'' else []" and ?p = "if port > 0 then '':'' @ print_int 32 port else []"
  let ?uhp = "?ui @ h @ ?p"
  have g: "get_url u = Checked (?s @ ''://'' @ ?uhp @ hu_query u)"
    using q f by (simp add: get_url_def h_def split: protocol.splits)
  have free: "c \<notin> set ''/?#''" if "c \<in> set uhp" for c using read_till_any_free [OF url_protocol_status [OF u(1)] u(2) that] .
  have host: "c \<notin> set ''/?#@''" if "c \<in> set h" for c
    using to_lower_mem [of c host] that not_alpha free split_parts [OF u(3,6)] by (auto simp: h_def)
  have "c \<notin> set ''/?#''" if "c \<in> set ?uhp" for c
  proof -
    have "is_digit c \<Longrightarrow> c \<notin> set ''/?#''" for c by (auto simp: is_digit_def code_def)
    moreover have "print_int 32 port = print_uint (nat port)" using u(4) by (simp add: print_int_eq print_signed_def)
    ultimately have "c \<in> set ?p \<Longrightarrow> c \<notin> set ''/?#''" using print_uint_digits by (auto split: if_splits)
    moreover have "c \<in> set ?ui \<Longrightarrow> c \<notin> set ''/?#''" using free split_parts(1) [OF u(3,6)] by (auto split: if_splits)
    ultimately show ?thesis using that host [of c] by auto
  qed
  then have r: "read_till_any_nofail ''/?#'' (new_parser (?uhp @ hu_query u)) = (?uhp, (new_parser (?uhp @ hu_query u))\<lparr>data_of := hu_query u\<rparr>)"
    using read_till_any_hit [of "new_parser (?uhp @ hu_query u)" ?uhp "CHR ''/''" q "''/?#''"] q by simp
  have h: "h \<noteq> []" "hd h = CHR ''['' \<longleftrightarrow> hd host = CHR ''[''" "last h = CHR '']'' \<longleftrightarrow> last host = CHR '']''" 
    "to_lower h = h" using u(7) to_lower_brackets [OF u(7)] by (simp_all add: h_def) (simp add: to_lower_def)
  have "last h = CHR '']'' \<or> (\<forall>c \<in> set h. \<not> stops c)" using v(1,3) h(3) check_url_part_free [of "''host''" False h] by (auto simp: h_def)
  then have sp: "split_port ?uhp = (?ui @ h, port)" using split_port_printed [OF u(4,5) h(1)] h(1) by blast
  have su: "split_userinfo (?ui @ h) = (userinfo, h)" by (rule split_userinfo_print) (use host in auto)
  have dot: "h \<noteq> ''.''" using u(7,8) by (auto simp: h_def to_lower_def to_lower_char_at)
  have ip: "is_ok (init_ipv6_port os h 1) = is_ok (init_ipv6_port os host 1)" using init_ipv6_lower [OF assms(1) u(7)] by (simp add: h_def)
  have six: "is_ipv6 a" if "init_ipv6_port os h 1 = Ok a" for a using that by (auto simp: init_ipv6_port_def is_ipv6_def Let_def split: option.splits)
  have "\<forall>c \<in> set (hu_query u). 32 < code c" using f(6) url_query_visible by simp
  then have qq: "url_query (hu_query u) = hu_query u" by (rule url_query_idem [OF q])
  have "url_protocol (?s @ ''://'' @ ?uhp @ hu_query u) d' = Ok (prot, new_parser (?uhp @ hu_query u))"
    by (rule url_protocol_print) (cases prot; simp)
  then have "parse_url os (?s @ ''://'' @ ?uhp @ hu_query u) d' = finish_url os prot userinfo h port (hu_query u)"
    using u(4,5) unfolding parse_url_def by (simp only: r sp su read_all_def Let_def prod.case sum.case) simp
  moreover have "u = \<lparr>hu_protocol = prot, hu_userinfo = userinfo, hu_host = h, hu_is_ipv6 = hu_is_ipv6 u, hu_specified_port = port,
      hu_port = (if port = 0 then (case prot of Http \<Rightarrow> 80 | Https \<Rightarrow> 443) else port), hu_query = hu_query u\<rparr>" (is "u = ?u")
    using f by (intro http_url.equality) (simp_all add: h_def)
  moreover have "finish_url os prot userinfo h port (hu_query u) = Checked (Ok ?u)"
  proof (cases "hu_is_ipv6 u")
    case True
    then have "is_ok (init_ipv6_port os h 1)" "list_all is_ipv6_host_char (butlast (tl h))" "hd h = CHR ''[''" "last h = CHR '']''"
      using v ip h(2,3) by (simp_all add: h_def)
    then show ?thesis using True six h(1,4) dot qq by (auto simp: finish_url_def Let_def is_ok_def split: sum.splits)
  next
    case False
    then have "check_url_part ''host'' False h = Ok ()" "check_url_part ''userinfo'' True userinfo = Ok ()" "\<not> (hd h = CHR ''['' \<and> last h = CHR '']'')"
      using v(1,3) h(2,3) unfolding h_def by blast+
    then show ?thesis using False h(1,4) dot qq by (auto simp: finish_url_def Let_def)
  qed
  ultimately show ?thesis using g by auto
qed

definition url_inet :: inet where
  "url_inet = \<lparr>pton4 = (\<lambda>_. None), pton6 = (\<lambda>s. if s = ''::1'' then Some (replicate 15 0 @ [1]) else None),
     ntop4 = (\<lambda>_. []), ntop6 = (\<lambda>_. [])\<rparr>"

definition demo_url :: http_url where
  "demo_url = \<lparr>hu_protocol = Https, hu_userinfo = ''bot'', hu_host = ''example.org'', hu_is_ipv6 = False,
     hu_specified_port = 8443, hu_port = 8443, hu_query = ''/hook%20x''\<rparr>"

lemma demo_parse: "parse_url url_inet ''bot@Example.org:08443/hook x '' Https = Checked (Ok demo_url)"
  by code_simp

theorem accepted_url_safe_witness:
  "parse_url url_inet ''bot@Example.org:08443/hook x '' Https = Checked (Ok demo_url) \<and> 1 \<le> hu_port demo_url \<and> hu_host demo_url \<noteq> []"
  using accepted_url_safe [OF demo_parse] demo_parse by blast

lemma demo_ignores_case: "pton6_ignores_case url_inet"
proof -
  have "to_lower s = ''::1'' \<longleftrightarrow> s = ''::1''" for s
  proof -
    have "\<not> is_alpha (CHR '':'')" "\<not> is_alpha (CHR ''1'')" by (simp_all add: is_alpha_def or_0x20_def code_def)
    note eq = this [THEN to_lower_char_iff]
    show ?thesis by (simp add: to_lower_def map_eq_Cons_conv eq)
  qed
  then show ?thesis by (simp add: pton6_ignores_case_def url_inet_def)
qed

theorem url_roundtrip_witness:
  "\<exists>t. get_url demo_url = Checked t \<and> parse_url url_inet t Http = Checked (Ok demo_url)"
  by (rule url_roundtrip [OF demo_ignores_case demo_parse])

text \<open>
  The user information is not checked when the host is an IPv6 address: control characters that are refused elsewhere
  are accepted.
\<close>

theorem ipv6_userinfo_unchecked:
  "\<exists>u. parse_url url_inet (''https://a'' @ [CHR 0x0D, CHR 0x0A] @ ''b@[::1]/'') Https = Checked (Ok u) \<and>
       hu_userinfo u = ''a'' @ [CHR 0x0D, CHR 0x0A] @ ''b''"
proof -
  have "case parse_url url_inet (''https://a'' @ [CHR 0x0D, CHR 0x0A] @ ''b@[::1]/'') Https of
      Checked (Inr u) \<Rightarrow> hu_userinfo u = ''a'' @ [CHR 0x0D, CHR 0x0A] @ ''b'' | _ \<Rightarrow> False" by code_simp
  then show ?thesis by (auto split: checked.splits sum.splits)
qed

end
