(* ===== verification/WebhookActor.thy ===== *)
theory WebhookActor
  imports HttpConn Td_TQueueStore Td_Base64 Td_HttpUrl "HOL-Library.AList"
begin

text \<open>
  \<^verbatim>\<open>WebhookActor\<close> of \<^verbatim>\<open>server/WebhookActor.cpp\<close>: delivery of the updates of a bot to its web server.  Updates are
  loaded from \<^verbatim>\<open>TQueue\<close> into queues by the chat they belong to; of each queue one update at a time is sent over one of
  the connections and repeated until it is accepted or expires.  The actor is a record and one function per method; what
  it sends to the client, the connections and the resolver is appended to \<open>wh_log\<close>; the hash table of the queues is an
  association list.  The \<^verbatim>\<open>TQueue\<close> is shared
  with the other actors and is passed along.  Clock readings, random numbers and the results of opening sockets are
  parameters; log output is left out.
\<close>

section \<open>State\<close>

record wh_update =
  wu_id :: int
  wu_json :: string
  wu_expires_at :: int
  wu_last_send_time :: real
  wu_wakeup_at :: real
  wu_delay :: int
  wu_fail_count :: int
  wu_queue_id :: int

record wh_queue =
  wq_wakeup_at :: real
  wq_integer_wakeup_at :: int
  wq_id :: int

text \<open>The conversion of a time to nanoseconds; times are not negative and small enough for \<^verbatim>\<open>int64\<close>.\<close>

definition new_wh_queue :: "real \<Rightarrow> int \<Rightarrow> wh_queue" where
  "new_wh_queue wakeup_at i = \<lparr>wq_wakeup_at = wakeup_at, wq_integer_wakeup_at = \<lfloor>wakeup_at * 1000000000\<rfloor>, wq_id = i\<rparr>"

definition wq_less :: "wh_queue \<Rightarrow> wh_queue \<Rightarrow> bool" where
  "wq_less a b \<longleftrightarrow>
     wq_integer_wakeup_at a < wq_integer_wakeup_at b \<or>
     wq_integer_wakeup_at a = wq_integer_wakeup_at b \<and> wq_id a < wq_id b"

text \<open>\<^verbatim>\<open>std::set<Queue>::emplace\<close> on the list of the elements in order.\<close>

fun queues_emplace :: "wh_queue \<Rightarrow> wh_queue list \<Rightarrow> wh_queue list" where
  "queues_emplace q [] = [q]"
| "queues_emplace q (x # xs) =
     (if wq_less q x then q # x # xs else if wq_less x q then x # queues_emplace q xs else x # xs)"

record wh_conn =
  wc_event_id :: int
  wc_ip_generation :: int

datatype wh_msg =
    WmVerified string
  | WmSuccess
  | WmError string
  | WmClosed "status option"
  | WmSendQuery api_query
  | WmWrite container_id string
  | WmWriteOk container_id
  | WmResolve string int
  | WmOpenProxy container_id
  | WmCreateSslContext string
  | WmCloseLater

text \<open>What does not change after the constructor.\<close>

record wh_params =
  wp_tqueue_id :: int
  wp_url :: http_url
  wp_host_header :: string
  wp_cert_path :: string
  wp_fix_ip_address :: bool
  wp_from_db_flag :: bool
  wp_max_connections :: int
  wp_secret_token :: string
  wp_local_mode :: bool
  wp_has_proxy :: bool

record webhook =
  wh_callback :: bool
  wh_tqueue_empty :: bool
  wh_last_pending_update_count :: nat
  wh_last_error_time :: real
  wh_last_error_message :: string
  wh_stop_flag :: bool
  wh_was_checked :: bool
  wh_tqueue_offset :: int
  wh_max_loaded_updates :: nat
  wh_update_map :: "int \<Rightarrow> wh_update option"
  wh_queue_updates :: "(int \<times> int list) list"
  wh_queues :: "wh_queue list"
  wh_unique_queue_id :: int
  wh_first_error_410_time :: real
  wh_ssl_ctx :: bool
  wh_ip_address :: ip_address
  wh_ip_generation :: int
  wh_next_ip_address_resolve_time :: real
  wh_is_ip_address_being_resolved :: bool
  wh_pending_sockets :: "unit container"
  wh_ready_sockets :: nat
  wh_connections :: "wh_conn container"
  wh_ready_connections :: "container_id list"
  wh_active_new_connection_flood :: flood_control
  wh_pending_new_connection_flood :: flood_control
  wh_last_success_time :: real
  wh_wakeup_at :: real
  wh_last_update_was_successful :: bool
  wh_timeout :: "real option"
  wh_stopped :: bool
  wh_log :: "wh_msg list"

text \<open>
  The surroundings of one call: \<open>we_now\<close> gives the clock reading at each of the places that read it, in the loops
  indexed by the iteration; \<open>we_open\<close> and \<open>we_ssl\<close> are the results of opening a socket and an SSL stream at each
  attempt.
\<close>

datatype wh_site =
    AtResolve | AtResolved | AtCreate | AtLoad | AtSend nat | AtOk | AtError | At410 | AtWebhookError | AtStart | AtStartDb

record 's wh_env =
  we_ops :: "'s storage_ops"
  we_inet :: inet
  we_now :: "wh_site \<Rightarrow> real"
  we_unix_time :: "real \<Rightarrow> int"
  we_random :: "int \<Rightarrow> int \<Rightarrow> int"
  we_open :: "nat \<Rightarrow> status option"
  we_ssl :: "nat \<Rightarrow> status option"
  we_print_query :: "http_query \<Rightarrow> string"

abbreviation WH_MIN_PENDING_UPDATES_WARNING :: nat where
  "WH_MIN_PENDING_UPDATES_WARNING \<equiv> 50"

abbreviation IP_ADDRESS_CACHE_TIME :: int where
  "IP_ADDRESS_CACHE_TIME \<equiv> 1800"

abbreviation WEBHOOK_MAX_RESEND_TIMEOUT :: int where
  "WEBHOOK_MAX_RESEND_TIMEOUT \<equiv> 60"

abbreviation WEBHOOK_DROP_TIMEOUT :: int where
  "WEBHOOK_DROP_TIMEOUT \<equiv> 82800"

abbreviation TQUEUE_EVENT_BUFFER_SIZE :: nat where
  "TQUEUE_EVENT_BUFFER_SIZE \<equiv> 1000"

definition wh_send :: "wh_msg list \<Rightarrow> webhook \<Rightarrow> webhook" where
  "wh_send ms s = s\<lparr>wh_log := wh_log s @ ms\<rparr>"

text \<open>Messages to the callback get lost once it was moved away.\<close>

definition wh_notify :: "wh_msg \<Rightarrow> webhook \<Rightarrow> webhook" where
  "wh_notify m s = (if wh_callback s then wh_send [m] s else s)"

text \<open>The constructor: the parameters it computes and the initial state.\<close>

definition new_wh_params ::
  "(string \<Rightarrow> string result) \<Rightarrow> int \<Rightarrow> http_url \<Rightarrow> string \<Rightarrow> int \<Rightarrow> bool \<Rightarrow> bool \<Rightarrow> string \<Rightarrow> bool \<Rightarrow> bool \<Rightarrow> wh_params" where
  "new_wh_params idn_to_ascii tqueue_id url cert_path max_connections from_db_flag fix_ip_address secret_token local_mode has_proxy =
     (let host = (case idn_to_ascii (hu_host url) of Inl _ \<Rightarrow> hu_host url | Inr h \<Rightarrow> h);
          url' = url\<lparr>hu_host := host\<rparr>
      in \<lparr>wp_tqueue_id = tqueue_id, wp_url = url', wp_host_header = get_host_header (hu_protocol url') host (hu_port url'),
          wp_cert_path = cert_path, wp_fix_ip_address = fix_ip_address, wp_from_db_flag = from_db_flag,
          wp_max_connections = max_connections, wp_secret_token = secret_token, wp_local_mode = local_mode,
          wp_has_proxy = has_proxy\<rparr>)"

definition cached_address :: "wh_params \<Rightarrow> (string \<Rightarrow> 32 word option) \<Rightarrow> inet \<Rightarrow> string \<Rightarrow> ip_address checked" where
  "cached_address p inet_addr os cached_ip_address =
     (if cached_ip_address = [] then Checked Invalid
      else (case get_ip_address inet_addr os cached_ip_address of
        Inl _ \<Rightarrow> Checked Invalid
      | Inr a \<Rightarrow> set_port a (hu_port (wp_url p))))"

definition new_webhook :: "wh_params \<Rightarrow> (string \<Rightarrow> 32 word option) \<Rightarrow> inet \<Rightarrow> string \<Rightarrow> webhook checked" where
  "new_webhook p inet_addr os cached_ip_address =
     (if wp_max_connections p \<le> 0 then CheckFailed
      else (case cached_address p inet_addr os cached_ip_address of
        CheckFailed \<Rightarrow> CheckFailed
      | Checked cached_ip \<Rightarrow> Checked
       \<lparr>wh_callback = True, wh_tqueue_empty = False, wh_last_pending_update_count = WH_MIN_PENDING_UPDATES_WARNING,
        wh_last_error_time = 0, wh_last_error_message = ''<none>'', wh_stop_flag = False, wh_was_checked = False,
        wh_tqueue_offset = 0, wh_max_loaded_updates = 0, wh_update_map = Map.empty, wh_queue_updates = [],
        wh_queues = [], wh_unique_queue_id = 2 ^ 60, wh_first_error_410_time = 0, wh_ssl_ctx = False,
        wh_ip_address = cached_ip, wh_ip_generation = 0, wh_next_ip_address_resolve_time = 0,
        wh_is_ip_address_being_resolved = False, wh_pending_sockets = new_container, wh_ready_sockets = 0,
        wh_connections = new_container, wh_ready_connections = [],
        wh_active_new_connection_flood = new_flood_control, wh_pending_new_connection_flood = new_flood_control,
        wh_last_success_time = 0, wh_wakeup_at = 0, wh_last_update_was_successful = True, wh_timeout = None,
        wh_stopped = False, wh_log = []\<rparr>))"

section \<open>Errors and notifications\<close>

definition relax_wakeup_at :: "real \<Rightarrow> webhook \<Rightarrow> webhook" where
  "relax_wakeup_at wakeup_at s =
     (if wh_wakeup_at s = 0 \<or> wakeup_at < wh_wakeup_at s then s\<lparr>wh_wakeup_at := wakeup_at\<rparr> else s)"

definition on_webhook_verified :: "'s wh_env \<Rightarrow> webhook \<Rightarrow> webhook" where
  "on_webhook_verified env s =
     wh_notify (WmVerified (if is_valid (wh_ip_address s) then get_ip_str (we_inet env) (wh_ip_address s) else [])) s"

definition check_ip_address :: "wh_params \<Rightarrow> 's wh_env \<Rightarrow> ip_address \<Rightarrow> unit result checked" where
  "check_ip_address p env addr =
     (if \<not> is_valid addr then Checked (Error 0 ''Invalid IP address specified'')
      else if wp_local_mode p then Checked (Ok ())
      else if \<not> is_ipv4 addr then Checked (Error 0 ''IPv6-only addresses are not allowed'')
      else (case is_reserved (we_inet env) addr of
        CheckFailed \<Rightarrow> CheckFailed
      | Checked r \<Rightarrow>
          Checked (if r then Error 0 (''IP address '' @ get_ip_str (we_inet env) addr @ '' is reserved'') else Ok ())))"

definition wh_on_error :: "status \<Rightarrow> webhook \<Rightarrow> webhook checked" where
  "wh_on_error st s =
     (if \<not> wh_was_checked s \<and> \<not> wh_stop_flag s
      then (if \<not> wh_callback s then CheckFailed
            else Checked ((wh_send [WmClosed (Some st)] s)\<lparr>wh_callback := False, wh_stop_flag := True\<rparr>))
      else Checked s)"

definition on_webhook_error :: "'s wh_env \<Rightarrow> string \<Rightarrow> webhook \<Rightarrow> webhook" where
  "on_webhook_error env err s =
     (if wh_was_checked s
      then (wh_notify (WmError err) s)\<lparr>wh_last_error_time := we_now env AtWebhookError, wh_last_error_message := err\<rparr>
      else s)"

definition on_connection_error :: "'s wh_env \<Rightarrow> status \<Rightarrow> webhook \<Rightarrow> webhook" where
  "on_connection_error env st s = on_webhook_error env (status_message st) s"

definition create_webhook_error :: "'s wh_env \<Rightarrow> string \<Rightarrow> status \<Rightarrow> bool \<Rightarrow> webhook \<Rightarrow> webhook checked" where
  "create_webhook_error env error_message result is_public s =
     wh_on_error result
       (on_webhook_error env (if is_public then error_message @ '': '' @ status_message result else error_message) s)"

section \<open>Addresses and connections\<close>

definition resolve_ip_address :: "wh_params \<Rightarrow> 's wh_env \<Rightarrow> webhook \<Rightarrow> webhook" where
  "resolve_ip_address p env s =
     (if wp_fix_ip_address p \<or> wh_is_ip_address_being_resolved s then s
      else if we_now env AtResolve < wh_next_ip_address_resolve_time s
      then relax_wakeup_at (wh_next_ip_address_resolve_time s) s
      else wh_send [WmResolve (hu_host (wp_url p)) (hu_port (wp_url p))] (s\<lparr>wh_is_ip_address_being_resolved := True\<rparr>))"

text \<open>\<^verbatim>\<open>create_ssl_stream\<close>: \<open>True\<close> when a stream was created.\<close>

definition create_ssl_stream :: "wh_params \<Rightarrow> 's wh_env \<Rightarrow> nat \<Rightarrow> webhook \<Rightarrow> (bool \<times> webhook) checked" where
  "create_ssl_stream p env k s =
     (if hu_protocol (wp_url p) = Http then Checked (True, s)
      else if \<not> wh_ssl_ctx s then CheckFailed
      else (case we_ssl env k of
        None \<Rightarrow> Checked (True, s)
      | Some e \<Rightarrow>
          (case create_webhook_error env (''Can'' @ [CHR 0x27] @ ''t create an SSL connection'') e True s of
             CheckFailed \<Rightarrow> CheckFailed
           | Checked s' \<Rightarrow> Checked (False, s'))))"

definition create_connection_fd :: "wh_params \<Rightarrow> 's wh_env \<Rightarrow> nat \<Rightarrow> webhook \<Rightarrow> (bool \<times> webhook) checked" where
  "create_connection_fd p env k s =
     (case create_ssl_stream p env k s of
        CheckFailed \<Rightarrow> CheckFailed
      | Checked (False, s1) \<Rightarrow> Checked (False, s1)
      | Checked (True, s1) \<Rightarrow>
          (case container_create \<lparr>wc_event_id = 0, wc_ip_generation = wh_ip_generation s1\<rparr> 0 (wh_connections s1) of
             CheckFailed \<Rightarrow> CheckFailed
           | Checked (cid, conns) \<Rightarrow>
               (let s2 = s1\<lparr>wh_connections := conns, wh_ready_connections := cid # wh_ready_connections s1\<rparr>
                in Checked (True, if \<not> wh_was_checked s2 then on_webhook_verified env (s2\<lparr>wh_was_checked := True\<rparr>) else s2))))"

definition create_connection :: "wh_params \<Rightarrow> 's wh_env \<Rightarrow> nat \<Rightarrow> webhook \<Rightarrow> (bool \<times> webhook) checked" where
  "create_connection p env k s =
     (if \<not> is_valid (wh_ip_address s) then CheckFailed
      else if wp_has_proxy p
      then (case we_open env k of
        Some e \<Rightarrow>
          (case create_webhook_error env (''Can'' @ [CHR 0x27] @ ''t connect to the webhook proxy'') e False s of
             CheckFailed \<Rightarrow> CheckFailed
           | Checked s' \<Rightarrow> Checked (False, s'))
      | None \<Rightarrow>
          (let s1 = (if \<not> wh_was_checked s then on_webhook_verified env (s\<lparr>wh_was_checked := True\<rparr>) else s)
           in case container_create () 0 (wh_pending_sockets s1) of
                CheckFailed \<Rightarrow> CheckFailed
              | Checked (cid, socks) \<Rightarrow> Checked (False, wh_send [WmOpenProxy cid] (s1\<lparr>wh_pending_sockets := socks\<rparr>))))
      else (case we_open env k of
        Some e \<Rightarrow>
          (case create_webhook_error env (''Can'' @ [CHR 0x27] @ ''t connect to the webhook'') e False s of
             CheckFailed \<Rightarrow> CheckFailed
           | Checked s' \<Rightarrow> Checked (False, s'))
      | None \<Rightarrow> create_connection_fd p env k s))"

text \<open>\<^verbatim>\<open>size()\<close> of the two containers and the number of sockets that are ready.\<close>

definition wh_sockets :: "webhook \<Rightarrow> nat" where
  "wh_sockets s = container_count (wh_connections s) + container_count (wh_pending_sockets s) + wh_ready_sockets s"

text \<open>
  The first loop of \<^verbatim>\<open>create_new_connections\<close>; \<open>False\<close> means that the method returned.  Every iteration that does not
  leave the loop adds a connection, so the number of needed connections is enough fuel.
\<close>

fun create_loop :: "wh_params \<Rightarrow> 's wh_env \<Rightarrow> bool \<Rightarrow> nat \<Rightarrow> nat \<Rightarrow> nat \<Rightarrow> webhook \<Rightarrow> (bool \<times> webhook) checked" where
  "create_loop p env active need 0 k s = Checked (True, s)"
| "create_loop p env active need (Suc fuel) k s =
     (if \<not> wh_sockets s < need then Checked (True, s)
      else (let now = we_now env AtCreate;
                flood = (if active then wh_active_new_connection_flood s else wh_pending_new_connection_flood s)
            in if now < get_wakeup_at flood then Checked (True, relax_wakeup_at (get_wakeup_at flood) s)
               else (case fc_add_event now flood of
                 CheckFailed \<Rightarrow> CheckFailed
               | Checked flood' \<Rightarrow>
                   (let s1 = (if active then s\<lparr>wh_active_new_connection_flood := flood'\<rparr>
                              else s\<lparr>wh_pending_new_connection_flood := flood'\<rparr>)
                    in case create_connection p env k s1 of
                         CheckFailed \<Rightarrow> CheckFailed
                       | Checked (False, s2) \<Rightarrow> Checked (False, relax_wakeup_at (now + 1) s2)
                       | Checked (True, s2) \<Rightarrow> create_loop p env active need fuel (Suc k) s2))))"

text \<open>The second loop uses the sockets of the proxy; what is left of them is closed at the end.\<close>

fun use_sockets :: "wh_params \<Rightarrow> 's wh_env \<Rightarrow> nat \<Rightarrow> nat \<Rightarrow> nat \<Rightarrow> webhook \<Rightarrow> webhook checked" where
  "use_sockets p env need 0 k s = Checked s"
| "use_sockets p env need (Suc n) k s =
     (if \<not> container_count (wh_connections s) + container_count (wh_pending_sockets s) < need then Checked s
      else (case create_connection_fd p env k (s\<lparr>wh_ready_sockets := n\<rparr>) of
        CheckFailed \<Rightarrow> CheckFailed
      | Checked (False, s1) \<Rightarrow> Checked (relax_wakeup_at (we_now env AtCreate + 1) s1)
      | Checked (True, s1) \<Rightarrow> use_sockets p env need n (Suc k) s1))"

definition create_new_connections :: "wh_params \<Rightarrow> 's wh_env \<Rightarrow> webhook \<Rightarrow> webhook checked" where
  "create_new_connections p env s =
     (if \<not> is_valid (wh_ip_address s) then Checked s
      else if hu_protocol (wp_url p) \<noteq> Http \<and> \<not> wh_ssl_ctx s then Checked s
      else (let need0 = min (length (wh_queue_updates s)) (nat (wp_max_connections p));
                need1 = (if \<not> wh_was_checked s then 1 else need0);
                active = (\<not> wh_last_success_time s + 10 < we_now env AtCreate);
                need = (if active then (if need1 = 0 then 1 else need1) else min need1 1)
            in case create_loop p env active need need 0 s of
                 CheckFailed \<Rightarrow> CheckFailed
               | Checked (False, s1) \<Rightarrow> Checked s1
               | Checked (True, s1) \<Rightarrow>
                   (case use_sockets p env need (wh_ready_sockets s1) (Suc need) s1 of
                      CheckFailed \<Rightarrow> CheckFailed
                    | Checked s2 \<Rightarrow> Checked (s2\<lparr>wh_ready_sockets := 0\<rparr>))))"

section \<open>Loading updates\<close>

text \<open>The loop that doubles \<^verbatim>\<open>last_pending_update_count_\<close> until it exceeds the number of updates.\<close>

function double_until :: "nat \<Rightarrow> nat \<Rightarrow> nat" where
  "double_until n c = (if 0 < c \<and> n \<ge> c then double_until n (2 * c) else c)"
  by auto
termination by (relation "measure (\<lambda>(n, c). n + 1 - c)") auto

declare double_until.simps [simp del]

definition next_pending_update_count :: "nat \<Rightarrow> nat \<Rightarrow> nat" where
  "next_pending_update_count n c =
     (if n \<le> WH_MIN_PENDING_UPDATES_WARNING div 2
      then (if c > WH_MIN_PENDING_UPDATES_WARNING then WH_MIN_PENDING_UPDATES_WARNING else c)
      else if n \<ge> c then double_until n c else c)"

definition event_ids :: "webhook \<Rightarrow> int \<Rightarrow> int list" where
  "event_ids s qid = (case map_of (wh_queue_updates s) qid of None \<Rightarrow> [] | Some es \<Rightarrow> es)"

text \<open>The body of the loop of \<^verbatim>\<open>load_updates\<close> for one event; an event that is already loaded is skipped.\<close>

definition load_update :: "real \<Rightarrow> int \<Rightarrow> tq_event \<Rightarrow> webhook \<Rightarrow> webhook checked" where
  "load_update now unix_time_now u s =
     (if \<not> eid_is_valid (te_id u) then CheckFailed
      else if wh_update_map s (te_id u) \<noteq> None then Checked s
      else if \<not> te_expires_at u \<ge> unix_time_now then CheckFailed
      else (case eid_next (te_id u) of
        Inl _ \<Rightarrow> CheckFailed
      | Inr next \<Rightarrow>
          (let (qid, unique) = (if te_extra u = 0 then (wh_unique_queue_id s, wh_unique_queue_id s + 1)
                                else (te_extra u, wh_unique_queue_id s));
               dest = \<lparr>wu_id = te_id u, wu_json = te_data u, wu_expires_at = te_expires_at u, wu_last_send_time = 0,
                       wu_wakeup_at = now, wu_delay = 1, wu_fail_count = 0, wu_queue_id = qid\<rparr>;
               es = event_ids s qid
           in Checked (s\<lparr>wh_update_map := (wh_update_map s)(te_id u \<mapsto> dest), wh_tqueue_offset := next,
                          wh_unique_queue_id := unique,
                          wh_queues := (if es = [] then queues_emplace (new_wh_queue now qid) (wh_queues s) else wh_queues s),
                          wh_queue_updates := AList.update qid (es @ [te_id u]) (wh_queue_updates s)\<rparr>))))"

fun load_each :: "real \<Rightarrow> int \<Rightarrow> tq_event list \<Rightarrow> webhook \<Rightarrow> webhook checked" where
  "load_each now unix_time_now [] s = Checked s"
| "load_each now unix_time_now (u # us) s =
     (case load_update now unix_time_now u s of
        CheckFailed \<Rightarrow> CheckFailed
      | Checked s' \<Rightarrow> load_each now unix_time_now us s')"

text \<open>
  The read from the \<^verbatim>\<open>TQueue\<close>: the events, the total number and the offset; after an error the read is repeated from
  the head, where \<^verbatim>\<open>ensure\<close> requires success.
\<close>

definition read_updates ::
  "wh_params \<Rightarrow> 's wh_env \<Rightarrow> int \<Rightarrow> nat \<Rightarrow> int \<Rightarrow> 's tqueue \<Rightarrow> ((nat \<times> tq_event list) \<times> int \<times> 's tqueue) checked" where
  "read_updates p env offset limit unix_time_now tq =
     (if offset = 0 then Checked ((0, []), offset, tq)
      else (case tq_get (we_ops env) (wp_tqueue_id p) offset False unix_time_now limit tq of
        CheckFailed \<Rightarrow> CheckFailed
      | Checked (Inr r, tq1) \<Rightarrow> Checked (r, offset, tq1)
      | Checked (Inl _, tq1) \<Rightarrow>
          (let head = get_head (wp_tqueue_id p) tq1
           in case tq_get (we_ops env) (wp_tqueue_id p) head False unix_time_now limit tq1 of
                CheckFailed \<Rightarrow> CheckFailed
              | Checked (Inl _, _) \<Rightarrow> CheckFailed
              | Checked (Inr r, tq2) \<Rightarrow> Checked (r, head, tq2))))"

definition load_updates :: "wh_params \<Rightarrow> 's wh_env \<Rightarrow> 's tqueue \<Rightarrow> webhook \<Rightarrow> ('s tqueue \<times> webhook) checked" where
  "load_updates p env tq s =
     (if wh_tqueue_empty s then Checked (tq, s)
      else if length (wh_queue_updates s) \<ge> wh_max_loaded_updates s
      then (if length (wh_queue_updates s) \<noteq> wh_max_loaded_updates s then CheckFailed else Checked (tq, s))
      else (let offset = (if wh_tqueue_offset s = 0 then get_head (wp_tqueue_id p) tq else wh_tqueue_offset s);
                limit = min TQUEUE_EVENT_BUFFER_SIZE (wh_max_loaded_updates s - length (wh_queue_updates s));
                now = we_now env AtLoad;
                unix_time_now = we_unix_time env now
            in case read_updates p env offset limit unix_time_now tq of
                 CheckFailed \<Rightarrow> CheckFailed
               | Checked ((total_n, updates), offset', tq') \<Rightarrow>
                   (let s1 = s\<lparr>wh_tqueue_offset := offset', wh_tqueue_empty := (updates = [])\<rparr>
                    in case load_each now unix_time_now updates s1 of
                         CheckFailed \<Rightarrow> CheckFailed
                       | Checked s2 \<Rightarrow>
                           (let s3 = s2\<lparr>wh_last_pending_update_count :=
                                         next_pending_update_count total_n (wh_last_pending_update_count s2)\<rparr>
                            in Checked (tq', if length updates = total_n \<and> wh_last_update_was_successful s3
                                             then wh_notify WmSuccess s3 else s3)))))"

section \<open>Sending updates\<close>

definition drop_event :: "wh_params \<Rightarrow> 's wh_env \<Rightarrow> int \<Rightarrow> 's tqueue \<Rightarrow> webhook \<Rightarrow> ('s tqueue \<times> webhook) checked" where
  "drop_event p env event_id tq s =
     (case wh_update_map s event_id of
        None \<Rightarrow> CheckFailed
      | Some u \<Rightarrow>
          (let qid = wu_queue_id u; s1 = s\<lparr>wh_update_map := (wh_update_map s)(event_id := None)\<rparr>
           in case map_of (wh_queue_updates s1) qid of
                None \<Rightarrow> CheckFailed
              | Some [] \<Rightarrow> CheckFailed
              | Some (e # es) \<Rightarrow>
                  (if event_id \<noteq> e then CheckFailed
                   else (case (case es of
                           [] \<Rightarrow> Checked (s1\<lparr>wh_queue_updates := AList.delete qid (wh_queue_updates s1)\<rparr>)
                         | e' # _ \<Rightarrow>
                             (if \<not> eid_is_valid e' then CheckFailed
                              else (case wh_update_map s1 e' of
                                None \<Rightarrow> CheckFailed
                              | Some u' \<Rightarrow>
                                  Checked (s1\<lparr>wh_queue_updates := AList.update qid es (wh_queue_updates s1),
                                              wh_queues := queues_emplace (new_wh_queue (wu_wakeup_at u') (wu_queue_id u'))
                                                             (wh_queues s1)\<rparr>)))) of
                      CheckFailed \<Rightarrow> CheckFailed
                    | Checked s2 \<Rightarrow>
                        (case forget (we_ops env) (wp_tqueue_id p) event_id tq of
                           CheckFailed \<Rightarrow> CheckFailed
                         | Checked tq' \<Rightarrow> Checked (tq', s2))))))"

definition on_update_ok :: "wh_params \<Rightarrow> 's wh_env \<Rightarrow> int \<Rightarrow> 's tqueue \<Rightarrow> webhook \<Rightarrow> ('s tqueue \<times> webhook) checked" where
  "on_update_ok p env event_id tq s =
     (let s1 = s\<lparr>wh_last_update_was_successful := True, wh_last_success_time := we_now env AtOk\<rparr>
      in if wh_update_map s1 event_id = None then CheckFailed else drop_event p env event_id tq s1)"

text \<open>The delay before the next attempt and the delay that is stored.\<close>

definition next_delays :: "'s wh_env \<Rightarrow> int \<Rightarrow> wh_update \<Rightarrow> int \<times> int" where
  "next_delays env retry_after u =
     (if retry_after = 0 \<and> wu_fail_count u > 0
      then (let d = min (we_random env WEBHOOK_MAX_RESEND_TIMEOUT (WEBHOOK_MAX_RESEND_TIMEOUT * 2)) (wu_delay u * 2) in (d, d))
      else (wu_delay u, retry_after))"

definition on_update_error ::
  "wh_params \<Rightarrow> 's wh_env \<Rightarrow> int \<Rightarrow> int \<Rightarrow> 's tqueue \<Rightarrow> webhook \<Rightarrow> ('s tqueue \<times> webhook) checked" where
  "on_update_error p env event_id retry_after0 tq s =
     (let s1 = s\<lparr>wh_last_update_was_successful := False\<rparr>; now = we_now env AtError
      in case wh_update_map s1 event_id of
           None \<Rightarrow> CheckFailed
         | Some u \<Rightarrow>
             (let (next_delay, next_effective_delay) = next_delays env (clamp retry_after0 0 3600) u
              in if we_unix_time env now + next_effective_delay > wu_expires_at u then drop_event p env event_id tq s1
                 else (let u' = u\<lparr>wu_delay := next_delay, wu_wakeup_at := now + real_of_int next_effective_delay,
                                  wu_fail_count := wu_fail_count u + 1\<rparr>
                       in Checked (tq, s1\<lparr>wh_update_map := (wh_update_map s1)(event_id \<mapsto> u'),
                                          wh_queues := queues_emplace (new_wh_queue (wu_wakeup_at u') (wu_queue_id u'))
                                                         (wh_queues s1)\<rparr>))))"

definition json_update :: "int \<Rightarrow> string \<Rightarrow> string checked" where
  "json_update i update =
     (if update = [] then CheckFailed
      else Checked (''{'' @ [CHR 0x22] @ ''update_id'' @ [CHR 0x22] @ '':'' @ print_int 32 i @ '','' @ [CHR 0x0A] @ update @ ''}''))"

definition update_header :: "wh_params \<Rightarrow> nat \<Rightarrow> string result" where
  "update_header p body_size =
     (let url = wp_url p;
          h1 = add_header ''Host'' (wp_host_header p) (init_post (hu_query url));
          h2 = (if hu_userinfo url \<noteq> [] then add_header ''Authorization'' (''Basic '' @ base64_encode (hu_userinfo url)) h1 else h1);
          h3 = (if wp_secret_token p \<noteq> [] then add_header ''X-Telegram-Bot-Api-Secret-Token'' (wp_secret_token p) h2 else h2);
          h4 = set_keep_alive (set_content_size body_size (set_content_type ''application/json'' h3));
          h5 = add_header ''Accept-Encoding'' ''gzip, deflate'' h4
      in hc_finish [] h5)"

definition send_update :: "wh_params \<Rightarrow> 's wh_env \<Rightarrow> nat \<Rightarrow> webhook \<Rightarrow> (bool \<times> webhook) checked" where
  "send_update p env k s =
     (if wh_ready_connections s = [] then Checked (False, s)
      else (case wh_queues s of
        [] \<Rightarrow> Checked (False, s)
      | q # qs \<Rightarrow>
          (let now = we_now env (AtSend k)
           in if wq_wakeup_at q > now then Checked (False, relax_wakeup_at (wq_wakeup_at q) s)
              else if wq_id q = 0 then CheckFailed
              else (let s1 = s\<lparr>wh_queues := qs\<rparr>
                    in case event_ids s1 (wq_id q) of
                         [] \<Rightarrow> CheckFailed
                       | event_id # _ \<Rightarrow>
                           (if \<not> eid_is_valid event_id then CheckFailed
                            else (case wh_update_map s1 event_id of
                              None \<Rightarrow> CheckFailed
                            | Some u \<Rightarrow>
                                (let s2 = s1\<lparr>wh_update_map := (wh_update_map s1)(event_id \<mapsto> u\<lparr>wu_last_send_time := now\<rparr>)\<rparr>
                                 in case json_update (wu_id u) (wu_json u) of
                                      CheckFailed \<Rightarrow> CheckFailed
                                    | Checked body \<Rightarrow>
                                        (case update_header p (length body) of
                                           Inl _ \<Rightarrow> Checked (False, s2)
                                         | Inr header \<Rightarrow>
                                             (let cid = last (wh_ready_connections s2)
                                              in Checked (True, wh_send [WmWrite cid header, WmWrite cid body, WmWriteOk cid]
                                                   (s2\<lparr>wh_ready_connections := butlast (wh_ready_connections s2),
                                                       wh_connections := container_modify cid (\<lambda>c. c\<lparr>wc_event_id := wu_id u\<rparr>)
                                                                           (wh_connections s2)\<rparr>)))))))))))"

text \<open>Every iteration of \<^verbatim>\<open>send_updates\<close> that succeeds uses a connection.\<close>

fun send_loop :: "wh_params \<Rightarrow> 's wh_env \<Rightarrow> nat \<Rightarrow> nat \<Rightarrow> webhook \<Rightarrow> webhook checked" where
  "send_loop p env 0 k s = Checked s"
| "send_loop p env (Suc n) k s =
     (case send_update p env k s of
        CheckFailed \<Rightarrow> CheckFailed
      | Checked (False, s') \<Rightarrow> Checked s'
      | Checked (True, s') \<Rightarrow> send_loop p env n (Suc k) s')"

definition send_updates :: "wh_params \<Rightarrow> 's wh_env \<Rightarrow> webhook \<Rightarrow> webhook checked" where
  "send_updates p env s = send_loop p env (Suc (length (wh_ready_connections s))) 0 s"

section \<open>The event loop\<close>

definition wh_loop :: "wh_params \<Rightarrow> 's wh_env \<Rightarrow> 's tqueue \<Rightarrow> webhook \<Rightarrow> ('s tqueue \<times> webhook) checked" where
  "wh_loop p env tq s0 =
     (let s = s0\<lparr>wh_wakeup_at := 0\<rparr>
      in case (if \<not> wh_stop_flag s then load_updates p env tq s else Checked (tq, s)) of
           CheckFailed \<Rightarrow> CheckFailed
         | Checked (tq1, s1) \<Rightarrow>
             (let s2 = (if \<not> wh_stop_flag s1 then resolve_ip_address p env s1 else s1)
              in case (if \<not> wh_stop_flag s2 then create_new_connections p env s2 else Checked s2) of
                   CheckFailed \<Rightarrow> CheckFailed
                 | Checked s3 \<Rightarrow>
                     (case (if \<not> wh_stop_flag s3 then send_updates p env s3 else Checked s3) of
                        CheckFailed \<Rightarrow> CheckFailed
                      | Checked s4 \<Rightarrow>
                          (let s5 = (if \<not> wh_stop_flag s4 \<and> wh_wakeup_at s4 \<noteq> 0 then s4\<lparr>wh_timeout := Some (wh_wakeup_at s4)\<rparr> else s4)
                           in Checked (tq1, if wh_stop_flag s5 then s5\<lparr>wh_stopped := True\<rparr> else s5)))))"

definition wh_update_arrived :: "wh_params \<Rightarrow> 's wh_env \<Rightarrow> 's tqueue \<Rightarrow> webhook \<Rightarrow> ('s tqueue \<times> webhook) checked" where
  "wh_update_arrived p env tq s = wh_loop p env tq (s\<lparr>wh_tqueue_empty := False\<rparr>)"

definition on_resolved_ip_address ::
  "wh_params \<Rightarrow> 's wh_env \<Rightarrow> ip_address result \<Rightarrow> 's tqueue \<Rightarrow> webhook \<Rightarrow> ('s tqueue \<times> webhook) checked" where
  "on_resolved_ip_address p env r tq s =
     (if \<not> wh_is_ip_address_being_resolved s then CheckFailed
      else (let next = we_now env AtResolved + real_of_int (IP_ADDRESS_CACHE_TIME + we_random env 0 (IP_ADDRESS_CACHE_TIME div 10));
                s1 = relax_wakeup_at next (s\<lparr>wh_is_ip_address_being_resolved := False, wh_next_ip_address_resolve_time := next\<rparr>)
            in case (case r of
                 Inl e \<Rightarrow> wh_on_error e s1
               | Inr addr \<Rightarrow>
                   (case check_ip_address p env addr of
                      CheckFailed \<Rightarrow> CheckFailed
                    | Checked (Inl e) \<Rightarrow> wh_on_error e s1
                    | Checked (Inr _) \<Rightarrow>
                        (if wh_ip_address s1 \<noteq> addr
                         then (let s2 = s1\<lparr>wh_ip_address := addr, wh_ip_generation := wh_ip_generation s1 + 1\<rparr>
                               in Checked (if wh_was_checked s2 then on_webhook_verified env s2 else s2))
                         else Checked s1))) of
                 CheckFailed \<Rightarrow> CheckFailed
               | Checked s3 \<Rightarrow> wh_loop p env tq s3))"

definition on_ssl_context_created ::
  "wh_params \<Rightarrow> 's wh_env \<Rightarrow> status option \<Rightarrow> 's tqueue \<Rightarrow> webhook \<Rightarrow> ('s tqueue \<times> webhook) checked" where
  "on_ssl_context_created p env r tq s =
     (case r of
        Some e \<Rightarrow>
          (case create_webhook_error env (''Can'' @ [CHR 0x27] @ ''t create an SSL context'') e True s of
             CheckFailed \<Rightarrow> CheckFailed
           | Checked s1 \<Rightarrow> wh_loop p env tq s1)
      | None \<Rightarrow> wh_loop p env tq (s\<lparr>wh_ssl_ctx := True\<rparr>))"

definition on_socket_ready_async ::
  "wh_params \<Rightarrow> 's wh_env \<Rightarrow> status option \<Rightarrow> container_id \<Rightarrow> 's tqueue \<Rightarrow> webhook \<Rightarrow> ('s tqueue \<times> webhook) checked" where
  "on_socket_ready_async p env r cid tq s =
     (let s1 = s\<lparr>wh_pending_sockets := container_erase cid (wh_pending_sockets s)\<rparr>
      in case (case r of
           None \<Rightarrow> Checked (s1\<lparr>wh_ready_sockets := wh_ready_sockets s1 + 1\<rparr>)
         | Some e \<Rightarrow> wh_on_error e (on_webhook_error env (status_message e) s1)) of
           CheckFailed \<Rightarrow> CheckFailed
         | Checked s2 \<Rightarrow> wh_loop p env tq s2)"

section \<open>Responses\<close>

definition forbidden_reply :: "string \<Rightarrow> bool" where
  "forbidden_reply m \<longleftrightarrow>
     m = [] \<or> m = ''deletewebhook'' \<or> m = ''setwebhook'' \<or> m = ''close'' \<or> m = ''logout'' \<or> begins_with m ''get''"

definition reply_query :: "wh_params \<Rightarrow> http_query \<Rightarrow> api_query" where
  "reply_query p r =
     new_query (print_int 64 (wp_tqueue_id p mod 2 ^ 54)) (wp_tqueue_id p \<ge> 2 ^ 54) [] (hq_args r) (hq_headers r)
       (hq_peer_address r) False"

text \<open>
  What \<^verbatim>\<open>handle\<close> finds in a response: whether to close the connection, the error (empty for success), the time to wait
  and whether to close the webhook.
\<close>

definition response_result ::
  "wh_params \<Rightarrow> 's wh_env \<Rightarrow> wh_conn \<Rightarrow> http_query option \<Rightarrow> webhook \<Rightarrow> (bool \<times> string \<times> int \<times> bool) \<times> webhook" where
  "response_result p env c response s =
     (case response of
        None \<Rightarrow> ((True, ''Webhook connection closed'', 0, False), s)
      | Some r \<Rightarrow>
          (let close_connection = (hq_type r \<noteq> HttpResponse \<or> \<not> hq_keep_alive r \<or> wh_ip_generation s \<noteq> wc_ip_generation c)
           in if hq_type r = HttpResponse
              then (if 200 \<le> hq_code r \<and> hq_code r \<le> 299
                    then ((close_connection, [], 0, False),
                          (if forbidden_reply (to_lower (get_arg ''method'' r)) then s else wh_notify (WmSendQuery (reply_query p r)) s)
                            \<lparr>wh_first_error_410_time := 0\<rparr>)
                    else (let err = ''Wrong response from the webhook: '' @ print_int 32 (hq_code r) @ '' '' @ hq_reason r;
                              first = wh_first_error_410_time s;
                              need_close = (hq_code r = 410 \<and> first \<noteq> 0 \<and> we_now env At410 > first + real_of_int WEBHOOK_DROP_TIMEOUT);
                              s1 = s\<lparr>wh_first_error_410_time :=
                                       (if hq_code r \<noteq> 410 then 0 else if first = 0 then we_now env At410 else first)\<rparr>
                          in ((close_connection, err, get_retry_after r, need_close), on_webhook_error env err s1)))
              else (let err = ''Wrong response from the webhook: '' @ we_print_query env r
                    in ((close_connection, err, 0, False), on_webhook_error env err s))))"

definition finish_connection :: "container_id \<Rightarrow> bool \<Rightarrow> webhook \<Rightarrow> webhook" where
  "finish_connection cid close s =
     (let conns = container_modify cid (\<lambda>c. c\<lparr>wc_event_id := 0\<rparr>) (wh_connections s)
      in if close
         then s\<lparr>wh_connections := container_erase cid conns,
                wh_ready_connections := filter (\<lambda>c. c \<noteq> cid) (wh_ready_connections s)\<rparr>
         else s\<lparr>wh_connections := conns, wh_ready_connections := cid # wh_ready_connections s\<rparr>)"

definition wh_handle ::
  "wh_params \<Rightarrow> 's wh_env \<Rightarrow> container_id \<Rightarrow> http_query option \<Rightarrow> 's tqueue \<Rightarrow> webhook \<Rightarrow> ('s tqueue \<times> webhook) checked" where
  "wh_handle p env cid response tq s =
     (case container_lookup (wh_connections s) cid of
        None \<Rightarrow> Checked (tq, s)
      | Some c \<Rightarrow>
          (let ((close_connection, query_error, retry_after, need_close), s1) = response_result p env c response s;
               event_id = wc_event_id c
           in case (if event_id \<noteq> 0
                    then (if query_error = [] then on_update_ok p env event_id tq s1
                          else on_update_error p env event_id retry_after tq s1)
                    else if query_error = [] then CheckFailed else Checked (tq, s1)) of
                CheckFailed \<Rightarrow> CheckFailed
              | Checked (tq2, s2) \<Rightarrow>
                  (let s3 = finish_connection cid (need_close \<or> close_connection) s2
                   in if need_close then Checked (tq2, wh_send [WmCloseLater] s3) else wh_loop p env tq2 s3)))"

definition wh_hangup_shared ::
  "wh_params \<Rightarrow> 's wh_env \<Rightarrow> 's wh_env \<Rightarrow> container_id \<Rightarrow> 's tqueue \<Rightarrow> webhook \<Rightarrow> ('s tqueue \<times> webhook) checked" where
  "wh_hangup_shared p env env' cid tq s =
     (case wh_handle p env cid None tq s of
        CheckFailed \<Rightarrow> CheckFailed
      | Checked (tq1, s1) \<Rightarrow> wh_loop p env' tq1 s1)"

definition wh_close :: "webhook \<Rightarrow> webhook" where
  "wh_close s = (wh_notify (WmClosed None) s)\<lparr>wh_callback := False, wh_stopped := True\<rparr>"

definition wh_hangup :: "webhook \<Rightarrow> webhook" where
  "wh_hangup s = s\<lparr>wh_callback := False, wh_stopped := True\<rparr>"

section \<open>Start\<close>

definition start_state :: "wh_params \<Rightarrow> 's wh_env \<Rightarrow> webhook \<Rightarrow> webhook" where
  "start_state p env s =
     (let last_success = we_now env AtStart - real_of_int (2 * IP_ADDRESS_CACHE_TIME)
      in s\<lparr>wh_max_loaded_updates := nat (wp_max_connections p * 2), wh_last_success_time := last_success,
           wh_next_ip_address_resolve_time :=
             (if wp_from_db_flag p then we_now env AtStartDb + real_of_int (we_random env 0 IP_ADDRESS_CACHE_TIME) else last_success),
           wh_active_new_connection_flood := add_limit (1 / 2) 10 (wh_active_new_connection_flood s),
           wh_pending_new_connection_flood := add_limit 2 1 (wh_pending_new_connection_flood s)\<rparr>)"

definition check_protocol :: "wh_params \<Rightarrow> webhook \<Rightarrow> webhook checked" where
  "check_protocol p s =
     (if wp_local_mode p then Checked s
      else (case hu_protocol (wp_url p) of
        Https \<Rightarrow>
          (if hu_port (wp_url p) \<noteq> 443 \<and> hu_port (wp_url p) \<noteq> 88 \<and> hu_port (wp_url p) \<noteq> 80 \<and> hu_port (wp_url p) \<noteq> 8443
           then wh_on_error (Status 0 ''Webhook can be set up only on ports 80, 88, 443 or 8443'') s else Checked s)
      | Http \<Rightarrow> wh_on_error (Status 0 ''An HTTPS URL must be provided for webhook'') s))"

definition wh_start_up :: "wh_params \<Rightarrow> 's wh_env \<Rightarrow> webhook \<Rightarrow> webhook checked" where
  "wh_start_up p env s0 =
     (case check_protocol p (start_state p env s0) of
        CheckFailed \<Rightarrow> CheckFailed
      | Checked s1 \<Rightarrow>
          (case (if wp_fix_ip_address p \<and> \<not> wh_stop_flag s1 then check_ip_address p env (wh_ip_address s1) else Checked (Ok ())) of
             CheckFailed \<Rightarrow> CheckFailed
           | Checked (Inl e) \<Rightarrow> wh_on_error e s1
           | Checked (Inr _) \<Rightarrow>
               (let s2 = (if wp_from_db_flag p \<and> \<not> wh_stop_flag s1 then on_webhook_verified env (s1\<lparr>wh_was_checked := True\<rparr>) else s1)
                in Checked (if hu_protocol (wp_url p) \<noteq> Http \<and> \<not> wh_stop_flag s2
                            then wh_send [WmCreateSslContext (wp_cert_path p)] s2 else s2))))"

section \<open>Events\<close>

datatype wh_event =
    WeLoop
  | WeUpdate
  | WeResolved "ip_address result"
  | WeSslContext "status option"
  | WeSocket "status option" container_id
  | WeResponse container_id http_query
  | WeHangupShared container_id
  | WeConnectionError status
  | WeClose
  | WeHangup

fun wh_event_step ::
  "wh_params \<Rightarrow> 's wh_env \<Rightarrow> 's wh_env \<Rightarrow> wh_event \<Rightarrow> 's tqueue \<Rightarrow> webhook \<Rightarrow> ('s tqueue \<times> webhook) checked" where
  "wh_event_step p env env' WeLoop tq s = wh_loop p env tq s"
| "wh_event_step p env env' WeUpdate tq s = wh_update_arrived p env tq s"
| "wh_event_step p env env' (WeResolved r) tq s = on_resolved_ip_address p env r tq s"
| "wh_event_step p env env' (WeSslContext r) tq s = on_ssl_context_created p env r tq s"
| "wh_event_step p env env' (WeSocket r cid) tq s = on_socket_ready_async p env r cid tq s"
| "wh_event_step p env env' (WeResponse cid r) tq s = wh_handle p env cid (Some r) tq s"
| "wh_event_step p env env' (WeHangupShared cid) tq s = wh_hangup_shared p env env' cid tq s"
| "wh_event_step p env env' (WeConnectionError e) tq s = Checked (tq, on_connection_error env e s)"
| "wh_event_step p env env' WeClose tq s = Checked (tq, wh_close s)"
| "wh_event_step p env env' WeHangup tq s = Checked (tq, wh_hangup s)"

text \<open>
  When an event can happen: the resolver answers a request, a socket is one that was requested, and an HTTP connection
  passes on a response only after a request was written to it (\<^verbatim>\<open>HttpConnectionBase\<close> reads only in the state that
  \<^verbatim>\<open>write_ok\<close> enters).
\<close>

fun wh_enabled :: "wh_event \<Rightarrow> webhook \<Rightarrow> bool" where
  "wh_enabled (WeResolved r) s \<longleftrightarrow> wh_is_ip_address_being_resolved s"
| "wh_enabled (WeSocket r cid) s \<longleftrightarrow> container_lookup (wh_pending_sockets s) cid \<noteq> None"
| "wh_enabled (WeResponse cid r) s \<longleftrightarrow>
     (case container_lookup (wh_connections s) cid of None \<Rightarrow> True | Some c \<Rightarrow> wc_event_id c \<noteq> 0)"
| "wh_enabled _ s \<longleftrightarrow> True"

end
