(* ===== verification/WebhookTables.thy ===== *)
theory WebhookTables
  imports WebhookActor
begin

text \<open>
  The tables of a webhook, abstractly: which updates are loaded, which queues wait to be sent, which updates are in flight
  and how loading, sending, repeating and dropping an update change this (\<open>delivery\<close>, \<open>nothing_stuck\<close>), and the table
  of the connections with its list of ready connections (\<open>conn_table\<close>, \<open>flights\<close>).
\<close>

section \<open>The delivery of updates, abstractly\<close>

text \<open>
  The abstract state of the delivery: the loaded updates \<open>U\<close>, the queues \<open>Q\<close> in the order of arrival, the queues
  \<open>W\<close> that wait to be sent and the updates \<open>F\<close> in flight.  An update in flight is the oldest one of its queue, which does
  not wait.
\<close>

definition json_ok :: "string \<Rightarrow> bool" where
  "json_ok j \<longleftrightarrow> j \<noteq> [] \<and> length j \<le> MAX_EVENT_LENGTH"

definition delivery :: "(int \<Rightarrow> wh_update option) \<Rightarrow> (int \<Rightarrow> int list option) \<Rightarrow> int set \<Rightarrow> int set \<Rightarrow> bool" where
  "delivery U Q W F \<longleftrightarrow>
     (\<forall>q es. Q q = Some es \<longrightarrow> es \<noteq> [] \<and> distinct es \<and> q \<noteq> 0 \<and> (\<forall>e \<in> set es. \<exists>u. U e = Some u \<and> wu_queue_id u = q)) \<and>
     (\<forall>e u. U e = Some u \<longrightarrow> wu_id u = e \<and> eid_is_valid e \<and> json_ok (wu_json u) \<and> (\<exists>es. Q (wu_queue_id u) = Some es \<and> e \<in> set es)) \<and>
     W \<subseteq> dom Q \<and>
     (\<forall>e \<in> F. \<exists>u es. U e = Some u \<and> Q (wu_queue_id u) = Some (e # es) \<and> wu_queue_id u \<notin> W)"

text \<open>No loaded queue is forgotten: it waits or its oldest update is in flight.\<close>

definition nothing_stuck :: "(int \<Rightarrow> int list option) \<Rightarrow> int set \<Rightarrow> int set \<Rightarrow> bool" where
  "nothing_stuck Q W F \<longleftrightarrow> (\<forall>q es. Q q = Some es \<longrightarrow> q \<in> W \<or> hd es \<in> F)"

lemma deliveryI:
  assumes "\<And>q es. Q q = Some es \<Longrightarrow> es \<noteq> [] \<and> distinct es \<and> q \<noteq> 0 \<and> (\<forall>e \<in> set es. \<exists>u. U e = Some u \<and> wu_queue_id u = q)"
    and "\<And>e u. U e = Some u \<Longrightarrow> wu_id u = e \<and> eid_is_valid e \<and> json_ok (wu_json u) \<and> (\<exists>es. Q (wu_queue_id u) = Some es \<and> e \<in> set es)"
    and "W \<subseteq> dom Q" and "\<And>e. e \<in> F \<Longrightarrow> \<exists>u es. U e = Some u \<and> Q (wu_queue_id u) = Some (e # es) \<and> wu_queue_id u \<notin> W"
  shows "delivery U Q W F"
  using assms unfolding delivery_def by blast

lemma delivery_queue:
  "delivery U Q W F \<Longrightarrow> Q q = Some es \<Longrightarrow> es \<noteq> [] \<and> distinct es \<and> q \<noteq> 0 \<and> (\<forall>e \<in> set es. \<exists>u. U e = Some u \<and> wu_queue_id u = q)"
  by (simp add: delivery_def)

lemma delivery_update:
  "delivery U Q W F \<Longrightarrow> U e = Some u \<Longrightarrow>
   wu_id u = e \<and> eid_is_valid e \<and> json_ok (wu_json u) \<and> (\<exists>es. Q (wu_queue_id u) = Some es \<and> e \<in> set es)"
  by (simp add: delivery_def)

lemma delivery_waiting: "delivery U Q W F \<Longrightarrow> q \<in> W \<Longrightarrow> \<exists>es. Q q = Some es"
  unfolding delivery_def by blast

lemma delivery_flight:
  "delivery U Q W F \<Longrightarrow> e \<in> F \<Longrightarrow> \<exists>u es. U e = Some u \<and> Q (wu_queue_id u) = Some (e # es) \<and> wu_queue_id u \<notin> W"
  by (simp add: delivery_def)

text \<open>An update determines its queue: two queues have no update in common.\<close>

lemma delivery_disjoint:
  assumes "delivery U Q W F" "Q q = Some es" "Q r = Some fs" "e \<in> set es" "e \<in> set fs"
  shows "q = r"
  using delivery_queue [OF assms(1,2)] delivery_queue [OF assms(1,3)] assms(4,5) by force

section \<open>Steps of the delivery\<close>

lemma load_delivery:
  assumes d: "delivery U Q W F" and u: "U e = None" "wu_id u = e" "wu_queue_id u = q" "json_ok (wu_json u)" "eid_is_valid e" "q \<noteq> 0"
    and es: "es = (case Q q of None \<Rightarrow> [] | Some es \<Rightarrow> es)"
  shows "delivery (U(e \<mapsto> u)) (Q(q \<mapsto> es @ [e])) (if es = [] then insert q W else W) F"
    and "nothing_stuck Q W F \<Longrightarrow> nothing_stuck (Q(q \<mapsto> es @ [e])) (if es = [] then insert q W else W) F"
proof -
  have old: "x \<in> set es \<Longrightarrow> \<exists>u. U x = Some u \<and> wu_queue_id u = q" for x
    using delivery_queue [OF d, of q] es by (auto split: option.splits)
  then have e: "e \<notin> set es" using u(1) by force
  have "distinct es" using delivery_queue [OF d, of q] es by (auto split: option.splits)
  then have q: "es @ [e] \<noteq> [] \<and> distinct (es @ [e]) \<and> q \<noteq> 0 \<and> (\<forall>x \<in> set (es @ [e]). \<exists>u'. (U(e \<mapsto> u)) x = Some u' \<and> wu_queue_id u' = q)"
    using e u old by auto
  show "delivery (U(e \<mapsto> u)) (Q(q \<mapsto> es @ [e])) (if es = [] then insert q W else W) F"
  proof (rule deliveryI)
    fix r fs assume r: "(Q(q \<mapsto> es @ [e])) r = Some fs"
    show "fs \<noteq> [] \<and> distinct fs \<and> r \<noteq> 0 \<and> (\<forall>x \<in> set fs. \<exists>u'. (U(e \<mapsto> u)) x = Some u' \<and> wu_queue_id u' = r)"
    proof (cases "r = q")
      case False
      then have "Q r = Some fs" using r by simp
      from delivery_queue [OF d this] show ?thesis using u(1) by (metis fun_upd_apply option.distinct(1))
    qed (use r q in auto)
  next
    fix x v assume x: "(U(e \<mapsto> u)) x = Some v"
    show "wu_id v = x \<and> eid_is_valid x \<and> json_ok (wu_json v) \<and> (\<exists>es'. (Q(q \<mapsto> es @ [e])) (wu_queue_id v) = Some es' \<and> x \<in> set es')"
    proof (cases "x = e")
      case False
      then have "U x = Some v" using x by simp
      from delivery_update [OF d this] show ?thesis using es by (cases "wu_queue_id v = q") auto
    qed (use x u in auto)
  next
    show "(if es = [] then insert q W else W) \<subseteq> dom (Q(q \<mapsto> es @ [e]))" using d unfolding delivery_def by auto
  next
    fix x assume "x \<in> F"
    then obtain v xs where v: "U x = Some v" "Q (wu_queue_id v) = Some (x # xs)" "wu_queue_id v \<notin> W" using delivery_flight [OF d] by blast
    moreover have "x \<noteq> e" using v(1) u(1) by auto
    ultimately show "\<exists>v xs. (U(e \<mapsto> u)) x = Some v \<and> (Q(q \<mapsto> es @ [e])) (wu_queue_id v) = Some (x # xs) \<and>
        wu_queue_id v \<notin> (if es = [] then insert q W else W)"
      using es by (cases "wu_queue_id v = q") auto
  qed
  assume "nothing_stuck Q W F"
  then show "nothing_stuck (Q(q \<mapsto> es @ [e])) (if es = [] then insert q W else W) F"
    using es delivery_queue [OF d, of q] by (auto simp: nothing_stuck_def hd_append split: option.splits if_splits)
qed

text \<open>Replacing an update by one with the same identity.\<close>

definition same_update :: "wh_update \<Rightarrow> wh_update \<Rightarrow> bool" where
  "same_update u v \<longleftrightarrow> wu_id v = wu_id u \<and> wu_queue_id v = wu_queue_id u \<and> wu_json v = wu_json u"

lemma touch_delivery:
  assumes d: "delivery U Q W F" and u: "U e = Some u" "same_update u v"
  shows "delivery (U(e \<mapsto> v)) Q W F"
proof (rule deliveryI)
  fix q es assume "Q q = Some es"
  from delivery_queue [OF d this] show "es \<noteq> [] \<and> distinct es \<and> q \<noteq> 0 \<and> (\<forall>x \<in> set es. \<exists>u'. (U(e \<mapsto> v)) x = Some u' \<and> wu_queue_id u' = q)"
    using u by (fastforce simp: same_update_def)
next
  fix x w assume "(U(e \<mapsto> v)) x = Some w"
  then obtain w' where "U x = Some w'" "same_update w' w" using u by (cases "x = e") (auto simp: same_update_def)
  with delivery_update [OF d this(1)]
  show "wu_id w = x \<and> eid_is_valid x \<and> json_ok (wu_json w) \<and> (\<exists>es. Q (wu_queue_id w) = Some es \<and> x \<in> set es)"
    by (simp add: same_update_def)
next
  show "W \<subseteq> dom Q" using d unfolding delivery_def by blast
next
  fix x assume "x \<in> F"
  from delivery_flight [OF d this]
  show "\<exists>w es. (U(e \<mapsto> v)) x = Some w \<and> Q (wu_queue_id w) = Some (x # es) \<and> wu_queue_id w \<notin> W"
    using u by (fastforce simp: same_update_def)
qed

lemma send_delivery:
  assumes d: "delivery U Q W F" and q: "q \<in> W" "Q q = Some (e # es)"
  shows "delivery U Q (W - {q}) (insert e F)"
    and "nothing_stuck Q W F \<Longrightarrow> nothing_stuck Q (W - {q}) (insert e F)"
proof -
  obtain u where "U e = Some u" "wu_queue_id u = q" using delivery_queue [OF d q(2)] by auto
  then show "delivery U Q (W - {q}) (insert e F)" using d q unfolding delivery_def by blast
  show "nothing_stuck Q W F \<Longrightarrow> nothing_stuck Q (W - {q}) (insert e F)" using q(2) by (auto simp: nothing_stuck_def)
qed

lemma unschedule_delivery: "delivery U Q W F \<Longrightarrow> delivery U Q (W - V) F"
  unfolding delivery_def by blast

text \<open>An update in flight is repeated later, or dropped.\<close>

lemma flight_other_queue:
  assumes d: "delivery U Q W F" and "e \<in> F" "f \<in> F" "f \<noteq> e" "U e = Some u" "U f = Some v"
  shows "wu_queue_id v \<noteq> wu_queue_id u"
  using delivery_flight [OF d assms(2)] delivery_flight [OF d assms(3)] assms(4-6) by auto

lemma retry_delivery:
  assumes d: "delivery U Q W F" and e: "e \<in> F" "U e = Some u"
  shows "delivery U Q (insert (wu_queue_id u) W) (F - {e})"
    and "nothing_stuck Q W F \<Longrightarrow> nothing_stuck Q (insert (wu_queue_id u) W) (F - {e})"
proof -
  obtain es where q: "Q (wu_queue_id u) = Some (e # es)" using delivery_flight [OF d e(1)] e(2) by auto
  show "delivery U Q (insert (wu_queue_id u) W) (F - {e})"
  proof (rule deliveryI)
    fix f assume f: "f \<in> F - {e}"
    then obtain v fs where v: "U f = Some v" "Q (wu_queue_id v) = Some (f # fs)" "wu_queue_id v \<notin> W" using delivery_flight [OF d, of f] by auto
    then show "\<exists>v es. U f = Some v \<and> Q (wu_queue_id v) = Some (f # es) \<and> wu_queue_id v \<notin> insert (wu_queue_id u) W"
      using flight_other_queue [OF d e(1) _ _ e(2) v(1)] f by auto
  next
    show "insert (wu_queue_id u) W \<subseteq> dom Q" using d q unfolding delivery_def by auto
  qed (use delivery_queue [OF d] delivery_update [OF d] in blast)+
  have "r = wu_queue_id u" if "Q r = Some fs" "hd fs = e" for r fs
    using delivery_disjoint [OF d that(1) q, of e] delivery_queue [OF d that(1)] that(2) by auto
  then show "nothing_stuck Q W F \<Longrightarrow> nothing_stuck Q (insert (wu_queue_id u) W) (F - {e})"
    unfolding nothing_stuck_def by blast
qed

lemma drop_delivery:
  assumes d: "delivery U Q W F" and e: "e \<in> F" "U e = Some u" "wu_queue_id u = q" "Q q = Some (e # es)"
  shows "delivery (U(e := None)) (if es = [] then Q(q := None) else Q(q \<mapsto> es)) (if es = [] then W else insert q W) (F - {e})"
    and "nothing_stuck Q W F \<Longrightarrow> nothing_stuck (if es = [] then Q(q := None) else Q(q \<mapsto> es)) (if es = [] then W else insert q W) (F - {e})"
proof -
  let ?Q = "if es = [] then Q(q := None) else Q(q \<mapsto> es)" and ?W = "if es = [] then W else insert q W"
  have w: "q \<notin> W" using delivery_flight [OF d e(1)] e(2,3) by auto
  have qq: "distinct (e # es)" "q \<noteq> 0" "\<And>x. x \<in> set es \<Longrightarrow> \<exists>v. U x = Some v \<and> wu_queue_id v = q"
    using delivery_queue [OF d e(4)] by auto
  have other: "e \<notin> set fs" if "Q r = Some fs" "r \<noteq> q" for r fs using delivery_disjoint [OF d that(1) e(4), of e] that(2) by auto
  show "delivery (U(e := None)) ?Q ?W (F - {e})"
  proof (rule deliveryI)
    fix r fs assume r: "?Q r = Some fs"
    show "fs \<noteq> [] \<and> distinct fs \<and> r \<noteq> 0 \<and> (\<forall>x \<in> set fs. \<exists>v. (U(e := None)) x = Some v \<and> wu_queue_id v = r)"
    proof (cases "r = q")
      case True
      then have "fs = es" "es \<noteq> []" using r by (auto split: if_splits)
      then show ?thesis using qq True by auto
    next
      case False
      then have "Q r = Some fs" using r by (auto split: if_splits)
      then show ?thesis using delivery_queue [OF d] other [OF _ False] by (metis fun_upd_apply)
    qed
  next
    fix x v assume "(U(e := None)) x = Some v"
    then have x: "U x = Some v" "x \<noteq> e" by (auto split: if_splits)
    from delivery_update [OF d x(1)]
    show "wu_id v = x \<and> eid_is_valid x \<and> json_ok (wu_json v) \<and> (\<exists>fs. ?Q (wu_queue_id v) = Some fs \<and> x \<in> set fs)"
      using x(2) e(4) by (cases "wu_queue_id v = q") auto
  next
    show "?W \<subseteq> dom ?Q" using d w unfolding delivery_def by auto
  next
    fix f assume f: "f \<in> F - {e}"
    then obtain v fs where v: "U f = Some v" "Q (wu_queue_id v) = Some (f # fs)" "wu_queue_id v \<notin> W" using delivery_flight [OF d, of f] by auto
    moreover have "wu_queue_id v \<noteq> q" using flight_other_queue [OF d e(1) _ _ e(2) v(1)] f e(3) by auto
    ultimately show "\<exists>v fs. (U(e := None)) f = Some v \<and> ?Q (wu_queue_id v) = Some (f # fs) \<and> wu_queue_id v \<notin> ?W"
      using f by auto
  qed
  assume n: "nothing_stuck Q W F"
  show "nothing_stuck ?Q ?W (F - {e})"
    unfolding nothing_stuck_def
  proof (intro allI impI)
    fix r fs assume r: "?Q r = Some fs"
    show "r \<in> ?W \<or> hd fs \<in> F - {e}"
    proof (cases "r = q")
      case False
      then have "Q r = Some fs" using r by (auto split: if_splits)
      moreover from this have "hd fs \<noteq> e" using other [OF _ False] delivery_queue [OF d, of r fs] by (metis hd_in_set)
      ultimately show ?thesis using n unfolding nothing_stuck_def by auto
    qed (use r in \<open>auto split: if_splits\<close>)
  qed
qed

section \<open>Connections, abstractly\<close>

text \<open>The updates in flight over the connections \<open>L\<close>, and when the list \<open>R\<close> of the ready connections is right.\<close>

definition flights :: "('c \<Rightarrow> wh_conn option) \<Rightarrow> int set" where
  "flights L = {e. e \<noteq> 0 \<and> (\<exists>c x. L c = Some x \<and> wc_event_id x = e)}"

definition conn_table :: "('c \<Rightarrow> wh_conn option) \<Rightarrow> 'c list \<Rightarrow> bool" where
  "conn_table L R \<longleftrightarrow>
     distinct R \<and> (\<forall>c. c \<in> set R \<longleftrightarrow> (\<exists>x. L c = Some x \<and> wc_event_id x = 0)) \<and>
     (\<forall>c d x y. L c = Some x \<and> L d = Some y \<and> wc_event_id x \<noteq> 0 \<and> wc_event_id x = wc_event_id y \<longrightarrow> c = d)"

lemma conn_table_ready: "conn_table L R \<Longrightarrow> c \<in> set R \<Longrightarrow> \<exists>x. L c = Some x \<and> wc_event_id x = 0"
  by (simp add: conn_table_def)

lemma conn_table_inj:
  "conn_table L R \<Longrightarrow> L c = Some x \<Longrightarrow> L d = Some y \<Longrightarrow> wc_event_id x \<noteq> 0 \<Longrightarrow> wc_event_id x = wc_event_id y \<Longrightarrow> c = d"
  by (simp add: conn_table_def)

lemma flights_upd: "flights (L(c \<mapsto> x)) = flights (L(c := None)) \<union> ({wc_event_id x} - {0})"
proof (rule set_eqI)
  fix e
  have "(\<exists>d y. (L(c \<mapsto> x)) d = Some y \<and> wc_event_id y = e) \<longleftrightarrow>
    (\<exists>d y. (L(c := None)) d = Some y \<and> wc_event_id y = e) \<or> wc_event_id x = e"
    by (metis fun_upd_apply option.distinct(1) option.inject)
  then show "e \<in> flights (L(c \<mapsto> x)) \<longleftrightarrow> e \<in> flights (L(c := None)) \<union> ({wc_event_id x} - {0})"
    by (auto simp: flights_def)
qed

lemma flights_at: "L c = Some x \<Longrightarrow> flights L = flights (L(c := None)) \<union> ({wc_event_id x} - {0})"
  using flights_upd [of L c x] by (simp add: fun_upd_idem)

lemma flights_absent: "L c = None \<Longrightarrow> flights (L(c := None)) = flights L"
  by (simp add: fun_upd_idem)

lemma open_conn:
  assumes "conn_table L R" "L c = None" "wc_event_id x = 0"
  shows "conn_table (L(c \<mapsto> x)) (c # R)" "flights (L(c \<mapsto> x)) = flights L"
proof -
  have "c \<notin> set R" using assms by (auto simp: conn_table_def)
  then show "conn_table (L(c \<mapsto> x)) (c # R)" using assms unfolding conn_table_def by auto
  show "flights (L(c \<mapsto> x)) = flights L" using assms by (simp add: flights_upd flights_absent)
qed

lemma use_conn:
  assumes "conn_table L R" "R \<noteq> []" "e \<noteq> 0" "e \<notin> flights L"
  shows "conn_table (L(last R := map_option (wc_event_id_update (\<lambda>_. e)) (L (last R)))) (butlast R)"
    and "flights (L(last R := map_option (wc_event_id_update (\<lambda>_. e)) (L (last R)))) = insert e (flights L)"
proof -
  obtain S c where R: "R = S @ [c]" using assms(2) by (cases R rule: rev_cases) auto
  obtain x where x: "L c = Some x" "wc_event_id x = 0" using conn_table_ready [OF assms(1), of c] R by auto
  show "conn_table (L(last R := map_option (wc_event_id_update (\<lambda>_. e)) (L (last R)))) (butlast R)"
    using assms x unfolding conn_table_def R flights_def by auto
  show "flights (L(last R := map_option (wc_event_id_update (\<lambda>_. e)) (L (last R)))) = insert e (flights L)"
    using assms(3) x by (simp add: R flights_upd flights_at [of L c x])
qed

lemma flights_without:
  assumes "conn_table L R" "L c = Some x"
  shows "flights (L(c := None)) = flights L - {wc_event_id x}"
proof -
  have "d = c" if "L d = Some y" "wc_event_id y = wc_event_id x" "wc_event_id x \<noteq> 0" for d y
    using conn_table_inj [OF assms(1,2) that(1,3) that(2) [symmetric]] by (rule sym)
  then have "wc_event_id x \<notin> flights (L(c := None))" unfolding flights_def by (smt (verit) fun_upd_apply mem_Collect_eq option.distinct(1))
  moreover have "0 \<notin> flights (L(c := None))" by (simp add: flights_def)
  ultimately show ?thesis using flights_at [of L c x] assms(2) by (cases "wc_event_id x = 0") auto
qed

lemma close_conn:
  assumes "conn_table L R"
  shows "conn_table (L(c := None)) (filter (\<lambda>d. d \<noteq> c) R)"
  using assms unfolding conn_table_def by auto

lemma keep_conn:
  assumes "conn_table L R" "L c = Some x" "wc_event_id x \<noteq> 0"
  shows "conn_table (L(c := map_option (wc_event_id_update (\<lambda>_. 0)) (L c))) (c # R)"
    and "flights (L(c := map_option (wc_event_id_update (\<lambda>_. 0)) (L c))) = flights L - {wc_event_id x}"
proof -
  have "c \<notin> set R" using assms by (auto simp: conn_table_def)
  then show "conn_table (L(c := map_option (wc_event_id_update (\<lambda>_. 0)) (L c))) (c # R)"
    using assms unfolding conn_table_def by auto
  have "flights (L(c := map_option (wc_event_id_update (\<lambda>_. 0)) (L c))) = flights (L(c := None))"
    using assms(2) by (simp add: flights_upd)
  then show "flights (L(c := map_option (wc_event_id_update (\<lambda>_. 0)) (L c))) = flights L - {wc_event_id x}"
    using flights_without [OF assms(1,2)] by simp
qed

text \<open>A slot is missing only when all slots are used.\<close>

lemma container_create_ok:
  assumes "container_count c \<le> 2147483647"
  shows "\<exists>i c'. container_create x t c = Checked (i, c')"
  using assms by (cases "empty_slots c = []") (auto simp: container_create_def store_slot_def container_count_def Let_def)

section \<open>The order of the queues\<close>

lemma wq_less_trans: "wq_less a b \<Longrightarrow> wq_less b c \<Longrightarrow> wq_less a c"
  by (auto simp: wq_less_def)

lemma wq_less_linear: "wq_id a \<noteq> wq_id b \<Longrightarrow> wq_less a b \<or> wq_less b a"
  by (auto simp: wq_less_def)

lemma queues_emplace_new:
  assumes "wq_id q \<notin> wq_id ` set qs"
  shows "set (queues_emplace q qs) = insert q (set qs)"
  using assms
proof (induction qs)
  case (Cons x xs)
  then show ?case using wq_less_linear [of q x] by auto
qed simp

lemma queues_emplace_distinct:
  assumes "wq_id q \<notin> wq_id ` set qs" "distinct (map wq_id qs)"
  shows "distinct (map wq_id (queues_emplace q qs))"
  using assms
proof (induction qs)
  case (Cons x xs)
  then show ?case using queues_emplace_new [of q xs] by auto
qed simp

lemma queues_emplace_sorted:
  assumes "wq_id q \<notin> wq_id ` set qs" "sorted_wrt wq_less qs"
  shows "sorted_wrt wq_less (queues_emplace q qs)"
  using assms
proof (induction qs)
  case (Cons x xs)
  then show ?case using queues_emplace_new [of q xs] wq_less_trans by (auto dest: wq_less_trans)
qed simp

end
