(* ===== verification/WebhookInv.thy ===== *)
theory WebhookInv
  imports WebhookTables
begin

text \<open>
  The invariant of a webhook and that connecting, loading and sending keep it; none of these operations fails a
  \<^verbatim>\<open>CHECK\<close>.  The lemmas on the two loops with fuel show that more fuel does not change the result.
\<close>

section \<open>The invariant of the actor\<close>

text \<open>The fields that the invariant is about; everything else may change freely.\<close>

definition wh_core :: "webhook \<Rightarrow> _" where
  "wh_core s = (wh_update_map s, wh_queue_updates s, wh_queues s, wh_max_loaded_updates s, wh_connections s,
     wh_ready_connections s, wh_pending_sockets s, wh_active_new_connection_flood s, wh_pending_new_connection_flood s,
     wh_ip_address s, wh_ssl_ctx s, wh_stopped s, wh_unique_queue_id s)"

definition in_flight :: "webhook \<Rightarrow> int set" where
  "in_flight s = flights (container_lookup (wh_connections s))"

definition waiting :: "webhook \<Rightarrow> int set" where
  "waiting s = wq_id ` set (wh_queues s)"

definition tables_ok :: "webhook \<Rightarrow> bool" where
  "tables_ok s \<longleftrightarrow>
     distinct (map fst (wh_queue_updates s)) \<and> distinct (map wq_id (wh_queues s)) \<and> sorted_wrt wq_less (wh_queues s) \<and>
     length (wh_queue_updates s) \<le> wh_max_loaded_updates s \<and> 0 < wh_unique_queue_id s \<and>
     delivery (wh_update_map s) (map_of (wh_queue_updates s)) (waiting s) (in_flight s)"

definition conns_ok :: "wh_params \<Rightarrow> webhook \<Rightarrow> bool" where
  "conns_ok p s \<longleftrightarrow>
     container_inv (wh_connections s) \<and> container_inv (wh_pending_sockets s) \<and>
     conn_table (container_lookup (wh_connections s)) (wh_ready_connections s) \<and>
     container_count (wh_connections s) \<le> nat (wp_max_connections p)"

definition flood_ok :: "real \<Rightarrow> flood_control \<Rightarrow> bool" where
  "flood_ok t fc \<longleftrightarrow>
     (\<forall>b \<in> set (fc_buckets fc). fb_wakeup_at b \<le> fc_wakeup_at fc \<and> (fb_volume_at b \<le> t \<or> fb_volume_at b \<le> fc_wakeup_at fc))"

definition callback_ok :: "webhook \<Rightarrow> bool" where
  "callback_ok s \<longleftrightarrow> (\<not> wh_stop_flag s \<and> \<not> wh_stopped s \<longrightarrow> wh_callback s)"

definition wh_inv :: "wh_params \<Rightarrow> real \<Rightarrow> webhook \<Rightarrow> bool" where
  "wh_inv p t s \<longleftrightarrow>
     tables_ok s \<and> conns_ok p s \<and> wh_max_loaded_updates s = nat (wp_max_connections p * 2) \<and>
     flood_ok t (wh_active_new_connection_flood s) \<and> flood_ok t (wh_pending_new_connection_flood s) \<and> callback_ok s"

definition no_stuck :: "webhook \<Rightarrow> bool" where
  "no_stuck s \<longleftrightarrow> nothing_stuck (map_of (wh_queue_updates s)) (waiting s) (in_flight s)"

text \<open>The constructor requires a positive number of connections; its double is computed in \<^verbatim>\<open>int32\<close>.\<close>

definition params_ok :: "wh_params \<Rightarrow> bool" where
  "params_ok p \<longleftrightarrow> 0 < wp_max_connections p \<and> wp_max_connections p \<le> 1073741823"

lemma core_fields:
  assumes "wh_core s' = wh_core s"
  shows "wh_update_map s' = wh_update_map s" "wh_queue_updates s' = wh_queue_updates s" "wh_queues s' = wh_queues s"
    "wh_max_loaded_updates s' = wh_max_loaded_updates s" "wh_connections s' = wh_connections s"
    "wh_ready_connections s' = wh_ready_connections s" "wh_pending_sockets s' = wh_pending_sockets s"
    "wh_active_new_connection_flood s' = wh_active_new_connection_flood s"
    "wh_pending_new_connection_flood s' = wh_pending_new_connection_flood s" "wh_ip_address s' = wh_ip_address s"
    "wh_ssl_ctx s' = wh_ssl_ctx s" "wh_stopped s' = wh_stopped s" "wh_unique_queue_id s' = wh_unique_queue_id s"
  using assms by (simp_all add: wh_core_def)

lemma core_ok:
  assumes "wh_core s' = wh_core s"
  shows "tables_ok s' = tables_ok s" "conns_ok p s' = conns_ok p s" "no_stuck s' = no_stuck s" "in_flight s' = in_flight s"
    "waiting s' = waiting s"
  using core_fields [OF assms] by (simp_all add: tables_ok_def conns_ok_def no_stuck_def in_flight_def waiting_def)

lemma core_inv: "wh_core s' = wh_core s \<Longrightarrow> callback_ok s' \<Longrightarrow> wh_inv p t s \<Longrightarrow> wh_inv p t s'"
  using core_ok [of s' s] core_fields [of s' s] by (simp add: wh_inv_def)

lemma flood_ok_mono: "flood_ok t fc \<Longrightarrow> t \<le> t' \<Longrightarrow> flood_ok t' fc"
  unfolding flood_ok_def by force

lemma wh_inv_mono: "wh_inv p t s \<Longrightarrow> t \<le> t' \<Longrightarrow> wh_inv p t' s"
  using flood_ok_mono by (auto simp: wh_inv_def)

section \<open>Flood control\<close>

lemma bucket_add_event_ok:
  assumes "fb_wakeup_at b \<le> now" "fb_volume_at b \<le> now"
  shows "\<exists>b'. bucket_add_event now b = Checked b' \<and> (fb_volume_at b' \<le> now \<or> fb_volume_at b' \<le> fb_wakeup_at b')"
  using assms
  by (cases "min (fb_volume b + (now - fb_volume_at b) * fb_speed b) (fb_max_capacity b) \<ge> 1")
    (simp_all add: bucket_add_event_def update_volume_def Let_def)

lemma add_event_loop_ok:
  assumes "\<forall>b \<in> set bs. fb_wakeup_at b \<le> now \<and> fb_volume_at b \<le> now"
  shows "\<exists>w' bs'. add_event_loop now w bs = Checked (w', bs') \<and> w \<le> w' \<and>
    (\<forall>b \<in> set bs'. fb_wakeup_at b \<le> w' \<and> (fb_volume_at b \<le> now \<or> fb_volume_at b \<le> w'))"
  using assms
proof (induction bs arbitrary: w)
  case (Cons b bs)
  obtain b' where b: "bucket_add_event now b = Checked b'" "fb_volume_at b' \<le> now \<or> fb_volume_at b' \<le> fb_wakeup_at b'"
    using bucket_add_event_ok [of b now] Cons.prems by auto
  obtain w' bs' where r: "add_event_loop now (max w (fb_wakeup_at b')) bs = Checked (w', bs')" "max w (fb_wakeup_at b') \<le> w'"
      "\<forall>b \<in> set bs'. fb_wakeup_at b \<le> w' \<and> (fb_volume_at b \<le> now \<or> fb_volume_at b \<le> w')"
    using Cons.IH [of "max w (fb_wakeup_at b')"] Cons.prems by auto
  then show ?case using b by auto
qed simp

lemma fc_add_event_ok:
  assumes "flood_ok t fc" "t \<le> now" "\<not> now < get_wakeup_at fc"
  shows "\<exists>fc'. fc_add_event now fc = Checked fc' \<and> flood_ok now fc'"
proof -
  have "\<forall>b \<in> set (fc_buckets fc). fb_wakeup_at b \<le> now \<and> fb_volume_at b \<le> now"
    using assms by (force simp: flood_ok_def get_wakeup_at_def)
  from add_event_loop_ok [OF this, of "fc_wakeup_at fc"] obtain w' bs' where
    "add_event_loop now (fc_wakeup_at fc) (fc_buckets fc) = Checked (w', bs')"
    "\<forall>b \<in> set bs'. fb_wakeup_at b \<le> w' \<and> (fb_volume_at b \<le> now \<or> fb_volume_at b \<le> w')" by blast
  then show ?thesis by (simp add: fc_add_event_def flood_ok_def)
qed

section \<open>Notifications leave the tables alone\<close>

lemma core_simps [simp]:
  "wh_core (wh_send ms s) = wh_core s" "wh_core (wh_notify m s) = wh_core s" "wh_core (relax_wakeup_at w s) = wh_core s"
  "wh_core (on_webhook_verified env s) = wh_core s" "wh_core (on_webhook_error env err s) = wh_core s"
  by (simp_all add: wh_core_def wh_send_def wh_notify_def relax_wakeup_at_def on_webhook_verified_def on_webhook_error_def)

lemma flag_simps [simp]:
  "wh_stop_flag (wh_send ms s) = wh_stop_flag s" "wh_stop_flag (wh_notify m s) = wh_stop_flag s"
  "wh_stop_flag (relax_wakeup_at w s) = wh_stop_flag s" "wh_stop_flag (on_webhook_verified env s) = wh_stop_flag s"
  "wh_stop_flag (on_webhook_error env err s) = wh_stop_flag s"
  "wh_callback (wh_send ms s) = wh_callback s" "wh_callback (wh_notify m s) = wh_callback s"
  "wh_callback (relax_wakeup_at w s) = wh_callback s" "wh_callback (on_webhook_verified env s) = wh_callback s"
  "wh_callback (on_webhook_error env err s) = wh_callback s"
  "wh_stopped (wh_send ms s) = wh_stopped s" "wh_stopped (wh_notify m s) = wh_stopped s"
  "wh_stopped (relax_wakeup_at w s) = wh_stopped s" "wh_stopped (on_webhook_verified env s) = wh_stopped s"
  "wh_stopped (on_webhook_error env err s) = wh_stopped s"
  by (simp_all add: wh_send_def wh_notify_def relax_wakeup_at_def on_webhook_verified_def on_webhook_error_def)

lemma on_error_ok:
  assumes "callback_ok s" "\<not> wh_stopped s"
  obtains s' where "wh_on_error e s = Checked s'" "wh_core s' = wh_core s" "callback_ok s'"
  using assms that
  by (cases "\<not> wh_was_checked s \<and> \<not> wh_stop_flag s") (auto simp: wh_on_error_def callback_ok_def wh_core_def wh_send_def)

lemma webhook_error_ok:
  assumes "callback_ok s" "\<not> wh_stopped s"
  obtains s' where "create_webhook_error env msg e b s = Checked s'" "wh_core s' = wh_core s" "callback_ok s'"
proof -
  let ?s = "on_webhook_error env (if b then msg @ '': '' @ status_message e else msg) s"
  have "callback_ok ?s" "\<not> wh_stopped ?s" using assms by (simp_all add: callback_ok_def)
  from on_error_ok [OF this, of e] show ?thesis using that by (auto simp: create_webhook_error_def)
qed

lemma ssl_stream_ok:
  assumes "callback_ok s" "\<not> wh_stopped s" "hu_protocol (wp_url p) = Http \<or> wh_ssl_ctx s"
  obtains ok s' where "create_ssl_stream p env k s = Checked (ok, s')" "wh_core s' = wh_core s" "callback_ok s'"
proof (cases "hu_protocol (wp_url p) \<noteq> Http \<and> we_ssl env k \<noteq> None")
  case True
  then obtain e where e: "we_ssl env k = Some e" by auto
  obtain s' where "create_webhook_error env (''Can'' @ [CHR 0x27] @ ''t create an SSL connection'') e True s = Checked s'"
      "wh_core s' = wh_core s" "callback_ok s'" using webhook_error_ok [OF assms(1,2)] .
  then show ?thesis using that True e assms(3) by (auto simp: create_ssl_stream_def)
next
  case False
  then have "create_ssl_stream p env k s = Checked (True, s)" using assms(3) by (auto simp: create_ssl_stream_def)
  then show ?thesis using that assms(1) by blast
qed

section \<open>Connecting\<close>

text \<open>What connecting leaves alone; the updates in flight stay in flight.\<close>

definition wh_data :: "webhook \<Rightarrow> _" where
  "wh_data s = (wh_update_map s, wh_queue_updates s, wh_queues s, wh_max_loaded_updates s, wh_unique_queue_id s, in_flight s,
     wh_ip_address s, wh_ssl_ctx s, wh_stopped s)"

abbreviation floods :: "webhook \<Rightarrow> flood_control \<times> flood_control" where
  "floods s \<equiv> (wh_active_new_connection_flood s, wh_pending_new_connection_flood s)"

definition floods_ok :: "real \<Rightarrow> webhook \<Rightarrow> bool" where
  "floods_ok t s \<longleftrightarrow> flood_ok t (wh_active_new_connection_flood s) \<and> flood_ok t (wh_pending_new_connection_flood s)"

lemma data_ok:
  assumes "wh_data s' = wh_data s"
  shows "tables_ok s' = tables_ok s" "no_stuck s' = no_stuck s" "wh_stopped s' = wh_stopped s" "wh_ssl_ctx s' = wh_ssl_ctx s"
    "wh_ip_address s' = wh_ip_address s" "wh_max_loaded_updates s' = wh_max_loaded_updates s"
  using assms by (simp_all add: wh_data_def tables_ok_def no_stuck_def waiting_def)

lemma core_data: "wh_core s' = wh_core s \<Longrightarrow> wh_data s' = wh_data s \<and> floods s' = floods s \<and> conns_ok p s' = conns_ok p s"
  using core_ok [of s' s] core_fields [of s' s] by (simp add: wh_data_def)

text \<open>The outcome of an attempt to connect.\<close>

definition connecting :: "wh_params \<Rightarrow> webhook \<Rightarrow> webhook \<Rightarrow> bool" where
  "connecting p s s' \<longleftrightarrow> wh_data s' = wh_data s \<and> conns_ok p s' \<and> callback_ok s'"

lemma connecting_trans: "connecting p s s' \<Longrightarrow> connecting p s' s'' \<Longrightarrow> connecting p s s''"
  by (simp add: connecting_def)

lemma connecting_core: "conns_ok p s \<Longrightarrow> wh_core s' = wh_core s \<Longrightarrow> callback_ok s' \<Longrightarrow> connecting p s s' \<and> floods s' = floods s"
  using core_data [of s' s p] by (simp add: connecting_def)

lemma relax_connecting: "connecting p s s' \<Longrightarrow> connecting p s (relax_wakeup_at w s')"
  using connecting_core [of p s' "relax_wakeup_at w s'"] connecting_trans by (auto simp: connecting_def callback_ok_def)

lemma connecting_refl: "conns_ok p s \<Longrightarrow> callback_ok s \<Longrightarrow> connecting p s s"
  by (simp add: connecting_def)

lemma verified_core:
  assumes "callback_ok s"
  shows "wh_core (if \<not> wh_was_checked s then on_webhook_verified env (s\<lparr>wh_was_checked := True\<rparr>) else s) = wh_core s"
    "callback_ok (if \<not> wh_was_checked s then on_webhook_verified env (s\<lparr>wh_was_checked := True\<rparr>) else s)"
  using assms by (simp_all add: callback_ok_def) (simp add: wh_core_def)

lemma ssl_stream_sockets: "create_ssl_stream p env k s = Checked (ok, s') \<Longrightarrow> wh_ready_sockets s' = wh_ready_sockets s"
  by (auto simp: create_ssl_stream_def create_webhook_error_def wh_on_error_def on_webhook_error_def wh_notify_def wh_send_def
      split: if_splits option.splits checked.splits)

lemma opened_connection:
  assumes "conns_ok p s" "container_count (wh_connections s) < nat (wp_max_connections p)"
    and c: "container_create x 0 (wh_connections s) = Checked (cid, conns)" "wc_event_id x = 0"
  shows "conns_ok p (s\<lparr>wh_connections := conns, wh_ready_connections := cid # wh_ready_connections s\<rparr>)"
    and "wh_data (s\<lparr>wh_connections := conns, wh_ready_connections := cid # wh_ready_connections s\<rparr>) = wh_data s"
proof -
  have inv: "container_inv (wh_connections s)" using assms(1) by (simp add: conns_ok_def)
  note t = table.create [OF inv c(1)]
  have "conn_table (container_lookup (wh_connections s)) (wh_ready_connections s)" using assms(1) by (simp add: conns_ok_def)
  from open_conn [OF this conjunct1 [OF conjunct2 [OF t]] c(2)]
  show "conns_ok p (s\<lparr>wh_connections := conns, wh_ready_connections := cid # wh_ready_connections s\<rparr>)"
    "wh_data (s\<lparr>wh_connections := conns, wh_ready_connections := cid # wh_ready_connections s\<rparr>) = wh_data s"
    using t assms(1,2) by (simp_all add: conns_ok_def wh_data_def in_flight_def)
qed

lemma create_connection_fd_ok:
  assumes p: "params_ok p" and s: "conns_ok p s" "callback_ok s" "\<not> wh_stopped s" "hu_protocol (wp_url p) = Http \<or> wh_ssl_ctx s"
    and n: "container_count (wh_connections s) < nat (wp_max_connections p)"
  obtains ok s' where "create_connection_fd p env k s = Checked (ok, s')" "connecting p s s'" "floods s' = floods s"
    "ok \<longrightarrow> wh_sockets s' = Suc (wh_sockets s)"
proof -
  obtain ok s1 where s1: "create_ssl_stream p env k s = Checked (ok, s1)" "wh_core s1 = wh_core s" "callback_ok s1"
    using ssl_stream_ok [OF s(2-4)] .
  have c1: "connecting p s s1" "floods s1 = floods s" using connecting_core [OF s(1) s1(2,3)] by simp_all
  show thesis
  proof (cases ok)
    case False
    then show thesis using that [of False s1] s1(1) c1 by (simp add: create_connection_fd_def)
  next
    case True
    have n1: "container_count (wh_connections s1) < nat (wp_max_connections p)" using n core_fields [OF s1(2)] by simp
    moreover have "nat (wp_max_connections p) \<le> 2147483647" using p by (simp add: params_ok_def nat_le_iff)
    ultimately have le: "container_count (wh_connections s1) \<le> 2147483647" by linarith
    obtain cid conns where c:
      "container_create \<lparr>wc_event_id = 0, wc_ip_generation = wh_ip_generation s1\<rparr> 0 (wh_connections s1) = Checked (cid, conns)"
      using container_create_ok [OF le] by blast
    let ?s2 = "s1\<lparr>wh_connections := conns, wh_ready_connections := cid # wh_ready_connections s1\<rparr>"
    have cn: "conns_ok p s1" using c1(1) by (simp add: connecting_def)
    have s2: "connecting p s ?s2"
      using opened_connection [OF cn n1 c] c1(1) by (simp add: connecting_def callback_ok_def)
    have cb2: "callback_ok ?s2" using s2 by (simp add: connecting_def)
    let ?s3 = "if \<not> wh_was_checked ?s2 then on_webhook_verified env (?s2\<lparr>wh_was_checked := True\<rparr>) else ?s2"
    have "connecting p ?s2 ?s3 \<and> floods ?s3 = floods ?s2"
      using s2 by (intro connecting_core verified_core [OF cb2]) (simp add: connecting_def)
    then have "connecting p s ?s3" "floods ?s3 = floods s" using connecting_trans [OF s2] c1(2) by auto
    moreover have "create_connection_fd p env k s = Checked (True, ?s3)"
      using s1(1) True c by (simp add: create_connection_fd_def Let_def)
    moreover have "wh_sockets ?s3 = Suc (wh_sockets s)"
    proof -
      have "wh_ready_sockets s1 = wh_ready_sockets s" using ssl_stream_sockets [OF s1(1)] .
      moreover have "container_count conns = Suc (container_count (wh_connections s1))"
        using table.create [OF _ c] cn by (simp add: conns_ok_def)
      ultimately show ?thesis using core_fields [OF s1(2)]
        by (simp add: wh_sockets_def on_webhook_verified_def wh_notify_def wh_send_def)
    qed
    ultimately show thesis using that by blast
  qed
qed

text \<open>What the loops of \<^verbatim>\<open>create_new_connections\<close> need at every iteration.\<close>

definition can_connect :: "wh_params \<Rightarrow> webhook \<Rightarrow> bool" where
  "can_connect p s \<longleftrightarrow>
     conns_ok p s \<and> callback_ok s \<and> \<not> wh_stopped s \<and> (hu_protocol (wp_url p) = Http \<or> wh_ssl_ctx s) \<and> is_valid (wh_ip_address s)"

lemma can_connect_step: "connecting p s s' \<Longrightarrow> can_connect p s \<Longrightarrow> can_connect p s'"
  using data_ok [of s' s] by (simp add: connecting_def can_connect_def)

lemma webhook_error_connecting:
  assumes "can_connect p s"
  obtains s' where "create_webhook_error env msg e b s = Checked s'" "connecting p s s'" "floods s' = floods s"
proof -
  have c: "conns_ok p s" "callback_ok s" "\<not> wh_stopped s" using assms by (simp_all add: can_connect_def)
  obtain s' where "create_webhook_error env msg e b s = Checked s'" "wh_core s' = wh_core s" "callback_ok s'"
    using webhook_error_ok [OF c(2,3)] .
  then show thesis using that connecting_core [OF c(1)] by blast
qed

lemma create_connection_ok:
  assumes p: "params_ok p" and s: "can_connect p s" and n: "wh_sockets s < nat (wp_max_connections p)"
  obtains ok s' where "create_connection p env k s = Checked (ok, s')" "connecting p s s'" "floods s' = floods s"
    "ok \<longrightarrow> wh_sockets s' = Suc (wh_sockets s)"
proof -
  have c: "conns_ok p s" "callback_ok s" "\<not> wh_stopped s" "hu_protocol (wp_url p) = Http \<or> wh_ssl_ctx s" "is_valid (wh_ip_address s)"
    using s by (simp_all add: can_connect_def)
  have cn: "container_count (wh_connections s) < nat (wp_max_connections p)" using n by (simp add: wh_sockets_def)
  have sn: "container_count (wh_pending_sockets s) \<le> 2147483647"
    using n p by (simp add: wh_sockets_def params_ok_def zless_nat_eq_int_zless)
  show thesis
  proof (cases "we_open env k")
    case (Some e)
    obtain s' where "create_webhook_error env (if wp_has_proxy p then ''Can'' @ [CHR 0x27] @ ''t connect to the webhook proxy''
        else ''Can'' @ [CHR 0x27] @ ''t connect to the webhook'') e False s = Checked s'" "connecting p s s'" "floods s' = floods s"
      using webhook_error_connecting [OF s] .
    then show thesis using that Some c(5) by (auto simp: create_connection_def split: if_splits)
  next
    case None
    show thesis
    proof (cases "wp_has_proxy p")
      case False
      obtain ok s' where "create_connection_fd p env k s = Checked (ok, s')" "connecting p s s'" "floods s' = floods s"
          "ok \<longrightarrow> wh_sockets s' = Suc (wh_sockets s)"
        using create_connection_fd_ok [OF p c(1-4) cn] .
      then show thesis using that None False c(5) by (simp add: create_connection_def)
    next
      case True
      let ?s1 = "if \<not> wh_was_checked s then on_webhook_verified env (s\<lparr>wh_was_checked := True\<rparr>) else s"
      note v = verified_core [OF c(2), of env]
      have s1: "connecting p s ?s1" "floods ?s1 = floods s" using connecting_core [OF c(1) v] by simp_all
      have inv: "container_inv (wh_pending_sockets ?s1)" using s1(1) by (simp add: connecting_def conns_ok_def)
      obtain cid socks where k: "container_create () 0 (wh_pending_sockets ?s1) = Checked (cid, socks)"
        using container_create_ok [of "wh_pending_sockets ?s1"] sn core_fields(7) [OF v(1)] by metis
      let ?s2 = "wh_send [WmOpenProxy cid] (?s1\<lparr>wh_pending_sockets := socks\<rparr>)"
      have "connecting p s ?s2" "floods ?s2 = floods s"
        using s1 table.create [OF inv k] by (simp_all add: connecting_def conns_ok_def wh_data_def in_flight_def callback_ok_def wh_send_def)
      moreover have "create_connection p env k s = Checked (False, ?s2)"
        using None True c(5) k by (simp add: create_connection_def Let_def)
      ultimately show thesis using that by blast
    qed
  qed
qed

lemma create_loop_ok:
  assumes "params_ok p" "can_connect p s" "floods_ok (we_now env AtCreate) s" "need \<le> nat (wp_max_connections p)"
  shows "\<exists>ok s'. create_loop p env active need fuel k s = Checked (ok, s') \<and> connecting p s s' \<and> floods_ok (we_now env AtCreate) s' \<and>
    (need \<le> wh_sockets s + fuel \<longrightarrow> (\<forall>m. create_loop p env active need (fuel + m) k s = Checked (ok, s')))"
  using assms(2,3)
proof (induction fuel arbitrary: k s)
  case 0
  have "create_loop p env active need m k s = Checked (True, s)" if "need \<le> wh_sockets s" for m
    using that by (cases m) simp_all
  then show ?case using 0 connecting_refl [of p s] by (auto simp: can_connect_def)
next
  case (Suc fuel)
  let ?now = "we_now env AtCreate"
  let ?flood = "if active then wh_active_new_connection_flood s else wh_pending_new_connection_flood s"
  have refl: "connecting p s s" using Suc.prems(1) connecting_refl [of p s] by (simp add: can_connect_def)
  show ?case
  proof (cases "wh_sockets s < need \<and> \<not> ?now < get_wakeup_at ?flood")
    case False
    have "floods_ok ?now (relax_wakeup_at w s)" for w using Suc.prems(2) by (simp add: floods_ok_def relax_wakeup_at_def)
    then show ?thesis using False Suc.prems(2) refl relax_connecting [OF refl] by (auto simp: Let_def)
  next
    case True
    have "flood_ok ?now ?flood" using Suc.prems(2) by (simp add: floods_ok_def)
    then obtain fl where fl: "fc_add_event ?now ?flood = Checked fl" "flood_ok ?now fl" using fc_add_event_ok [of ?now ?flood ?now] True by auto
    let ?s1 = "if active then s\<lparr>wh_active_new_connection_flood := fl\<rparr> else s\<lparr>wh_pending_new_connection_flood := fl\<rparr>"
    have s1: "connecting p s ?s1" "floods_ok ?now ?s1" "wh_sockets ?s1 = wh_sockets s"
      using refl fl(2) Suc.prems(2)
      by (simp_all add: connecting_def wh_data_def in_flight_def conns_ok_def callback_ok_def floods_ok_def wh_sockets_def)
    have n1: "wh_sockets ?s1 < nat (wp_max_connections p)" using True assms(4) s1(3) by simp
    obtain ok s2 where s2: "create_connection p env k ?s1 = Checked (ok, s2)" "connecting p ?s1 s2" "floods s2 = floods ?s1"
        "ok \<longrightarrow> wh_sockets s2 = Suc (wh_sockets ?s1)"
      using create_connection_ok [OF assms(1) can_connect_step [OF s1(1) Suc.prems(1)] n1] .
    have c2: "connecting p s s2" "floods_ok ?now s2"
      using connecting_trans [OF s1(1) s2(2)] s1(2) s2(3) by (simp_all add: floods_ok_def)
    show ?thesis
    proof (cases ok)
      case False
      have "floods_ok ?now (relax_wakeup_at (?now + 1) s2)" using c2(2) by (simp add: floods_ok_def relax_wakeup_at_def)
      then show ?thesis using True fl(1) s2(1) False relax_connecting [OF c2(1)] by (auto simp: Let_def)
    next
      case ok: True
      from Suc.IH [OF can_connect_step [OF c2(1) Suc.prems(1)] c2(2), of "Suc k"]
      obtain b s' where r: "create_loop p env active need fuel (Suc k) s2 = Checked (b, s')" "connecting p s2 s'" "floods_ok ?now s'"
        "need \<le> wh_sockets s2 + fuel \<longrightarrow> (\<forall>m. create_loop p env active need (fuel + m) (Suc k) s2 = Checked (b, s'))" by blast
      moreover have "create_loop p env active need (Suc fuel + m) k s = create_loop p env active need (fuel + m) (Suc k) s2" for m
        using True fl(1) s2(1) ok by (simp add: Let_def)
      ultimately show ?thesis using connecting_trans [OF c2(1) r(2)] s2(4) s1(3) ok by (metis add.right_neutral add_Suc add_Suc_right)
    qed
  qed
qed

lemma use_sockets_ok:
  assumes "params_ok p" "can_connect p s" "floods_ok t s" "need \<le> nat (wp_max_connections p)"
  shows "\<exists>s'. use_sockets p env need n k s = Checked s' \<and> connecting p s s' \<and> floods_ok t s'"
  using assms(2,3)
proof (induction n arbitrary: k s)
  case 0
  then show ?case using connecting_refl [of p s] by (simp add: can_connect_def)
next
  case (Suc n)
  have refl: "connecting p s s" using Suc.prems(1) connecting_refl [of p s] by (simp add: can_connect_def)
  show ?case
  proof (cases "container_count (wh_connections s) + container_count (wh_pending_sockets s) < need")
    case False
    then show ?thesis using refl Suc.prems(2) by simp
  next
    case True
    let ?s0 = "s\<lparr>wh_ready_sockets := n\<rparr>"
    have s0: "connecting p s ?s0" "floods ?s0 = floods s" using refl by (simp_all add: connecting_def wh_data_def in_flight_def conns_ok_def callback_ok_def)
    have cc: "can_connect p ?s0" by (rule can_connect_step [OF s0(1) Suc.prems(1)])
    then have c: "conns_ok p ?s0" "callback_ok ?s0" "\<not> wh_stopped ?s0" "hu_protocol (wp_url p) = Http \<or> wh_ssl_ctx ?s0"
      unfolding can_connect_def by blast+
    have n: "container_count (wh_connections ?s0) < nat (wp_max_connections p)" using True assms(4) by simp
    obtain ok s1 where s1: "create_connection_fd p env k ?s0 = Checked (ok, s1)" "connecting p ?s0 s1" "floods s1 = floods ?s0"
        "ok \<longrightarrow> wh_sockets s1 = Suc (wh_sockets ?s0)"
      using create_connection_fd_ok [OF assms(1) c n] .
    have c1: "connecting p s s1" "floods_ok t s1" using connecting_trans [OF s0(1) s1(2)] s0(2) s1(3) Suc.prems(2) by (simp_all add: floods_ok_def)
    show ?thesis
    proof (cases ok)
      case False
      have "floods_ok t (relax_wakeup_at w s1)" for w using c1(2) by (simp add: floods_ok_def relax_wakeup_at_def)
      then show ?thesis using True s1(1) False relax_connecting [OF c1(1)] by simp
    next
      case ok: True
      from Suc.IH [OF can_connect_step [OF c1(1) Suc.prems(1)] c1(2), of "Suc k"] show ?thesis
        using True s1(1) ok connecting_trans [OF c1(1)] by auto
    qed
  qed
qed

lemma create_new_connections_ok:
  assumes "params_ok p" "conns_ok p s" "callback_ok s" "\<not> wh_stopped s" "floods_ok t s" "t \<le> we_now env AtCreate"
  shows "\<exists>s'. create_new_connections p env s = Checked s' \<and> connecting p s s' \<and> floods_ok (we_now env AtCreate) s'"
proof (cases "is_valid (wh_ip_address s) \<and> (hu_protocol (wp_url p) = Http \<or> wh_ssl_ctx s)")
  case False
  have "floods_ok (we_now env AtCreate) s" using assms(5,6) flood_ok_mono by (auto simp: floods_ok_def)
  then show ?thesis using False assms connecting_refl [of p s] by (auto simp: create_new_connections_def)
next
  case True
  let ?now = "we_now env AtCreate"
  let ?need0 = "min (length (wh_queue_updates s)) (nat (wp_max_connections p))"
  let ?need1 = "if \<not> wh_was_checked s then 1 else ?need0"
  let ?active = "\<not> wh_last_success_time s + 10 < ?now"
  let ?need = "if ?active then (if ?need1 = 0 then 1 else ?need1) else min ?need1 1"
  have f: "floods_ok ?now s" using assms(5,6) flood_ok_mono by (auto simp: floods_ok_def)
  have cc: "can_connect p s" using assms True by (simp add: can_connect_def)
  have n: "?need \<le> nat (wp_max_connections p)" using assms(1) by (auto simp: params_ok_def)
  obtain ok s1 where s1: "create_loop p env ?active ?need ?need 0 s = Checked (ok, s1)" "connecting p s s1" "floods_ok ?now s1"
    using create_loop_ok [OF assms(1) cc f n] by blast
  obtain s2 where s2: "use_sockets p env ?need (wh_ready_sockets s1) (Suc ?need) s1 = Checked s2" "connecting p s1 s2" "floods_ok ?now s2"
    using use_sockets_ok [OF assms(1) can_connect_step [OF s1(2) cc] s1(3) n] by blast
  have "connecting p s (s2\<lparr>wh_ready_sockets := 0\<rparr>)" "floods_ok ?now (s2\<lparr>wh_ready_sockets := 0\<rparr>)"
    using connecting_trans [OF s1(2) s2(2)] s2(3)
    by (simp_all add: connecting_def wh_data_def in_flight_def conns_ok_def callback_ok_def floods_ok_def)
  moreover have "create_new_connections p env s = (if ok then Checked (s2\<lparr>wh_ready_sockets := 0\<rparr>) else Checked s1)"
  proof -
    have g: "(hu_protocol (wp_url p) \<noteq> Http \<and> \<not> wh_ssl_ctx s) = False" "(\<not> is_valid (wh_ip_address s)) = False" using True by auto
    show ?thesis unfolding create_new_connections_def Let_def g if_False s1(1) prod.case checked.case s2(1) by (cases ok) simp_all
  qed
  ultimately show ?thesis using s1(2,3) by auto
qed

section \<open>Loading\<close>

text \<open>What loading and sending leave alone.\<close>

definition wh_frame :: "webhook \<Rightarrow> _" where
  "wh_frame s = (wh_pending_sockets s, wh_active_new_connection_flood s, wh_pending_new_connection_flood s,
     wh_max_loaded_updates s, wh_callback s, wh_stop_flag s, wh_stopped s)"

abbreviation wh_net :: "webhook \<Rightarrow> _" where
  "wh_net s \<equiv> (wh_frame s, wh_connections s, wh_ready_connections s)"

lemma frame_ok:
  assumes "wh_frame s' = wh_frame s"
  shows "callback_ok s' = callback_ok s" "floods_ok t s' = floods_ok t s" "wh_stopped s' = wh_stopped s"
    "wh_max_loaded_updates s' = wh_max_loaded_updates s" "wh_pending_sockets s' = wh_pending_sockets s"
  using assms by (simp_all add: wh_frame_def callback_ok_def floods_ok_def)

lemma net_ok:
  assumes "wh_net s' = wh_net s"
  shows "conns_ok p s' = conns_ok p s" "in_flight s' = in_flight s"
  using assms frame_ok [of s' s] by (simp_all add: conns_ok_def in_flight_def)

lemma alist_update_length: "length (AList.update k v al) = (if k \<in> dom (map_of al) then length al else Suc (length al))"
  by (induction al) auto

text \<open>The tables for given abstract contents.\<close>

lemma tables_okI:
  assumes "distinct (map fst (wh_queue_updates s))" "distinct (map wq_id (wh_queues s))" "sorted_wrt wq_less (wh_queues s)"
    "length (wh_queue_updates s) \<le> wh_max_loaded_updates s" "0 < wh_unique_queue_id s"
    "delivery (wh_update_map s) (map_of (wh_queue_updates s)) (waiting s) (in_flight s)"
  shows "tables_ok s"
  using assms by (simp add: tables_ok_def)

text \<open>Putting a queue that does not wait into the list of the waiting queues.\<close>

lemma emplace_ok:
  assumes "tables_ok s" "q \<notin> waiting s"
  shows "distinct (map wq_id (queues_emplace (new_wh_queue w q) (wh_queues s)))"
    "sorted_wrt wq_less (queues_emplace (new_wh_queue w q) (wh_queues s))"
    "wq_id ` set (queues_emplace (new_wh_queue w q) (wh_queues s)) = insert q (waiting s)"
proof -
  have i: "wq_id (new_wh_queue w q) \<notin> wq_id ` set (wh_queues s)" using assms(2) by (simp add: new_wh_queue_def waiting_def)
  show "distinct (map wq_id (queues_emplace (new_wh_queue w q) (wh_queues s)))"
    "sorted_wrt wq_less (queues_emplace (new_wh_queue w q) (wh_queues s))"
    using assms(1) queues_emplace_distinct [OF i] queues_emplace_sorted [OF i] by (simp_all add: tables_ok_def)
  show "wq_id ` set (queues_emplace (new_wh_queue w q) (wh_queues s)) = insert q (waiting s)"
    using queues_emplace_new [OF i] by (simp add: new_wh_queue_def waiting_def)
qed

definition loadable :: "int \<Rightarrow> tq_event \<Rightarrow> bool" where
  "loadable now u \<longleftrightarrow> eid_is_valid (te_id u) \<and> is_ok (eid_next (te_id u)) \<and> json_ok (te_data u) \<and> now \<le> te_expires_at u"

lemma load_update_ok:
  assumes t: "tables_ok s" and u: "loadable unow u" and n: "length (wh_queue_updates s) < wh_max_loaded_updates s"
  shows "\<exists>s'. load_update now unow u s = Checked s' \<and> tables_ok s' \<and> wh_net s' = wh_net s \<and> (no_stuck s \<longrightarrow> no_stuck s') \<and>
    length (wh_queue_updates s') \<le> Suc (length (wh_queue_updates s))"
proof (cases "wh_update_map s (te_id u)")
  case (Some x)
  then show ?thesis using t u by (simp add: load_update_def loadable_def)
next
  case None
  obtain nxt where nxt: "eid_next (te_id u) = Inr nxt" using u by (cases "eid_next (te_id u)") (auto simp: loadable_def)
  define qid where "qid = (if te_extra u = 0 then wh_unique_queue_id s else te_extra u)"
  define un where "un = (if te_extra u = 0 then wh_unique_queue_id s + 1 else wh_unique_queue_id s)"
  define dest where "dest = \<lparr>wu_id = te_id u, wu_json = te_data u, wu_expires_at = te_expires_at u, wu_last_send_time = 0,
                       wu_wakeup_at = now, wu_delay = 1, wu_fail_count = 0, wu_queue_id = qid\<rparr>"
  define es where "es = event_ids s qid"
  define s' where "s' = s\<lparr>wh_update_map := (wh_update_map s)(te_id u \<mapsto> dest), wh_tqueue_offset := nxt, wh_unique_queue_id := un,
      wh_queues := (if es = [] then queues_emplace (new_wh_queue now qid) (wh_queues s) else wh_queues s),
      wh_queue_updates := AList.update qid (es @ [te_id u]) (wh_queue_updates s)\<rparr>"
  have eq: "load_update now unow u s = Checked s'"
    using u None nxt unfolding load_update_def loadable_def
    by (simp add: Let_def qid_def un_def dest_def es_def s'_def split: if_splits)
  have pos: "0 < wh_unique_queue_id s" using t by (simp add: tables_ok_def)
  then have q0: "qid \<noteq> 0" "0 < un" by (auto simp: qid_def un_def)
  have d: "delivery (wh_update_map s) (map_of (wh_queue_updates s)) (waiting s) (in_flight s)" using t by (simp add: tables_ok_def)
  have es: "es = (case map_of (wh_queue_updates s) qid of None \<Rightarrow> [] | Some es \<Rightarrow> es)" by (simp add: es_def event_ids_def)
  have v: "wu_id dest = te_id u" "wu_queue_id dest = qid" "json_ok (wu_json dest)" "eid_is_valid (te_id u)"
    using u by (simp_all add: dest_def loadable_def)
  have nw: "qid \<notin> waiting s" if "es = []"
  proof
    assume "qid \<in> waiting s"
    then obtain fs where "map_of (wh_queue_updates s) qid = Some fs" using delivery_waiting [OF d] by blast
    then show False using that es delivery_queue [OF d, of qid fs] by simp
  qed
  have w: "waiting s' = (if es = [] then insert qid (waiting s) else waiting s)"
    using emplace_ok(3) [OF t nw] by (simp add: waiting_def s'_def)
  have f: "in_flight s' = in_flight s" by (simp add: in_flight_def s'_def)
  have m: "map_of (wh_queue_updates s') = (map_of (wh_queue_updates s))(qid \<mapsto> es @ [te_id u])" by (simp add: s'_def update_conv')
  note ld = load_delivery [OF d None v(1,2,3,4) q0(1) es]
  have "tables_ok s'"
  proof (rule tables_okI)
    show "delivery (wh_update_map s') (map_of (wh_queue_updates s')) (waiting s') (in_flight s')"
      unfolding m w f using ld(1) by (simp add: s'_def)
    show "distinct (map wq_id (wh_queues s'))" "sorted_wrt wq_less (wh_queues s')"
      using t emplace_ok(1,2) [OF t nw] by (simp_all add: s'_def tables_ok_def)
  qed (use t q0(2) n in \<open>simp_all add: s'_def tables_ok_def distinct_update alist_update_length\<close>)
  moreover have "no_stuck s \<longrightarrow> no_stuck s'" using ld(2) by (simp add: no_stuck_def m w f)
  moreover have "wh_net s' = wh_net s" "length (wh_queue_updates s') \<le> Suc (length (wh_queue_updates s))"
    by (simp_all add: s'_def wh_frame_def alist_update_length)
  ultimately show ?thesis using eq by blast
qed

lemma load_each_ok:
  assumes "tables_ok s" "\<forall>u \<in> set us. loadable unow u" "length (wh_queue_updates s) + length us \<le> wh_max_loaded_updates s"
  shows "\<exists>s'. load_each now unow us s = Checked s' \<and> tables_ok s' \<and> wh_net s' = wh_net s \<and> (no_stuck s \<longrightarrow> no_stuck s')"
  using assms
proof (induction us arbitrary: s)
  case (Cons u us)
  have u: "loadable unow u" "length (wh_queue_updates s) < wh_max_loaded_updates s" using Cons.prems(2,3) by auto
  obtain s1 where s1: "load_update now unow u s = Checked s1" "tables_ok s1" "wh_net s1 = wh_net s" "no_stuck s \<longrightarrow> no_stuck s1"
      "length (wh_queue_updates s1) \<le> Suc (length (wh_queue_updates s))"
    using load_update_ok [OF Cons.prems(1) u] by blast
  have "length (wh_queue_updates s1) + length us \<le> wh_max_loaded_updates s1"
    using s1(3,5) Cons.prems(3) frame_ok(4) [of s1 s] by simp
  from Cons.IH [OF s1(2) _ this] Cons.prems(2) obtain s' where
    "load_each now unow us s1 = Checked s'" "tables_ok s'" "wh_net s' = wh_net s1" "no_stuck s1 \<longrightarrow> no_stuck s'" by auto
  then show ?case using s1 by simp
qed simp

text \<open>Reading never fails; what it returns can be loaded.\<close>

lemma due_loadable: "queue_ok q \<Longrightarrow> e \<in> set (tq_events q) \<Longrightarrow> due now e \<Longrightarrow> loadable now (to_event e)"
  by (force simp: queue_ok_def event_ok_def due_def loadable_def json_ok_def to_event_def eid_is_valid_def is_valid_id_def eid_next_is_ok)

lemma get_from_head:
  assumes "tq_inv tq" "tq_get ops qid (get_head qid tq) f now n tq = Checked (r, tq')"
  shows "is_ok r"
proof (cases "tq_queues tq qid")
  case None
  then show ?thesis using assms(2) by (auto simp: tq_get_def)
next
  case (Some q)
  then have "queue_ok q" using tq_inv_queue [OF assms(1), of qid] by simp
  then have "get_queue_head q \<le> tq_tail_id q"
    by (cases "tq_events q") (auto simp: get_queue_head_def queue_ok_def event_ok_def)
  then show ?thesis using assms(2) Some by (auto simp: tq_get_def get_head_def split: checked.splits if_splits)
qed

lemma tq_get_error: "tq_get ops qid from f now n tq = Checked (Inl e, tq') \<Longrightarrow> tq' = tq"
  by (auto simp: tq_get_def split: checked.splits if_splits option.splits prod.splits)

lemma get_loadable:
  assumes "tq_inv tq"
  shows "\<exists>r tq'. tq_get ops qid from f now n tq = Checked (r, tq') \<and> tq_inv tq' \<and>
    (\<forall>m got. r = Ok (m, got) \<longrightarrow> length got \<le> n \<and> (\<forall>u \<in> set got. loadable now u))"
proof -
  obtain r tq' where g: "tq_get ops qid from f now n tq = Checked (r, tq')" "tq_inv tq'"
    "\<forall>m got. r = Ok (m, got) \<longrightarrow> length got \<le> m \<and>
        got = map to_event (take n (filter (due now) (filter (\<lambda>e. from \<le> ev_id e) (tq_events (queue_at tq qid)))))"
    using tq_get_effect [OF assms] by blast
  have "length got \<le> n \<and> (\<forall>u \<in> set got. loadable now u)" if "r = Ok (m, got)" for m got
    using g(3) that due_loadable [OF tq_inv_queue [OF assms, of qid]] by (auto dest!: in_set_takeD)
  then show ?thesis using g(1,2) by blast
qed

lemma read_updates_ok:
  assumes "tq_inv tq"
  shows "\<exists>m us off tq'. read_updates p env offset limit unow tq = Checked ((m, us), off, tq') \<and> tq_inv tq' \<and>
    length us \<le> limit \<and> (\<forall>u \<in> set us. loadable unow u)"
proof (cases "offset = 0")
  case True
  then show ?thesis using assms by (simp add: read_updates_def)
next
  case False
  obtain r tq1 where g: "tq_get (we_ops env) (wp_tqueue_id p) offset False unow limit tq = Checked (r, tq1)" "tq_inv tq1"
    "\<forall>m got. r = Ok (m, got) \<longrightarrow> length got \<le> limit \<and> (\<forall>u \<in> set got. loadable unow u)"
    using get_loadable [OF assms] by blast
  show ?thesis
  proof (cases r)
    case (Inr x)
    then show ?thesis using False g by (cases x) (simp add: read_updates_def)
  next
    case (Inl e)
    obtain r2 tq2 where h: "tq_get (we_ops env) (wp_tqueue_id p) (get_head (wp_tqueue_id p) tq1) False unow limit tq1 = Checked (r2, tq2)" "tq_inv tq2"
      "\<forall>m got. r2 = Ok (m, got) \<longrightarrow> length got \<le> limit \<and> (\<forall>u \<in> set got. loadable unow u)"
      using get_loadable [OF g(2)] by blast
    obtain m got where "r2 = Ok (m, got)" using get_from_head [OF g(2) h(1)] by (cases r2) auto
    then show ?thesis using False g(1) Inl h by (simp add: read_updates_def Let_def)
  qed
qed

lemma load_updates_ok:
  assumes "tq_inv tq" "tables_ok s"
  shows "\<exists>tq' s'. load_updates p env tq s = Checked (tq', s') \<and> tq_inv tq' \<and> tables_ok s' \<and> wh_net s' = wh_net s \<and> (no_stuck s \<longrightarrow> no_stuck s')"
proof (cases "wh_tqueue_empty s \<or> length (wh_queue_updates s) \<ge> wh_max_loaded_updates s")
  case True
  then show ?thesis using assms by (auto simp: load_updates_def tables_ok_def)
next
  case False
  let ?off = "if wh_tqueue_offset s = 0 then get_head (wp_tqueue_id p) tq else wh_tqueue_offset s"
  let ?limit = "min TQUEUE_EVENT_BUFFER_SIZE (wh_max_loaded_updates s - length (wh_queue_updates s))"
  let ?now = "we_now env AtLoad"
  let ?unow = "we_unix_time env ?now"
  obtain m us off tq' where r: "read_updates p env ?off ?limit ?unow tq = Checked ((m, us), off, tq')" "tq_inv tq'"
    "length us \<le> ?limit" "\<forall>u \<in> set us. loadable ?unow u" using read_updates_ok [OF assms(1)] by blast
  let ?s1 = "s\<lparr>wh_tqueue_offset := off, wh_tqueue_empty := (us = [])\<rparr>"
  have s1: "tables_ok ?s1" "wh_net ?s1 = wh_net s" "no_stuck ?s1 = no_stuck s" "length (wh_queue_updates ?s1) + length us \<le> wh_max_loaded_updates ?s1"
    using assms(2) r(3) False by (auto simp: tables_ok_def waiting_def in_flight_def wh_frame_def no_stuck_def)
  obtain s2 where s2: "load_each ?now ?unow us ?s1 = Checked s2" "tables_ok s2" "wh_net s2 = wh_net ?s1" "no_stuck ?s1 \<longrightarrow> no_stuck s2"
    using load_each_ok [OF s1(1) r(4) s1(4)] by blast
  define s3 where "s3 = s2\<lparr>wh_last_pending_update_count := next_pending_update_count m (wh_last_pending_update_count s2)\<rparr>"
  define s4 where "s4 = (if length us = m \<and> wh_last_update_was_successful s3 then wh_notify WmSuccess s3 else s3)"
  have "load_updates p env tq s = Checked (tq', s4)"
    using False r(1) s2(1) by (simp add: load_updates_def Let_def s3_def s4_def)
  moreover have "tables_ok s4 = tables_ok s2" "no_stuck s4 = no_stuck s2" "wh_net s4 = wh_net s2"
    by (simp_all add: s4_def s3_def wh_notify_def wh_send_def tables_ok_def no_stuck_def waiting_def in_flight_def wh_frame_def)
  ultimately show ?thesis using r(2) s2 s1(2,3) by auto
qed

section \<open>Sending\<close>

text \<open>The parts of a request that depend on the webhook fit into the buffer for the header.\<close>

definition url_short :: "wh_params \<Rightarrow> bool" where
  "url_short p \<longleftrightarrow>
     length (hu_query (wp_url p)) + length (wp_host_header p) + length (base64_encode (hu_userinfo (wp_url p))) +
     length (wp_secret_token p) \<le> 3800"

lemma filled_header_mono: "filled sb n \<Longrightarrow> n + length k + length v + 4 \<le> m \<Longrightarrow> m < 4066 \<Longrightarrow> filled (add_header k v sb) m"
  using filled_add_header [of sb n k v] by (simp add: filled_def)

lemma filled_optional:
  "filled sb n \<Longrightarrow> n + length k + length v + 4 \<le> m \<Longrightarrow> m < 4066 \<Longrightarrow> filled (if c then add_header k v sb else sb) m"
  using filled_header_mono [of sb n k v m] by (simp add: filled_def)

lemma filled_post: "length url < 4000 \<Longrightarrow> filled (init_post url) (16 + length url)"
  by (simp add: init_post_def hc_init_def new_string_builder_def append_slice_fits filled_def crlf_def)

lemma update_header_fits:
  assumes "url_short p" "n < 10 ^ 20"
  shows "\<exists>h. update_header p n = Ok h"
proof -
  let ?url = "wp_url p" and ?q = "length (hu_query (wp_url p))" and ?t = "length (wp_host_header p)"
  let ?b = "length (base64_encode (hu_userinfo (wp_url p)))" and ?k = "length (wp_secret_token p)"
  have le: "?q + ?t + ?b + ?k \<le> 3800" using assms(1) by (simp add: url_short_def)
  define h1 where "h1 = add_header ''Host'' (wp_host_header p) (init_post (hu_query ?url))"
  define h2 where "h2 = (if hu_userinfo ?url \<noteq> [] then add_header ''Authorization'' (''Basic '' @ base64_encode (hu_userinfo ?url)) h1 else h1)"
  define h3 where "h3 = (if wp_secret_token p \<noteq> [] then add_header ''X-Telegram-Bot-Api-Secret-Token'' (wp_secret_token p) h2 else h2)"
  define h4 where "h4 = add_header ''Content-Type'' ''application/json'' h3"
  define h5 where "h5 = add_header ''Content-Length'' (print_uint n) h4"
  define h6 where "h6 = add_header ''Connection'' ''keep-alive'' h5"
  define h7 where "h7 = add_header ''Accept-Encoding'' ''gzip, deflate'' h6"
  have "filled h1 (24 + ?q + ?t)" unfolding h1_def by (rule filled_header_mono [OF filled_post]) (use le in simp_all)
  then have "filled h2 (47 + ?q + ?t + ?b)"
    unfolding h2_def by (rule filled_optional) (use le in simp_all)
  then have "filled h3 (82 + ?q + ?t + ?b + ?k)"
    unfolding h3_def by (rule filled_optional) (use le in simp_all)
  then have "filled h4 (114 + ?q + ?t + ?b + ?k)" unfolding h4_def by (rule filled_header_mono) (use le in simp_all)
  then have "filled h5 (152 + ?q + ?t + ?b + ?k)"
    unfolding h5_def by (rule filled_header_mono) (use le print_uint_length [OF assms(2)] in simp_all)
  then have "filled h6 (176 + ?q + ?t + ?b + ?k)" unfolding h6_def by (rule filled_header_mono) (use le in simp_all)
  then have "filled h7 (208 + ?q + ?t + ?b + ?k)" unfolding h7_def by (rule filled_header_mono) (use le in simp_all)
  then have "hc_finish [] h7 = Ok (sb_text h7 @ crlf)" by (rule hc_finish_filled) (use le in simp)
  moreover have "update_header p n = hc_finish [] h7"
    by (simp add: update_header_def Let_def h1_def h2_def h3_def h4_def h5_def h6_def h7_def
        set_content_type_def set_content_size_def set_keep_alive_def)
  ultimately show ?thesis by simp
qed

lemma json_update_ok:
  assumes "json_ok j" "eid_is_valid i"
  shows "\<exists>body. json_update i j = Checked body \<and> length body < 10 ^ 20"
proof -
  have "in_signed 64 i" using assms(2) by (simp add: eid_is_valid_def is_valid_id_def in_signed_def)
  then have "length (print_int 32 i) \<le> 20" by (rule print_int_length)
  then show ?thesis using assms(1) by (auto simp: json_update_def json_ok_def)
qed

text \<open>The first waiting queue is sent.\<close>

lemma waiting_Cons: "wh_queues s = q # qs \<Longrightarrow> tables_ok s \<Longrightarrow> wq_id ` set qs = waiting s - {wq_id q}"
  by (auto simp: waiting_def tables_ok_def)

lemma tables_delivery: "tables_ok s \<Longrightarrow> delivery (wh_update_map s) (map_of (wh_queue_updates s)) (waiting s) (in_flight s)"
  by (simp add: tables_ok_def)

lemma send_update_ok:
  assumes t: "tables_ok s" and c: "conns_ok p s"
  shows "\<exists>ok s'. send_update p env k s = Checked (ok, s') \<and> tables_ok s' \<and> conns_ok p s' \<and> wh_frame s' = wh_frame s \<and>
    (url_short p \<longrightarrow> no_stuck s \<longrightarrow> no_stuck s') \<and>
    (ok \<longrightarrow> length (wh_ready_connections s) = Suc (length (wh_ready_connections s')))"
proof (cases "wh_ready_connections s = [] \<or> wh_queues s = [] \<or> wq_wakeup_at (hd (wh_queues s)) > we_now env (AtSend k)")
  case True
  have "tables_ok (relax_wakeup_at w s) = tables_ok s" "conns_ok p (relax_wakeup_at w s) = conns_ok p s"
    "no_stuck (relax_wakeup_at w s) = no_stuck s" for w using core_ok [of "relax_wakeup_at w s" s] by simp_all
  moreover have "wh_frame (relax_wakeup_at w s) = wh_frame s" "wh_ready_connections (relax_wakeup_at w s) = wh_ready_connections s" for w
    by (simp_all add: relax_wakeup_at_def wh_frame_def)
  ultimately show ?thesis using True assms by (cases "wh_queues s") (auto simp: send_update_def)
next
  case False
  let ?now = "we_now env (AtSend k)"
  obtain q qs where q: "wh_queues s = q # qs" "\<not> wq_wakeup_at q > ?now" "wh_ready_connections s \<noteq> []"
    using False by (cases "wh_queues s") auto
  note d = tables_delivery [OF t]
  have w: "wq_id q \<in> waiting s" using q(1) by (simp add: waiting_def)
  obtain es0 where "map_of (wh_queue_updates s) (wq_id q) = Some es0" using delivery_waiting [OF d w] by blast
  moreover from delivery_queue [OF d this] have "es0 \<noteq> []" "wq_id q \<noteq> 0" by auto
  ultimately obtain e es where e: "map_of (wh_queue_updates s) (wq_id q) = Some (e # es)" "wq_id q \<noteq> 0" by (cases es0) auto
  obtain u where u: "wh_update_map s e = Some u" "wu_queue_id u = wq_id q" using delivery_queue [OF d e(1)] by auto
  have ui: "wu_id u = e" "eid_is_valid e" "json_ok (wu_json u)" using delivery_update [OF d u(1)] by simp_all
  obtain body where body: "json_update e (wu_json u) = Checked body" "length body < 10 ^ 20" using json_update_ok [OF ui(3,2)] by blast
  define s2 where "s2 = s\<lparr>wh_queues := qs, wh_update_map := (wh_update_map s)(e \<mapsto> u\<lparr>wu_last_send_time := ?now\<rparr>)\<rparr>"
  have d2: "delivery (wh_update_map s2) (map_of (wh_queue_updates s2)) (waiting s) (in_flight s2)"
    using touch_delivery [OF d u(1)] by (simp add: s2_def same_update_def in_flight_def)
  have w2: "waiting s2 = waiting s - {wq_id q}" using waiting_Cons [OF q(1) t] by (simp add: s2_def waiting_def)
  have e2: "map_of (wh_queue_updates s2) (wq_id q) = Some (e # es)" using e(1) by (simp add: s2_def)
  have eq: "send_update p env k s = (case update_header p (length body) of Inl _ \<Rightarrow> Checked (False, s2)
      | Inr header \<Rightarrow> Checked (True, wh_send [WmWrite (last (wh_ready_connections s2)) header, WmWrite (last (wh_ready_connections s2)) body, WmWriteOk (last (wh_ready_connections s2))]
          (s2\<lparr>wh_ready_connections := butlast (wh_ready_connections s2),
              wh_connections := container_modify (last (wh_ready_connections s2)) (\<lambda>c. c\<lparr>wc_event_id := e\<rparr>) (wh_connections s2)\<rparr>)))"
    using q e u ui body(1) by (simp add: send_update_def event_ids_def Let_def s2_def split: sum.split)
  have rest: "distinct (map wq_id (wh_queues s2))" "sorted_wrt wq_less (wh_queues s2)" "distinct (map fst (wh_queue_updates s2))"
    "length (wh_queue_updates s2) \<le> wh_max_loaded_updates s2" "0 < wh_unique_queue_id s2"
    using t q(1) by (simp_all add: s2_def tables_ok_def)
  show ?thesis
  proof (cases "update_header p (length body)")
    case (Inl x)
    have "tables_ok s2" using rest unschedule_delivery [OF d2, of "{wq_id q}"] w2 by (simp add: tables_ok_def)
    moreover have "\<not> url_short p" using update_header_fits [OF _ body(2)] Inl by fastforce
    ultimately show ?thesis using eq Inl c by (auto simp: s2_def conns_ok_def wh_frame_def)
  next
    case (Inr header)
    let ?cid = "last (wh_ready_connections s2)"
    define s3 where "s3 = wh_send [WmWrite ?cid header, WmWrite ?cid body, WmWriteOk ?cid]
      (s2\<lparr>wh_ready_connections := butlast (wh_ready_connections s2),
          wh_connections := container_modify ?cid (\<lambda>c. c\<lparr>wc_event_id := e\<rparr>) (wh_connections s2)\<rparr>)"
    have ct: "conn_table (container_lookup (wh_connections s2)) (wh_ready_connections s2)" "container_inv (wh_connections s2)"
      "wh_ready_connections s2 \<noteq> []" using c q(3) by (simp_all add: s2_def conns_ok_def)
    have "e \<noteq> 0" using ui(2) by (simp add: eid_is_valid_def)
    moreover have "e \<notin> in_flight s2"
    proof
      assume "e \<in> in_flight s2"
      from delivery_flight [OF d2 this] have "wu_queue_id u \<notin> waiting s" by (auto simp: s2_def)
      then show False using u(2) w by simp
    qed
    then have "e \<notin> flights (container_lookup (wh_connections s2))" by (simp add: in_flight_def)
    note uc = use_conn [OF ct(1,3) \<open>e \<noteq> 0\<close> this] and m = table.modify [OF ct(2), of ?cid "\<lambda>c. c\<lparr>wc_event_id := e\<rparr>"]
    have f: "in_flight s3 = insert e (in_flight s2)" using uc(2) m by (simp add: s3_def in_flight_def wh_send_def)
    have w3: "waiting s3 = waiting s - {wq_id q}" "map_of (wh_queue_updates s3) = map_of (wh_queue_updates s2)" "wh_update_map s3 = wh_update_map s2"
      using w2 by (simp_all add: s3_def wh_send_def waiting_def)
    note sd = send_delivery [OF d2 w e2]
    have "tables_ok s3" using rest sd(1) unfolding tables_ok_def f w3 by (simp add: s3_def wh_send_def)
    moreover have "conns_ok p s3" using uc(1) m c by (simp add: s3_def wh_send_def conns_ok_def s2_def)
    moreover have "no_stuck s \<longrightarrow> no_stuck s3" using sd(2) unfolding no_stuck_def f w3 by (simp add: s2_def in_flight_def)
    moreover have "wh_frame s3 = wh_frame s" "length (wh_ready_connections s) = Suc (length (wh_ready_connections s3))"
      using q(3) by (simp_all add: s3_def s2_def wh_send_def wh_frame_def)
    moreover have "send_update p env k s = Checked (True, s3)" using eq Inr by (simp add: s3_def)
    ultimately show ?thesis by blast
  qed
qed

lemma send_loop_ok:
  assumes "tables_ok s" "conns_ok p s"
  shows "\<exists>s'. send_loop p env n k s = Checked s' \<and> tables_ok s' \<and> conns_ok p s' \<and> wh_frame s' = wh_frame s \<and>
    (url_short p \<longrightarrow> no_stuck s \<longrightarrow> no_stuck s') \<and>
    (length (wh_ready_connections s) < n \<longrightarrow> (\<forall>m. send_loop p env (n + m) k s = Checked s'))"
  using assms
proof (induction n arbitrary: k s)
  case (Suc n)
  obtain ok s1 where s1: "send_update p env k s = Checked (ok, s1)" "tables_ok s1" "conns_ok p s1" "wh_frame s1 = wh_frame s"
    "url_short p \<longrightarrow> no_stuck s \<longrightarrow> no_stuck s1" "ok \<longrightarrow> length (wh_ready_connections s) = Suc (length (wh_ready_connections s1))"
    using send_update_ok [OF Suc.prems] by blast
  show ?case
  proof (cases ok)
    case True
    from Suc.IH [OF s1(2,3), of "Suc k"] obtain s' where "send_loop p env n (Suc k) s1 = Checked s'" "tables_ok s'" "conns_ok p s'"
      "wh_frame s' = wh_frame s1" "url_short p \<longrightarrow> no_stuck s1 \<longrightarrow> no_stuck s'"
      "length (wh_ready_connections s1) < n \<longrightarrow> (\<forall>m. send_loop p env (n + m) (Suc k) s1 = Checked s')" by blast
    then show ?thesis using s1 True by simp
  qed (use s1 in simp)
qed simp

lemma send_updates_ok:
  assumes "tables_ok s" "conns_ok p s"
  shows "\<exists>s'. send_updates p env s = Checked s' \<and> tables_ok s' \<and> conns_ok p s' \<and> wh_frame s' = wh_frame s \<and> (url_short p \<longrightarrow> no_stuck s \<longrightarrow> no_stuck s')"
  using send_loop_ok [OF assms] unfolding send_updates_def by blast

end
