(* ===== verification/WebhookEvents.thy ===== *)
theory WebhookEvents
  imports WebhookInv
begin

text \<open>
  Responses, the event loop and all other events keep the invariant; the reachable states of a webhook.
\<close>

section \<open>Responses\<close>

text \<open>
  The tables while the result of the update \<open>e\<close> is handled: the update does not count as in flight any more although
  the connection still has its identifier.
\<close>

definition settled :: "int \<Rightarrow> webhook \<Rightarrow> bool" where
  "settled e s \<longleftrightarrow>
     distinct (map fst (wh_queue_updates s)) \<and> distinct (map wq_id (wh_queues s)) \<and> sorted_wrt wq_less (wh_queues s) \<and>
     length (wh_queue_updates s) \<le> wh_max_loaded_updates s \<and> 0 < wh_unique_queue_id s \<and>
     delivery (wh_update_map s) (map_of (wh_queue_updates s)) (waiting s) (in_flight s - {e})"

definition settled_no_stuck :: "int \<Rightarrow> webhook \<Rightarrow> bool" where
  "settled_no_stuck e s \<longleftrightarrow> nothing_stuck (map_of (wh_queue_updates s)) (waiting s) (in_flight s - {e})"

lemma flight_nonzero: "0 \<notin> in_flight s"
  by (simp add: in_flight_def flights_def)

lemma settled_zero: "settled 0 s = tables_ok s" "settled_no_stuck 0 s = no_stuck s"
  using flight_nonzero [of s] by (simp_all add: settled_def tables_ok_def settled_no_stuck_def no_stuck_def)

lemma drop_event_ok:
  assumes tq: "tq_inv tq" and t: "tables_ok s" and e: "e \<in> in_flight s"
  shows "\<exists>tq' s'. drop_event p env e tq s = Checked (tq', s') \<and> tq_inv tq' \<and> settled e s' \<and> wh_net s' = wh_net s \<and>
    (no_stuck s \<longrightarrow> settled_no_stuck e s') \<and> wh_update_map s' = (wh_update_map s)(e := None)"
proof -
  note d = tables_delivery [OF t]
  obtain u es where u: "wh_update_map s e = Some u" "map_of (wh_queue_updates s) (wu_queue_id u) = Some (e # es)" "wu_queue_id u \<notin> waiting s"
    using delivery_flight [OF d e] by blast
  define q where "q = wu_queue_id u"
  note u' = u [folded q_def]
  obtain tq' where f: "forget (we_ops env) (wp_tqueue_id p) e tq = Checked tq'" "tq_inv tq'" using forget_inv [OF tq] by blast
  define s1 where "s1 = s\<lparr>wh_update_map := (wh_update_map s)(e := None)\<rparr>"
  note dd = drop_delivery [OF d e u(1) refl u(2), folded q_def]
  show ?thesis
  proof (cases es)
    case Nil
    define s2 where "s2 = s1\<lparr>wh_queue_updates := AList.delete q (wh_queue_updates s1)\<rparr>"
    have m: "map_of (wh_queue_updates s2) = (map_of (wh_queue_updates s))(q := None)" "waiting s2 = waiting s" "in_flight s2 = in_flight s"
      "wh_update_map s2 = (wh_update_map s)(e := None)"
      by (simp_all add: s2_def s1_def delete_conv' waiting_def in_flight_def)
    have "length (wh_queue_updates s2) \<le> wh_max_loaded_updates s2"
      using t length_delete_le [of q "wh_queue_updates s"] by (simp add: s2_def s1_def tables_ok_def)
    then have "settled e s2" using dd(1) Nil t unfolding settled_def m by (simp add: s2_def s1_def tables_ok_def distinct_delete)
    moreover have "no_stuck s \<longrightarrow> settled_no_stuck e s2" using dd(2) Nil unfolding settled_no_stuck_def no_stuck_def m by simp
    moreover have "drop_event p env e tq s = Checked (tq', s2)"
      using u' Nil f(1) by (simp add: drop_event_def Let_def q_def s2_def s1_def)
    moreover have "wh_net s2 = wh_net s" by (simp add: s2_def s1_def wh_frame_def)
    ultimately show ?thesis using f(2) m(4) by blast
  next
    case (Cons e' es')
    have "e' \<noteq> e" using delivery_queue [OF d u'(2)] Cons by auto
    moreover obtain v where v: "wh_update_map s e' = Some v" "wu_queue_id v = q" using delivery_queue [OF d u'(2)] Cons by auto
    moreover from delivery_update [OF d v(1)] have "eid_is_valid e'" by simp
    moreover define s2 where "s2 = s1\<lparr>wh_queue_updates := AList.update q es (wh_queue_updates s1),
        wh_queues := queues_emplace (new_wh_queue (wu_wakeup_at v) q) (wh_queues s1)\<rparr>"
    ultimately have eq: "drop_event p env e tq s = Checked (tq', s2)"
      using u' Cons f(1) by (simp add: drop_event_def Let_def q_def [symmetric] s2_def s1_def)
    note em = emplace_ok [OF t u'(3), of "wu_wakeup_at v"]
    have m: "map_of (wh_queue_updates s2) = (map_of (wh_queue_updates s))(q \<mapsto> es)" "waiting s2 = insert q (waiting s)" "in_flight s2 = in_flight s"
      "wh_update_map s2 = (wh_update_map s)(e := None)"
      using em(3) by (simp_all add: s2_def s1_def update_conv' waiting_def in_flight_def)
    have "q \<in> dom (map_of (wh_queue_updates s))" using u'(2) by blast
    then have l: "length (wh_queue_updates s2) \<le> wh_max_loaded_updates s2" using t by (simp add: s2_def s1_def tables_ok_def alist_update_length)
    have "settled e s2" using l dd(1) Cons t em(1,2) unfolding settled_def m by (simp add: s2_def s1_def tables_ok_def distinct_update)
    moreover have "no_stuck s \<longrightarrow> settled_no_stuck e s2" using dd(2) Cons unfolding settled_no_stuck_def no_stuck_def m by simp
    moreover have "wh_net s2 = wh_net s" by (simp add: s2_def s1_def wh_frame_def)
    ultimately show ?thesis using eq f(2) m(4) by blast
  qed
qed

lemma update_flags_ok:
  assumes "wh_update_map s' = wh_update_map s" "wh_queue_updates s' = wh_queue_updates s" "wh_queues s' = wh_queues s"
    "wh_unique_queue_id s' = wh_unique_queue_id s" "wh_net s' = wh_net s"
  shows "tables_ok s' = tables_ok s" "no_stuck s' = no_stuck s"
  using assms net_ok(2) [OF assms(5)] frame_ok(4) [of s' s] by (simp_all add: tables_ok_def no_stuck_def waiting_def)

text \<open>What is left of a loaded update after a response.\<close>

lemma on_update_ok_ok:
  assumes "tq_inv tq" "tables_ok s" "e \<in> in_flight s"
  shows "\<exists>tq' s'. on_update_ok p env e tq s = Checked (tq', s') \<and> tq_inv tq' \<and> settled e s' \<and> wh_net s' = wh_net s \<and>
    (no_stuck s \<longrightarrow> settled_no_stuck e s') \<and> wh_update_map s' = (wh_update_map s)(e := None)"
proof -
  let ?s = "s\<lparr>wh_last_update_was_successful := True, wh_last_success_time := we_now env AtOk\<rparr>"
  have s: "tables_ok ?s = tables_ok s" "no_stuck ?s = no_stuck s" "wh_net ?s = wh_net s" "in_flight ?s = in_flight s" "wh_update_map ?s = wh_update_map s"
    using update_flags_ok [of ?s s] by (simp_all add: wh_frame_def in_flight_def)
  have "wh_update_map ?s e \<noteq> None" using delivery_flight [OF tables_delivery [OF assms(2)] assms(3)] by auto
  then have "on_update_ok p env e tq s = drop_event p env e tq ?s" by (auto simp: on_update_ok_def)
  then show ?thesis using drop_event_ok [of tq ?s e p env] assms s by simp
qed

text \<open>The updates that a response may remove: all after a success, otherwise those that expire within an hour.\<close>

definition finished :: "'s wh_env \<Rightarrow> bool \<Rightarrow> webhook \<Rightarrow> int set" where
  "finished env accepted s =
     {e. \<exists>u. wh_update_map s e = Some u \<and> (accepted \<or> wu_expires_at u < we_unix_time env (we_now env AtError) + 3600)}"

lemma next_delay_bound:
  assumes "we_random env 60 120 \<le> 120" "next_delays env (clamp r 0 3600) u = (nd, ned)"
  shows "ned \<le> 3600"
  using assms by (auto simp: next_delays_def clamp_def Let_def split: if_splits)

lemma on_update_error_ok:
  assumes tq: "tq_inv tq" and t: "tables_ok s" and e: "e \<in> in_flight s" and rnd: "we_random env 60 120 \<le> 120"
  shows "\<exists>tq' s'. on_update_error p env e r tq s = Checked (tq', s') \<and> tq_inv tq' \<and> settled e s' \<and> wh_net s' = wh_net s \<and>
    (no_stuck s \<longrightarrow> settled_no_stuck e s') \<and> dom (wh_update_map s) - {e} \<inter> finished env False s \<subseteq> dom (wh_update_map s')"
proof -
  define s1 where "s1 = s\<lparr>wh_last_update_was_successful := False\<rparr>"
  have s1: "tables_ok s1" "no_stuck s1 = no_stuck s" "wh_net s1 = wh_net s" "in_flight s1 = in_flight s" "wh_update_map s1 = wh_update_map s"
    using update_flags_ok [of s1 s] t by (simp_all add: s1_def wh_frame_def in_flight_def)
  note d = tables_delivery [OF s1(1)]
  have e1: "e \<in> in_flight s1" using e s1(4) by simp
  obtain u es where u: "wh_update_map s1 e = Some u" "map_of (wh_queue_updates s1) (wu_queue_id u) = Some (e # es)" "wu_queue_id u \<notin> waiting s1"
    using delivery_flight [OF d e1] by blast
  obtain nd ned where n: "next_delays env (clamp r 0 3600) u = (nd, ned)" by fastforce
  let ?now = "we_now env AtError"
  show ?thesis
  proof (cases "we_unix_time env ?now + ned > wu_expires_at u")
    case True
    then have "on_update_error p env e r tq s = drop_event p env e tq s1"
      using u(1) n by (simp add: on_update_error_def Let_def s1_def)
    moreover have "e \<in> finished env False s" using True u(1) s1(5) next_delay_bound [OF rnd n] by (auto simp: finished_def)
    ultimately show ?thesis using drop_event_ok [OF tq s1(1) e1, of p env] s1 by auto
  next
    case False
    let ?u = "u\<lparr>wu_delay := nd, wu_wakeup_at := ?now + real_of_int ned, wu_fail_count := wu_fail_count u + 1\<rparr>"
    define s2 where "s2 = s1\<lparr>wh_update_map := (wh_update_map s1)(e \<mapsto> ?u),
      wh_queues := queues_emplace (new_wh_queue (?now + real_of_int ned) (wu_queue_id u)) (wh_queues s1)\<rparr>"
    have eq: "on_update_error p env e r tq s = Checked (tq, s2)"
      using False u(1) n by (simp add: on_update_error_def Let_def s1_def s2_def)
    note em = emplace_ok [OF s1(1) u(3), of "?now + real_of_int ned"]
    have m: "map_of (wh_queue_updates s2) = map_of (wh_queue_updates s1)" "waiting s2 = insert (wu_queue_id u) (waiting s1)" "in_flight s2 = in_flight s1"
      "wh_update_map s2 = (wh_update_map s1)(e \<mapsto> ?u)"
      using em(3) by (simp_all add: s2_def waiting_def in_flight_def)
    have "delivery (wh_update_map s2) (map_of (wh_queue_updates s2)) (waiting s2) (in_flight s2 - {e})"
      unfolding m by (rule touch_delivery [OF retry_delivery(1) [OF d e1 u(1)] u(1)]) (simp add: same_update_def)
    then have "settled e s2" using s1(1) em(1,2) unfolding settled_def by (simp add: s2_def tables_ok_def)
    moreover have "no_stuck s1 \<longrightarrow> settled_no_stuck e s2"
      using retry_delivery(2) [OF d e1 u(1)] unfolding settled_no_stuck_def no_stuck_def m by simp
    moreover have "wh_net s2 = wh_net s" using s1(3) by (simp add: s2_def wh_frame_def)
    moreover have "dom (wh_update_map s) \<subseteq> dom (wh_update_map s2)" using m(4) s1(5) by auto
    ultimately show ?thesis using eq tq s1(2) by auto
  qed
qed

text \<open>The connection becomes ready again or is closed.\<close>

lemma finish_connection_ok:
  assumes t: "settled e s" and c: "conns_ok p s" and x: "container_lookup (wh_connections s) cid = Some x" "wc_event_id x = e"
    and cl: "close \<or> e \<noteq> 0"
  shows "tables_ok (finish_connection cid close s) \<and> conns_ok p (finish_connection cid close s) \<and>
    wh_frame (finish_connection cid close s) = wh_frame s \<and> (settled_no_stuck e s \<longrightarrow> no_stuck (finish_connection cid close s))"
proof -
  let ?s = "finish_connection cid close s" and ?conns = "container_modify cid (\<lambda>c. c\<lparr>wc_event_id := 0\<rparr>) (wh_connections s)"
  have inv: "container_inv (wh_connections s)" "conn_table (container_lookup (wh_connections s)) (wh_ready_connections s)"
    "container_count (wh_connections s) \<le> nat (wp_max_connections p)" using c by (simp_all add: conns_ok_def)
  note m = table.modify [OF inv(1), of cid "\<lambda>c. c\<lparr>wc_event_id := 0\<rparr>"]
  have er: "container_inv (container_erase cid ?conns) \<and> container_lookup (container_erase cid ?conns) = (container_lookup ?conns)(cid := None) \<and>
      container_count (container_erase cid ?conns) \<le> container_count ?conns"
    using m x(1) by (intro table.erase) simp_all
  have f: "in_flight ?s = in_flight s - {e}" and ct: "conns_ok p ?s"
  proof -
    show "in_flight ?s = in_flight s - {e}"
      using m er flights_without [OF inv(2) x(1)] keep_conn(2) [OF inv(2) x(1)] x(2) cl
      by (cases close) (simp_all add: finish_connection_def Let_def in_flight_def)
    show "conns_ok p ?s"
      using m er close_conn [OF inv(2), of cid] keep_conn(1) [OF inv(2) x(1)] x(2) cl inv c
      by (cases close) (simp_all add: finish_connection_def Let_def conns_ok_def)
  qed
  have same: "wh_update_map ?s = wh_update_map s" "wh_queue_updates ?s = wh_queue_updates s" "wh_queues ?s = wh_queues s"
    "wh_unique_queue_id ?s = wh_unique_queue_id s" "wh_frame ?s = wh_frame s" "wh_max_loaded_updates ?s = wh_max_loaded_updates s"
    by (simp_all add: finish_connection_def Let_def wh_frame_def)
  then have "waiting ?s = waiting s" by (simp add: waiting_def)
  then show ?thesis using t ct same f by (simp add: tables_ok_def settled_def no_stuck_def settled_no_stuck_def)
qed

section \<open>Every event keeps the invariant\<close>

text \<open>The clock readings of one call lie between \<open>t\<close> and \<open>t'\<close>.\<close>

definition clock_between :: "real \<Rightarrow> real \<Rightarrow> 's wh_env \<Rightarrow> bool" where
  "clock_between t t' env \<longleftrightarrow> (\<forall>site. t \<le> we_now env site \<and> we_now env site \<le> t')"

lemma clock_le: "clock_between t t' env \<Longrightarrow> t \<le> t'"
  unfolding clock_between_def by (meson order_trans)

lemma wh_inv_parts:
  "wh_inv p t s \<longleftrightarrow> tables_ok s \<and> conns_ok p s \<and> wh_max_loaded_updates s = nat (wp_max_connections p * 2) \<and> floods_ok t s \<and> callback_ok s"
  by (simp add: wh_inv_def floods_ok_def)

lemma wh_inv_frame:
  assumes "wh_inv p t s" "tables_ok s'" "conns_ok p s'" "wh_frame s' = wh_frame s"
  shows "wh_inv p t s'"
  using assms frame_ok [OF assms(4)] by (simp add: wh_inv_parts)

text \<open>Neither loading nor sending removes an update.\<close>

lemma load_update_keeps: "load_update now unow u s = Checked s' \<Longrightarrow> dom (wh_update_map s) \<subseteq> dom (wh_update_map s')"
  by (auto simp: load_update_def Let_def split: if_splits sum.splits)

lemma load_each_keeps: "load_each now unow us s = Checked s' \<Longrightarrow> dom (wh_update_map s) \<subseteq> dom (wh_update_map s')"
proof (induction us arbitrary: s)
  case (Cons u us)
  then show ?case using load_update_keeps [of now unow u s] by (auto split: checked.splits) blast
qed simp

lemma load_updates_keeps: "load_updates p env tq s = Checked (tq', s') \<Longrightarrow> dom (wh_update_map s) \<subseteq> dom (wh_update_map s')"
  using load_each_keeps
  by (fastforce simp: load_updates_def Let_def wh_notify_def wh_send_def split: if_splits checked.splits prod.splits)

lemma send_update_keeps: "send_update p env k s = Checked (ok, s') \<Longrightarrow> dom (wh_update_map s) \<subseteq> dom (wh_update_map s')"
  by (auto simp: send_update_def Let_def wh_send_def relax_wakeup_at_def split: if_splits list.splits option.splits checked.splits sum.splits)

lemma send_loop_keeps: "send_loop p env n k s = Checked s' \<Longrightarrow> dom (wh_update_map s) \<subseteq> dom (wh_update_map s')"
proof (induction n arbitrary: k s)
  case (Suc n)
  then show ?case using send_update_keeps [of p env k s] by (auto split: checked.splits bool.splits) blast+
qed simp

lemma wh_loop_ok:
  assumes p: "params_ok p" and tq: "tq_inv tq" and s: "wh_inv p t s" "\<not> wh_stopped s" and env: "clock_between t t' env"
  shows "\<exists>tq' s'. wh_loop p env tq s = Checked (tq', s') \<and> tq_inv tq' \<and> wh_inv p t' s' \<and> (wh_stopped s' \<longrightarrow> wh_stop_flag s') \<and>
    (url_short p \<longrightarrow> no_stuck s \<longrightarrow> no_stuck s') \<and> dom (wh_update_map s) \<subseteq> dom (wh_update_map s')"
proof -
  let ?s = "s\<lparr>wh_wakeup_at := 0\<rparr>"
  have core0: "wh_core ?s = wh_core s" by (simp add: wh_core_def)
  have s0: "wh_inv p t ?s" "\<not> wh_stopped ?s" "no_stuck ?s = no_stuck s"
    using core_inv [OF core0 _ s(1)] s core_ok [OF core0] by (simp_all add: callback_ok_def wh_inv_def)
  obtain tq1 s1 where s1: "(if \<not> wh_stop_flag ?s then load_updates p env tq ?s else Checked (tq, ?s)) = Checked (tq1, s1)" "tq_inv tq1"
    "tables_ok s1" "wh_net s1 = wh_net ?s" "no_stuck s \<longrightarrow> no_stuck s1"
    using load_updates_ok [OF tq, of ?s p env] s0 tq by (cases "wh_stop_flag ?s") (auto simp: wh_inv_def)
  have i1: "wh_inv p t s1" "\<not> wh_stopped s1"
    using wh_inv_frame [OF s0(1) s1(3)] s0 s1(4) net_ok(1) [OF s1(4)] frame_ok(3) [of s1 ?s] by (simp_all add: wh_inv_parts)
  let ?s2 = "if \<not> wh_stop_flag s1 then resolve_ip_address p env s1 else s1"
  have core2: "wh_core ?s2 = wh_core s1" by (simp add: resolve_ip_address_def) (simp add: wh_core_def wh_send_def)
  have cb2: "callback_ok ?s2 = callback_ok s1"
    by (simp add: resolve_ip_address_def) (simp add: callback_ok_def wh_send_def)
  have i2: "wh_inv p t ?s2" "\<not> wh_stopped ?s2" "no_stuck ?s2 = no_stuck s1"
    using core_inv [OF core2 _ i1(1)] cb2 i1 core_ok [OF core2] core_fields [OF core2] by (simp_all add: wh_inv_def)
  have ts: "t \<le> we_now env AtCreate" "we_now env AtCreate \<le> t'" using env by (simp_all add: clock_between_def)
  obtain s3 where s3: "(if \<not> wh_stop_flag ?s2 then create_new_connections p env ?s2 else Checked ?s2) = Checked s3"
    "connecting p ?s2 s3" "floods_ok t' s3"
  proof (cases "wh_stop_flag ?s2")
    case True
    then show thesis using that [of ?s2] i2(1) connecting_refl [of p ?s2] flood_ok_mono ts
      unfolding wh_inv_parts floods_ok_def by (metis order.trans)
  next
    case False
    obtain s3 where "create_new_connections p env ?s2 = Checked s3" "connecting p ?s2 s3" "floods_ok (we_now env AtCreate) s3"
      using create_new_connections_ok [OF p _ _ i2(2), of t env] i2(1) ts(1) unfolding wh_inv_parts by blast
    then show thesis using that False flood_ok_mono [OF _ ts(2)] unfolding floods_ok_def by simp
  qed
  have i3: "wh_inv p t' s3" "no_stuck s3 = no_stuck ?s2" "\<not> wh_stopped s3"
    using s3(2,3) i2 data_ok [of s3 ?s2] unfolding wh_inv_parts connecting_def by simp_all
  obtain s4 where s4: "(if \<not> wh_stop_flag s3 then send_updates p env s3 else Checked s3) = Checked s4" "tables_ok s4" "conns_ok p s4"
    "wh_frame s4 = wh_frame s3" "url_short p \<longrightarrow> no_stuck s3 \<longrightarrow> no_stuck s4"
    using send_updates_ok [of s3 p env] i3(1) unfolding wh_inv_parts by (cases "wh_stop_flag s3") auto
  have i4: "wh_inv p t' s4" by (rule wh_inv_frame [OF i3(1) s4(2-4)])
  define s5 where "s5 = (if \<not> wh_stop_flag s4 \<and> wh_wakeup_at s4 \<noteq> 0 then s4\<lparr>wh_timeout := Some (wh_wakeup_at s4)\<rparr> else s4)"
  define s6 where "s6 = (if wh_stop_flag s5 then s5\<lparr>wh_stopped := True\<rparr> else s5)"
  have "wh_inv p t' s6" "no_stuck s6 = no_stuck s4"
    using i4 by (simp_all add: s6_def s5_def wh_inv_def tables_ok_def conns_ok_def callback_ok_def waiting_def in_flight_def no_stuck_def)
  moreover have "wh_loop p env tq s = Checked (tq1, s6)"
    unfolding wh_loop_def Let_def s1(1) checked.case prod.case s3(1) s4(1) s6_def s5_def by (rule refl)
  moreover have "wh_stopped s6 \<longrightarrow> wh_stop_flag s6" using i3(3) frame_ok(3) [OF s4(4)] by (simp add: s6_def s5_def)
  moreover have "dom (wh_update_map s) \<subseteq> dom (wh_update_map s6)"
  proof -
    have "dom (wh_update_map s) \<subseteq> dom (wh_update_map s1)" using s1(1) load_updates_keeps [of p env tq ?s tq1 s1] by (cases "wh_stop_flag s") auto
    also have "wh_update_map s1 = wh_update_map s3" using core_fields(1) [OF core2] s3(2) unfolding connecting_def wh_data_def by simp
    also have "dom (wh_update_map s3) \<subseteq> dom (wh_update_map s4)" 
      using s4(1) send_loop_keeps [of p env _ 0 s3 s4] unfolding send_updates_def by (cases "wh_stop_flag s3") (auto simp del: send_loop.simps)
    also have "wh_update_map s4 = wh_update_map s6" by (simp add: s6_def s5_def)
    finally show ?thesis .
  qed
  ultimately show ?thesis using s1(2,5) i2(3) i3(2) s4(5) by auto
qed

lemma wh_loop_stopped: "wh_stop_flag s \<Longrightarrow> wh_loop p env tq s = Checked (tq, s\<lparr>wh_wakeup_at := 0, wh_stopped := True\<rparr>)"
  by (simp add: wh_loop_def)

definition accepted :: "http_query option \<Rightarrow> bool" where
  "accepted response \<longleftrightarrow> (\<exists>r. response = Some r \<and> hq_type r = HttpResponse \<and> 200 \<le> hq_code r \<and> hq_code r \<le> 299)"

lemma response_core:
  assumes "response_result p env c response s = ((close, err, retry, need), s1)"
  shows "wh_core s1 = wh_core s \<and> wh_stop_flag s1 = wh_stop_flag s \<and> wh_callback s1 = wh_callback s \<and>
    (response = None \<longrightarrow> close \<and> err \<noteq> []) \<and> (err = [] \<longrightarrow> accepted response)"
proof (cases response)
  case None
  then show ?thesis using assms by (auto simp: response_result_def)
next
  case (Some r)
  have [simp]: "wh_core (x\<lparr>wh_first_error_410_time := v\<rparr>) = wh_core x" for x v by (simp add: wh_core_def)
  consider "hq_type r \<noteq> HttpResponse" | "hq_type r = HttpResponse" "200 \<le> hq_code r \<and> hq_code r \<le> 299"
    | "hq_type r = HttpResponse" "\<not> (200 \<le> hq_code r \<and> hq_code r \<le> 299)" by blast
  then show ?thesis
  proof cases
    case 2
    have "s1 = (if forbidden_reply (to_lower (get_arg ''method'' r)) then s else wh_notify (WmSendQuery (reply_query p r)) s)\<lparr>wh_first_error_410_time := 0\<rparr>"
      using assms Some 2 by (simp add: response_result_def Let_def)
    then show ?thesis using 2 Some by (simp add: accepted_def)
  next
    case 3
    define v where "v = (if hq_code r \<noteq> 410 then 0 else if wh_first_error_410_time s = 0 then we_now env At410 else wh_first_error_410_time s)"
    have "s1 = on_webhook_error env err (s\<lparr>wh_first_error_410_time := v\<rparr>)" "err \<noteq> []"
      using assms Some 3 unfolding response_result_def Let_def v_def by auto
    then show ?thesis using Some by simp
  qed (use assms Some in \<open>auto simp: response_result_def Let_def\<close>)
qed

lemma wh_handle_ok:
  assumes p: "params_ok p" and tq: "tq_inv tq" and s: "wh_inv p t s" "\<not> wh_stopped s" and env: "clock_between t t' env"
    and rnd: "we_random env 60 120 \<le> 120" and en: "\<And>r c. response = Some r \<Longrightarrow> container_lookup (wh_connections s) cid = Some c \<Longrightarrow> wc_event_id c \<noteq> 0"
  shows "\<exists>tq' s'. wh_handle p env cid response tq s = Checked (tq', s') \<and> tq_inv tq' \<and> wh_inv p t' s' \<and> (wh_stopped s' \<longrightarrow> wh_stop_flag s') \<and>
    (url_short p \<longrightarrow> no_stuck s \<longrightarrow> no_stuck s') \<and>
    dom (wh_update_map s) - {e. \<exists>x. container_lookup (wh_connections s) cid = Some x \<and> wc_event_id x = e} \<inter> finished env (accepted response) s
      \<subseteq> dom (wh_update_map s')"
proof (cases "container_lookup (wh_connections s) cid")
  case None
  then show ?thesis using tq s wh_inv_mono [OF s(1) clock_le [OF env]] by (simp add: wh_handle_def)
next
  case (Some c)
  obtain close err retry need s1 where r: "response_result p env c response s = ((close, err, retry, need), s1)" by (metis surj_pair)
  note rc = response_core [OF r]
  have s1: "wh_inv p t s1" "\<not> wh_stopped s1" "no_stuck s1 = no_stuck s" "wh_connections s1 = wh_connections s"
    "wh_update_map s1 = wh_update_map s"
    using core_inv [of s1 s p t] s rc core_ok(3) [of s1 s] core_fields(1,5,12) [of s1 s] by (auto simp: callback_ok_def wh_inv_def)
  let ?e = "wc_event_id c"
  have fl: "?e \<in> in_flight s1" if "?e \<noteq> 0" using that Some s1(4) unfolding in_flight_def flights_def by (metis (mono_tags, lifting) mem_Collect_eq)
  have t1: "tables_ok s1" "conns_ok p s1" using s1(1) by (simp_all add: wh_inv_def)
  obtain tq2 s2 where s2: "(if ?e \<noteq> 0 then (if err = [] then on_update_ok p env ?e tq s1 else on_update_error p env ?e retry tq s1)
      else if err = [] then CheckFailed else Checked (tq, s1)) = Checked (tq2, s2)"
    "tq_inv tq2" "settled ?e s2" "wh_net s2 = wh_net s1" "no_stuck s1 \<longrightarrow> settled_no_stuck ?e s2"
    "dom (wh_update_map s) - {?e} \<inter> finished env (accepted response) s \<subseteq> dom (wh_update_map s2)"
  proof (cases "?e = 0")
    case True
    then have "err \<noteq> []" using rc en Some by blast
    then show thesis using that [of tq s1] True tq t1(1) settled_zero [of s1] s1(5) by auto
  next
    case False
    have fs: "finished env False s1 \<subseteq> finished env (accepted response) s" "accepted response \<Longrightarrow> e \<in> dom (wh_update_map s) \<Longrightarrow> e \<in> finished env (accepted response) s" for e
      using s1(5) by (auto simp: finished_def)
    show thesis
    proof (cases "err = []")
      case True
      obtain tq2 s2 where r2: "on_update_ok p env ?e tq s1 = Checked (tq2, s2)" "tq_inv tq2" "settled ?e s2" "wh_net s2 = wh_net s1"
        "no_stuck s1 \<longrightarrow> settled_no_stuck ?e s2" "wh_update_map s2 = (wh_update_map s1)(?e := None)"
        using on_update_ok_ok [OF tq t1(1) fl [OF False], of p env] by blast
      have "accepted response" using rc True by blast
      then have "dom (wh_update_map s) - {?e} \<inter> finished env (accepted response) s \<subseteq> dom (wh_update_map s2)" using r2(6) fs(2) s1(5) by auto
      then show thesis using that r2 True False by simp
    next
      case err: False
      obtain tq2 s2 where r2: "on_update_error p env ?e retry tq s1 = Checked (tq2, s2)" "tq_inv tq2" "settled ?e s2" "wh_net s2 = wh_net s1"
        "no_stuck s1 \<longrightarrow> settled_no_stuck ?e s2" "dom (wh_update_map s1) - {?e} \<inter> finished env False s1 \<subseteq> dom (wh_update_map s2)"
        using on_update_error_ok [OF tq t1(1) fl [OF False] rnd, of p retry] by blast
      then show thesis using that [OF _ r2(2-5)] err False fs(1) s1(5) by auto
    qed
  qed
  have c2: "conns_ok p s2" "container_lookup (wh_connections s2) cid = Some c"
    using net_ok(1) [OF s2(4)] t1(2) s2(4) s1(4) Some by simp_all
  have cl: "(need \<or> close) \<or> ?e \<noteq> 0" using rc en Some by (cases response) blast+
  define s3 where "s3 = finish_connection cid (need \<or> close) s2"
  have f3: "tables_ok s3" "conns_ok p s3" "wh_frame s3 = wh_frame s2" "settled_no_stuck ?e s2 \<longrightarrow> no_stuck s3"
    using finish_connection_ok [OF s2(3) c2 refl cl] by (simp_all add: s3_def)
  have s3: "wh_inv p t s3" "\<not> wh_stopped s3"
    using wh_inv_frame [OF s1(1) f3(1,2)] f3(3) s2(4) frame_ok(3) [of s3 s1] s1(2) by simp_all
  have m3: "wh_update_map s3 = wh_update_map s2" by (simp add: s3_def finish_connection_def Let_def)
  have D: "{e. \<exists>x. container_lookup (wh_connections s) cid = Some x \<and> wc_event_id x = e} = {?e}" using Some by auto
  have eq: "wh_handle p env cid response tq s = (if need then Checked (tq2, wh_send [WmCloseLater] s3) else wh_loop p env tq2 s3)"
    using Some r s2(1) unfolding wh_handle_def Let_def by (simp add: s3_def)
  show ?thesis
  proof (cases need)
    case True
    have "callback_ok (wh_send [WmCloseLater] s3)" using s3(1) by (simp add: callback_ok_def wh_inv_def)
    then have "wh_inv p t (wh_send [WmCloseLater] s3)" using core_inv [OF _ _ s3(1)] by simp
    then show ?thesis
      using eq True s2(2,5,6) m3 D s3(2) f3(4) s1(3) wh_inv_mono [OF _ clock_le [OF env]] core_ok(3) [of "wh_send [WmCloseLater] s3" s3] core_fields(1) [of "wh_send [WmCloseLater] s3" s3] by simp
  next
    case False
    then show ?thesis using wh_loop_ok [OF p s2(2) s3 env] eq s2(5,6) m3 f3(4) s1(3) unfolding D by auto
  qed
qed

text \<open>
  What a call may rely on: the clock, that \<^verbatim>\<open>Random::fast\<close> stays in its range and that \<^verbatim>\<open>inet_pton\<close> of the operating
  system parses dotted quads.
\<close>

definition call_ok :: "real \<Rightarrow> real \<Rightarrow> 's wh_env \<Rightarrow> bool" where
  "call_ok t t' env \<longleftrightarrow> clock_between t t' env \<and> parses_quads (we_inet env) \<and>
     (\<forall>a b. a \<le> b \<longrightarrow> a \<le> we_random env a b \<and> we_random env a b \<le> b)"

lemma check_ip_address_ok: "parses_quads (we_inet env) \<Longrightarrow> \<exists>r. check_ip_address p env a = Checked r"
  by (cases a) (auto simp: check_ip_address_def is_valid_def is_ipv4_def is_reserved_ipv4)

text \<open>The outcome of an event that may remove the updates in \<open>D\<close>.\<close>

definition good_outcome :: "wh_params \<Rightarrow> real \<Rightarrow> int set \<Rightarrow> webhook \<Rightarrow> ('s tqueue \<times> webhook) checked \<Rightarrow> bool" where
  "good_outcome p t D s r \<longleftrightarrow>
     (\<exists>tq' s'. r = Checked (tq', s') \<and> tq_inv tq' \<and> wh_inv p t s' \<and> (url_short p \<longrightarrow> no_stuck s \<longrightarrow> no_stuck s') \<and>
        dom (wh_update_map s) - D \<subseteq> dom (wh_update_map s'))"

lemma good_weaken:
  "\<exists>tq' s'. r = Checked (tq', s') \<and> tq_inv tq' \<and> wh_inv p t s' \<and> (wh_stopped s' \<longrightarrow> wh_stop_flag s') \<and> (url_short p \<longrightarrow> no_stuck s \<longrightarrow> no_stuck s') \<and>
     dom (wh_update_map s) - D \<subseteq> dom (wh_update_map s') \<Longrightarrow>
   t \<le> t' \<Longrightarrow> good_outcome p t' D s r"
  unfolding good_outcome_def using wh_inv_mono by blast

text \<open>Outside of the tables also the address and the SSL context may change.\<close>

lemma loop_outcome:
  assumes "params_ok p" "tq_inv tq" "wh_inv p t s" "\<not> wh_stopped s" "clock_between t t' env" "t' \<le> t''" "callback_ok s1"
    and "wh_core (s1\<lparr>wh_ip_address := wh_ip_address s, wh_ssl_ctx := wh_ssl_ctx s\<rparr>) = wh_core s"
  shows "good_outcome p t'' {} s (wh_loop p env tq s1)"
proof -
  let ?s = "s1\<lparr>wh_ip_address := wh_ip_address s, wh_ssl_ctx := wh_ssl_ctx s\<rparr>"
  have i: "wh_inv p t ?s" by (rule core_inv [OF assms(8) _ assms(3)]) (use assms(7) in \<open>simp add: callback_ok_def\<close>)
  have "wh_inv p t s1" using i by (simp add: wh_inv_def tables_ok_def conns_ok_def callback_ok_def waiting_def in_flight_def)
  moreover have "\<not> wh_stopped s1" using core_fields(12) [OF assms(8)] assms(4) by simp
  moreover have "no_stuck s1 = no_stuck s" using core_ok(3) [OF assms(8)] by (simp add: no_stuck_def waiting_def in_flight_def)
  moreover have "wh_update_map s1 = wh_update_map s" using core_fields(1) [OF assms(8)] by simp
  ultimately show ?thesis using wh_loop_ok [OF assms(1,2) _ _ assms(5), of s1] assms(6) by (intro good_weaken) auto
qed

lemma core_keep: "wh_core s1 = wh_core s \<Longrightarrow> wh_core (s1\<lparr>wh_ip_address := wh_ip_address s, wh_ssl_ctx := wh_ssl_ctx s\<rparr>) = wh_core s"
  by (simp add: wh_core_def)

lemma resolved_outcome:
  assumes p: "params_ok p" and tq: "tq_inv tq" and s: "wh_inv p t s" "\<not> wh_stopped s" and env: "call_ok t t' env" "t' \<le> t''"
    and r: "wh_is_ip_address_being_resolved s"
  shows "good_outcome p t'' {} s (on_resolved_ip_address p env a tq s)"
proof -
  have clk: "clock_between t t' env" "parses_quads (we_inet env)" using env by (simp_all add: call_ok_def)
  define nx where "nx = we_now env AtResolved + real_of_int (IP_ADDRESS_CACHE_TIME + we_random env 0 (IP_ADDRESS_CACHE_TIME div 10))"
  define s1 where "s1 = relax_wakeup_at nx (s\<lparr>wh_is_ip_address_being_resolved := False, wh_next_ip_address_resolve_time := nx\<rparr>)"
  have s1: "wh_core s1 = wh_core s" "callback_ok s1" using s(1) by (simp_all add: s1_def callback_ok_def wh_inv_def) (simp add: wh_core_def)
  have st: "\<not> wh_stopped s1" using core_fields(12) [OF s1(1)] s(2) by simp
  have err: "good_outcome p t'' {} s (case wh_on_error e s1 of CheckFailed \<Rightarrow> CheckFailed | Checked s3 \<Rightarrow> wh_loop p env tq s3)" for e
  proof -
    obtain s3 where "wh_on_error e s1 = Checked s3" "wh_core s3 = wh_core s1" "callback_ok s3" using on_error_ok [OF s1(2) st] .
    then show ?thesis using loop_outcome [OF p tq s clk(1) env(2)] core_keep [of s3 s] s1(1) by simp
  qed
  have eq: "on_resolved_ip_address p env a tq s = (case (case a of Inl e \<Rightarrow> wh_on_error e s1
       | Inr addr \<Rightarrow> (case check_ip_address p env addr of CheckFailed \<Rightarrow> CheckFailed | Checked (Inl e) \<Rightarrow> wh_on_error e s1
          | Checked (Inr _) \<Rightarrow> (if wh_ip_address s1 \<noteq> addr
             then (let s2 = s1\<lparr>wh_ip_address := addr, wh_ip_generation := wh_ip_generation s1 + 1\<rparr>
                   in Checked (if wh_was_checked s2 then on_webhook_verified env s2 else s2)) else Checked s1)))
     of CheckFailed \<Rightarrow> CheckFailed | Checked s3 \<Rightarrow> wh_loop p env tq s3)"
    unfolding on_resolved_ip_address_def Let_def s1_def nx_def by (simp only: r not_True_eq_False if_False)
  show ?thesis
  proof (cases a)
    case (Inl e)
    then show ?thesis using eq err by simp
  next
    case (Inr addr)
    obtain r where c: "check_ip_address p env addr = Checked r" using check_ip_address_ok [OF clk(2)] by blast
    show ?thesis
    proof (cases r)
      case (Inl e)
      then show ?thesis using eq err Inr c by simp
    next
      case r: (Inr x)
      let ?s2 = "s1\<lparr>wh_ip_address := addr, wh_ip_generation := wh_ip_generation s1 + 1\<rparr>"
      define s3 where "s3 = (if wh_ip_address s1 \<noteq> addr then (if wh_was_checked ?s2 then on_webhook_verified env ?s2 else ?s2) else s1)"
      have "callback_ok s3" using s1(2) by (simp add: s3_def callback_ok_def)
      moreover have "wh_core (s3\<lparr>wh_ip_address := wh_ip_address s, wh_ssl_ctx := wh_ssl_ctx s\<rparr>) = wh_core s"
        using s1(1) by (simp add: s3_def wh_core_def on_webhook_verified_def wh_notify_def wh_send_def)
      moreover have "on_resolved_ip_address p env a tq s = wh_loop p env tq s3"
        by (subst eq) (simp add: Inr c r s3_def Let_def)
      ultimately show ?thesis using loop_outcome [OF p tq s clk(1) env(2)] by simp
    qed
  qed
qed

lemma ssl_context_outcome:
  assumes p: "params_ok p" and tq: "tq_inv tq" and s: "wh_inv p t s" "\<not> wh_stopped s" and env: "clock_between t t' env" "t' \<le> t''"
  shows "good_outcome p t'' {} s (on_ssl_context_created p env r tq s)"
proof (cases r)
  case None
  have "good_outcome p t'' {} s (wh_loop p env tq (s\<lparr>wh_ssl_ctx := True\<rparr>))"
    by (rule loop_outcome [OF p tq s env]) (use s(1) in \<open>simp_all add: callback_ok_def wh_inv_def wh_core_def\<close>)
  then show ?thesis using None by (simp add: on_ssl_context_created_def)
next
  case (Some e)
  have "callback_ok s" using s(1) by (simp add: wh_inv_def)
  then obtain s1 where "create_webhook_error env (''Can'' @ [CHR 0x27] @ ''t create an SSL context'') e True s = Checked s1"
    "wh_core s1 = wh_core s" "callback_ok s1" using webhook_error_ok s(2) by blast
  then show ?thesis using Some loop_outcome [OF p tq s env, of s1] core_keep [of s1 s] by (simp add: on_ssl_context_created_def)
qed

lemma socket_outcome:
  assumes p: "params_ok p" and tq: "tq_inv tq" and s: "wh_inv p t s" "\<not> wh_stopped s" and env: "clock_between t t' env" "t' \<le> t''"
    and r: "container_lookup (wh_pending_sockets s) cid \<noteq> None"
  shows "good_outcome p t'' {} s (on_socket_ready_async p env a cid tq s)"
proof -
  let ?s1 = "s\<lparr>wh_pending_sockets := container_erase cid (wh_pending_sockets s)\<rparr>"
  have "container_inv (wh_pending_sockets s)" using s(1) by (simp add: wh_inv_def conns_ok_def)
  then have s1: "wh_inv p t ?s1" "\<not> wh_stopped ?s1" "no_stuck ?s1 = no_stuck s"
    using table.erase [OF _ r] s by (simp_all add: wh_inv_def tables_ok_def conns_ok_def callback_ok_def waiting_def in_flight_def no_stuck_def)
  have after: "good_outcome p t'' {} s (wh_loop p env tq s2)" if "wh_core s2 = wh_core ?s1" "callback_ok s2" for s2
    using loop_outcome [OF p tq s1(1,2) env that(2)] core_keep [OF that(1)] s1(3) by (simp add: good_outcome_def)
  show ?thesis
  proof (cases a)
    case None
    then show ?thesis using after [of "?s1\<lparr>wh_ready_sockets := wh_ready_sockets ?s1 + 1\<rparr>"] s1(1)
      by (simp add: on_socket_ready_async_def Let_def wh_core_def callback_ok_def wh_inv_def)
  next
    case (Some e)
    let ?s2 = "on_webhook_error env (status_message e) ?s1"
    have c: "callback_ok ?s2" "\<not> wh_stopped ?s2" using s1 by (simp_all add: wh_inv_def callback_ok_def)
    obtain s3 where s3: "wh_on_error e ?s2 = Checked s3" "wh_core s3 = wh_core ?s2" "callback_ok s3" using on_error_ok [OF c] .
    have "wh_core s3 = wh_core ?s1" using s3(2) core_simps(5) [of env "status_message e" ?s1] by metis
    from after [OF this s3(3)] show ?thesis using Some s3(1) by (simp add: on_socket_ready_async_def Let_def)
  qed
qed

text \<open>What an event may remove: the update on the connection that the event is about, if it is accepted or expires.\<close>

definition event_response :: "wh_event \<Rightarrow> (container_id \<times> http_query option) option" where
  "event_response ev = (case ev of WeResponse cid r \<Rightarrow> Some (cid, Some r) | WeHangupShared cid \<Rightarrow> Some (cid, None) | _ \<Rightarrow> None)"

definition finishing :: "'s wh_env \<Rightarrow> wh_event \<Rightarrow> webhook \<Rightarrow> int set" where
  "finishing env ev s =
     (case event_response ev of None \<Rightarrow> {}
      | Some (cid, r) \<Rightarrow>
          {e. \<exists>x. container_lookup (wh_connections s) cid = Some x \<and> wc_event_id x = e} \<inter> finished env (accepted r) s)"

lemma finishing_simps [simp]:
  "finishing env (WeResponse cid r) s =
     {e. \<exists>x. container_lookup (wh_connections s) cid = Some x \<and> wc_event_id x = e} \<inter> finished env (accepted (Some r)) s"
  "finishing env (WeHangupShared cid) s =
     {e. \<exists>x. container_lookup (wh_connections s) cid = Some x \<and> wc_event_id x = e} \<inter> finished env False s"
  "finishing env WeLoop s = {}" "finishing env WeUpdate s = {}" "finishing env (WeResolved a) s = {}" "finishing env (WeSslContext b) s = {}"
  "finishing env (WeSocket b cid) s = {}" "finishing env (WeConnectionError e) s = {}" "finishing env WeClose s = {}" "finishing env WeHangup s = {}"
  by (simp_all add: finishing_def event_response_def accepted_def)

lemma hangup_shared_outcome:
  assumes p: "params_ok p" and tq: "tq_inv tq" and s: "wh_inv p t s" "\<not> wh_stopped s"
    and env: "clock_between t t' env" "clock_between t' t'' env'" and rnd: "we_random env 60 120 \<le> 120"
  shows "good_outcome p t'' (finishing env (WeHangupShared cid) s) s (wh_hangup_shared p env env' cid tq s)"
proof -
  obtain tq1 s1 where s1: "wh_handle p env cid None tq s = Checked (tq1, s1)" "tq_inv tq1" "wh_inv p t' s1" "wh_stopped s1 \<longrightarrow> wh_stop_flag s1"
    "url_short p \<longrightarrow> no_stuck s \<longrightarrow> no_stuck s1"
    "dom (wh_update_map s) - finishing env (WeHangupShared cid) s \<subseteq> dom (wh_update_map s1)"
    using wh_handle_ok [OF p tq s env(1) rnd, of None cid] by (auto simp: accepted_def)
  show ?thesis
  proof (cases "wh_stop_flag s1")
    case True
    let ?s = "s1\<lparr>wh_wakeup_at := 0, wh_stopped := True\<rparr>"
    have "wh_inv p t' ?s" "no_stuck ?s = no_stuck s1" "wh_update_map ?s = wh_update_map s1"
      using s1(3) by (simp_all add: wh_inv_def tables_ok_def conns_ok_def callback_ok_def waiting_def in_flight_def no_stuck_def)
    moreover have "wh_hangup_shared p env env' cid tq s = Checked (tq1, ?s)"
      using s1(1) wh_loop_stopped [OF True] by (simp add: wh_hangup_shared_def)
    ultimately show ?thesis using s1(2,5,6) wh_inv_mono [OF _ clock_le [OF env(2)]] unfolding good_outcome_def by metis
  next
    case False
    from wh_loop_ok [OF p s1(2,3) _ env(2)] s1(4) False
    have "\<exists>tq' s'. wh_loop p env' tq1 s1 = Checked (tq', s') \<and> tq_inv tq' \<and> wh_inv p t'' s' \<and> (url_short p \<longrightarrow> no_stuck s1 \<longrightarrow> no_stuck s') \<and>
      dom (wh_update_map s1) \<subseteq> dom (wh_update_map s')" by blast
    then show ?thesis using s1(1,5,6) unfolding good_outcome_def wh_hangup_shared_def by auto
  qed
qed

lemma wh_event_outcome:
  assumes p: "params_ok p" and tq: "tq_inv tq" and s: "wh_inv p t s" "\<not> wh_stopped s" "wh_enabled ev s"
    and env: "call_ok t t' env" "call_ok t' t'' env'"
  shows "good_outcome p t'' (finishing env ev s) s (wh_event_step p env env' ev tq s)"
proof -
  have clk: "clock_between t t' env" "clock_between t' t'' env'" "t' \<le> t''" "t \<le> t''"
    using env clock_le [of t t' env] clock_le [of t' t'' env'] by (auto simp: call_ok_def)
  have rnd: "we_random env 60 120 \<le> 120" using env(1) by (simp add: call_ok_def)
  have quiet: "good_outcome p t'' {} s (Checked (tq, s'))" if "wh_core s' = wh_core s \<or> wh_core s' = wh_core (s\<lparr>wh_stopped := True\<rparr>)" "callback_ok s'" for s'
  proof -
    have "wh_inv p t (s\<lparr>wh_stopped := True\<rparr>)" "no_stuck (s\<lparr>wh_stopped := True\<rparr>) = no_stuck s"
      using s(1) by (simp_all add: wh_inv_def tables_ok_def conns_ok_def callback_ok_def waiting_def in_flight_def no_stuck_def)
    then have "wh_inv p t s'" "no_stuck s' = no_stuck s" "wh_update_map s' = wh_update_map s"
      using that core_inv [of s' s p t] core_inv [of s' "s\<lparr>wh_stopped := True\<rparr>" p t] s(1) core_ok(3) [of s' s] core_ok(3) [of s' "s\<lparr>wh_stopped := True\<rparr>"]
        core_fields(1) [of s' s] core_fields(1) [of s' "s\<lparr>wh_stopped := True\<rparr>"] by auto
    then show ?thesis using tq wh_inv_mono [OF _ clk(4)] by (simp add: good_outcome_def)
  qed
  show ?thesis
  proof (cases ev)
    case WeUpdate
    then show ?thesis using s loop_outcome [OF p tq s(1,2) clk(1,3), of "s\<lparr>wh_tqueue_empty := False\<rparr>"]
      by (simp add: wh_update_arrived_def callback_ok_def wh_inv_def wh_core_def)
  next
    case WeLoop
    then show ?thesis using loop_outcome [OF p tq s(1,2) clk(1,3), of s] s(1) by (simp add: wh_inv_def)
  next
    case (WeResolved a)
    then show ?thesis using resolved_outcome [OF p tq s(1,2) env(1) clk(3)] s(3) by simp
  next
    case (WeSslContext r)
    then show ?thesis using ssl_context_outcome [OF p tq s(1,2) clk(1,3)] by simp
  next
    case (WeSocket r cid)
    then show ?thesis using socket_outcome [OF p tq s(1,2) clk(1,3), of cid r] s(3) by simp
  next
    case (WeResponse cid r)
    then have "wc_event_id c \<noteq> 0" if "container_lookup (wh_connections s) cid = Some c" for c using s(3) that by simp
    then have "good_outcome p t'' (finishing env ev s) s (wh_handle p env cid (Some r) tq s)"
      using wh_handle_ok [OF p tq s(1,2) clk(1) rnd, of "Some r" cid] WeResponse by (intro good_weaken [OF _ clk(3)]) simp
    then show ?thesis using WeResponse by simp
  next
    case (WeHangupShared cid)
    then show ?thesis using hangup_shared_outcome [OF p tq s(1,2) clk(1,2) rnd] by simp
  next
    case (WeConnectionError e)
    then show ?thesis using quiet [of "on_connection_error env e s"] s(1) by (simp add: on_connection_error_def callback_ok_def wh_inv_def)
  next
    case WeClose
    then show ?thesis using quiet [of "wh_close s"] by (simp add: wh_close_def callback_ok_def wh_notify_def wh_send_def wh_core_def)
  next
    case WeHangup
    then show ?thesis using quiet [of "wh_hangup s"] by (simp add: wh_hangup_def callback_ok_def wh_core_def)
  qed
qed

section \<open>The start\<close>

lemma delivery_empty: "delivery Map.empty Map.empty {} {}"
  by (simp add: delivery_def)

lemma cached_address_ok: "\<exists>a. cached_address p inet_addr os c = Checked a"
proof (cases "get_ip_address inet_addr os c")
  case (Inr a)
  then have "a \<noteq> Invalid"
    by (auto simp: get_ip_address_def get_ipv4_address_def get_ipv6_address_def init_ipv4_port_def init_ipv6_port_def Let_def
        split: option.splits if_splits sum.splits)
  then show ?thesis using Inr by (cases a) (simp_all add: cached_address_def set_port_def)
qed (simp add: cached_address_def)

lemma new_webhook_ok: "0 < wp_max_connections p \<Longrightarrow> \<exists>s. new_webhook p inet_addr os c = Checked s"
  using cached_address_ok [of p inet_addr os c] by (auto simp: new_webhook_def)

lemma new_tables [simp]:
  "container_inv new_container" "container_count new_container = 0" "container_lookup new_container = Map.empty"
  "flights Map.empty = {}" "conn_table Map.empty []" "flood_ok t (add_limit d n new_flood_control)"
  by (auto simp: container_inv_def new_container_def container_count_def lookup_slot flights_def conn_table_def
      flood_ok_def add_limit_def new_flood_control_def new_bucket_def)

lemma start_state_ok:
  assumes "new_webhook p inet_addr os c = Checked s" "params_ok p"
  shows "wh_inv p t (start_state p env s)" "no_stuck (start_state p env s)" "\<not> wh_stopped (start_state p env s)" "wh_callback (start_state p env s)"
proof -
  obtain a where s: "s = \<lparr>wh_callback = True, wh_tqueue_empty = False, wh_last_pending_update_count = WH_MIN_PENDING_UPDATES_WARNING,
        wh_last_error_time = 0, wh_last_error_message = ''<none>'', wh_stop_flag = False, wh_was_checked = False,
        wh_tqueue_offset = 0, wh_max_loaded_updates = 0, wh_update_map = Map.empty, wh_queue_updates = [],
        wh_queues = [], wh_unique_queue_id = 2 ^ 60, wh_first_error_410_time = 0, wh_ssl_ctx = False,
        wh_ip_address = a, wh_ip_generation = 0, wh_next_ip_address_resolve_time = 0,
        wh_is_ip_address_being_resolved = False, wh_pending_sockets = new_container, wh_ready_sockets = 0,
        wh_connections = new_container, wh_ready_connections = [],
        wh_active_new_connection_flood = new_flood_control, wh_pending_new_connection_flood = new_flood_control,
        wh_last_success_time = 0, wh_wakeup_at = 0, wh_last_update_was_successful = True, wh_timeout = None,
        wh_stopped = False, wh_log = []\<rparr>"
    using assms(1) by (auto simp: new_webhook_def split: if_splits checked.splits)
  show "wh_inv p t (start_state p env s)" "no_stuck (start_state p env s)" "\<not> wh_stopped (start_state p env s)" "wh_callback (start_state p env s)"
    using delivery_empty assms(2)
    by (simp_all add: s start_state_def Let_def wh_inv_def tables_ok_def conns_ok_def callback_ok_def waiting_def in_flight_def no_stuck_def
        nothing_stuck_def params_ok_def)
qed

lemma check_protocol_ok:
  assumes "callback_ok s" "\<not> wh_stopped s"
  obtains s' where "check_protocol p s = Checked s'" "wh_core s' = wh_core s" "callback_ok s'"
proof -
  have "check_protocol p s = Checked s \<or> (\<exists>e. check_protocol p s = wh_on_error e s)"
    by (auto simp: check_protocol_def split: protocol.splits)
  then show thesis using that [of s] that on_error_ok [OF assms] assms(1) by metis
qed

lemma wh_start_up_ok:
  assumes "new_webhook p inet_addr os c = Checked s0" "params_ok p" "parses_quads (we_inet env)"
  shows "\<exists>s. wh_start_up p env s0 = Checked s \<and> wh_inv p t s \<and> no_stuck s"
proof -
  note st = start_state_ok [OF assms(1,2)]
  have cb: "callback_ok (start_state p env s0)" using st(1) [of t env] by (simp add: wh_inv_def)
  obtain s1 where s1: "check_protocol p (start_state p env s0) = Checked s1" "wh_core s1 = wh_core (start_state p env s0)" "callback_ok s1"
    using check_protocol_ok [OF cb st(3)] .
  have st1: "\<not> wh_stopped s1" using core_fields(12) [OF s1(2)] st(3) by simp
  have fin: "wh_inv p t s \<and> no_stuck s" if "wh_core s = wh_core s1" "callback_ok s" for s
    using that s1(2) core_inv [of s "start_state p env s0"] st(1) [of t env] st(2) [of env] core_ok(3) [of s "start_state p env s0"] by simp
  obtain r where r: "(if wp_fix_ip_address p \<and> \<not> wh_stop_flag s1 then check_ip_address p env (wh_ip_address s1) else Checked (Ok ())) = Checked r"
    using check_ip_address_ok [OF assms(3)] by (cases "wp_fix_ip_address p \<and> \<not> wh_stop_flag s1") auto
  show ?thesis
  proof (cases r)
    case (Inl e)
    obtain s2 where "wh_on_error e s1 = Checked s2" "wh_core s2 = wh_core s1" "callback_ok s2" using on_error_ok [OF s1(3) st1] .
    then show ?thesis using fin s1(1) r Inl by (simp add: wh_start_up_def)
  next
    case (Inr x)
    define s2 where "s2 = (if wp_from_db_flag p \<and> \<not> wh_stop_flag s1 then on_webhook_verified env (s1\<lparr>wh_was_checked := True\<rparr>) else s1)"
    define s3 where "s3 = (if hu_protocol (wp_url p) \<noteq> Http \<and> \<not> wh_stop_flag s2 then wh_send [WmCreateSslContext (wp_cert_path p)] s2 else s2)"
    have "wh_core s3 = wh_core s1" "callback_ok s3" using s1(3) by (simp_all add: s3_def s2_def callback_ok_def) (simp add: wh_core_def)
    moreover have "wh_start_up p env s0 = Checked s3" using s1(1) r Inr by (simp add: wh_start_up_def s2_def s3_def)
    ultimately show ?thesis using fin by blast
  qed
qed

section \<open>Reachable states\<close>

text \<open>
  The states of a webhook: it is created and started, handles events while it is not stopped, and other actors work on
  the \<^verbatim>\<open>TQueue\<close> between the events.
\<close>

inductive wh_reach :: "wh_params \<Rightarrow> real \<Rightarrow> 's tqueue \<Rightarrow> webhook \<Rightarrow> bool" for p where
  wh_begin: "new_webhook p inet_addr os c = Checked s0 \<Longrightarrow> call_ok t t' (env :: 's wh_env) \<Longrightarrow> wh_start_up p env s0 = Checked s \<Longrightarrow> tq_inv tq \<Longrightarrow> wh_reach p t' tq s"
| wh_event: "wh_reach p t tq s \<Longrightarrow> \<not> wh_stopped s \<Longrightarrow> wh_enabled ev s \<Longrightarrow> call_ok t t' env \<Longrightarrow> call_ok t' t'' env' \<Longrightarrow>
    wh_event_step p env env' ev tq s = Checked (tq', s') \<Longrightarrow> wh_reach p t'' tq' s'"
| wh_other: "wh_reach p t tq s \<Longrightarrow> tq_step ops tq tq' \<Longrightarrow> wh_reach p t tq' s"

lemma wh_reach_inv:
  assumes "wh_reach p t tq s" "params_ok p"
  shows "tq_inv tq \<and> wh_inv p t s \<and> (url_short p \<longrightarrow> no_stuck s)"
  using assms
proof (induction rule: wh_reach.induct)
  case (wh_begin inet_addr os c s0 t t' env s tq)
  then show ?case using wh_start_up_ok [OF wh_begin(1,5), of env t'] by (auto simp: call_ok_def)
next
  case (wh_event t tq s ev t' env t'' env' tq' s')
  then show ?case using wh_event_outcome [of p tq t s ev t' env t'' env'] by (auto simp: good_outcome_def)
next
  case (wh_other t tq s ops tq')
  then show ?case using tq_step_inv by blast
qed

end
