(* ===== verification/WebhookProps.thy ===== *)
theory WebhookProps
  imports WebhookEvents
begin

text \<open>
  Correctness of the webhook delivery over all reachable states: it never aborts, it delivers the updates of a chat in
  order, it keeps its limits, no update gets stuck and none is given up without reason.  At the end, what happens with a URL that
  is too long.
\<close>

section \<open>A webhook in use\<close>

text \<open>A webhook for the queue of \<open>demo_tq\<close>, its start and its first loop.\<close>

definition hook_params :: wh_params where
  "hook_params = new_wh_params (\<lambda>h. Ok h) 7 \<lparr>hu_protocol = Http, hu_userinfo = ''u:p'', hu_host = ''h'', hu_is_ipv6 = False,
     hu_specified_port = 80, hu_port = 80, hu_query = ''/hook''\<rparr> [] 2 False True ''secret'' True False"

definition hook_env :: "mem_storage wh_env" where
  "hook_env = \<lparr>we_ops = mem_ops, we_inet = quad_inet, we_now = (\<lambda>_. 100), we_unix_time = (\<lambda>_. 5), we_random = (\<lambda>a b. a),
     we_open = (\<lambda>_. None), we_ssl = (\<lambda>_. None), we_print_query = (\<lambda>_. [])\<rparr>"

definition hook_start :: "webhook checked" where
  "hook_start = (case new_webhook hook_params (\<lambda>_. Some 0) quad_inet ''0.0.0.0'' of CheckFailed \<Rightarrow> CheckFailed
     | Checked s \<Rightarrow> wh_start_up hook_params hook_env s)"

definition hook_loop :: "(mem_storage tqueue \<times> webhook) checked" where
  "hook_loop = (case hook_start of CheckFailed \<Rightarrow> CheckFailed
     | Checked s \<Rightarrow> wh_event_step hook_params hook_env hook_env WeLoop demo_tq s)"

lemma hook_call: "call_ok 100 100 hook_env"
  by (simp add: call_ok_def clock_between_def hook_env_def quad_inet_parses)

lemma hook_params_ok: "params_ok hook_params" "url_short hook_params"
  by code_simp+

lemma hook_loop_sent:
  "case hook_loop of CheckFailed \<Rightarrow> False
   | Checked (tq, s) \<Rightarrow> container_lookup (wh_connections s) (0, 256) = Some \<lparr>wc_event_id = 5, wc_ip_generation = 0\<rparr> \<and> \<not> wh_stopped s"
  by code_simp

lemma hook_states:
  obtains s0 s1 tq where "hook_start = Checked s0" "wh_event_step hook_params hook_env hook_env WeLoop demo_tq s0 = Checked (tq, s1)"
    "container_lookup (wh_connections s1) (0, 256) = Some \<lparr>wc_event_id = 5, wc_ip_generation = 0\<rparr>" "\<not> wh_stopped s1"
    "wh_reach hook_params 100 demo_tq s0" "\<not> wh_stopped s0" "wh_reach hook_params 100 tq s1"
    "hook_loop = Checked (tq, s1)"
proof -
  obtain s tq s1 where h: "hook_start = Checked s" "wh_event_step hook_params hook_env hook_env WeLoop demo_tq s = Checked (tq, s1)"
    using hook_loop_sent by (auto simp: hook_loop_def split: checked.splits)
  have l: "hook_loop = Checked (tq, s1)" unfolding hook_loop_def h(1) checked.case by (rule h(2))
  obtain n where n: "new_webhook hook_params (\<lambda>_. Some 0) quad_inet ''0.0.0.0'' = Checked n" "wh_start_up hook_params hook_env n = Checked s"
    using h(1) by (auto simp: hook_start_def split: checked.splits)
  have "tq_inv demo_tq0" unfolding demo_tq0_def by (rule new_tqueue_inv)
  then have "tq_inv demo_tq" by (rule tq_steps_inv [OF demo_reach])
  then have r: "wh_reach hook_params 100 demo_tq s" by (rule wh_begin [OF n(1) hook_call n(2)])
  have st: "\<not> wh_stopped s"
  proof -
    have "case hook_start of CheckFailed \<Rightarrow> False | Checked s \<Rightarrow> \<not> wh_stopped s" by code_simp
    then show ?thesis unfolding h(1) by simp
  qed
  have r1: "wh_reach hook_params 100 tq s1" by (rule wh_event [OF r st _ hook_call hook_call h(2)]) simp
  have "container_lookup (wh_connections s1) (0, 256) = Some \<lparr>wc_event_id = 5, wc_ip_generation = 0\<rparr>" "\<not> wh_stopped s1"
    using hook_loop_sent unfolding l by simp_all
  then show thesis by (rule that [OF h _ _ r st r1 l])
qed

section \<open>Correctness of the delivery\<close>

text \<open>
  C13: no event stops the process: in every reachable state of a webhook every event that can happen is handled without a
  failing \<^verbatim>\<open>CHECK\<close>, whatever sockets, resolver and server answer and whatever other actors do with the \<^verbatim>\<open>TQueue\<close>.
\<close>

theorem webhook_never_aborts:
  assumes "wh_reach p t tq s" "params_ok p" "\<not> wh_stopped s" "wh_enabled ev s" "call_ok t t' env" "call_ok t' t'' env'"
  shows "\<exists>tq' s'. wh_event_step p env env' ev tq s = Checked (tq', s')"
  using wh_event_outcome [OF assms(2) _ _ assms(3-6)] wh_reach_inv [OF assms(1,2)] unfolding good_outcome_def by blast

theorem webhook_never_aborts_witness:
  "\<exists>s tq' s'. hook_start = Checked s \<and> wh_event_step hook_params hook_env hook_env WeLoop demo_tq s = Checked (tq', s')"
proof -
  obtain s where "hook_start = Checked s" "wh_reach hook_params 100 demo_tq s" "\<not> wh_stopped s" using hook_states by metis
  then show ?thesis using webhook_never_aborts [OF _ hook_params_ok(1) _ _ hook_call hook_call, of demo_tq s WeLoop] by auto
qed

text \<open>
  C12: the updates of a chat are delivered one after the other: an update in flight is the oldest loaded update of its
  queue, and no other connection carries an update of this queue.
\<close>

theorem webhook_in_order:
  assumes "wh_reach p t tq s" "params_ok p" "container_lookup (wh_connections s) c = Some x" "wc_event_id x \<noteq> 0"
  shows "\<exists>u es. wh_update_map s (wc_event_id x) = Some u \<and> map_of (wh_queue_updates s) (wu_queue_id u) = Some (wc_event_id x # es) \<and>
    (\<forall>d y v. d \<noteq> c \<and> container_lookup (wh_connections s) d = Some y \<and> wh_update_map s (wc_event_id y) = Some v \<longrightarrow> wu_queue_id v \<noteq> wu_queue_id u)"
proof -
  have i: "tables_ok s" "conns_ok p s" using wh_reach_inv [OF assms(1,2)] by (simp_all add: wh_inv_def)
  note d = tables_delivery [OF i(1)]
  have fl: "wc_event_id y \<in> in_flight s" if "container_lookup (wh_connections s) k = Some y" "wc_event_id y \<noteq> 0" for k y
    using that unfolding in_flight_def flights_def by blast
  obtain u es where u: "wh_update_map s (wc_event_id x) = Some u" "map_of (wh_queue_updates s) (wu_queue_id u) = Some (wc_event_id x # es)"
    using delivery_flight [OF d fl [OF assms(3,4)]] by blast
  have "wu_queue_id v \<noteq> wu_queue_id u"
    if k: "k \<noteq> c" "container_lookup (wh_connections s) k = Some y" "wh_update_map s (wc_event_id y) = Some v" for k y v
  proof -
    have y: "wc_event_id y \<noteq> 0" using delivery_update [OF d k(3)] by (auto simp: eid_is_valid_def)
    have "wc_event_id y \<noteq> wc_event_id x"
      using conn_table_inj [of "container_lookup (wh_connections s)" "wh_ready_connections s" c x k y] assms(3,4) i(2) k(1,2)
      by (metis conns_ok_def)
    then show ?thesis using flight_other_queue [OF d fl [OF assms(3,4)] fl [OF k(2) y] _ u(1) k(3)] by blast
  qed
  then show ?thesis using u by blast
qed

theorem webhook_in_order_witness:
  "\<exists>tq s u es. hook_loop = Checked (tq, s) \<and> wh_update_map s 5 = Some u \<and> map_of (wh_queue_updates s) (wu_queue_id u) = Some (5 # es)"
proof -
  obtain s tq where h: "hook_loop = Checked (tq, s)" "wh_reach hook_params 100 tq s"
    "container_lookup (wh_connections s) (0, 256) = Some \<lparr>wc_event_id = 5, wc_ip_generation = 0\<rparr>" using hook_states by metis
  then show ?thesis using webhook_in_order [OF h(2) hook_params_ok(1) h(3)] by auto
qed

text \<open>
  C16: a webhook never has more connections than it may have, and never more than twice as many loaded queues.
\<close>

theorem webhook_bounds:
  assumes "wh_reach p t tq s" "params_ok p"
  shows "container_size (wh_connections s) = Checked (container_count (wh_connections s)) \<and>
    container_count (wh_connections s) \<le> nat (wp_max_connections p) \<and> length (wh_queue_updates s) \<le> 2 * nat (wp_max_connections p)"
  using wh_reach_inv [OF assms] container_size_count [of "wh_connections s"]
  by (auto simp: wh_inv_def tables_ok_def conns_ok_def nat_mult_distrib)

theorem webhook_bounds_witness:
  "\<exists>tq s. hook_loop = Checked (tq, s) \<and> container_count (wh_connections s) \<le> 2 \<and> length (wh_queue_updates s) \<le> 4"
proof -
  obtain s tq where "hook_loop = Checked (tq, s)" and h: "wh_reach hook_params 100 tq s" using hook_states by metis
  moreover have "wp_max_connections hook_params = 2" by code_simp
  ultimately show ?thesis using webhook_bounds [OF h hook_params_ok(1)] by auto
qed

text \<open>
  C14: no update gets stuck, as long as the URL and the secret token are not extremely long: every loaded queue is scheduled to be sent
  or its oldest update is on its way over a connection.
\<close>

theorem webhook_nothing_stuck:
  assumes "wh_reach p t tq s" "params_ok p" "url_short p" "map_of (wh_queue_updates s) q = Some es"
  shows "(\<exists>w \<in> set (wh_queues s). wq_id w = q) \<or> (\<exists>c x. container_lookup (wh_connections s) c = Some x \<and> wc_event_id x = hd es)"
  using wh_reach_inv [OF assms(1,2)] assms(3,4)
  unfolding no_stuck_def nothing_stuck_def waiting_def in_flight_def flights_def by blast

theorem webhook_nothing_stuck_witness:
  "\<exists>tq s es. hook_loop = Checked (tq, s) \<and> map_of (wh_queue_updates s) 3 = Some es \<and>
    ((\<exists>w \<in> set (wh_queues s). wq_id w = 3) \<or> (\<exists>c x. container_lookup (wh_connections s) c = Some x \<and> wc_event_id x = hd es))"
proof -
  obtain s tq where l: "hook_loop = Checked (tq, s)" and h: "wh_reach hook_params 100 tq s" using hook_states by metis
  have "case hook_loop of CheckFailed \<Rightarrow> False | Checked (tq, s) \<Rightarrow> map_of (wh_queue_updates s) 3 = Some [5, 6]" by code_simp
  then have "map_of (wh_queue_updates s) 3 = Some [5, 6]" unfolding l by simp
  then show ?thesis using webhook_nothing_stuck [OF h hook_params_ok] l by blast
qed

text \<open>
  C15: an update is given up only for a reason: when an event removes a loaded update, then the update was in flight on the
  connection that the event is about, and either the server accepted it with a status from 200 to 299, or it expires within the next hour.
\<close>

theorem webhook_drops_only_finished:
  assumes "wh_reach p t tq s" "params_ok p" "\<not> wh_stopped s" "wh_enabled ev s" "call_ok t t' env" "call_ok t' t'' env'"
    and "wh_event_step p env env' ev tq s = Checked (tq', s')" "wh_update_map s e = Some u" "wh_update_map s' e = None"
  shows "\<exists>cid x r. (ev = WeHangupShared cid \<and> r = None \<or> (\<exists>q. ev = WeResponse cid q \<and> r = Some q)) \<and>
    container_lookup (wh_connections s) cid = Some x \<and> wc_event_id x = e \<and>
    ((\<exists>q. r = Some q \<and> hq_type q = HttpResponse \<and> 200 \<le> hq_code q \<and> hq_code q \<le> 299) \<or>
     wu_expires_at u < we_unix_time env (we_now env AtError) + 3600)"
proof -
  have "good_outcome p t'' (finishing env ev s) s (wh_event_step p env env' ev tq s)"
    using wh_event_outcome [OF assms(2) _ _ assms(3-6), of tq] wh_reach_inv [OF assms(1,2)] by blast
  then have "e \<in> finishing env ev s" using assms(7-9) by (auto simp: good_outcome_def)
  then show ?thesis using assms(8)
    by (auto simp: finishing_def event_response_def finished_def accepted_def split: wh_event.splits)
qed

definition hook_ok :: http_query where
  "hook_ok = \<lparr>hq_type = HttpResponse, hq_code = 200, hq_url_path = [], hq_args = [], hq_reason = ''OK'', hq_keep_alive = True,
     hq_headers = [], hq_peer_address = Invalid\<rparr>"

theorem webhook_drops_only_finished_witness:
  "\<exists>tq s tq' s'. hook_loop = Checked (tq, s) \<and>
    wh_event_step hook_params hook_env hook_env (WeResponse (0, 256) hook_ok) tq s = Checked (tq', s') \<and> wh_update_map s' 5 = None \<and>
    (\<exists>x. container_lookup (wh_connections s) (0, 256) = Some x \<and> wc_event_id x = 5)"
proof -
  obtain s tq where l: "hook_loop = Checked (tq, s)" and h: "wh_reach hook_params 100 tq s" "\<not> wh_stopped s"
    "container_lookup (wh_connections s) (0, 256) = Some \<lparr>wc_event_id = 5, wc_ip_generation = 0\<rparr>" using hook_states by metis
  have "case hook_loop of CheckFailed \<Rightarrow> False
    | Checked (tq, s) \<Rightarrow> wh_update_map s 5 \<noteq> None \<and>
        (case wh_event_step hook_params hook_env hook_env (WeResponse (0, 256) hook_ok) tq s of CheckFailed \<Rightarrow> False
         | Checked (tq', s') \<Rightarrow> wh_update_map s' 5 = None)"
    by code_simp
  then obtain u tq' s' where u: "wh_update_map s 5 = Some u"
    "wh_event_step hook_params hook_env hook_env (WeResponse (0, 256) hook_ok) tq s = Checked (tq', s')" "wh_update_map s' 5 = None"
    unfolding l by (auto split: checked.splits prod.splits)
  have "wh_enabled (WeResponse (0, 256) hook_ok) s" using h(3) by simp
  from webhook_drops_only_finished [OF h(1) hook_params_ok(1) h(2) this hook_call hook_call u(2,1,3)]
  have "\<exists>x. container_lookup (wh_connections s) (0, 256) = Some x \<and> wc_event_id x = 5" by auto
  then show ?thesis using l u(2,3) by blast
qed

text \<open>
  Without the bound on the URL updates do get stuck: \<^verbatim>\<open>setWebhook\<close> accepts a URL of any length, but when its query does not fit into a
  header, \<^verbatim>\<open>send_update\<close> removes the queue from the waiting ones and returns an error that nobody reads; the updates
  of the queue are neither sent nor reported.
\<close>

lemma append_slice_fixed:
  "\<not> sb_use_buffer sb \<Longrightarrow> sb_capacity (append_slice x sb) = sb_capacity sb \<and> \<not> sb_use_buffer (append_slice x sb)"
  by (auto simp: append_slice_def reserve_size_def reserve_inner_def write_text_def on_error_def Let_def split: option.splits if_splits)

lemma long_query_refused:
  assumes "4096 \<le> length (hu_query (wp_url p))"
  shows "\<not> is_ok (update_header p n)"
proof
  assume "is_ok (update_header p n)"
  then obtain h where "update_header p n = Ok h" by (cases "update_header p n") auto
  then have "\<not> sb_error (init_post (hu_query (wp_url p)))"
    unfolding update_header_def Let_def set_keep_alive_def set_content_size_def set_content_type_def
    by (auto dest!: hc_finish_text add_header_text split: if_splits)
  then have "length (hu_query (wp_url p)) \<le> length (sb_text (init_post (hu_query (wp_url p))))"
    unfolding init_post_def by (auto dest!: append_slice_text)
  moreover have "sb_inv (init_post (hu_query (wp_url p)))" by (simp add: init_post_def hc_init_def append_slice_inv)
  moreover have "sb_capacity (init_post (hu_query (wp_url p))) = 4066"
    by (simp add: init_post_def hc_init_def append_slice_fixed) (simp add: append_slice_fixed new_string_builder_def)
  ultimately show False using assms by (simp add: sb_inv_def)
qed

theorem long_url_forgets_queue:
  assumes "wh_reach p t tq s" "params_ok p" "4096 \<le> length (hu_query (wp_url p))" "wh_ready_connections s \<noteq> []"
    "wh_queues s = q # qs" "wq_wakeup_at q \<le> we_now env (AtSend k)"
  shows "\<exists>s'. send_update p env k s = Checked (False, s') \<and> wh_queues s' = qs \<and> wh_queue_updates s' = wh_queue_updates s \<and>
    wh_connections s' = wh_connections s \<and> wh_log s' = wh_log s"
proof -
  have i: "tables_ok s" "conns_ok p s" using wh_reach_inv [OF assms(1,2)] by (simp_all add: wh_inv_def)
  obtain ok s' where s': "send_update p env k s = Checked (ok, s')" using send_update_ok [OF i] by blast
  then have "ok = False \<and> wh_queues s' = qs \<and> wh_queue_updates s' = wh_queue_updates s \<and> wh_connections s' = wh_connections s \<and> wh_log s' = wh_log s"
    using assms(4-6) long_query_refused [OF assms(3)]
    by (auto simp: send_update_def Let_def split: if_splits list.splits option.splits checked.splits sum.splits) (metis is_ok_simps)+
  then show ?thesis using s' by blast
qed

end
