(* ===== verification/Td_JsonReader.thy ===== *)
theory Td_JsonReader
  imports Td_Parser Td_Json
begin

text \<open>
  The JSON reader of \<^verbatim>\<open>td/tdutils/td/utils/JsonBuilder.cpp\<close>: \<^verbatim>\<open>json_string_decode\<close>, \<^verbatim>\<open>do_json_decode\<close>,
  \<^verbatim>\<open>json_decode\<close>, the skipping variants, and the accessors of \<^verbatim>\<open>JsonObject\<close>.  The decoder writes the decoded
  bytes of a string over the bytes it has read, inside the string's own part of the buffer; the model returns them as
  a new list, and \<open>json_string_loop_in_place\<close> (theory \<^verbatim>\<open>Td_JsonRoundtrip\<close>) shows that the writes stay behind the
  reads.  \<^verbatim>\<open>do_json_decode\<close> recurses through loops that depend on what an inner call left unread, so its
  termination rests on a lemma about the function itself on its domain.  The fields of type \<^verbatim>\<open>double\<close> are not
  modelled.
\<close>

unbundle bit_operations_syntax

section \<open>Strings\<close>

abbreviation quote :: char where
  "quote \<equiv> CHR 0x22"

abbreviation backslash :: char where
  "backslash \<equiv> CHR 0x5C"

definition is_surrogate :: "nat \<Rightarrow> bool" where
  "is_surrogate num \<longleftrightarrow> 0xD7FF < num \<and> num < 0xE000"

text \<open>The loop over the four digits of an escape; \<open>None\<close> is a character that is not a hexadecimal digit.\<close>

fun read_hex :: "nat \<Rightarrow> nat \<Rightarrow> string \<Rightarrow> (nat \<times> string) option" where
  "read_hex 0 num s = Some (num, s)"
| "read_hex (Suc i) num [] = None"
| "read_hex (Suc i) num (c # s) = (if hex_to_int c = 16 then None else read_hex i (num * 16 + hex_to_int c) s)"

lemma read_hex_code [code]:
  "read_hex i num s =
     (if i = 0 then Some (num, s)
      else (case s of [] \<Rightarrow> None
        | c # r \<Rightarrow> if hex_to_int c = 16 then None else read_hex (i - 1) (num * 16 + hex_to_int c) r))"
  by (cases i; cases s) simp_all

definition next_escape :: "string \<Rightarrow> bool" where
  "next_escape s \<longleftrightarrow> 6 \<le> length s \<and> s ! 0 = backslash \<and> s ! 1 = CHR ''u''"

text \<open>
  The case \<^verbatim>\<open>'u'\<close> of \<^verbatim>\<open>json_string_decode\<close>, from behind the letter: the code point and the unread bytes.  A
  second escape that is not a surrogate is left to the next iteration (\<^verbatim>\<open>cur_src -= 6\<close>).
\<close>

definition json_unicode :: "string \<Rightarrow> (nat \<times> string) result" where
  "json_unicode s =
     (if length s < 4 then Error 0 (backslash # ''u has less than 4 symbols'')
      else (case read_hex 4 0 s of
        None \<Rightarrow> Error 0 (''Invalid '' @ backslash # ''u -- not hex digit'')
      | Some (num, s1) \<Rightarrow>
          if is_surrogate num \<and> next_escape s1
          then (case read_hex 4 0 (drop 2 s1) of
              None \<Rightarrow> Error 0 (''Invalid '' @ backslash # ''u -- not hex digit'')
            | Some (new_num, s2) \<Rightarrow>
                if is_surrogate new_num
                then Ok ((push_bit 10 (num AND 0x3FF) OR (new_num AND 0x3FF)) + 0x10000, s2)
                else Ok (num, s1))
          else Ok (num, s1)))"

definition simple_escape :: "char \<Rightarrow> char" where
  "simple_escape c =
     (if c = CHR ''b'' then CHR 0x08 else if c = CHR ''f'' then CHR 0x0C else if c = CHR ''n'' then CHR 0x0A
      else if c = CHR ''r'' then CHR 0x0D else if c = CHR ''t'' then CHR 0x09 else c)"

lemma read_hex_length: "read_hex i num s = Some (n, r) \<Longrightarrow> length s = i + length r"
  by (induction i num s rule: read_hex.induct) (auto split: if_splits)

lemma json_unicode_length:
  assumes "json_unicode s = Ok (n, r)"
  shows "length r + 4 \<le> length s"
  using assms read_hex_length
  by (fastforce simp: json_unicode_def next_escape_def split: if_splits option.splits)

text \<open>The decoding loop: \<open>dest\<close> is what was written so far, \<open>src\<close> what is unread.\<close>

function json_string_loop :: "string \<Rightarrow> string \<Rightarrow> (string \<times> string) result" where
  "json_string_loop dest [] = Error 0 (''Closing '' @ [CHR 0x27, quote, CHR 0x27] @ '' not found'')"
| "json_string_loop dest (c # s) =
     (if c = quote then Ok (dest, s)
      else if c = backslash
      then (case s of
          [] \<Rightarrow> Error 0 (''Closing '' @ [CHR 0x27, quote, CHR 0x27] @ '' not found'')
        | e # r \<Rightarrow>
            if e = CHR ''u''
            then (case json_unicode r of
                Inl err \<Rightarrow> Inl err
              | Inr (num, r') \<Rightarrow> json_string_loop (dest @ map char_of (append_utf8_character_unsafe num)) r')
            else json_string_loop (dest @ [simple_escape e]) r)
      else json_string_loop (dest @ [c]) s)"
  by pat_completeness auto
termination
  by (relation "measure (\<lambda>(d, s). length s)") (auto dest: json_unicode_length)

definition json_string_decode :: "parser \<Rightarrow> string result \<times> parser" where
  "json_string_decode p =
     (case try_skip_char quote p of
        (False, p1) \<Rightarrow> (Error 0 (''Opening '' @ [CHR 0x27, quote, CHR 0x27] @ '' expected''), p1)
      | (True, p1) \<Rightarrow>
          (case json_string_loop [] (data_of p1) of
             Inl err \<Rightarrow> (Inl err, p1)
           | Inr (str, rest) \<Rightarrow> (Ok str, p1\<lparr>data_of := rest\<rparr>)))"

text \<open>\<^verbatim>\<open>json_string_skip\<close>: the same walk without writing.\<close>

definition json_unicode_skip :: "string \<Rightarrow> string result" where
  "json_unicode_skip s =
     (if length s < 4 then Error 0 (backslash # ''u has less than 4 symbols'')
      else (case read_hex 4 0 s of
        None \<Rightarrow> Error 0 (''Invalid '' @ backslash # ''u -- not hex digit'')
      | Some (num, s1) \<Rightarrow>
          if is_surrogate num \<and> next_escape s1
          then (case read_hex 4 0 (drop 2 s1) of
              None \<Rightarrow> Error 0 (''Invalid '' @ backslash # ''u -- not hex digit'')
            | Some (new_num, s2) \<Rightarrow> if is_surrogate new_num then Ok s2 else Ok s1)
          else Ok s1))"

lemma json_unicode_skip_length:
  assumes "json_unicode_skip s = Ok r"
  shows "length r + 4 \<le> length s"
  using assms read_hex_length
  by (fastforce simp: json_unicode_skip_def next_escape_def split: if_splits option.splits)

function json_string_skip_loop :: "string \<Rightarrow> string result" where
  "json_string_skip_loop [] = Error 0 (''Closing '' @ [CHR 0x27, quote, CHR 0x27] @ '' not found'')"
| "json_string_skip_loop (c # s) =
     (if c = quote then Ok s
      else if c = backslash
      then (case s of
          [] \<Rightarrow> Error 0 (''Closing '' @ [CHR 0x27, quote, CHR 0x27] @ '' not found'')
        | e # r \<Rightarrow>
            if e = CHR ''u''
            then (case json_unicode_skip r of Inl err \<Rightarrow> Inl err | Inr r' \<Rightarrow> json_string_skip_loop r')
            else json_string_skip_loop r)
      else json_string_skip_loop s)"
  by pat_completeness auto
termination
  by (relation "measure length") (auto dest: json_unicode_skip_length)

definition json_string_skip :: "parser \<Rightarrow> status_result \<times> parser" where
  "json_string_skip p =
     (case try_skip_char quote p of
        (False, p1) \<Rightarrow> (Error 0 (''Opening '' @ [CHR 0x27, quote, CHR 0x27] @ '' expected''), p1)
      | (True, p1) \<Rightarrow>
          (case json_string_skip_loop (data_of p1) of
             Inl err \<Rightarrow> (Inl err, p1)
           | Inr rest \<Rightarrow> (Ok (), p1\<lparr>data_of := rest\<rparr>)))"

lemma json_unicode_skip_eq: "json_unicode_skip s = map_sum id snd (json_unicode s)"
  by (simp add: json_unicode_def json_unicode_skip_def split: option.splits)

lemma json_string_skip_loop_eq: "json_string_skip_loop s = map_sum id snd (json_string_loop d s)"
proof (induction d s rule: json_string_loop.induct)
  case (2 dest c s)
  then show ?case
    by (auto simp: json_unicode_skip_eq json_string_skip_loop.simps(2) [of c] json_string_loop.simps(2) [of _ c]
        simp del: json_string_skip_loop.simps json_string_loop.simps split: list.splits sum.splits)
qed simp

lemma json_string_skip_eq: "json_string_skip p = map_prod (map_sum id (\<lambda>_. ())) id (json_string_decode p)"
  by (auto simp: json_string_skip_def json_string_decode_def json_string_skip_loop_eq [of _ "[]"]
      split: prod.splits bool.splits sum.splits)

section \<open>Values\<close>

text \<open>\<^verbatim>\<open>JsonValue\<close>: the tagged union; the text of a number is kept.\<close>

datatype json_val =
    JNull
  | JNumber string
  | JBoolean bool
  | JString string
  | JArray "json_val list"
  | JObject "(string \<times> json_val) list"

definition number_start :: "char \<Rightarrow> bool" where
  "number_start c \<longleftrightarrow> c = CHR ''-'' \<or> c = CHR ''+'' \<or> c = CHR ''.'' \<or> is_digit c"

definition number_char :: "char \<Rightarrow> bool" where
  "number_char c \<longleftrightarrow>
     c = CHR ''-'' \<or> is_digit c \<or> c = CHR ''e'' \<or> c = CHR ''E'' \<or> c = CHR ''+'' \<or> c = CHR ''.''"

definition unexpected_symbol :: "char \<Rightarrow> json_val result" where
  "unexpected_symbol c =
     (if code c = 0 then Error 0 ''Unexpected string end''
      else if code c < 127 then Error 0 (''Unexpected symbol '' @ [CHR 0x27, c, CHR 0x27])
      else Error 0 ''Unexpected symbol'')"

text \<open>The literals \<^verbatim>\<open>false\<close>, \<^verbatim>\<open>true\<close> and \<^verbatim>\<open>null\<close>, chosen by their first character.\<close>

definition json_literal :: "string \<Rightarrow> json_val \<Rightarrow> parser \<Rightarrow> json_val result \<times> parser" where
  "json_literal word v p =
     (case try_skip word p of
        (True, p1) \<Rightarrow> (Ok v, p1)
      | (False, p1) \<Rightarrow>
          (Error 0 (''Token starts with '' @ [CHR 0x27, hd word, CHR 0x27] @ '' -- '' @ word @ '' expected''), p1))"

text \<open>The cases of the switch that read no other value.\<close>

definition json_scalar :: "parser \<Rightarrow> json_val result \<times> parser" where
  "json_scalar p =
     (let c = peek_char p
      in if c = CHR ''f'' then json_literal ''false'' (JBoolean False) p
         else if c = CHR ''t'' then json_literal ''true'' (JBoolean True) p
         else if c = CHR ''n'' then json_literal ''null'' JNull p
         else if c = quote then (case json_string_decode p of (r, p1) \<Rightarrow> (map_sum id JString r, p1))
         else if number_start c then (case read_while number_char p of (num, p1) \<Rightarrow> (Ok (JNumber num), p1))
         else (unexpected_symbol c, p))"

text \<open>
  What both loops do after a value: the closing bracket ends the loop (\<open>False\<close>), a comma continues it (\<open>True\<close>).
\<close>

definition json_separator :: "char \<Rightarrow> string \<Rightarrow> parser \<Rightarrow> bool result \<times> parser" where
  "json_separator close kind p =
     (let p2 = skip_whitespaces p
      in case try_skip_char close p2 of
           (True, p3) \<Rightarrow> (Ok False, p3)
         | (False, _) \<Rightarrow>
             (case try_skip_char (CHR '','') p2 of
                (True, p3) \<Rightarrow> (Ok True, skip_whitespaces p3)
              | (False, p3) \<Rightarrow>
                  if parser_empty p3 then (Error 0 ''Unexpected string end'', p3)
                  else (Error 0 (''Unexpected symbol while parsing JSON '' @ kind), p3)))"

text \<open>The name of a field and the colon behind it.\<close>

definition json_field_name :: "parser \<Rightarrow> string result \<times> parser" where
  "json_field_name p =
     (case json_string_decode p of
        (Inl e, p1) \<Rightarrow> (Inl e, p1)
      | (Inr field, p1) \<Rightarrow>
          (case try_skip_char (CHR '':'') (skip_whitespaces p1) of
             (False, p2) \<Rightarrow> (Error 0 ([CHR 0x27, CHR '':'', CHR 0x27] @ '' expected''), p2)
           | (True, p2) \<Rightarrow> (Ok field, p2)))"

text \<open>\<^verbatim>\<open>do_json_decode\<close> with the loops of its array and object cases; \<open>res\<close> holds the elements read so far.\<close>

function do_json_decode :: "int \<Rightarrow> parser \<Rightarrow> json_val result \<times> parser"
  and json_array_loop :: "int \<Rightarrow> json_val list \<Rightarrow> parser \<Rightarrow> json_val result \<times> parser"
  and json_object_loop :: "int \<Rightarrow> (string \<times> json_val) list \<Rightarrow> parser \<Rightarrow> json_val result \<times> parser"
where
  "do_json_decode max_depth p0 =
     (if max_depth < 0 then (Error 0 ''Too big object depth'', p0)
      else let p = skip_whitespaces p0
      in if peek_char p = CHR ''['' then
           (let p1 = skip_whitespaces (skip (CHR ''['') p)
            in case try_skip_char (CHR '']'') p1 of
                 (True, p2) \<Rightarrow> (Ok (JArray []), p2)
               | (False, p2) \<Rightarrow> json_array_loop (max_depth - 1) [] p2)
         else if peek_char p = CHR ''{'' then
           (let p1 = skip_whitespaces (skip (CHR ''{'') p)
            in case try_skip_char (CHR ''}'') p1 of
                 (True, p2) \<Rightarrow> (Ok (JObject []), p2)
               | (False, p2) \<Rightarrow> json_object_loop (max_depth - 1) [] p2)
         else json_scalar p)"
| "json_array_loop depth res p =
     (if parser_empty p then (Error 0 ''Unexpected string end'', p)
      else (case do_json_decode depth p of
          (Inl e, p1) \<Rightarrow> (Inl e, p1)
        | (Inr v, p1) \<Rightarrow>
            (case json_separator (CHR '']'') ''Array'' p1 of
               (Inl e, p2) \<Rightarrow> (Inl e, p2)
             | (Inr False, p2) \<Rightarrow> (Ok (JArray (res @ [v])), p2)
             | (Inr True, p2) \<Rightarrow> json_array_loop depth (res @ [v]) p2)))"
| "json_object_loop depth res p =
     (if parser_empty p then (Error 0 ''Unexpected string end'', p)
      else (case json_field_name p of
          (Inl e, p1) \<Rightarrow> (Inl e, p1)
        | (Inr field, p1) \<Rightarrow>
            (case do_json_decode depth p1 of
               (Inl e, p2) \<Rightarrow> (Inl e, p2)
             | (Inr v, p2) \<Rightarrow>
                 (case json_separator (CHR ''}'') ''Object'' p2 of
                    (Inl e, p3) \<Rightarrow> (Inl e, p3)
                  | (Inr False, p3) \<Rightarrow> (Ok (JObject (res @ [(field, v)])), p3)
                  | (Inr True, p3) \<Rightarrow> json_object_loop depth (res @ [(field, v)]) p3))))"
  by pat_completeness auto

text \<open>The length of the unread data; no operation of the parser makes it grow.\<close>

definition unread :: "parser \<Rightarrow> nat" where
  "unread p = length (data_of p)"

lemma unread_skip_whitespaces: "unread (skip_whitespaces p) \<le> unread p"
  by (simp add: unread_def skip_whitespaces_def skip_till_not_def length_dropWhile_le)

lemma unread_try_skip_char:
  "try_skip_char c p = (b, q) \<Longrightarrow> (b \<longrightarrow> unread q < unread p) \<and> unread q \<le> unread p"
  by (cases "data_of p") (auto simp: unread_def try_skip_char_def split: if_splits)

lemma unread_try_skip: "try_skip s p = (b, q) \<Longrightarrow> unread q \<le> unread p"
  by (auto simp: unread_def try_skip_def split: if_splits)

lemma unread_read_while: "read_while f p = (s, q) \<Longrightarrow> unread q \<le> unread p"
  by (auto simp: unread_def read_while_def length_dropWhile_le)

lemma unread_skip: "unread (skip c p) \<le> unread p"
  by (simp add: unread_def skip_def)

lemma unread_skip_peek: "peek_char p = c \<Longrightarrow> c \<noteq> CHR 0x00 \<Longrightarrow> status_of p = None \<Longrightarrow> unread (skip c p) < unread p"
  by (auto simp: unread_def skip_def peek_char_def split: list.splits)

lemma json_string_loop_length: "json_string_loop d s = Ok (t, r) \<Longrightarrow> length r < length s"
proof (induction d s rule: json_string_loop.induct)
  case (2 dest c s)
  note IH = 2(1-3) and eq = 2(4)
  show ?case
  proof (cases "c = backslash")
    case True
    then obtain e u where s: "s = e # u" using eq by (cases s) auto
    show ?thesis
    proof (cases "e = CHR ''u''")
      case u: True
      with eq True s obtain num u' where "json_unicode u = Ok (num, u')" by (auto split: sum.splits)
      then show ?thesis using IH(1) [of e u "(num, u')" num u'] eq True s u json_unicode_length [of u num u'] by simp
    qed (use IH(2) eq True s in simp)
  qed (use IH(3) eq in \<open>auto split: if_splits\<close>)
qed simp

lemma unread_json_string_decode:
  "json_string_decode p = (r, q) \<Longrightarrow> unread q \<le> unread p"
  using unread_try_skip_char [of quote p]
  by (auto simp: json_string_decode_def unread_def split: prod.splits bool.splits sum.splits
      dest: json_string_loop_length) 


lemma unread_json_literal: "unread (snd (json_literal w v p)) \<le> unread p"
  by (auto simp: json_literal_def split: prod.splits bool.splits dest: unread_try_skip)

lemma unread_json_scalar: "unread (snd (json_scalar p)) \<le> unread p"
  unfolding json_scalar_def Let_def
  by (auto intro: unread_json_literal split: prod.splits dest: unread_json_string_decode unread_read_while)

lemma unread_json_separator:
  assumes "json_separator c k p = (r, q)"
  shows "unread q \<le> unread p" "r = Ok True \<Longrightarrow> unread q < unread p"
proof -
  let ?p = "skip_whitespaces p"
  note w = unread_skip_whitespaces [of p]
  have "unread q \<le> unread ?p \<and> (r = Ok True \<longrightarrow> unread q < unread ?p)"
    using assms unread_skip_whitespaces
    by (auto simp: json_separator_def Let_def split: prod.splits bool.splits if_splits dest!: unread_try_skip_char
        intro: le_less_trans) (meson le_trans less_imp_le)+
  then show "unread q \<le> unread p" "r = Ok True \<Longrightarrow> unread q < unread p" using w by auto
qed

lemma unread_json_field_name: "json_field_name p = (r, q) \<Longrightarrow> unread q \<le> unread p"
  using unread_skip_whitespaces
  by (auto simp: json_field_name_def split: prod.splits sum.splits bool.splits
      dest!: unread_try_skip_char unread_json_string_decode intro: le_trans)

lemma unread_open: "try_skip_char c (skip_whitespaces (skip b (skip_whitespaces p))) = (r, q) \<Longrightarrow> unread q \<le> unread p"
  using unread_skip_whitespaces [of p] unread_skip [of b "skip_whitespaces p"]
    unread_skip_whitespaces [of "skip b (skip_whitespaces p)"]
  by (auto dest: unread_try_skip_char)

lemma dom_unread:
  "do_json_decode_json_array_loop_json_object_loop_dom (Inl (d, p)) \<Longrightarrow> unread (snd (do_json_decode d p)) \<le> unread p"
  "do_json_decode_json_array_loop_json_object_loop_dom (Inr (Inl (d, res, p))) \<Longrightarrow>
     unread (snd (json_array_loop d res p)) \<le> unread p"
  "do_json_decode_json_array_loop_json_object_loop_dom (Inr (Inr (d, res', p))) \<Longrightarrow>
     unread (snd (json_object_loop d res' p)) \<le> unread p"
proof (induction d p and d res p and d res' p rule: do_json_decode_json_array_loop_json_object_loop.pinduct)
  case (1 d p0)
  let ?p = "skip_whitespaces p0"
  have "unread (snd (json_array_loop (d - 1) [] q)) \<le> unread p0"
    if "\<not> d < 0" "peek_char ?p = CHR ''[''" "try_skip_char (CHR '']'') (skip_whitespaces (skip (CHR ''['') ?p)) = (False, q)"
    for q using 1(2) [OF that(1) refl that(2) refl that(3) [symmetric]] unread_open [OF that(3)] by simp
  moreover have "unread (snd (json_object_loop (d - 1) [] q)) \<le> unread p0"
    if "\<not> d < 0" "peek_char ?p = CHR ''{''" "try_skip_char (CHR ''}'') (skip_whitespaces (skip (CHR ''{'') ?p)) = (False, q)"
    for q using 1(3) [OF that(1) refl _ that(2) refl that(3) [symmetric]] unread_open [OF that(3)] that(2) by simp
  ultimately show ?case
    unfolding do_json_decode.psimps [OF 1(1)] Let_def
    using unread_json_scalar [of ?p] unread_skip_whitespaces [of p0]
    by (auto dest: unread_open split: prod.splits bool.splits intro: le_trans)
next
  case (2 d res p)
  obtain r p1 where dec: "do_json_decode d p = (r, p1)" by fastforce
  obtain b p2 where sep: "json_separator (CHR '']'') ''Array'' p1 = (b, p2)" by fastforce
  have p1: "\<not> parser_empty p \<Longrightarrow> unread p1 \<le> unread p" using 2(2) dec by simp
  then have p2: "\<not> parser_empty p \<Longrightarrow> unread p2 \<le> unread p"
    using unread_json_separator(1) [OF sep] by simp
  have "unread (snd (json_array_loop d (res @ [v]) p2)) \<le> unread p2"
    if "\<not> parser_empty p" "r = Inr v" "b = Inr True" for v
    using 2(3) [OF that(1) dec [symmetric] that(2) sep [symmetric] that(3)] by simp
  then show ?case
    unfolding json_array_loop.psimps [OF 2(1)] using dec sep p1 p2
    by (cases r; cases b) (auto split: bool.splits intro: le_trans)
next
  case (3 d res p)
  obtain r p1 where field: "json_field_name p = (r, p1)" by fastforce
  obtain v p2 where dec: "do_json_decode d p1 = (v, p2)" by fastforce
  obtain b p3 where sep: "json_separator (CHR ''}'') ''Object'' p2 = (b, p3)" by fastforce
  have p1: "unread p1 \<le> unread p" using unread_json_field_name [OF field] .
  have p2: "unread p2 \<le> unread p" if "\<not> parser_empty p" "r = Inr f" for f
    using 3(2) [OF that(1) field [symmetric] that(2)] dec p1 by simp
  have p3: "unread p3 \<le> unread p" if "\<not> parser_empty p" "r = Inr f" for f
    using unread_json_separator(1) [OF sep] p2 [OF that] by simp
  have "unread (snd (json_object_loop d (res @ [(f, x)]) p3)) \<le> unread p"
    if "\<not> parser_empty p" "r = Inr f" "v = Inr x" "b = Inr True" for f x
    using 3(3) [OF that(1) field [symmetric] that(2) dec [symmetric] that(3) sep [symmetric] that(4)] p3 [OF that(1,2)] by simp
  then show ?case
    unfolding json_object_loop.psimps [OF 3(1)] using field dec sep p1 p2 p3
    by (cases r; cases v; cases b) (auto split: bool.splits intro: le_trans)
qed

lemma json_decode_dom: "All do_json_decode_json_array_loop_json_object_loop_dom"
proof (relation "inv_image (less_than <*lex*> less_than <*lex*> less_than)
    (\<lambda>x. case x of Inl (d, p) \<Rightarrow> (nat (d + 1), unread p, 0)
       | Inr (Inl (d, res, p)) \<Rightarrow> (nat (d + 1), unread p, 1)
       | Inr (Inr (d, res, p)) \<Rightarrow> (nat (d + 1), unread p, 1 :: nat))", goal_cases)
  case (5 d res p r p1 v b p2 more)
  then show ?case
    using dom_unread(1) [of d p] unread_json_separator(2) [of "CHR '']''" "''Array''" p1 b p2]
    by (cases "do_json_decode d p") auto
next
  case (6 d res p r p1 f)
  then show ?case using unread_json_field_name [of p r p1] by auto
next
  case (7 d res p r p1 f v p2 x b p3 more)
  then show ?case
    using dom_unread(1) [of d p1] unread_json_field_name [of p r p1] 
     unread_json_separator(2) [of "CHR ''}''" "''Object''" p2 b p3]
    by (cases "do_json_decode d p1") auto
qed (auto)

termination do_json_decode
  by (rule json_decode_dom)

declare do_json_decode.simps [simp del] json_array_loop.simps [simp del] json_object_loop.simps [simp del]

lemma unread_decode: "unread (snd (do_json_decode d p)) \<le> unread p"
  using dom_unread(1) json_decode_dom by blast

section \<open>Skipping a value\<close>

definition json_literal_skip :: "string \<Rightarrow> parser \<Rightarrow> status_result \<times> parser" where
  "json_literal_skip word p =
     (case try_skip word p of
        (True, p1) \<Rightarrow> (Ok (), p1)
      | (False, p1) \<Rightarrow>
          (Error 0 (''Starts with '' @ [CHR 0x27, hd word, CHR 0x27] @ '' -- '' @ word @ '' expected''), p1))"

definition unexpected_symbol_skip :: "char \<Rightarrow> status_result" where
  "unexpected_symbol_skip c =
     (if code c = 0 then Error 0 ''Unexpected end''
      else if code c < 127 then Error 0 (''Unexpected symbol '' @ [CHR 0x27, c, CHR 0x27])
      else Error 0 ''Unexpected symbol'')"

definition json_scalar_skip :: "parser \<Rightarrow> status_result \<times> parser" where
  "json_scalar_skip p =
     (let c = peek_char p
      in if c = CHR ''f'' then json_literal_skip ''false'' p
         else if c = CHR ''t'' then json_literal_skip ''true'' p
         else if c = CHR ''n'' then json_literal_skip ''null'' p
         else if c = quote then json_string_skip p
         else if number_start c then (Ok (), snd (read_while number_char p))
         else (unexpected_symbol_skip c, p))"

definition json_separator_skip :: "char \<Rightarrow> parser \<Rightarrow> bool result \<times> parser" where
  "json_separator_skip close p =
     (let p2 = skip_whitespaces p
      in case try_skip_char close p2 of
           (True, p3) \<Rightarrow> (Ok False, p3)
         | (False, _) \<Rightarrow>
             (case try_skip_char (CHR '','') p2 of
                (True, p3) \<Rightarrow> (Ok True, skip_whitespaces p3)
              | (False, p3) \<Rightarrow> (Error 0 ''Unexpected symbol'', p3)))"

definition json_field_name_skip :: "parser \<Rightarrow> status_result \<times> parser" where
  "json_field_name_skip p =
     (case json_string_skip p of
        (Inl e, p1) \<Rightarrow> (Inl e, p1)
      | (Inr _, p1) \<Rightarrow>
          (case try_skip_char (CHR '':'') (skip_whitespaces p1) of
             (False, p2) \<Rightarrow> (Error 0 ([CHR 0x27, CHR '':'', CHR 0x27] @ '' expected''), p2)
           | (True, p2) \<Rightarrow> (Ok (), p2)))"

text \<open>The two readers agree on success and on what they leave unread.\<close>

definition same_walk :: "'a result \<times> parser \<Rightarrow> 'b result \<times> parser \<Rightarrow> bool" where
  "same_walk x y \<longleftrightarrow> (is_ok (fst x) \<longleftrightarrow> is_ok (fst y)) \<and> snd x = snd y"

lemma same_walk_Inr: "same_walk (r, q) (Inr v, q') \<longleftrightarrow> is_ok r \<and> q = q'"
  by (auto simp: same_walk_def)

lemma same_walk_Inl: "same_walk (r, q) (Inl e, q') \<longleftrightarrow> \<not> is_ok r \<and> q = q'"
  by (auto simp: same_walk_def)

lemmas same_walk_simps = same_walk_Inr same_walk_Inl

lemma literal_walk: "same_walk (json_literal_skip w p) (json_literal w v p)"
  by (simp add: same_walk_def json_literal_skip_def json_literal_def split: prod.splits bool.splits)

lemma string_walk: "same_walk (json_string_skip p) (json_string_decode p)"
  by (cases "json_string_decode p"; cases "fst (json_string_decode p)") (auto simp: json_string_skip_eq same_walk_def)

lemma scalar_walk: "same_walk (json_scalar_skip p) (json_scalar p)"
proof -
  have "same_walk (json_string_skip p) (case json_string_decode p of (r, p1) \<Rightarrow> (map_sum id JString r, p1))"
    using string_walk [of p]
    by (cases "json_string_decode p"; cases "fst (json_string_decode p)") (auto simp: same_walk_def)
  moreover have "same_walk (unexpected_symbol_skip c, p) (unexpected_symbol c, p)" for c
    by (simp add: same_walk_def unexpected_symbol_def unexpected_symbol_skip_def)
  ultimately show ?thesis
    unfolding json_scalar_skip_def json_scalar_def Let_def
    by (simp add: literal_walk same_walk_Inr split: prod.splits)
qed

lemma separator_walk: "same_walk (json_separator_skip c p) (json_separator c k p)"
  "json_separator c k p = (Inr b, q) \<Longrightarrow> json_separator_skip c p = (Inr b, q)"
  "json_separator_skip c p = (Inr b, q) \<Longrightarrow> json_separator c k p = (Inr b, q)"
  by (auto simp: same_walk_def json_separator_skip_def json_separator_def Let_def split: prod.splits bool.splits if_splits)

lemma field_walk: "same_walk (json_field_name_skip p) (json_field_name p)"
  by (cases "json_string_decode p"; cases "fst (json_string_decode p)")
    (auto simp: json_field_name_skip_def json_field_name_def json_string_skip_eq same_walk_def
      split: prod.splits bool.splits)

text \<open>\<^verbatim>\<open>do_json_skip\<close> with the loops of its array and object cases.\<close>

function do_json_skip :: "int \<Rightarrow> parser \<Rightarrow> status_result \<times> parser"
  and json_array_skip_loop :: "int \<Rightarrow> parser \<Rightarrow> status_result \<times> parser"
  and json_object_skip_loop :: "int \<Rightarrow> parser \<Rightarrow> status_result \<times> parser"
where
  "do_json_skip max_depth p0 =
     (if max_depth < 0 then (Error 0 ''Too big object depth'', p0)
      else let p = skip_whitespaces p0
      in if peek_char p = CHR ''['' then
           (let p1 = skip_whitespaces (skip (CHR ''['') p)
            in case try_skip_char (CHR '']'') p1 of
                 (True, p2) \<Rightarrow> (Ok (), p2)
               | (False, p2) \<Rightarrow> json_array_skip_loop (max_depth - 1) p2)
         else if peek_char p = CHR ''{'' then
           (let p1 = skip_whitespaces (skip (CHR ''{'') p)
            in case try_skip_char (CHR ''}'') p1 of
                 (True, p2) \<Rightarrow> (Ok (), p2)
               | (False, p2) \<Rightarrow> json_object_skip_loop (max_depth - 1) p2)
         else json_scalar_skip p)"
| "json_array_skip_loop depth p =
     (if parser_empty p then (Error 0 ''Unexpected end'', p)
      else (case do_json_skip depth p of
          (Inl e, p1) \<Rightarrow> (Inl e, p1)
        | (Inr _, p1) \<Rightarrow>
            (case json_separator_skip (CHR '']'') p1 of
               (Inl e, p2) \<Rightarrow> (Inl e, p2)
             | (Inr False, p2) \<Rightarrow> (Ok (), p2)
             | (Inr True, p2) \<Rightarrow> json_array_skip_loop depth p2)))"
| "json_object_skip_loop depth p =
     (if parser_empty p then (Error 0 ''Unexpected end'', p)
      else (case json_field_name_skip p of
          (Inl e, p1) \<Rightarrow> (Inl e, p1)
        | (Inr _, p1) \<Rightarrow>
            (case do_json_skip depth p1 of
               (Inl e, p2) \<Rightarrow> (Inl e, p2)
             | (Inr _, p2) \<Rightarrow>
                 (case json_separator_skip (CHR ''}'') p2 of
                    (Inl e, p3) \<Rightarrow> (Inl e, p3)
                  | (Inr False, p3) \<Rightarrow> (Ok (), p3)
                  | (Inr True, p3) \<Rightarrow> json_object_skip_loop depth p3))))"
  by pat_completeness auto

text \<open>
  On its domain \<open>do_json_skip\<close> walks like \<open>do_json_decode\<close>, which is total; so it never reads backwards and its
  termination follows.
\<close>

lemma dom_walk:
  "do_json_skip_json_array_skip_loop_json_object_skip_loop_dom (Inl (d, p)) \<Longrightarrow>
     same_walk (do_json_skip d p) (do_json_decode d p)"
  "do_json_skip_json_array_skip_loop_json_object_skip_loop_dom (Inr (Inl (d, p))) \<Longrightarrow>
     same_walk (json_array_skip_loop d p) (json_array_loop d vs p)"
  "do_json_skip_json_array_skip_loop_json_object_skip_loop_dom (Inr (Inr (d, p))) \<Longrightarrow>
     same_walk (json_object_skip_loop d p) (json_object_loop d fs p)"
proof (induction d p and d p and d p arbitrary: and vs and fs
    rule: do_json_skip_json_array_skip_loop_json_object_skip_loop.pinduct)
  case (1 d p)
  then show ?case
    by (auto simp: do_json_skip.psimps do_json_decode.simps [of d p] Let_def scalar_walk same_walk_simps split: prod.splits bool.splits)
next
  case (2 d p)
  obtain r p1 where sk: "do_json_skip d p = (r, p1)" by fastforce
  obtain r' p1' where dec: "do_json_decode d p = (r', p1')" by fastforce
  obtain b p2 where sep: "json_separator_skip (CHR '']'') p1 = (b, p2)" by fastforce
  obtain b' p2' where sep': "json_separator (CHR '']'') ''Array'' p1 = (b', p2')" by fastforce
  have sw: "\<not> parser_empty p \<Longrightarrow> same_walk (r, p1) (r', p1')" using 2(2) sk dec by simp
  have sw2: "same_walk (b, p2) (b', p2')" "b = Inr x \<Longrightarrow> b' = Inr x" for x
    using separator_walk(1) [of "CHR '']''" p1 "''Array''"] separator_walk(3) [of "CHR '']''" p1 x p2 "''Array''"]
      sep sep' by auto
  have rec: "same_walk (json_array_skip_loop d p2) (json_array_loop d ys p2)"
    if "\<not> parser_empty p" "r = Inr v" "b = Inr True" for v ys
    using 2(3) [OF that(1) sk [symmetric] that(2) sep [symmetric] that(3)] by simp
  show ?case
    unfolding json_array_skip_loop.psimps [OF 2(1)] json_array_loop.simps [of d vs p]
    using sw sw2 rec sk dec sep sep'
    by (cases r; cases r'; cases b; cases b') (auto simp: same_walk_def split: bool.splits)
next
  case (3 d p)
  obtain f p0 where fi: "json_field_name_skip p = (f, p0)" by fastforce
  obtain f' p0' where fi': "json_field_name p = (f', p0')" by fastforce
  obtain r p1 where sk: "do_json_skip d p0 = (r, p1)" by fastforce
  obtain r' p1' where dec: "do_json_decode d p0 = (r', p1')" by fastforce
  obtain b p2 where sep: "json_separator_skip (CHR ''}'') p1 = (b, p2)" by fastforce
  obtain b' p2' where sep': "json_separator (CHR ''}'') ''Object'' p1 = (b', p2')" by fastforce
  have sf: "same_walk (f, p0) (f', p0')" using field_walk [of p] fi fi' by simp
  have sw: "same_walk (r, p1) (r', p1')" if "\<not> parser_empty p" "f = Inr x" for x
    using 3(2) [OF that(1) fi [symmetric] that(2)] sk dec by simp
  have sw2: "same_walk (b, p2) (b', p2')" "b = Inr x \<Longrightarrow> b' = Inr x" for x
    using separator_walk(1) [of "CHR ''}''" p1 "''Object''"] separator_walk(3) [of "CHR ''}''" p1 x p2 "''Object''"]
      sep sep' by auto
  have rec: "same_walk (json_object_skip_loop d p2) (json_object_loop d ys p2)"
    if "\<not> parser_empty p" "f = Inr x" "r = Inr v" "b = Inr True" for x v ys
    using 3(3) [OF that(1) fi [symmetric] that(2) sk [symmetric] that(3) sep [symmetric] that(4)] by simp
  show ?case
    unfolding json_object_skip_loop.psimps [OF 3(1)] json_object_loop.simps [of d fs p]
    using sf sw sw2 rec fi fi' sk dec sep sep'
    by (cases f; cases f'; cases r; cases r'; cases b; cases b')
      (auto simp: same_walk_def split: bool.splits)
qed

lemma json_skip_dom: "All do_json_skip_json_array_skip_loop_json_object_skip_loop_dom"
proof (relation "inv_image (less_than <*lex*> less_than <*lex*> less_than)
    (\<lambda>x. case x of Inl (d, p) \<Rightarrow> (nat (d + 1), unread p, 0)
       | Inr (Inl (d, p)) \<Rightarrow> (nat (d + 1), unread p, 1)
       | Inr (Inr (d, p)) \<Rightarrow> (nat (d + 1), unread p, 1 :: nat))", goal_cases)
  case (5 d p r p1 v b p2 more)
  then have "unread p1 \<le> unread p" using dom_walk(1) [of d p] unread_decode [of d p]
    by (cases "do_json_skip d p") (auto simp: same_walk_def)
  moreover have "unread p2 < unread p1"
    using 5 separator_walk(3) [of "CHR '']''" p1 True p2 "''Array''"] unread_json_separator(2) by auto
  ultimately show ?case by simp
next
  case (6 d p r p1 f)
  then show ?case
    using field_walk [of p] unread_json_field_name [of p "fst (json_field_name p)" "snd (json_field_name p)"]
    by (cases "json_field_name_skip p") (auto simp: same_walk_def)
next
  case (7 d p r p1 f v p2 x b p3 more)
  then have "unread p1 \<le> unread p"
    using field_walk [of p] unread_json_field_name [of p "fst (json_field_name p)" "snd (json_field_name p)"]
    by (cases "json_field_name_skip p") (auto simp: same_walk_def)
  moreover have "unread p2 \<le> unread p1"
    using 7 dom_walk(1) [of d p1] unread_decode [of d p1] by (cases "do_json_skip d p1") (auto simp: same_walk_def)
  moreover have "unread p3 < unread p2"
    using 7 separator_walk(3) [of "CHR ''}''" p2 True p3 "''Object''"] unread_json_separator(2) by auto
  ultimately show ?case by simp
qed auto

termination do_json_skip
  by (rule json_skip_dom)

declare do_json_skip.simps [simp del] json_array_skip_loop.simps [simp del] json_object_skip_loop.simps [simp del]

section \<open>Whole texts\<close>

definition json_decode :: "string \<Rightarrow> json_val result" where
  "json_decode json =
     (case do_json_decode 100 (new_parser json) of
        (Inl e, p) \<Rightarrow> Inl e
      | (Inr v, p) \<Rightarrow>
          if parser_empty (skip_whitespaces p) then Ok v else Error 0 ''Expected string end'')"

text \<open>\<^verbatim>\<open>JsonValue::store\<close>.\<close>

fun store :: "json_val \<Rightarrow> json" where
  "store JNull = JsonRaw ''null''"
| "store (JBoolean b) = (if b then JsonRaw ''true'' else JsonRaw ''false'')"
| "store (JNumber n) = JsonRaw n"
| "store (JString s) = JsonString s"
| "store (JArray vs) = JsonArray (map store vs)"
| "store (JObject fs) = JsonObject (map (\<lambda>(name, v). (name, store v)) fs)"

section \<open>Objects\<close>

datatype json_type = TNull | TNumber | TBoolean | TString | TArray | TObject

definition type_of_value :: "json_val \<Rightarrow> json_type" where
  "type_of_value v =
     (case v of JNull \<Rightarrow> TNull | JNumber _ \<Rightarrow> TNumber | JBoolean _ \<Rightarrow> TBoolean | JString _ \<Rightarrow> TString
      | JArray _ \<Rightarrow> TArray | JObject _ \<Rightarrow> TObject)"

fun get_type_name :: "json_type \<Rightarrow> string" where
  "get_type_name TNull = ''Null''"
| "get_type_name TNumber = ''Number''"
| "get_type_name TBoolean = ''Boolean''"
| "get_type_name TString = ''String''"
| "get_type_name TArray = ''Array''"
| "get_type_name TObject = ''Object''"

type_synonym json_fields = "(string \<times> json_val) list"

definition field_count :: "json_fields \<Rightarrow> nat" where
  "field_count fs = length fs"

text \<open>\<^verbatim>\<open>extract_field\<close> moves the value out: the field stays in the object with the value \<^verbatim>\<open>Null\<close>.\<close>

fun extract_field :: "string \<Rightarrow> json_fields \<Rightarrow> json_val \<times> json_fields" where
  "extract_field name [] = (JNull, [])"
| "extract_field name ((n, v) # fs) =
     (if n = name then (v, (n, JNull) # fs)
      else (case extract_field name fs of (r, fs') \<Rightarrow> (r, (n, v) # fs')))"

definition quoted_name :: "string \<Rightarrow> string" where
  "quoted_name name = quote # name @ [quote]"

definition must_be :: "string \<Rightarrow> string \<Rightarrow> 'a result" where
  "must_be name what = Error 400 (''Field '' @ quoted_name name @ '' must be '' @ what)"

definition cant_find :: "string \<Rightarrow> 'a result" where
  "cant_find name = Error 400 (''Can'' @ [CHR 0x27] @ ''t find field '' @ quoted_name name)"

text \<open>The typed extraction; \<open>missing\<close> is what the two callers do without the field.\<close>

fun extract_typed :: "json_val result \<Rightarrow> string \<Rightarrow> json_type \<Rightarrow> json_fields \<Rightarrow> json_val result \<times> json_fields" where
  "extract_typed missing name ty [] = (missing, [])"
| "extract_typed missing name ty ((n, v) # fs) =
     (if n = name
      then (if ty \<noteq> TNull \<and> type_of_value v \<noteq> ty
            then (must_be name (''of type '' @ get_type_name ty), (n, v) # fs)
            else (Ok v, (n, JNull) # fs))
      else (case extract_typed missing name ty fs of (r, fs') \<Rightarrow> (r, (n, v) # fs')))"

definition extract_optional_field :: "string \<Rightarrow> json_type \<Rightarrow> json_fields \<Rightarrow> json_val result \<times> json_fields" where
  "extract_optional_field name ty fs = extract_typed (Ok JNull) name ty fs"

definition extract_required_field :: "string \<Rightarrow> json_type \<Rightarrow> json_fields \<Rightarrow> json_val result \<times> json_fields" where
  "extract_required_field name ty fs = extract_typed (cant_find name) name ty fs"

definition get_field :: "string \<Rightarrow> json_fields \<Rightarrow> json_val option" where
  "get_field name fs = map_of fs name"

definition has_field :: "string \<Rightarrow> json_fields \<Rightarrow> bool" where
  "has_field name fs \<longleftrightarrow> get_field name fs \<noteq> None"

definition bool_field :: "string \<Rightarrow> json_val \<Rightarrow> bool result" where
  "bool_field name v = (case v of JBoolean b \<Rightarrow> Ok b | _ \<Rightarrow> must_be name ''of type Boolean'')"

definition get_optional_bool_field :: "string \<Rightarrow> bool \<Rightarrow> json_fields \<Rightarrow> bool result" where
  "get_optional_bool_field name default_value fs =
     (case get_field name fs of Some v \<Rightarrow> bool_field name v | None \<Rightarrow> Ok default_value)"

definition get_required_bool_field :: "string \<Rightarrow> json_fields \<Rightarrow> bool result" where
  "get_required_bool_field name fs =
     (case get_field name fs of Some v \<Rightarrow> bool_field name v | None \<Rightarrow> cant_find name)"

text \<open>\<^verbatim>\<open>get_integer_field<T>\<close> for a \<open>w\<close>-bit \<^verbatim>\<open>T\<close>.\<close>

definition get_integer_field :: "nat \<Rightarrow> string \<Rightarrow> string \<Rightarrow> int result" where
  "get_integer_field w name value =
     (case to_integer_safe w value of Inr x \<Rightarrow> Ok x | Inl _ \<Rightarrow> must_be name ''a valid Number'')"

definition integer_field :: "nat \<Rightarrow> string \<Rightarrow> json_val \<Rightarrow> int result" where
  "integer_field w name v =
     (case v of JString s \<Rightarrow> get_integer_field w name s | JNumber s \<Rightarrow> get_integer_field w name s
      | _ \<Rightarrow> must_be name ''a Number'')"

definition get_optional_int_field :: "string \<Rightarrow> int \<Rightarrow> json_fields \<Rightarrow> int result" where
  "get_optional_int_field name default_value fs =
     (case get_field name fs of Some v \<Rightarrow> integer_field 32 name v | None \<Rightarrow> Ok default_value)"

definition get_required_int_field :: "string \<Rightarrow> json_fields \<Rightarrow> int result" where
  "get_required_int_field name fs =
     (case get_field name fs of Some v \<Rightarrow> integer_field 32 name v | None \<Rightarrow> cant_find name)"

definition get_optional_long_field :: "string \<Rightarrow> int \<Rightarrow> json_fields \<Rightarrow> int result" where
  "get_optional_long_field name default_value fs =
     (case get_field name fs of Some v \<Rightarrow> integer_field 64 name v | None \<Rightarrow> Ok default_value)"

definition get_required_long_field :: "string \<Rightarrow> json_fields \<Rightarrow> int result" where
  "get_required_long_field name fs =
     (case get_field name fs of Some v \<Rightarrow> integer_field 64 name v | None \<Rightarrow> cant_find name)"

definition string_field :: "string \<Rightarrow> json_val \<Rightarrow> string result" where
  "string_field name v =
     (case v of JString s \<Rightarrow> Ok s | JNumber s \<Rightarrow> Ok s | _ \<Rightarrow> must_be name ''of type String'')"

definition get_optional_string_field :: "string \<Rightarrow> string \<Rightarrow> json_fields \<Rightarrow> string result" where
  "get_optional_string_field name default_value fs =
     (case get_field name fs of Some v \<Rightarrow> string_field name v | None \<Rightarrow> Ok default_value)"

definition get_required_string_field :: "string \<Rightarrow> json_fields \<Rightarrow> string result" where
  "get_required_string_field name fs =
     (case get_field name fs of Some v \<Rightarrow> string_field name v | None \<Rightarrow> cant_find name)"

text \<open>Extraction returns what a lookup would, and only blanks the field it took.\<close>

lemma extract_field_value: "fst (extract_field name fs) = (case get_field name fs of Some v \<Rightarrow> v | None \<Rightarrow> JNull)"
  by (induction name fs rule: extract_field.induct) (auto simp: get_field_def split: prod.splits)

lemma extract_field_rest:
  "map fst (snd (extract_field name fs)) = map fst fs"
  "n \<noteq> name \<Longrightarrow> get_field n (snd (extract_field name fs)) = get_field n fs"
  "has_field name fs \<Longrightarrow> get_field name (snd (extract_field name fs)) = Some JNull"
  by (induction name fs rule: extract_field.induct) (auto simp: get_field_def has_field_def split: prod.splits)

lemma extract_typed_eq:
  "extract_typed missing name ty fs =
     (case get_field name fs of
        None \<Rightarrow> (missing, fs)
      | Some v \<Rightarrow> if ty \<noteq> TNull \<and> type_of_value v \<noteq> ty
          then (must_be name (''of type '' @ get_type_name ty), fs) else (Ok v, snd (extract_field name fs)))"
  by (induction missing name ty fs rule: extract_typed.induct) (auto simp: get_field_def split: prod.splits option.splits)

end
