(* ===== verification/Td_JsonRoundtrip.thy ===== *)
theory Td_JsonRoundtrip
  imports Td_JsonReader
begin

unbundle bit_operations_syntax

text \<open>
  What the JSON writer writes, the JSON reader reads back: strings escape by escape, then arrays and objects in both
  layouts; the skipping reader accepts the same texts; decoding in place is safe; and typed extraction from objects
  returns what was asked for.
\<close>

section \<open>A written string is read back\<close>

lemma hex_digits: "((c div 4096 * 16 + c div 256 mod 16) * 16 + c div 16 mod 16) * 16 + c mod 16 = (c :: nat)"
proof -
  have "c div 256 = c div 16 div 16" "c div 4096 = c div 16 div 16 div 16" by (simp_all add: div_mult2_eq [symmetric])
  then show ?thesis by (simp only: div_mult_mod_eq)
qed

lemma read_hex_four:
  assumes "hex_to_int a \<noteq> 16" "hex_to_int b \<noteq> 16" "hex_to_int c \<noteq> 16" "hex_to_int d \<noteq> 16"
  shows "read_hex 4 0 (a # b # c # d # s) =
    Some (((hex_to_int a * 16 + hex_to_int b) * 16 + hex_to_int c) * 16 + hex_to_int d, s)"
proof -
  have "4 = Suc (Suc (Suc (Suc 0)))" by simp
  then show ?thesis using assms by (simp only: read_hex.simps if_False mult_0 add_0)
qed

lemma read_hex_one_char:
  assumes "c < 65536"
  shows "read_hex 4 0 (drop 2 (json_one_char c) @ s) = Some (c, s)"
proof -
  have and15: "n AND 15 = n mod 16" for n :: nat using byte_fields(6) [of n] by simp
  have le: "c div 4096 < 16" using assms by (simp add: div_less_iff_less_mult)
  have hex: "hex_to_int (hex_digit_lower n) = n" "hex_to_int (hex_digit_lower n) \<noteq> 16" if "n < 16" for n
    using that by (simp_all add: hex_to_int_lower)
  have "read_hex 4 0 (drop 2 (json_one_char c) @ s) =
      Some (((c div 4096 * 16 + c div 256 mod 16) * 16 + c div 16 mod 16) * 16 + c mod 16, s)"
    using hex [OF le] hex [of "c div 256 mod 16"] hex [of "c div 16 mod 16"] hex [of "c mod 16"]
    by (simp add: json_one_char_def and15 drop_bit_eq_div read_hex_four)
  then show ?thesis unfolding hex_digits .
qed

lemma length_json_one_char [simp]: "length (json_one_char c) = 6"
  by (simp add: json_one_char_def)

lemma json_one_char_front:
  "json_one_char c = backslash # CHR ''u'' # drop 2 (json_one_char c)"
  by (simp add: json_one_char_def)

lemma json_unicode_one:
  assumes "c < 65536" "\<not> is_surrogate c"
  shows "json_unicode (drop 2 (json_one_char c) @ s) = Ok (c, s)"
  using assms read_hex_one_char by (simp add: json_unicode_def)

lemma json_unicode_pair:
  assumes "0x10000 \<le> c" "c \<le> 0x10ffff"
  shows "json_unicode (drop 2 (json_one_char (0xD7C0 + drop_bit 10 c)) @ json_one_char (0xDC00 + (c AND 0x3FF)) @ s) = Ok (c, s)"
proof -
  define q where "q = c - 0x10000"
  have c: "c = q + 0x10000" and q: "q < 0x100000" using assms by (simp_all add: q_def)
  have m: "n AND 0x3FF = n mod 1024" for n :: nat
    using take_bit_eq_mask [of 10 n] by (simp add: take_bit_eq_mod mask_eq_exp_minus_1)
  define h where "h = q div 1024"
  define l where "l = q mod 1024"
  have hl: "h < 1024" "l < 1024" "q = h * 1024 + l"
    using q by (auto simp: h_def l_def div_less_iff_less_mult)
  have high: "0xD7C0 + drop_bit 10 c = 0xD800 + h"
    using c by (simp add: drop_bit_eq_div h_def)
  have low: "0xDC00 + (c AND 0x3FF) = 0xDC00 + l"
    using c unfolding m by (simp add: l_def mod_add_eq [symmetric] del: mod_add_eq)
  have sur: "is_surrogate (0xD800 + h)" "is_surrogate (0xDC00 + l)"
    using hl by (simp_all add: is_surrogate_def)
  have hm: "(0xD800 + h) mod 1024 = h" "(0xDC00 + l) mod 1024 = l"
    using hl mod_add_left_eq [of "0xD800" 1024 h] mod_add_left_eq [of "0xDC00" 1024 l] by simp_all
  have joined: "push_bit 10 ((0xD800 + h) AND 0x3FF) OR ((0xDC00 + l) AND 0x3FF) = q"
    unfolding m hm using push_or_add [of l 10 h] hl by simp
  have rest: "drop 2 (json_one_char x @ s) = drop 2 (json_one_char x) @ s" for x by simp
  have esc: "next_escape (json_one_char x @ s)" for x
    by (simp add: next_escape_def json_one_char_def)
  show ?thesis
    unfolding high low json_unicode_def
    using sur esc hl joined c
    by (simp add: read_hex_one_char [of "0xD800 + h"] read_hex_one_char [of "0xDC00 + l"] rest del: drop_append)
qed

lemma json_string_loop_escape:
  "json_unicode r = Ok (num, s) \<Longrightarrow>
   json_string_loop dest (backslash # CHR ''u'' # r) =
     json_string_loop (dest @ map char_of (append_utf8_character_unsafe num)) s"
  by simp

lemma loop_json_char:
  assumes "json_char c = Checked e"
  shows "json_string_loop dest (e @ s) = json_string_loop (dest @ map char_of (append_utf8_character_unsafe c)) s"
proof (cases "c < 0x10000")
  case True
  then have e: "e = json_one_char c" and n: "\<not> is_surrogate c"
    using assms by (auto simp: json_char_def is_surrogate_def split: if_splits)
  then show ?thesis
    using json_string_loop_escape [OF json_unicode_one [of c s], of dest] True json_one_char_front [of c]
    by (metis append_Cons)
next
  case False
  then have e: "e = json_one_char (0xD7C0 + drop_bit 10 c) @ json_one_char (0xDC00 + (c AND 0x3FF))"
    and le: "0x10000 \<le> c" "c \<le> 0x10ffff"
    using assms by (auto simp: json_char_def split: if_splits)
  then show ?thesis
    using json_string_loop_escape [OF json_unicode_pair [OF le, of s], of dest]
      json_one_char_front [of "0xD7C0 + drop_bit 10 c"] by (metis append_Cons append_assoc)
qed

lemma loop_json_ascii:
  assumes "n < 128"
  shows "json_string_loop dest (json_ascii n @ s) = json_string_loop (dest @ [char_of n]) s"
proof (cases "short_escape n")
  case None
  show ?thesis
  proof (cases "n \<le> 31")
    case True
    then have "json_ascii n = json_one_char n" "json_char n = Checked (json_one_char n)"
      using None by (simp_all add: json_ascii_def json_char_def)
    then show ?thesis using loop_json_char [of n _ dest s] True by (simp add: append_utf8_character_unsafe_def)
  next
    case False
    have "code (char_of n) = n" using assms by simp
    moreover have "n \<noteq> code quote" "n \<noteq> code backslash"
      using None by (auto simp: short_escape_def code_def split: if_splits)
    ultimately have "char_of n \<noteq> quote" "char_of n \<noteq> backslash" by metis+
    then show ?thesis using None False by (simp add: json_ascii_def)
  qed
next
  case (Some e)
  then have "e \<noteq> CHR ''u''" "code (simple_escape e) = n"
    by (auto simp: short_escape_def simple_escape_def code_def split: if_splits)
  then have "e \<noteq> CHR ''u''" "simple_escape e = char_of n" by (metis char_of_code)+
  then show ?thesis using Some by (simp add: json_ascii_def)
qed

text \<open>The bytes of a character of two, three and four bytes, as numbers.\<close>

lemma lead_bytes:
  assumes "a < 256" "128 \<le> (a :: nat)" "a AND 0x40 \<noteq> 0"
  shows "a AND 0x20 = 0 \<Longrightarrow> a = 192 + a mod 32 \<and> (a AND 0x1e > 0 \<longrightarrow> 2 \<le> a mod 32)"
    "a AND 0x20 \<noteq> 0 \<Longrightarrow> a AND 0x10 = 0 \<Longrightarrow> a = 224 + a mod 16"
    "a AND 0x20 \<noteq> 0 \<Longrightarrow> a AND 0x10 \<noteq> 0 \<Longrightarrow> a AND 0x08 = 0 \<Longrightarrow> a = 240 + a mod 8"
proof -
  have *: "\<forall>a \<in> set [0..<256 :: nat]. 128 \<le> a \<longrightarrow> a AND 0x40 \<noteq> 0 \<longrightarrow>
      (a AND 0x20 = 0 \<longrightarrow> a = 192 + a mod 32 \<and> (a AND 0x1e > 0 \<longrightarrow> 2 \<le> a mod 32)) \<and>
      (a AND 0x20 \<noteq> 0 \<longrightarrow> a AND 0x10 = 0 \<longrightarrow> a = 224 + a mod 16) \<and>
      (a AND 0x20 \<noteq> 0 \<longrightarrow> a AND 0x10 \<noteq> 0 \<longrightarrow> a AND 0x08 = 0 \<longrightarrow> a = 240 + a mod 8)"
    by code_simp
  from assms have "a \<in> set [0..<256]" by simp
  from bspec [OF * this] assms show
    "a AND 0x20 = 0 \<Longrightarrow> a = 192 + a mod 32 \<and> (a AND 0x1e > 0 \<longrightarrow> 2 \<le> a mod 32)"
    "a AND 0x20 \<noteq> 0 \<Longrightarrow> a AND 0x10 = 0 \<Longrightarrow> a = 224 + a mod 16"
    "a AND 0x20 \<noteq> 0 \<Longrightarrow> a AND 0x10 \<noteq> 0 \<Longrightarrow> a AND 0x08 = 0 \<Longrightarrow> a = 240 + a mod 8"
    by blast+
qed

lemma tail_byte:
  assumes "b < 256" "b AND 0xc0 = (0x80 :: nat)"
  shows "b = 128 + b mod 64"
proof -
  have *: "\<forall>b \<in> set [0..<256 :: nat]. b AND 0xc0 = 0x80 \<longrightarrow> b = 128 + b mod 64"
    by code_simp
  from assms have "b \<in> set [0..<256]" by simp
  from bspec [OF * this] assms show ?thesis by blast
qed

lemma or_marks:
  "x < 32 \<Longrightarrow> 0xc0 OR x = 192 + (x :: nat)" "x < 16 \<Longrightarrow> 0xe0 OR x = 224 + (x :: nat)"
  "x < 8 \<Longrightarrow> 0xf0 OR x = 240 + (x :: nat)" "x < 64 \<Longrightarrow> 0x80 OR x = 128 + (x :: nat)"
  using push_or_add [of x 5 6] push_or_add [of x 4 14] push_or_add [of x 3 30] push_or_add [of x 6 2]
  by (simp_all add: push_bit_eq_mult)

lemma middle_digit:
  fixes k :: nat
  assumes "n = (u * 64 + y) * k + z" "z < k" "y < 64"
  shows "n div k mod 64 = y"
proof -
  have "n div k = u * 64 + y" using assms by simp
  then show ?thesis using assms(3) by simp
qed

lemma two_bytes:
  assumes "a < 256" "b < 256" "128 \<le> a" "a AND 0x40 \<noteq> 0" "b AND 0xc0 = 0x80" "a AND 0x20 = 0" "a AND 0x1e > 0"
  shows "append_utf8_character_unsafe (push_bit 6 (a AND 0x1f) OR (b AND 0x3f)) = [a, b]"
proof -
  define x y where "x = a mod 32" and "y = b mod 64"
  have a: "a = 192 + x" "2 \<le> x" "x < 32" using lead_bytes(1) assms by (auto simp: x_def)
  have b: "b = 128 + y" "y < 64" using tail_byte assms by (auto simp: y_def)
  have c: "push_bit 6 (a AND 0x1f) OR (b AND 0x3f) = x * 64 + y"
    using push_or_add [of y 6 x] b(2) by (simp add: byte_fields x_def y_def)
  have "(x * 64 + y) div 64 = x" "(x * 64 + y) mod 64 = y" using b(2) by simp_all
  then show ?thesis
    unfolding c append_utf8_character_unsafe_def using a b
    by (simp add: byte_fields drop_bit_eq_div or_marks)
qed

lemma three_bytes:
  assumes "a < 256" "b < 256" "d < 256" "128 \<le> a" "a AND 0x40 \<noteq> 0" "b AND 0xc0 = 0x80" "d AND 0xc0 = 0x80"
    "a AND 0x20 \<noteq> 0" "a AND 0x10 = 0" "push_bit 6 (a AND 0x0f) OR (b AND 0x20) \<noteq> 0"
  shows "append_utf8_character_unsafe (push_bit 12 (a AND 0x0f) OR push_bit 6 (b AND 0x3f) OR (d AND 0x3f)) = [a, b, d]"
proof -
  define x y z where "x = a mod 16" and "y = b mod 64" and "z = d mod 64"
  have a: "a = 224 + x" "x < 16" using lead_bytes(2) assms by (auto simp: x_def)
  have b: "b = 128 + y" "y < 64" using tail_byte assms by (auto simp: y_def)
  have d: "d = 128 + z" "z < 64" using tail_byte assms by (auto simp: z_def)
  have c: "push_bit 12 (a AND 0x0f) OR push_bit 6 (b AND 0x3f) OR (d AND 0x3f) = x * 4096 + (y * 64 + z)"
    using push_or_add [of z 6 y] push_or_add [of "y * 64 + z" 12 x] b(2) d(2)
    by (simp add: byte_fields x_def y_def z_def)
  have "x \<noteq> 0 \<or> b AND 0x20 \<noteq> 0" using assms(10) unfolding x_def byte_fields(6) [symmetric]
    by (metis or.left_neutral push_bit_of_0)
  then have pos: "0x800 \<le> x * 4096 + (y * 64 + z)"
  proof
    assume "b AND 0x20 \<noteq> 0"
    then have "(128 + y) div 32 mod 2 \<noteq> 0" using b by (simp add: byte_fields)
    then have "32 \<le> y" by (cases "y < 32") (auto simp: div_add1_eq [of 128])
    then show ?thesis by simp
  qed simp
  have le: "x * 4096 + (y * 64 + z) \<le> 0xffff" using a b d by linarith
  have "(x * 4096 + (y * 64 + z)) div 4096 = x" using b d by (auto simp: div_eq_0_iff)
  moreover have "(x * 4096 + (y * 64 + z)) mod 64 = z" using d mod_mult_self1 [of z "x * 64 + y" 64] by (simp add: ac_simps)
  moreover have "(x * 4096 + (y * 64 + z)) div 64 mod 64 = y"
    by (rule middle_digit [of _ x y 64 z]) (use b d in auto)
  ultimately show ?thesis
    unfolding c append_utf8_character_unsafe_def using a b d pos le
    by (simp add: byte_fields drop_bit_eq_div or_marks)
qed

lemma four_bytes:
  assumes "a < 256" "b < 256" "d < 256" "e < 256" "128 \<le> a" "a AND 0x40 \<noteq> 0" "b AND 0xc0 = 0x80" "d AND 0xc0 = 0x80"
    "e AND 0xc0 = 0x80" "a AND 0x20 \<noteq> 0" "a AND 0x10 \<noteq> 0" "a AND 0x08 = 0"
    "push_bit 6 (a AND 0x07) OR (b AND 0x30) \<noteq> 0"
  shows "append_utf8_character_unsafe
    (push_bit 18 (a AND 0x07) OR push_bit 12 (b AND 0x3f) OR push_bit 6 (d AND 0x3f) OR (e AND 0x3f)) = [a, b, d, e]"
proof -
  define x y z w where "x = a mod 8" and "y = b mod 64" and "z = d mod 64" and "w = e mod 64"
  have a: "a = 240 + x" "x < 8" using lead_bytes(3) assms by (auto simp: x_def)
  have b: "b = 128 + y" "y < 64" using tail_byte assms by (auto simp: y_def)
  have d: "d = 128 + z" "z < 64" using tail_byte assms by (auto simp: z_def)
  have e: "e = 128 + w" "w < 64" using tail_byte assms by (auto simp: w_def)
  have c: "push_bit 18 (a AND 0x07) OR push_bit 12 (b AND 0x3f) OR push_bit 6 (d AND 0x3f) OR (e AND 0x3f) =
      x * 262144 + (y * 4096 + (z * 64 + w))"
    using push_or_add [of w 6 z] push_or_add [of "z * 64 + w" 12 y] push_or_add [of "y * 4096 + (z * 64 + w)" 18 x]
      b(2) d(2) e(2) by (simp add: byte_fields x_def y_def z_def w_def)
  have "x \<noteq> 0 \<or> b AND 0x30 \<noteq> 0" using assms(13) unfolding x_def byte_fields(7) [symmetric]
    by (metis or.left_neutral push_bit_of_0)
  then have pos: "0x10000 \<le> x * 262144 + (y * 4096 + (z * 64 + w))"
  proof
    assume "b AND 0x30 \<noteq> 0"
    then have "(128 + y) div 16 mod 4 \<noteq> 0" using b by (simp add: byte_fields)
    then have "16 \<le> y" by (cases "y < 16") (auto simp: div_add1_eq [of 128])
    then show ?thesis by simp
  qed simp
  have "(x * 262144 + (y * 4096 + (z * 64 + w))) div 262144 = x" using b d e by (auto simp: div_eq_0_iff)
  moreover have "(x * 262144 + (y * 4096 + (z * 64 + w))) mod 64 = w"
    using e mod_mult_self1 [of w "x * 4096 + y * 64 + z" 64] by (simp add: ac_simps)
  moreover have "(x * 262144 + (y * 4096 + (z * 64 + w))) div 4096 mod 64 = y"
    by (rule middle_digit [of _ x y 4096 "z * 64 + w"]) (use b d e in auto)
  moreover have "(x * 262144 + (y * 4096 + (z * 64 + w))) div 64 mod 64 = z"
    by (rule middle_digit [of _ "x * 64 + y" z 64 w]) (use b d e in auto)
  ultimately show ?thesis
    unfolding c append_utf8_character_unsafe_def using a b d e pos
    by (simp add: byte_fields drop_bit_eq_div or_marks)
qed

lemma seq_checked_Checked: "seq_checked x r = Checked t \<longleftrightarrow> (\<exists>e u. x = Checked e \<and> r = Checked u \<and> t = e @ u)"
  by (auto simp: seq_checked_def prepend_def split: checked.splits)

lemma prepend_Checked: "prepend e r = Checked t \<longleftrightarrow> (\<exists>u. r = Checked u \<and> t = e @ u)"
  by (auto simp: prepend_def split: checked.splits)

text \<open>The loop reads back the body that the writer made of valid UTF-8.\<close>

lemma loop_json_string_body:
  assumes "check_utf8_bytes (bs @ [0])" "\<forall>b \<in> set bs. b < 256" "json_string_body bs = Checked t"
  shows "json_string_loop dest (t @ quote # s) = Ok (dest @ map char_of bs, s)"
  using assms
proof (induction bs arbitrary: t dest rule: length_induct)
  case (1 bs)
  show ?case
  proof (cases bs)
    case (Cons a r1)
    have IH: "json_string_loop dest (u @ quote # s) = Ok (dest @ map char_of ys, s)"
      if "length ys < length bs" "check_utf8_bytes (ys @ [0])" "\<forall>b \<in> set ys. b < 256" "json_string_body ys = Checked u"
      for ys u dest
      using 1(1) that by blast
    have a: "a < 256" "\<forall>b \<in> set r1. b < 256" using 1(3) Cons by simp_all
    note body = 1(4) [unfolded Cons json_string_body.simps(2)]
    from 1(2) [unfolded Cons] a(1) show ?thesis
    proof (cases rule: utf8_step)
      case one
      then show ?thesis
        using IH [of r1] Cons body a(2) by (auto simp: prepend_Checked loop_json_ascii)
    next
      case (two b r2)
      then have "append_utf8_character_unsafe (push_bit 6 (a AND 0x1f) OR (b AND 0x3f)) = [a, b]"
        using two_bytes a 1(3) Cons by simp
      then show ?thesis
        using IH [of r2] Cons body a(2) two by (auto simp: seq_checked_Checked loop_json_char)
    next
      case (three b c r3)
      then have "append_utf8_character_unsafe (push_bit 12 (a AND 0x0f) OR push_bit 6 (b AND 0x3f) OR (c AND 0x3f)) = [a, b, c]"
        using three_bytes a 1(3) Cons by simp
      then show ?thesis
        using IH [of r3] Cons body a(2) three by (auto simp: seq_checked_Checked loop_json_char split: if_splits)
    next
      case (four b c d r4)
      then have "append_utf8_character_unsafe
          (push_bit 18 (a AND 0x07) OR push_bit 12 (b AND 0x3f) OR push_bit 6 (c AND 0x3f) OR (d AND 0x3f)) = [a, b, c, d]"
        using four_bytes a 1(3) Cons by simp
      then show ?thesis
        using IH [of r4] Cons body a(2) four by (auto simp: seq_checked_Checked loop_json_char split: if_splits)
    qed
  qed (use 1 in simp)
qed

lemma json_string_read_back:
  assumes "check_utf8 str" "json_string str = Checked t" "data_of p = t @ s"
  shows "json_string_decode p = (Ok str, p\<lparr>data_of := s\<rparr>)"
proof -
  obtain u where u: "json_string_body (map code str) = Checked u" "t = quote # u @ [quote]"
    using assms(2) by (auto simp: json_string_def seq_checked_Checked split: checked.splits)
  have "json_string_loop [] (u @ quote # s) = Ok (map char_of (map code str), s)"
    using loop_json_string_body [OF _ _ u(1), of "[]" s] assms(1) by (auto simp: check_utf8_def)
  then show ?thesis
    using assms(3) u(2) by (simp add: json_string_decode_def try_skip_char_def comp_def)
qed

section \<open>A written value is read back\<close>

text \<open>
  The values that can be written: every string is UTF-8 and every number is a text the reader takes for a number.
  \<open>json_depth\<close> counts the arrays and objects around the deepest value.
\<close>

definition good_number :: "string \<Rightarrow> bool" where
  "good_number n \<longleftrightarrow> n \<noteq> [] \<and> number_start (hd n) \<and> list_all number_char n"

fun good_value :: "json_val \<Rightarrow> bool" where
  "good_value (JNumber n) = good_number n"
| "good_value (JString s) = check_utf8 s"
| "good_value (JArray vs) = list_all good_value vs"
| "good_value (JObject fs) = list_all (\<lambda>(name, v). check_utf8 name \<and> good_value v) fs"
| "good_value _ = True"

fun json_depth :: "json_val \<Rightarrow> nat" where
  "json_depth (JArray vs) = fold max (map (\<lambda>v. Suc (json_depth v)) vs) 0"
| "json_depth (JObject fs) = fold max (map (\<lambda>(name, v). Suc (json_depth v)) fs) 0"
| "json_depth _ = 0"

definition is_blank :: "string \<Rightarrow> bool" where
  "is_blank s \<longleftrightarrow> set s \<subseteq> set whitespaces"

definition number_ends :: "string \<Rightarrow> bool" where
  "number_ends s \<longleftrightarrow> (case s of [] \<Rightarrow> True | c # _ \<Rightarrow> \<not> number_char c)"

lemma fold_max_le: "fold max xs (a :: nat) \<le> n \<longleftrightarrow> a \<le> n \<and> (\<forall>x \<in> set xs. x \<le> n)"
  by (induction xs arbitrary: a) auto

lemma skip_blank: "is_blank w \<Longrightarrow> data_of p = w @ s \<Longrightarrow> skip_whitespaces p = skip_whitespaces (p\<lparr>data_of := s\<rparr>)"
  by (auto simp: is_blank_def skip_whitespaces_def skip_till_not_def dropWhile_append2 subset_iff)

lemma skip_no_blank: "data_of p = c # s \<Longrightarrow> c \<notin> set whitespaces \<Longrightarrow> skip_whitespaces p = p"
  by (simp add: skip_whitespaces_def skip_till_not_def)

lemma skip_blank_to:
  "data_of p = w @ c # s \<Longrightarrow> is_blank w \<Longrightarrow> c \<notin> set whitespaces \<Longrightarrow> skip_whitespaces p = p\<lparr>data_of := c # s\<rparr>"
  by (subst skip_blank) (auto intro: skip_no_blank)

lemma blank_layout: "is_blank (print_offset off)" "is_blank []"
  by (auto simp: is_blank_def print_offset_def whitespaces_def split: option.splits)

lemma no_blank:
  "quote \<notin> set whitespaces" "CHR ''['' \<notin> set whitespaces" "CHR '']'' \<notin> set whitespaces"
  "CHR ''{'' \<notin> set whitespaces" "CHR ''}'' \<notin> set whitespaces" "CHR '','' \<notin> set whitespaces"
  "CHR '':'' \<notin> set whitespaces" "CHR ''t'' \<notin> set whitespaces" "CHR ''f'' \<notin> set whitespaces"
  "CHR ''n'' \<notin> set whitespaces" "number_start c \<Longrightarrow> c \<notin> set whitespaces"
  by (auto simp: whitespaces_def number_start_def is_digit_def code_def)

lemma number_start_not:
  assumes "number_start c"
  shows "c \<noteq> quote" "c \<noteq> CHR ''['' " "c \<noteq> CHR ''{''" "c \<noteq> CHR ''t''" "c \<noteq> CHR ''f''" "c \<noteq> CHR ''n''" 
  using assms by (auto simp: number_start_def is_digit_def code_def)

lemma separators_end_numbers:
  "number_ends []" "number_ends (CHR '','' # s)" "number_ends (CHR '']'' # s)" "number_ends (CHR ''}'' # s)"
  "c \<in> set whitespaces \<Longrightarrow> number_ends (c # s)"
  by (auto simp: number_ends_def number_char_def is_digit_def code_def whitespaces_def)

text \<open>The relation proved by induction: in any layout, from any following text, the value comes back.\<close>

definition reads_back :: "json_val \<Rightarrow> string \<Rightarrow> bool" where
  "reads_back v t \<longleftrightarrow>
     (\<forall>d p w s. json_depth v \<le> d \<longrightarrow> is_blank w \<longrightarrow> status_of p = None \<longrightarrow> data_of p = w @ t @ s \<longrightarrow> number_ends s \<longrightarrow>
        do_json_decode (int d) p = (Ok v, p\<lparr>data_of := s\<rparr>))"

lemma reads_back_scalar:
  assumes "t = c # r" "c \<notin> set whitespaces" "c \<noteq> CHR ''[''" "c \<noteq> CHR ''{''"
    "\<And>p s. data_of p = t @ s \<Longrightarrow> number_ends s \<Longrightarrow> json_scalar p = (Ok v, p\<lparr>data_of := s\<rparr>)"
  shows "reads_back v t"
  unfolding reads_back_def
proof (intro allI impI)
  fix d :: nat and p :: parser and w s
  assume w: "is_blank w" and p: "data_of p = w @ t @ s" and s: "number_ends s"
  then have "skip_whitespaces p = p\<lparr>data_of := t @ s\<rparr>"
    using skip_blank_to [of p w c "r @ s"] assms(1,2) by simp
  then show "do_json_decode (int d) p = (Ok v, p\<lparr>data_of := s\<rparr>)"
    using assms s by (simp add: do_json_decode.simps [of "int d"] peek_char_def)
qed

lemma scalar_literal:
  assumes "data_of p = word @ s"
  shows "json_literal word v p = (Ok v, p\<lparr>data_of := s\<rparr>)"
  using try_skip_hit [OF assms] by (simp add: json_literal_def)

lemma reads_back_literals:
  "reads_back JNull ''null''" "reads_back (JBoolean True) ''true''" "reads_back (JBoolean False) ''false''"
  by (rule reads_back_scalar, simp, simp add: no_blank, simp, simp, 
      simp add: json_scalar_def peek_char_def scalar_literal)+

lemma reads_back_number:
  assumes "good_number n"
  shows "reads_back (JNumber n) n"
proof -
  obtain c r where n: "n = c # r" "number_start c" using assms by (cases n) (auto simp: good_number_def)
  show ?thesis
  proof (rule reads_back_scalar [OF n(1)])
    fix p :: parser and s assume p: "data_of p = n @ s" and s: "number_ends s"
    have all: "number_char x" if "x \<in> set n" for x using assms that by (auto simp: good_number_def list_all_iff)
    have "takeWhile number_char (n @ s) = n" "dropWhile number_char (n @ s) = s"
      using all s by (cases s; simp add: number_ends_def takeWhile_append2 dropWhile_append2)+
    then show "json_scalar p = (Ok (JNumber n), p\<lparr>data_of := s\<rparr>)"
      using p n number_start_not [OF n(2)] by (simp add: json_scalar_def peek_char_def read_while_def)
  qed (use n(2) number_start_not no_blank in auto)
qed

lemma json_string_front: "json_string s = Checked t \<Longrightarrow> \<exists>r. t = quote # r"
  by (auto simp: json_string_def seq_checked_Checked split: checked.splits)

lemma reads_back_string:
  assumes "check_utf8 s" "json_string s = Checked t"
  shows "reads_back (JString s) t"
proof -
  obtain r where t: "t = quote # r" using json_string_front [OF assms(2)] by blast
  show ?thesis
  proof (rule reads_back_scalar [OF t])
    fix p :: parser and u assume "data_of p = t @ u"
    then show "json_scalar p = (Ok (JString s), p\<lparr>data_of := u\<rparr>)"
      using t json_string_read_back [OF assms] by (simp add: json_scalar_def peek_char_def)
  qed (simp_all add: no_blank)
qed

definition solid :: "string \<Rightarrow> bool" where
  "solid t \<longleftrightarrow> t \<noteq> [] \<and> hd t \<notin> set whitespaces \<and> hd t \<noteq> CHR '']''"

lemma skip_to_solid: "data_of p = w @ t @ s \<Longrightarrow> is_blank w \<Longrightarrow> solid t \<Longrightarrow> skip_whitespaces p = p\<lparr>data_of := t @ s\<rparr>"
  by (cases t) (auto simp: solid_def intro: skip_blank_to)

lemma try_skip_char_simps:
  "data_of p = c # s \<Longrightarrow> try_skip_char c p = (True, p\<lparr>data_of := s\<rparr>)"
  "data_of p = x # s \<Longrightarrow> x \<noteq> c \<Longrightarrow> try_skip_char c p = (False, p)"
  by (simp_all add: try_skip_char_def)

lemma separator_close:
  assumes "data_of p = e @ close # s" "is_blank e" "close \<notin> set whitespaces"
  shows "json_separator close kind p = (Ok False, p\<lparr>data_of := s\<rparr>)"
  using skip_blank_to [OF assms] by (simp add: json_separator_def Let_def try_skip_char_simps)

lemma separator_more:
  assumes "data_of p = CHR '','' # line @ t @ s" "is_blank line" "solid t" "close \<noteq> CHR '',''"
  shows "json_separator close kind p = (Ok True, p\<lparr>data_of := t @ s\<rparr>)"
proof -
  have "skip_whitespaces p = p" using assms(1) no_blank by (intro skip_no_blank)
  then show ?thesis
    using assms skip_to_solid [of "p\<lparr>data_of := line @ t @ s\<rparr>" line t s]
    by (simp add: json_separator_def Let_def try_skip_char_simps)
qed

lemma tail_ends_number:
  assumes "is_blank e" "close = CHR '']'' \<or> close = CHR ''}''"
  shows "number_ends (concat (map (\<lambda>x. '','' @ line @ tx x) xs) @ e @ close # s)"
  using assms separators_end_numbers by (cases xs; cases e) (auto simp: is_blank_def)

lemma array_loop_reads:
  assumes "\<forall>v \<in> set (v # vs). reads_back v (tx v) \<and> solid (tx v) \<and> json_depth v \<le> d"
    and "is_blank line" "is_blank e" "status_of p = None" "is_blank w"
    and "data_of p = w @ tx v @ concat (map (\<lambda>v. '','' @ line @ tx v) vs) @ e @ CHR '']'' # s"
  shows "json_array_loop (int d) res p = (Ok (JArray (res @ v # vs)), p\<lparr>data_of := s\<rparr>)"
  using assms
proof (induction vs arbitrary: v res p w)
  case (Cons v' vs)
  let ?s = "concat (map (\<lambda>v. '','' @ line @ tx v) vs) @ e @ CHR '']'' # s"
  let ?p = "p\<lparr>data_of := CHR '','' # line @ tx v' @ ?s\<rparr>"
  have v: "reads_back v (tx v)" "solid (tx v)" "json_depth v \<le> d" "solid (tx v')" using Cons.prems(1) by simp_all
  have "number_ends (CHR '','' # line @ tx v' @ ?s)" by (rule separators_end_numbers)
  then have dec: "do_json_decode (int d) p = (Ok v, ?p)"
    using v Cons.prems by (auto simp: reads_back_def)
  have sep: "json_separator (CHR '']'') ''Array'' ?p = (Ok True, p\<lparr>data_of := tx v' @ ?s\<rparr>)"
    using separator_more [of ?p line "tx v'" ?s "CHR '']''" "''Array''"] Cons.prems v by simp
  have rec: "json_array_loop (int d) (res @ [v]) (p\<lparr>data_of := tx v' @ ?s\<rparr>) =
      (Ok (JArray ((res @ [v]) @ v' # vs)), p\<lparr>data_of := s\<rparr>)"
    using Cons.IH [of v' "p\<lparr>data_of := tx v' @ ?s\<rparr>" "[]" "res @ [v]"] Cons.prems by (simp add: blank_layout)
  have "\<not> parser_empty p" using Cons.prems v(2) by (simp add: parser_empty_def solid_def)
  then show ?case using dec sep rec by (simp add: json_array_loop.simps [of _ res])
next
  case Nil
  have "number_ends (e @ CHR '']'' # s)" using tail_ends_number [of e _ line tx "[]"] Nil by simp
  then have dec: "do_json_decode (int d) p = (Ok v, p\<lparr>data_of := e @ CHR '']'' # s\<rparr>)"
    using Nil by (auto simp: reads_back_def)
  have "\<not> parser_empty p" using Nil by (simp add: parser_empty_def solid_def)
  then show ?case
    using dec separator_close [of "p\<lparr>data_of := e @ CHR '']'' # s\<rparr>" e "CHR '']''" s "''Array''"] Nil no_blank
    by (simp add: json_array_loop.simps [of _ res])
qed

lemma field_name_reads:
  assumes "check_utf8 name" "json_string name = Checked k" "data_of p = k @ a @ CHR '':'' # s" "is_blank a"
  shows "json_field_name p = (Ok name, p\<lparr>data_of := s\<rparr>)"
proof -
  have "skip_whitespaces (p\<lparr>data_of := a @ CHR '':'' # s\<rparr>) = p\<lparr>data_of := CHR '':'' # s\<rparr>"
    using skip_blank_to [of "p\<lparr>data_of := a @ CHR '':'' # s\<rparr>" a "CHR '':''" s] assms(4) no_blank by simp
  then show ?thesis
    using json_string_read_back [OF assms(1-3)] by (simp add: json_field_name_def try_skip_char_simps)
qed

lemma object_loop_reads:
  assumes "\<forall>(n, v) \<in> set (f # fs). check_utf8 n \<and> json_string n = Checked (kx n) \<and>
      reads_back v (tx v) \<and> solid (tx v) \<and> json_depth v \<le> d"
    and "is_blank line" "is_blank e" "is_blank a" "is_blank b" "status_of p = None"
    and "data_of p = kx (fst f) @ a @ CHR '':'' # b @ tx (snd f) @
      concat (map (\<lambda>f. '','' @ line @ kx (fst f) @ a @ CHR '':'' # b @ tx (snd f)) fs) @ e @ CHR ''}'' # s"
  shows "json_object_loop (int d) res p = (Ok (JObject (res @ f # fs)), p\<lparr>data_of := s\<rparr>)"
  using assms
proof (induction fs arbitrary: f res p)
  case (Cons f' fs)
  obtain n v where f: "f = (n, v)" by fastforce
  obtain n' v' where f': "f' = (n', v')" by fastforce
  let ?s = "concat (map (\<lambda>f. '','' @ line @ kx (fst f) @ a @ CHR '':'' # b @ tx (snd f)) fs) @ e @ CHR ''}'' # s"
  let ?t = "a @ CHR '':'' # b @ tx v' @ ?s"
  let ?p1 = "p\<lparr>data_of := b @ tx v @ CHR '','' # line @ kx n' @ ?t\<rparr>"
  let ?p2 = "p\<lparr>data_of := CHR '','' # line @ kx n' @ ?t\<rparr>"
  have v: "check_utf8 n" "json_string n = Checked (kx n)" "reads_back v (tx v)" "json_depth v \<le> d"
      "json_string n' = Checked (kx n')"
    using Cons.prems(1) f f' by simp_all
  have k: "solid (kx n')" "kx n \<noteq> []"
    using json_string_front [OF v(5)] json_string_front [OF v(2)] no_blank(1) by (auto simp: solid_def)
  have name: "json_field_name p = (Ok n, ?p1)"
    using field_name_reads [OF v(1,2) _ Cons.prems(4)] Cons.prems(7) f f' by simp
  have "number_ends (CHR '','' # line @ kx n' @ ?t)" by (rule separators_end_numbers)
  then have dec: "do_json_decode (int d) ?p1 = (Ok v, ?p2)"
    using v(3,4) Cons.prems(5,6) by (auto simp: reads_back_def)
  have sep: "json_separator (CHR ''}'') ''Object'' ?p2 = (Ok True, p\<lparr>data_of := kx n' @ ?t\<rparr>)"
    using separator_more [of ?p2 line "kx n'" ?t "CHR ''}''" "''Object''"] Cons.prems(2) k by simp
  have rec: "json_object_loop (int d) (res @ [f]) (p\<lparr>data_of := kx n' @ ?t\<rparr>) =
      (Ok (JObject ((res @ [f]) @ f' # fs)), p\<lparr>data_of := s\<rparr>)"
    using Cons.IH [of f' "p\<lparr>data_of := kx n' @ ?t\<rparr>" "res @ [f]"] Cons.prems f' by simp
  have "\<not> parser_empty p" using Cons.prems(7) k f by (simp add: parser_empty_def)
  then show ?case using name dec sep rec f by (simp add: json_object_loop.simps [of _ res])
next
  case Nil
  obtain n v where f: "f = (n, v)" by fastforce
  let ?p1 = "p\<lparr>data_of := b @ tx v @ e @ CHR ''}'' # s\<rparr>"
  have v: "check_utf8 n" "json_string n = Checked (kx n)" "reads_back v (tx v)" "json_depth v \<le> d"
    using Nil.prems(1) f by simp_all
  have name: "json_field_name p = (Ok n, ?p1)"
    using field_name_reads [OF v(1,2) _ Nil.prems(4)] Nil.prems(7) f by simp
  have "number_ends (e @ CHR ''}'' # s)" using tail_ends_number [of e _ line kx "[]"] Nil by simp
  then have dec: "do_json_decode (int d) ?p1 = (Ok v, p\<lparr>data_of := e @ CHR ''}'' # s\<rparr>)"
    using v(3,4) Nil.prems(5,6) by (auto simp: reads_back_def)
  have "\<not> parser_empty p" using Nil.prems(7) json_string_front [OF v(2)] f by (auto simp: parser_empty_def)
  then show ?case
    using name dec f Nil.prems(3) no_blank
      separator_close [of "p\<lparr>data_of := e @ CHR ''}'' # s\<rparr>" e "CHR ''}''" s "''Object''"]
    by (simp add: json_object_loop.simps [of _ res])
qed

lemma separated_elements: "separated line b xs = Checked u \<Longrightarrow> x \<in> set xs \<Longrightarrow> not_failed x"
  by (induction xs arbitrary: b u) (auto simp: prepend_Checked seq_checked_Checked)

lemma separated_map:
  "separated line True (map (\<lambda>x. Checked (f x)) xs) = Checked (concat (map (\<lambda>x. '','' @ line @ f x) xs))"
  by (induction xs) (simp_all add: prepend_def seq_checked_def)

text \<open>The text of a checked output.\<close>

definition the_text :: "string checked \<Rightarrow> string" where
  "the_text x = (case x of Checked t \<Rightarrow> t | CheckFailed \<Rightarrow> [])"

lemma the_text_eq: "not_failed x \<Longrightarrow> x = Checked (the_text x)"
  by (cases x) (simp_all add: the_text_def)

lemma seq_parts:
  "seq_checked x (prepend m y) = Checked t \<Longrightarrow>
   x = Checked (the_text x) \<and> y = Checked (the_text y) \<and> t = the_text x @ m @ the_text y"
  by (auto simp: seq_checked_Checked prepend_Checked the_text_def)

lemma bracketed_elements:
  assumes "bracketed off l r (separated line False (map g (x # xs))) = Checked t"
  shows "t = l @ line @ the_text (g x) @ concat (map (\<lambda>x. '','' @ line @ the_text (g x)) xs) @ print_offset off @ r"
    "\<forall>y \<in> set (x # xs). g y = Checked (the_text (g y))"
proof -
  obtain u where u: "separated line False (map g (x # xs)) = Checked u" "t = l @ u @ print_offset off @ r"
    using assms by (auto simp: bracketed_def prepend_Checked split: checked.splits)
  show all: "\<forall>y \<in> set (x # xs). g y = Checked (the_text (g y))"
    using separated_elements [OF u(1)] by (auto intro: the_text_eq)
  then have "map g xs = map (\<lambda>x. Checked (the_text (g x))) xs" by simp
  moreover obtain y where "g x = Checked y" using all by (cases "g x") auto
  ultimately have "separated line False (map g (x # xs)) =
      Checked (line @ the_text (g x) @ concat (map (\<lambda>x. '','' @ line @ the_text (g x)) xs))"
    using all separated_map [of line "\<lambda>x. the_text (g x)" xs]
    by (simp add: prepend_def seq_checked_def the_text_def del: map_eq_conv)
  then show "t = l @ line @ the_text (g x) @ concat (map (\<lambda>x. '','' @ line @ the_text (g x)) xs) @ print_offset off @ r"
    using u by simp
qed

lemma inner_depth:
  assumes "fold max (map (\<lambda>x. Suc (g x)) xs) 0 \<le> d" "xs \<noteq> []"
  obtains d' where "d = Suc d'" "\<forall>x \<in> set xs. g x \<le> d'"
  using assms unfolding fold_max_le by (cases d) (auto simp: neq_Nil_conv)

lemma reads_back_array:
  assumes "\<forall>v \<in> set vs. reads_back v (tx v) \<and> solid (tx v)"
    and "is_blank line" "is_blank e"
    and "t = CHR ''['' # (case vs of [] \<Rightarrow> e @ '']'' |
       v # vs' \<Rightarrow> line @ tx v @ concat (map (\<lambda>v. '','' @ line @ tx v) vs') @ e @ '']'')"
  shows "reads_back (JArray vs) t"
  unfolding reads_back_def
proof (intro allI impI)
  fix d :: nat and p :: parser and w s
  assume d: "json_depth (JArray vs) \<le> d" and w: "is_blank w" and st: "status_of p = None" and p: "data_of p = w @ t @ s"
  then have sw: "skip_whitespaces p = p\<lparr>data_of := t @ s\<rparr>"
    using skip_blank_to [of p w "CHR ''[''" "tl t @ s"] assms(4) no_blank by simp
  have sk: "skip (CHR ''['') (p\<lparr>data_of := t @ s\<rparr>) = p\<lparr>data_of := tl t @ s\<rparr>"
    using st assms(4) by simp
  show "do_json_decode (int d) p = (Ok (JArray vs), p\<lparr>data_of := s\<rparr>)"
  proof (cases vs)
    case Nil
    have "skip_whitespaces (p\<lparr>data_of := tl t @ s\<rparr>) = p\<lparr>data_of := CHR '']'' # s\<rparr>"
      using skip_blank_to [of "p\<lparr>data_of := tl t @ s\<rparr>" e "CHR '']''" s] assms(3,4) Nil no_blank by simp
    then show ?thesis
      using sw sk assms(4) Nil
      by (simp add: do_json_decode.simps [of "int d"] Let_def peek_char_def try_skip_char_simps)
  next
    case (Cons v vs')
    let ?s = "concat (map (\<lambda>v. '','' @ line @ tx v) vs') @ e @ CHR '']'' # s"
    have sw2: "skip_whitespaces (p\<lparr>data_of := tl t @ s\<rparr>) = p\<lparr>data_of := tx v @ ?s\<rparr>"
      using skip_to_solid [of "p\<lparr>data_of := tl t @ s\<rparr>" line "tx v" ?s] assms Cons by simp
    obtain d' where d': "d = Suc d'" "\<forall>v \<in> set vs. json_depth v \<le> d'"
      using d Cons inner_depth [of json_depth vs d] by (auto simp del: fold_simps)
    have "try_skip_char (CHR '']'') (p\<lparr>data_of := tx v @ ?s\<rparr>) = (False, p\<lparr>data_of := tx v @ ?s\<rparr>)"
      using assms(1) Cons by (cases "tx v") (auto simp: solid_def try_skip_char_simps)
    moreover have "json_array_loop (int d') [] (p\<lparr>data_of := tx v @ ?s\<rparr>) = (Ok (JArray ([] @ v # vs')), p\<lparr>data_of := s\<rparr>)"
      using array_loop_reads [of v vs' tx d' line e "p\<lparr>data_of := tx v @ ?s\<rparr>" "[]" s "[]"] assms(1-3) st d'(2) Cons
      by (simp add: blank_layout)
    ultimately show ?thesis
      using sw sk sw2 assms(4) Cons d'(1)
      by (simp add: do_json_decode.simps [of "1 + int d'"] Let_def peek_char_def)
  qed
qed

lemma reads_back_object:
  assumes "\<forall>(n, v) \<in> set fs. check_utf8 n \<and> json_string n = Checked (kx n) \<and> reads_back v (tx v) \<and> solid (tx v)"
    and "is_blank line" "is_blank e" "is_blank a" "is_blank b"
    and "t = CHR ''{'' # (case fs of [] \<Rightarrow> e @ ''}'' |
       f # fs' \<Rightarrow> line @ kx (fst f) @ a @ CHR '':'' # b @ tx (snd f) @
         concat (map (\<lambda>f. '','' @ line @ kx (fst f) @ a @ CHR '':'' # b @ tx (snd f)) fs') @ e @ ''}'')"
  shows "reads_back (JObject fs) t"
  unfolding reads_back_def
proof (intro allI impI)
  fix d :: nat and p :: parser and w s
  assume d: "json_depth (JObject fs) \<le> d" and w: "is_blank w" and st: "status_of p = None" and p: "data_of p = w @ t @ s"
  then have sw: "skip_whitespaces p = p\<lparr>data_of := t @ s\<rparr>"
    using skip_blank_to [of p w "CHR ''{''" "tl t @ s"] assms(6) no_blank by simp
  have sk: "skip (CHR ''{'') (p\<lparr>data_of := t @ s\<rparr>) = p\<lparr>data_of := tl t @ s\<rparr>"
    using st assms(6) by simp
  show "do_json_decode (int d) p = (Ok (JObject fs), p\<lparr>data_of := s\<rparr>)"
  proof (cases fs)
    case Nil
    have "skip_whitespaces (p\<lparr>data_of := tl t @ s\<rparr>) = p\<lparr>data_of := CHR ''}'' # s\<rparr>"
      using skip_blank_to [of "p\<lparr>data_of := tl t @ s\<rparr>" e "CHR ''}''" s] assms(3,6) Nil no_blank by simp
    then show ?thesis
      using sw sk assms(6) Nil
      by (simp add: do_json_decode.simps [of "int d"] Let_def peek_char_def try_skip_char_simps)
  next
    case (Cons f fs')
    let ?s = "a @ CHR '':'' # b @ tx (snd f) @
      concat (map (\<lambda>f. '','' @ line @ kx (fst f) @ a @ CHR '':'' # b @ tx (snd f)) fs') @ e @ CHR ''}'' # s"
    have "json_string (fst f) = Checked (kx (fst f))" using assms(1) Cons by (cases f) simp
    then obtain k where k: "kx (fst f) = quote # k" using json_string_front by blast
    then have solid: "solid (kx (fst f))" using no_blank by (simp add: solid_def)
    have sw2: "skip_whitespaces (p\<lparr>data_of := tl t @ s\<rparr>) = p\<lparr>data_of := kx (fst f) @ ?s\<rparr>"
      using skip_to_solid [of "p\<lparr>data_of := tl t @ s\<rparr>" line "kx (fst f)" ?s] assms solid Cons by simp
    obtain d' where d': "d = Suc d'" "\<forall>f \<in> set fs. json_depth (snd f) \<le> d'"
      using d Cons inner_depth [of "\<lambda>f. json_depth (snd f)" fs d]
      by (auto simp: case_prod_unfold simp del: fold_simps)
    have "try_skip_char (CHR ''}'') (p\<lparr>data_of := kx (fst f) @ ?s\<rparr>) = (False, p\<lparr>data_of := kx (fst f) @ ?s\<rparr>)"
      using k by (simp add: try_skip_char_simps)
    moreover have "json_object_loop (int d') [] (p\<lparr>data_of := kx (fst f) @ ?s\<rparr>) = (Ok (JObject ([] @ f # fs')), p\<lparr>data_of := s\<rparr>)"
      using object_loop_reads [of f fs' kx tx d' line e a b "p\<lparr>data_of := kx (fst f) @ ?s\<rparr>" s "[]"] assms(1-5) st d'(2) Cons
      by fastforce
    ultimately show ?thesis
      using sw sk sw2 assms(6) Cons d'(1)
      by (simp add: do_json_decode.simps [of "1 + int d'"] Let_def peek_char_def)
  qed
qed

lemma json_value_reads_back:
  "good_value v \<Longrightarrow> json_value off (store v) = Checked t \<Longrightarrow> reads_back v t \<and> solid t"
proof (induction v arbitrary: off t)
  case JNull
  then show ?case using reads_back_literals no_blank by (auto simp: solid_def)
next
  case (JNumber n)
  then have "number_start (hd n)" "n \<noteq> []" by (auto simp: good_number_def)
  moreover have "\<not> number_start (CHR '']'')" by (simp add: number_start_def is_digit_def code_def)
  ultimately show ?case using JNumber reads_back_number [of n] no_blank(11) [of "hd n"] by (auto simp: solid_def)
next
  case (JBoolean b)
  then show ?case using reads_back_literals no_blank by (auto simp: solid_def split: if_splits)
next
  case (JString s)
  then obtain r where "t = quote # r" using json_string_front by auto
  then show ?case using JString reads_back_string no_blank by (auto simp: solid_def)
next
  case (JArray vs)
  let ?off = "inc_offset off"
  let ?g = "\<lambda>v. json_value ?off (store v)" and ?l = "print_offset (inc_offset off)"
  have eq: "bracketed off ''['' '']'' (separated ?l False (map ?g vs)) = Checked t" using JArray.prems by (simp add: comp_def)
  have all: "\<forall>v \<in> set vs. ?g v = Checked (the_text (?g v))"
    using eq bracketed_elements(2) [of off _ _ ?l ?g] by (cases vs) auto
  then have el: "\<forall>v \<in> set vs. reads_back v (the_text (?g v)) \<and> solid (the_text (?g v))"
    using JArray by (auto simp: list_all_iff)
  have t: "t = CHR ''['' # (case vs of [] \<Rightarrow> print_offset off @ '']'' |
      v # vs' \<Rightarrow> ?l @ the_text (?g v) @ concat (map (\<lambda>v. '','' @ ?l @ the_text (?g v)) vs') @ print_offset off @ '']'')"
    using eq bracketed_elements(1) [of off "''[''" "'']''" ?l ?g _ _ t]
    by (cases vs) (auto simp: bracketed_def prepend_def)
  show ?case
    using reads_back_array [OF el blank_layout(1) blank_layout(1) t] t no_blank by (auto simp: solid_def)
next
  case (JObject fs)
  let ?off = "inc_offset off"
  let ?v = "\<lambda>v. json_value ?off (store v)" and ?l = "print_offset (inc_offset off)"
  let ?g = "\<lambda>f. seq_checked (json_string (fst f)) (prepend (field_separator off) (?v (snd f)))"
  let ?k = "\<lambda>n. the_text (json_string n)" and ?t = "\<lambda>v. the_text (?v v)"
  obtain a b where ab: "field_separator off = a @ CHR '':'' # b" "is_blank a" "is_blank b"
    by (cases "off = None")
      (auto simp: field_separator_def is_blank_def whitespaces_def intro: that [of "[]" "[]"] that [of "'' ''" "'' ''"])
  have eq: "bracketed off ''{'' ''}'' (separated ?l False (map ?g fs)) = Checked t"
    using JObject.prems by (simp add: comp_def case_prod_beta)
  have all: "\<forall>f \<in> set fs. ?g f = Checked (the_text (?g f))"
    using eq bracketed_elements(2) [of off _ _ ?l ?g] by (cases fs) auto
  have parts: "json_string (fst f) = Checked (?k (fst f))" "?v (snd f) = Checked (?t (snd f))"
      "the_text (?g f) = ?k (fst f) @ a @ CHR '':'' # b @ ?t (snd f)" if "f \<in> set fs" for f
    using seq_parts [OF bspec [OF all that]] ab(1) by simp_all
  have el: "\<forall>(n, v) \<in> set fs. check_utf8 n \<and> json_string n = Checked (?k n) \<and> reads_back v (?t v) \<and> solid (?t v)"
  proof (clarify, intro conjI)
    fix n v assume f: "(n, v) \<in> set fs"
    show "check_utf8 n" "json_string n = Checked (?k n)" using JObject.prems f parts(1) [OF f] by (auto simp: list_all_iff)
    show "reads_back v (?t v)" "solid (?t v)"
      using JObject.IH [OF f, of v ?off "?t v"] JObject.prems f parts(2) [OF f] by (auto simp: list_all_iff)
  qed
  have m: "concat (map (\<lambda>f. '','' @ ?l @ the_text (?g f)) fs') =
      concat (map (\<lambda>f. '','' @ ?l @ ?k (fst f) @ a @ CHR '':'' # b @ ?t (snd f)) fs')" if "set fs' \<subseteq> set fs" for fs'
    using that parts(3) by (intro arg_cong [where f = concat] map_cong) auto
  have t: "t = CHR ''{'' # (case fs of [] \<Rightarrow> print_offset off @ ''}'' |
      f # fs' \<Rightarrow> ?l @ ?k (fst f) @ a @ CHR '':'' # b @ ?t (snd f) @
        concat (map (\<lambda>f. '','' @ ?l @ ?k (fst f) @ a @ CHR '':'' # b @ ?t (snd f)) fs') @ print_offset off @ ''}'')"
  proof (cases fs)
    case (Cons f fs')
    then show ?thesis
      using bracketed_elements(1) [of off "''{''" "''}''" ?l ?g f fs' t] eq m [of fs'] parts(3) [of f] by auto
  qed (use eq in \<open>simp add: bracketed_def prepend_def\<close>)
  show ?case
    using reads_back_object [OF el blank_layout(1) blank_layout(1) ab(2,3) t] t no_blank by (auto simp: solid_def)
qed

lemma separated_not_failed: "(\<And>x. x \<in> set xs \<Longrightarrow> not_failed x) \<Longrightarrow> not_failed (separated line b xs)"
  by (induction xs arbitrary: b) simp_all

lemma bracketed_not_failed: "not_failed (bracketed off l r b) = not_failed b"
  by (auto simp: bracketed_def split: checked.splits)

lemma store_not_failed: "good_value v \<Longrightarrow> not_failed (json_value off (store v))"
proof (induction v arbitrary: off)
  case (JArray vs)
  then show ?case by (auto simp: bracketed_not_failed list_all_iff intro!: separated_not_failed)
next
  case (JObject fs)
  have "not_failed (json_value off' (store v))" "not_failed (json_string n)" if "(n, v) \<in> set fs" for n v off'
    using JObject.IH [OF that, of v off'] JObject.prems that json_string_utf8 by (auto simp: list_all_iff)
  then show ?case by (auto simp: bracketed_not_failed intro!: separated_not_failed)
qed (simp_all add: json_string_utf8)

lemma json_decode_text:
  assumes "good_value v" "json_depth v \<le> 100" "json_value off (store v) = Checked t" "is_blank w"
  shows "json_decode (t @ w) = Ok v"
proof -
  let ?p = "new_parser (t @ w)"
  have "number_ends w" using assms(4) separators_end_numbers by (cases w) (auto simp: is_blank_def)
  then have "do_json_decode (int 100) ?p = (Ok v, ?p\<lparr>data_of := w\<rparr>)"
    using json_value_reads_back [OF assms(1,3)] assms(2) unfolding reads_back_def
    by (metis append_Nil blank_layout(2) new_parser_simps)
  moreover have "data_of (skip_whitespaces (?p\<lparr>data_of := w\<rparr>)) = []"
    using assms(4) by (auto simp: skip_whitespaces_def skip_till_not_def is_blank_def dropWhile_eq_Nil_conv)
  ultimately show ?thesis by (simp add: json_decode_def parser_empty_def)
qed

lemma json_skip_walk: "same_walk (do_json_skip d p) (do_json_decode d p)"
  using dom_walk(1) json_skip_dom by blast

text \<open>
  The decoder writes into the buffer it reads from.  What it has written never reaches what it has not read: an
  escape of six bytes becomes at most three, a pair of twelve becomes four.
\<close>

lemma read_hex_bound: "read_hex i num s = Some (n, r) \<Longrightarrow> n < (num + 1) * 16 ^ i"
proof (induction i num s rule: read_hex.induct)
  case (3 i num c s)
  have "hex_to_int c < 16" using 3(2) hex_to_int_le [of c] by (auto split: if_splits simp: le_less)
  moreover have "n < (num * 16 + hex_to_int c + 1) * 16 ^ i" using 3 by (auto split: if_splits)
  moreover have "(num * 16 + hex_to_int c + 1) * 16 ^ i \<le> (num * 16 + 16) * 16 ^ i"
    using calculation(1) by (intro mult_le_mono1) simp
  ultimately have "n < (num * 16 + 16) * 16 ^ i" by simp
  then show ?case by (simp add: algebra_simps)
qed simp_all

lemma append_utf8_length:
  "length (append_utf8_character_unsafe n) \<le> 4" "n < 65536 \<Longrightarrow> length (append_utf8_character_unsafe n) \<le> 3"
  by (simp_all add: append_utf8_character_unsafe_def)

lemma json_unicode_in_place:
  assumes "json_unicode s = Ok (n, r)"
  shows "length (append_utf8_character_unsafe n) + length r < length s"
proof -
  obtain num s1 where one: "read_hex 4 0 s = Some (num, s1)"
    using assms by (auto simp: json_unicode_def split: if_splits option.splits)
  have num: "num < 65536" "length s = 4 + length s1" using read_hex_bound [OF one] read_hex_length [OF one] by simp_all
  consider "n = num" "r = s1" | k where "read_hex 4 0 (drop 2 s1) = Some (k, r)" "next_escape s1"
    using assms one by (auto simp: json_unicode_def split: if_splits option.splits)
  then show ?thesis
  proof cases
    case 1
    then show ?thesis using num append_utf8_length(2) by fastforce
  next
    case (2 k)
    then show ?thesis using num read_hex_length [OF 2(1)] append_utf8_length(1) [of n] by (auto simp: next_escape_def)
  qed
qed

lemma json_string_loop_in_place:
  "json_string_loop d s = Ok (t, r) \<Longrightarrow> length t + length r < length d + length s"
proof (induction d s rule: json_string_loop.induct)
  case (2 dest c s)
  note IH = 2(1-3) and eq = 2(4)
  show ?case
  proof (cases "c = backslash")
    case True
    then obtain e u where s: "s = e # u" using eq by (cases s) auto
    show ?thesis
    proof (cases "e = CHR ''u''")
      case u: True
      with eq True s obtain num u' where "json_unicode u = Ok (num, u')" by (auto split: sum.splits)
      then show ?thesis using IH(1) [of e u "(num, u')" num u'] eq True s u json_unicode_in_place [of u num u'] by simp
    qed (use IH(2) eq True s in simp)
  qed (use IH(3) eq in \<open>auto split: if_splits\<close>)
qed simp

section \<open>Properties of the reader\<close>

text \<open>
  C23: What is written is read back.  Every value whose strings are UTF-8, whose numbers are number texts and whose
  depth is at most 100 is written by \<^verbatim>\<open>json_encode\<close> without a failing \<^verbatim>\<open>CHECK\<close>, in the compact and in the
  pretty layout, and \<^verbatim>\<open>json_decode\<close> of the text returns exactly that value.
\<close>

theorem json_roundtrip:
  assumes "good_value v" "json_depth v \<le> 100"
  shows "\<exists>t. json_encode pretty (store v) = Checked t \<and> json_decode t = Ok v"
proof -
  let ?off = "if pretty then Some 0 else None"
  obtain t where t: "json_value ?off (store v) = Checked t"
    using the_text_eq [OF store_not_failed [OF assms(1)]] by blast
  have nl: "is_blank [CHR 0x0A]" by (simp add: is_blank_def whitespaces_def)
  have "json_encode pretty (store v) = Checked (t @ (if pretty then [CHR 0x0A] else []))"
    using t by (simp add: json_encode_def split: if_splits)
  then show ?thesis
    using json_decode_text [OF assms t nl] json_decode_text [OF assms t blank_layout(2)] by auto
qed

theorem json_roundtrip_witness:
  "\<exists>t. json_encode True (store (JObject [(''a'', JArray [JNumber ''-1e5'', JString [CHR 0xD0, CHR 0x96, CHR 0x0A]]), (''b'', JNull)]))
     = Checked t \<and>
   json_decode t = Ok (JObject [(''a'', JArray [JNumber ''-1e5'', JString [CHR 0xD0, CHR 0x96, CHR 0x0A]]), (''b'', JNull)])"
  by (rule json_roundtrip) code_simp+

text \<open>
  The two readers agree.  \<^verbatim>\<open>do_json_skip\<close>, which \<^verbatim>\<open>HttpReader\<close> uses to cut a parameter value out of a body,
  succeeds on exactly the texts that \<^verbatim>\<open>do_json_decode\<close> decodes, and both leave the same data unread, for every
  depth limit and every input.
\<close>

theorem json_skip_agrees:
  "is_ok (fst (do_json_skip max_depth p)) = is_ok (fst (do_json_decode max_depth p)) \<and>
   snd (do_json_skip max_depth p) = snd (do_json_decode max_depth p)"
  using json_skip_walk [of max_depth p] by (simp add: same_walk_def)

text \<open>
  Decoding a string in place is safe.  The decoded bytes and the unread bytes together are shorter than the text
  that was read by at least the two quotes, so \<^verbatim>\<open>cur_dest\<close> never passes \<^verbatim>\<open>cur_src\<close>; a string is never longer than
  its JSON text.
\<close>

theorem json_string_in_place:
  assumes "json_string_decode p = (Ok str, q)"
  shows "length str + length (data_of q) + 2 \<le> length (data_of p)"
proof -
  obtain s where p: "data_of p = quote # s" "json_string_loop [] s = Ok (str, data_of q)"
    using assms
    by (cases "data_of p") (auto simp: json_string_decode_def try_skip_char_def split: if_splits sum.splits)
  then show ?thesis using json_string_loop_in_place [OF p(2)] by simp
qed

theorem json_string_in_place_witness:
  "length [CHR 0xF0, CHR 0x9F, CHR 0x98, CHR 0x80] + 1 + 2 \<le> (15 :: nat)"
proof -
  let ?p = "new_parser (quote # backslash # ''ud83d'' @ backslash # ''ude00'' @ [quote] @ '':'')"
  have "json_string_decode ?p = (Ok [CHR 0xF0, CHR 0x9F, CHR 0x98, CHR 0x80], new_parser '':'')" by code_simp
  from json_string_in_place [OF this] show ?thesis by simp
qed

text \<open>
  Typed extraction returns what was asked for.  When \<^verbatim>\<open>extract_required_field\<close> returns a value, it is the first
  field of that name and has the requested type, so the \<^verbatim>\<open>CHECK\<close>s on the tag in \<^verbatim>\<open>get_string\<close>, \<^verbatim>\<open>get_array\<close> and
  \<^verbatim>\<open>get_object\<close> hold; the field is then \<^verbatim>\<open>Null\<close>, the names and all other fields are unchanged.  Integer getters
  return only values of their width.
\<close>

lemma integer_field_range: "integer_field w name v = Ok x \<Longrightarrow> 0 < w \<Longrightarrow> in_signed w x"
  by (cases v) (auto simp: integer_field_def get_integer_field_def must_be_def to_integer_safe_iff split: sum.splits)

theorem json_typed_extraction:
  assumes "extract_required_field name ty fs = (Ok v, fs')" "ty \<noteq> TNull"
  shows "type_of_value v = ty \<and> get_field name fs = Some v \<and> get_field name fs' = Some JNull \<and>
    map fst fs' = map fst fs \<and> (\<forall>n. n \<noteq> name \<longrightarrow> get_field n fs' = get_field n fs) \<and>
    (\<forall>key x. get_required_int_field key fs' = Ok x \<longrightarrow> in_int32 x) \<and>
    (\<forall>key x. get_required_long_field key fs' = Ok x \<longrightarrow> in_int64 x)"
proof (intro conjI allI impI)
  show v: "type_of_value v = ty" "get_field name fs = Some v"
    and fs': "map fst fs' = map fst fs" "get_field name fs' = Some JNull"
    and other: "\<And>n. n \<noteq> name \<Longrightarrow> get_field n fs' = get_field n fs"
    using assms extract_field_rest
    by (auto simp: extract_required_field_def extract_typed_eq must_be_def cant_find_def has_field_def
        split: option.splits if_splits)
  show "in_int32 x" if "get_required_int_field key fs' = Ok x" for key x
    using that integer_field_range [of 32]
    by (force simp: get_required_int_field_def cant_find_def in_int32_def in_signed_def split: option.splits)
  show "in_int64 x" if "get_required_long_field key fs' = Ok x" for key x
    using that integer_field_range [of 64]
    by (force simp: get_required_long_field_def cant_find_def in_int64_def in_signed_def split: option.splits)
qed

theorem json_typed_extraction_witness:
  "type_of_value (JArray [JNull]) = TArray \<and>
   get_field ''b'' [(''a'', JNumber ''1''), (''b'', JNull)] = Some JNull"
proof -
  have "extract_required_field ''b'' TArray [(''a'', JNumber ''1''), (''b'', JArray [JNull])] =
      (Ok (JArray [JNull]), [(''a'', JNumber ''1''), (''b'', JNull)])" by code_simp
  from json_typed_extraction [OF this] show ?thesis by simp
qed


end
