(* ===== verification/ClientErrors.thy ===== *)
theory ClientErrors
  imports HttpConn Td_JsonRoundtrip
begin

text \<open>
  How the Bot API server answers a query: \<^verbatim>\<open>answer_query\<close> and \<^verbatim>\<open>fail_query\<close> of \<^verbatim>\<open>server/Query.h\<close>, and the translation
  of TDLib errors by \<^verbatim>\<open>Client::fail_query_with_error\<close> of \<^verbatim>\<open>server/Client.cpp\<close>.  Logging is left out.
\<close>

unbundle bit_operations_syntax

section \<open>Answers and errors\<close>

definition json_query_ok :: "json \<Rightarrow> string \<Rightarrow> string checked" where
  "json_query_ok result description =
     json_encode False (JsonObject ([(''ok'', JsonTrue), (''result'', result)] @
       (if description = [] then [] else [(''description'', JsonString description)])))"

definition answer_query :: "json \<Rightarrow> string \<Rightarrow> api_query \<Rightarrow> api_query checked" where
  "answer_query result description q =
     (case json_query_ok result description of CheckFailed \<Rightarrow> CheckFailed | Checked t \<Rightarrow> set_ok t q)"

definition fail_query :: "int \<Rightarrow> string \<Rightarrow> api_query \<Rightarrow> api_query checked" where
  "fail_query http_status_code description q =
     (case json_query_error http_status_code description of
        CheckFailed \<Rightarrow> CheckFailed
      | Checked t \<Rightarrow> set_error http_status_code t q)"

definition get_retry_after_time :: "string \<Rightarrow> int" where
  "get_retry_after_time error_message =
     (let prefix = ''Too Many Requests: retry after ''
      in if begins_with error_message prefix
         then (case to_integer_safe 32 (drop (length prefix) error_message) of
                 Inr n \<Rightarrow> if n > 0 then n else 0
               | Inl _ \<Rightarrow> 0)
         else 0)"

text \<open>The code of an error that names a server error: \<^verbatim>\<open>403\<close> with an upper-case message counts as \<^verbatim>\<open>400\<close>.\<close>

definition is_server_error :: "string \<Rightarrow> bool" where
  "is_server_error m \<longleftrightarrow> list_all (\<lambda>c. c = CHR ''_'' \<or> 65 \<le> code c \<and> code c \<le> 90 \<or> is_digit c) m"

definition adjusted_code :: "int \<Rightarrow> string \<Rightarrow> int" where
  "adjusted_code error_code error_message =
     (if error_code < 400 \<or> error_code = 404 then 400
      else if error_code = 403 \<and> is_server_error error_message then 400
      else error_code)"

text \<open>The messages of the code 400 that are rewritten, with the new code and message, in the order of the tests.\<close>

definition error_rewrites :: "(string \<times> int \<times> string) list" where
  "error_rewrites =
     [(''MESSAGE_NOT_MODIFIED'', 400,
         ''message is not modified: specified new message content and reply markup are exactly the same as a current '' @
         ''content and reply markup of the message''),
      (''WC_CONVERT_URL_INVALID'', 400, ''Wrong HTTP URL specified''),
      (''EXTERNAL_URL_INVALID'', 400, ''Wrong HTTP URL specified''),
      (''WEBPAGE_CURL_FAILED'', 400, ''Failed to get HTTP URL content''),
      (''WEBPAGE_MEDIA_EMPTY'', 400, ''Wrong type of the web page content''),
      (''MEDIA_GROUPED_INVALID'', 400, ''Can'' @ [CHR 0x27] @ ''t use the media of the specified type in the album''),
      (''REPLY_MARKUP_TOO_LONG'', 400, ''reply markup is too long''),
      (''INPUT_USER_DEACTIVATED'', 403, ''Forbidden: user is deactivated''),
      (''USER_IS_BLOCKED'', 403, ''bot was blocked by the user''),
      (''USER_ADMIN_INVALID'', 400, ''user is an administrator of the chat''),
      (''File generation failed'', 400, ''can'' @ [CHR 0x27] @ ''t upload file by URL''),
      (''CHAT_ABOUT_NOT_MODIFIED'', 400, ''chat description is not modified''),
      (''PACK_SHORT_NAME_INVALID'', 400, ''invalid sticker set name is specified''),
      (''PACK_SHORT_NAME_OCCUPIED'', 400, ''sticker set name is already occupied''),
      (''STICKER_EMOJI_INVALID'', 400, ''invalid sticker emojis''),
      (''QUERY_ID_INVALID'', 400, ''query is too old and response timeout expired or query ID is invalid''),
      (''MESSAGE_DELETE_FORBIDDEN'', 400, ''message can'' @ [CHR 0x27] @ ''t be deleted'')]"

definition rank_errors :: "string list" where
  "rank_errors = [''RANK_CHANGE_FORBIDDEN'', ''RANK_EMOJI_NOT_ALLOWED'', ''RANK_INVALID'']"

definition rewritten_error :: "string \<Rightarrow> string \<Rightarrow> int \<times> string" where
  "rewritten_error method m =
     (case map_of error_rewrites m of
        Some r \<Rightarrow> r
      | None \<Rightarrow>
          (400, if m \<in> set rank_errors
                then (if method = ''setchatmembertag'' then ''TAG'' else ''CUSTOM_TITLE'') @ drop 4 m
                else m))"

definition error_prefix :: "int \<Rightarrow> string option" where
  "error_prefix c =
     (if c = 400 then Some ''Bad Request'' else if c = 401 then Some ''Unauthorized''
      else if c = 403 then Some ''Forbidden'' else if c = 500 then Some ''Internal Server Error'' else None)"

text \<open>The description: the prefix, and the message with a lower-case start unless it looks like a constant.\<close>

definition error_description :: "string \<Rightarrow> string \<Rightarrow> string" where
  "error_description prefix m =
     (if begins_with m prefix then m
      else if m = [] then prefix
      else if length m \<ge> 2 \<and> (m ! 1 = CHR ''_'' \<or> 65 \<le> code (m ! 1) \<and> code (m ! 1) \<le> 90) then prefix @ '': '' @ m
      else prefix @ '': '' @ to_lower_char (hd m) # tl m)"

definition fail_query_with_error :: "int \<Rightarrow> string \<Rightarrow> string \<Rightarrow> api_query \<Rightarrow> api_query checked" where
  "fail_query_with_error error_code error_message default_message q =
     (if error_code = 429
      then (let retry_after_time = get_retry_after_time error_message
            in if retry_after_time > 0 then set_retry_after_error retry_after_time q
               else fail_query 500 error_message q)
      else (let code1 = adjusted_code error_code error_message;
                (code2, message) =
                  (if code1 = 400
                   then rewritten_error (qy_method q) (if default_message \<noteq> [] then default_message else error_message)
                   else (code1, error_message))
            in case error_prefix code2 of
                 None \<Rightarrow> fail_query 400 (''Bad Request: '' @ message) q
               | Some prefix \<Rightarrow> fail_query code2 (error_description prefix message) q))"

definition is_special_error_code :: "int \<Rightarrow> bool" where
  "is_special_error_code error_code \<longleftrightarrow> error_code = 401 \<or> error_code = 429 \<or> error_code \<ge> 500"

section \<open>Every error is answered\<close>

lemma utf8_ascii_cons: "code c < 128 \<Longrightarrow> check_utf8 (c # s) = check_utf8 s"
  using high_bit [of "code c"] by (simp add: check_utf8_def)

lemma utf8_ascii_append: "\<forall>c \<in> set a. code c < 128 \<Longrightarrow> check_utf8 (a @ s) = check_utf8 s"
  by (induction a) (simp_all add: utf8_ascii_cons)

lemma to_lower_ascii: "code (to_lower_char c) < 128 \<longleftrightarrow> code c < 128"
  by (auto simp: to_lower_char_def)

lemma utf8_lower_front: "check_utf8 (to_lower_char c # s) = check_utf8 (c # s)"
proof (cases "code c < 128")
  case False
  then show ?thesis by (simp add: to_lower_char_def)
qed (simp add: utf8_ascii_cons to_lower_ascii)

lemma utf8_rewritten:
  assumes "check_utf8 m"
  shows "check_utf8 (snd (rewritten_error method m))"
proof (cases "map_of error_rewrites m")
  case None
  have "list_all (\<lambda>m. check_utf8 (drop 4 m)) rank_errors" by code_simp
  moreover have "\<forall>c \<in> set (if method = ''setchatmembertag'' then ''TAG'' else ''CUSTOM_TITLE''). code c < 128"
    by (simp add: code_def)
  ultimately show ?thesis using assms None utf8_ascii_append by (auto simp: rewritten_error_def list_all_iff)
next
  case (Some r)
  have "list_all (\<lambda>(_, _, t). check_utf8 t) error_rewrites" by code_simp
  then show ?thesis using Some map_of_SomeD [OF Some] by (auto simp: rewritten_error_def list_all_iff)
qed

lemma utf8_description:
  assumes "check_utf8 m" "\<forall>c \<in> set prefix. code c < 128"
  shows "check_utf8 (error_description prefix m)"
proof -
  have "\<forall>c \<in> set (prefix @ '': ''). code c < 128" using assms(2) by (auto simp: code_def)
  then have pre: "check_utf8 (prefix @ '': '' @ x) = check_utf8 x" for x using utf8_ascii_append [of "prefix @ '': ''" x] by simp
  show ?thesis
    using assms pre ascii_utf8 [OF assms(2)] utf8_lower_front [of "hd m" "tl m"]
    by (auto simp: error_description_def)
qed

lemma fail_query_utf8:
  assumes "check_utf8 m" "qy_state q = QueryPending"
  shows "\<exists>t. fail_query c m q = Checked (q\<lparr>qy_answer := t, qy_state := QueryError, qy_http_status_code := c\<rparr>)"
  using json_query_error_utf8 [OF assms(1), of c] assms(2)
  by (cases "json_query_error c m") (auto simp: fail_query_def set_error_def)

lemma print_int_ascii: "x \<in> set (print_signed n) \<Longrightarrow> code x < 128"
  by (auto simp: print_signed_def is_digit_def code_def split: if_splits dest!: print_uint_digits)

lemma retry_after_answered:
  assumes "qy_state q = QueryPending"
  shows "\<exists>t. set_retry_after_error n q =
     Checked (q\<lparr>qy_retry_after := n, qy_answer := t, qy_state := QueryError, qy_http_status_code := 429\<rparr>)"
proof -
  have keys: "not_failed (json_string ''ok'')" "not_failed (json_string ''error_code'')"
    "not_failed (json_string ''description'')" "not_failed (json_string ''parameters'')"
    "not_failed (json_string ''retry_after'')"
    by (rule json_string_utf8, code_simp)+
  have "\<forall>c \<in> set (''Too Many Requests: retry after '' @ print_int 32 n). code c < 128"
    using print_int_ascii by (auto simp: code_def print_int_eq)
  then have "not_failed (retry_after_answer n)"
    using keys json_string_utf8 [OF ascii_utf8]
    by (simp add: retry_after_answer_def json_encode_def bracketed_not_failed)
  then obtain t where "retry_after_answer n = Checked t" by (cases "retry_after_answer n") auto
  then show ?thesis using assms by (auto simp: set_retry_after_error_def set_error_def)
qed

lemma error_prefix_ascii: "error_prefix c = Some p \<Longrightarrow> (\<forall>x \<in> set p. code x < 128) \<and> c \<in> {400, 401, 403, 500}"
  by (auto simp: error_prefix_def code_def split: if_splits)

text \<open>
  C25: Every error is answered.  Whatever code and UTF-8 message TDLib or a method reports, with or without a default
  message, \<^verbatim>\<open>fail_query_with_error\<close> fails no \<^verbatim>\<open>CHECK\<close> and answers the pending query as an error with one of the
  HTTP codes 400, 401, 403, 429 and 500; 429 only with the time after which to retry.
\<close>

theorem every_error_answered:
  assumes "check_utf8 error_message" "check_utf8 default_message" "qy_state q = QueryPending"
  shows "\<exists>q'. fail_query_with_error error_code error_message default_message q = Checked q' \<and>
    qy_state q' = QueryError \<and> qy_http_status_code q' \<in> {400, 401, 403, 429, 500} \<and>
    (qy_http_status_code q' = 429 \<longrightarrow> error_code = 429 \<and> qy_retry_after q' = get_retry_after_time error_message \<and>
      qy_retry_after q' > 0)"
proof (cases "error_code = 429")
  case True
  then show ?thesis
    using fail_query_utf8 [OF assms(1,3), of 500] retry_after_answered [OF assms(3), of "get_retry_after_time error_message"]
    by (auto simp: fail_query_with_error_def Let_def)
next
  case False
  define code1 where "code1 = adjusted_code error_code error_message"
  obtain code2 m where two: "(if code1 = 400
      then rewritten_error (qy_method q) (if default_message \<noteq> [] then default_message else error_message)
      else (code1, error_message)) = (code2, m)" by fastforce
  have m: "check_utf8 m"
    using two assms utf8_rewritten [of "if default_message \<noteq> [] then default_message else error_message" "qy_method q"]
    by (auto split: if_splits)
  have bad: "check_utf8 (''Bad Request: '' @ m)"
    using utf8_ascii_append [of "''Bad Request: ''" m] m by (simp add: code_def)
  have eq: "fail_query_with_error error_code error_message default_message q =
      (case error_prefix code2 of
         None \<Rightarrow> fail_query 400 (''Bad Request: '' @ m) q
       | Some prefix \<Rightarrow> fail_query code2 (error_description prefix m) q)"
    using False two by (simp add: fail_query_with_error_def Let_def code1_def [symmetric])
  show ?thesis
  proof (cases "error_prefix code2")
    case None
    then show ?thesis using eq fail_query_utf8 [OF bad assms(3), of 400] by auto
  next
    case (Some p)
    then show ?thesis
      using eq error_prefix_ascii [OF Some] fail_query_utf8 [OF utf8_description [OF m, of p] assms(3), of code2] by auto
  qed
qed

theorem every_error_answered_witness:
  "\<exists>q'. fail_query_with_error 403 ''USER_IS_BLOCKED'' []
      (new_query ''1:a'' False ''sendMessage'' [] [] Invalid False) = Checked q' \<and>
    qy_state q' = QueryError \<and> qy_http_status_code q' \<in> {400, 401, 403, 429, 500}"
proof -
  have "check_utf8 ''USER_IS_BLOCKED''" "check_utf8 []" by code_simp+
  moreover have "qy_state (new_query ''1:a'' False ''sendMessage'' [] [] Invalid False) = QueryPending"
    by (simp add: new_query_def)
  ultimately show ?thesis using every_error_answered [of "''USER_IS_BLOCKED''" "[]" _ 403] by blast
qed

end
