(* ===== verification/ClientUpdates.thy ===== *)
theory ClientUpdates
  imports ClientErrors ClientStreams WebhookInv Td_Base64
begin

text \<open>
  The updates of a bot and its webhook, as a \<^verbatim>\<open>Client\<close> of \<^verbatim>\<open>server/Client.cpp\<close> handles them: \<^verbatim>\<open>getUpdates\<close> with long
  polling, \<^verbatim>\<open>setWebhook\<close> and \<^verbatim>\<open>deleteWebhook\<close> with the copy of the certificate and the verification, the messages of
  the webhook actor, new updates, and the part of logging out and closing that concerns them.  Every handler takes the
  state and returns it, with the messages it sends appended to \<open>cu_log\<close>; \<open>CheckFailed\<close> is a failed \<^verbatim>\<open>CHECK\<close>.
\<close>

section \<open>Data\<close>

text \<open>What these handlers use of a \<^verbatim>\<open>Query\<close>; \<open>sq_id\<close> stands for the identity of the object.\<close>

record http_file =
  hf_field_name :: string
  hf_size :: int
  hf_temp_file_name :: string

record server_query =
  sq_id :: nat
  sq_method :: string
  sq_args :: "(string \<times> string) list"
  sq_files :: "http_file list"
  sq_is_internal :: bool

definition sq_arg :: "string \<Rightarrow> server_query \<Rightarrow> string" where
  "sq_arg key q = find_key key (sq_args q)"

definition sq_has_arg :: "string \<Rightarrow> server_query \<Rightarrow> bool" where
  "sq_has_arg key q \<longleftrightarrow> List.find (\<lambda>kv. fst kv = key) (sq_args q) \<noteq> None"

definition sq_file :: "string \<Rightarrow> server_query \<Rightarrow> http_file option" where
  "sq_file key q = List.find (\<lambda>f. hf_field_name f = key) (sq_files q)"

datatype webhook_query_type = Cancel | Verify

text \<open>
  What the client sends: answers to queries, messages to the webhook actor, requests to TDLib, changes of the webhook
  database.  \<open>DelayedConflict\<close> hands the query to an actor that fails it after three seconds.
\<close>

datatype upd_msg =
    AnswerTrue nat string
  | AnswerUpdates nat "tq_event list"
  | Failed nat int string
  | RetryAfter nat int
  | DelayedConflict nat string
  | WebhookClose nat
  | WebhookHangup nat
  | WebhookUpdate "nat option"
  | WebhookCreate nat http_url string int bool string bool string
  | DbSet string
  | DbErase
  | SetBotUpdatesStatus int string
  | SetAllowedUpdateTypes nat

text \<open>The work given to the scheduler of the certificates; its end is a message to the client.\<close>

datatype cert_job = CopyCertificate string string int | UnlinkCertificate string status

record 's upd_client =
  cu_tqueue :: "'s tqueue"
  cu_webhook :: webhook_settings
  cu_webhook_id :: "nat option"
  cu_generation :: nat
  cu_query_type :: webhook_query_type
  cu_set_query :: "server_query option"
  cu_active_query :: "server_query option"
  cu_webhook_set_time :: real
  cu_last_error_date :: int
  cu_last_error :: "status option"
  cu_long_poll_query :: "server_query option"
  cu_long_poll_offset :: int
  cu_long_poll_limit :: int
  cu_long_poll_was_wakeup :: bool
  cu_long_poll_hard_timeout :: real
  cu_long_poll_slot :: "real option"
  cu_previous_offset :: int
  cu_previous_start_time :: real
  cu_previous_finish_time :: real
  cu_next_conflict_time :: real
  cu_next_set_webhook_time :: real
  cu_next_logging_time :: real
  cu_next_not_modified_time :: real
  cu_next_warning_time :: real
  cu_last_pending_count :: nat
  cu_was_warning :: bool
  cu_logging_out :: bool
  cu_closing :: bool
  cu_is_api_id_invalid :: bool
  cu_next_authorization_time :: real
  cu_clear_tqueue :: bool
  cu_td_open :: bool
  cu_jobs :: "cert_job list"
  cu_log :: "upd_msg list"

text \<open>
  The parameters of the client, and what a handler reads from its surroundings: the storage of the queues, the address
  functions, the cached and the exact clock, the Unix time and random identifiers.  A handler reads each clock once.
\<close>

record upd_params =
  up_tqueue_id :: int
  up_local_mode :: bool
  up_default_max_connections :: int
  up_dir :: string

record 's upd_env =
  ue_ops :: "'s storage_ops"
  ue_inet :: inet
  ue_cached :: real
  ue_now :: real
  ue_unix_time :: int
  ue_random :: "nat \<Rightarrow> int"

abbreviation LONG_POLL_MAX_TIMEOUT :: int where
  "LONG_POLL_MAX_TIMEOUT \<equiv> 50"

abbreviation LONG_POLL_MAX_DELAY :: real where
  "LONG_POLL_MAX_DELAY \<equiv> 2 / 1000"

abbreviation LONG_POLL_WAIT_AFTER :: real where
  "LONG_POLL_WAIT_AFTER \<equiv> 1 / 1000"

abbreviation BOT_UPDATES_WARNING_DELAY :: real where
  "BOT_UPDATES_WARNING_DELAY \<equiv> 30"

abbreviation MIN_PENDING_UPDATES_WARNING :: nat where
  "MIN_PENDING_UPDATES_WARNING \<equiv> 200"

abbreviation MAX_CERTIFICATE_FILE_SIZE :: int where
  "MAX_CERTIFICATE_FILE_SIZE \<equiv> 3145728"

text \<open>The outcome of code with \<^verbatim>\<open>CHECK\<close>s, composed.\<close>

definition and_then :: "'a checked \<Rightarrow> ('a \<Rightarrow> 'b checked) \<Rightarrow> 'b checked" where
  "and_then x f = (case x of CheckFailed \<Rightarrow> CheckFailed | Checked y \<Rightarrow> f y)"

definition check :: "bool \<Rightarrow> 'a checked \<Rightarrow> 'a checked" where
  "check b x = (if b then x else CheckFailed)"

lemma and_then_simps [simp]: "and_then (Checked y) f = f y" "and_then CheckFailed f = CheckFailed"
  by (simp_all add: and_then_def)

lemma check_simps [simp]: "check True x = x" "check False x = CheckFailed"
  by (simp_all add: check_def)

definition cu_send :: "upd_msg \<Rightarrow> 's upd_client \<Rightarrow> 's upd_client" where
  "cu_send m s = s\<lparr>cu_log := cu_log s @ [m]\<rparr>"

definition cu_stopping :: "'s upd_client \<Rightarrow> bool" where
  "cu_stopping s \<longleftrightarrow> cu_logging_out s \<or> cu_closing s"

text \<open>\<^verbatim>\<open>send_request\<close> with a callback that does nothing: a stopping client sends nothing.\<close>

definition cu_request :: "upd_msg \<Rightarrow> 's upd_client \<Rightarrow> 's upd_client" where
  "cu_request m s = (if cu_stopping s then s else cu_send m s)"

abbreviation cu_url :: "'s upd_client \<Rightarrow> string" where
  "cu_url s \<equiv> wh_url (cu_webhook s)"

section \<open>Update types\<close>

text \<open>The names of \<^verbatim>\<open>get_update_type_name\<close> in the order of the enumeration \<^verbatim>\<open>UpdateType\<close>.\<close>

definition update_type_names :: "string list" where
  "update_type_names =
     [''message'', ''edited_message'', ''channel_post'', ''edited_channel_post'', ''inline_query'',
      ''chosen_inline_result'', ''callback_query'', ''custom_event'', ''custom_query'', ''shipping_query'',
      ''pre_checkout_query'', ''poll'', ''poll_answer'', ''my_chat_member'', ''chat_member'', ''chat_join_request'',
      ''chat_boost'', ''removed_chat_boost'', ''message_reaction'', ''message_reaction_count'', ''business_connection'',
      ''business_message'', ''edited_business_message'', ''deleted_business_messages'', ''purchased_paid_media'',
      ''managed_bot'', ''guest_message'', ''subscription'']"

text \<open>\<^verbatim>\<open>UpdateType::Size\<close> is 28; the types 14, 18 and 19 are off by default.\<close>

definition DEFAULT_ALLOWED_UPDATE_TYPES :: nat where
  "DEFAULT_ALLOWED_UPDATE_TYPES = 2 ^ 28 - 1 - 2 ^ 14 - 2 ^ 18 - 2 ^ 19"

text \<open>The bits of a name: every position that carries it.\<close>

definition type_bits :: "string \<Rightarrow> nat" where
  "type_bits name = foldr (OR) (map (\<lambda>i. if update_type_names ! i = name then 2 ^ i else 0) [0..<28]) 0"

fun collect_types :: "json_val list \<Rightarrow> nat \<Rightarrow> nat option" where
  "collect_types [] acc = Some acc"
| "collect_types (v # vs) acc =
     (case v of JString name \<Rightarrow> collect_types vs (acc OR type_bits (to_lower name)) | _ \<Rightarrow> None)"

definition get_allowed_update_types :: "string \<Rightarrow> bool \<Rightarrow> nat" where
  "get_allowed_update_types allowed_updates is_internal =
     (if allowed_updates = [] then 0
      else (case json_decode allowed_updates of
        Inl _ \<Rightarrow> 0
      | Inr (JArray vs) \<Rightarrow>
          (case collect_types vs 0 of
             None \<Rightarrow> 0
           | Some r \<Rightarrow> if r = 0 then DEFAULT_ALLOWED_UPDATE_TYPES else r)
      | Inr (JNumber n) \<Rightarrow>
          (if is_internal then (case to_integer_safe_unsigned 64 n of Inr k \<Rightarrow> k | Inl _ \<Rightarrow> 0) else 0)
      | Inr _ \<Rightarrow> 0))"

definition update_allowed_update_types :: "server_query \<Rightarrow> 's upd_client \<Rightarrow> bool \<times> 's upd_client" where
  "update_allowed_update_types q s =
     (let types = get_allowed_update_types (sq_arg ''allowed_updates'' q) (sq_is_internal q)
      in if types \<noteq> 0 \<and> types \<noteq> wh_allowed_update_types (cu_webhook s)
         then (True, cu_request (SetAllowedUpdateTypes types)
                       (s\<lparr>cu_webhook := (cu_webhook s)\<lparr>wh_allowed_update_types := types\<rparr>\<rparr>))
         else (False, s))"

section \<open>Arguments\<close>

definition get_integer_arg :: "server_query \<Rightarrow> string \<Rightarrow> int \<Rightarrow> int \<Rightarrow> int \<Rightarrow> int" where
  "get_integer_arg q field_name default_value min_value max_value =
     (let s_arg = sq_arg field_name q
      in clamp (if s_arg = [] then default_value else to_integer_signed 32 s_arg) min_value max_value)"

abbreviation int32_min :: int where
  "int32_min \<equiv> - 2147483648"

abbreviation int32_max :: int where
  "int32_max \<equiv> 2147483647"

definition to_bool :: "string \<Rightarrow> bool" where
  "to_bool value = (let v = trim (to_lower value) in v = ''true'' \<or> v = ''yes'' \<or> v = ''1'')"

definition get_webhook_certificate :: "server_query \<Rightarrow> http_file option" where
  "get_webhook_certificate q =
     (case sq_file ''certificate'' q of
        Some f \<Rightarrow> Some f
      | None \<Rightarrow>
          (let attach_name = sq_arg ''certificate'' q
           in if begins_with attach_name ''attach://'' then sq_file (drop (length ''attach://'') attach_name) q else None))"

definition get_webhook_certificate_path :: "upd_params \<Rightarrow> string" where
  "get_webhook_certificate_path p = up_dir p @ ''cert.pem''"

definition get_webhook_max_connections :: "upd_params \<Rightarrow> server_query \<Rightarrow> int" where
  "get_webhook_max_connections p q =
     get_integer_arg q ''max_connections'' (up_default_max_connections p) 1 (if up_local_mode p then 100000 else 100)"

definition get_webhook_fix_ip_address :: "server_query \<Rightarrow> bool" where
  "get_webhook_fix_ip_address q =
     (if sq_is_internal q then sq_has_arg ''fix_ip_address'' q else sq_arg ''ip_address'' q \<noteq> [])"

section \<open>Failing queries\<close>

definition fail_query_conflict :: "'s upd_env \<Rightarrow> string \<Rightarrow> server_query \<Rightarrow> 's upd_client \<Rightarrow> 's upd_client" where
  "fail_query_conflict env message q s =
     (if ue_cached env \<ge> cu_next_conflict_time s
      then (cu_send (Failed (sq_id q) 409 message) s)\<lparr>cu_next_conflict_time := ue_cached env + 3\<rparr>
      else cu_send (DelayedConflict (sq_id q) message) s)"

definition closing_view :: "'s upd_client \<Rightarrow> client_streams" where
  "closing_view s =
     \<lparr>cs_local_mode = False, cs_was_authorized = True, cs_closing = cu_closing s, cs_logging_out = cu_logging_out s,
      cs_is_api_id_invalid = cu_is_api_id_invalid s, cs_next_authorization_time = cu_next_authorization_time s,
      cs_clear_tqueue = cu_clear_tqueue s, cs_active = {}, cs_pending = [], cs_listeners = Map.empty,
      cs_download_listeners = Map.empty, cs_download_started = {}, cs_log = []\<rparr>"

text \<open>\<^verbatim>\<open>fail_query_closing\<close>; the error of the code 429 is the one with a time to wait.\<close>

definition fail_query_closing :: "'s upd_env \<Rightarrow> server_query \<Rightarrow> 's upd_client \<Rightarrow> 's upd_client checked" where
  "fail_query_closing env q s =
     check (cu_stopping s)
       (let error = get_closing_error (ue_now env) (closing_view s)
        in Checked (if status_code error = 429
                    then cu_send (RetryAfter (sq_id q) (max \<lfloor>cu_next_authorization_time s - ue_now env\<rfloor> 0 + 1)) s
                    else cu_send (Failed (sq_id q) (status_code error) (status_message error)) s))"

definition abort_long_poll :: "'s upd_env \<Rightarrow> bool \<Rightarrow> 's upd_client \<Rightarrow> 's upd_client" where
  "abort_long_poll env from_set_webhook s =
     (case cu_long_poll_query s of
        None \<Rightarrow> s
      | Some q \<Rightarrow>
          fail_query_conflict env
            (if from_set_webhook then ''Conflict: terminated by setWebhook request''
             else ''Conflict: terminated by other getUpdates request; make sure that only one bot instance is running'')
            q (s\<lparr>cu_long_poll_query := None\<rparr>))"

section \<open>Long polling\<close>

text \<open>\<^verbatim>\<open>JsonUpdates\<close>: the updates are written until about four megabytes are filled.\<close>

fun written_updates :: "int \<Rightarrow> tq_event list \<Rightarrow> tq_event list" where
  "written_updates left_len [] = []"
| "written_updates left_len (u # us) =
     (let left = left_len - (50 + int (length (te_data u)))
      in if left \<le> 0 then [] else u # written_updates left us)"

definition get_pending_update_count :: "upd_params \<Rightarrow> 's upd_client \<Rightarrow> nat" where
  "get_pending_update_count p s = get_size (up_tqueue_id p) (cu_tqueue s)"

text \<open>
  The part of \<^verbatim>\<open>do_get_updates\<close> that reads the queue: the total number of pending updates, the updates, the offset it
  ends with and the queue.  \<^verbatim>\<open>-offset\<close> is computed in \<^verbatim>\<open>int32\<close> and converted to \<^verbatim>\<open>size_t\<close>.
\<close>

definition negated_offset :: "int \<Rightarrow> nat" where
  "negated_offset offset = (if offset = int32_min then 2 ^ 64 - 2 ^ 31 else nat (- offset))"

definition read_pending ::
  "upd_params \<Rightarrow> 's upd_env \<Rightarrow> int \<Rightarrow> nat \<Rightarrow> 's tqueue \<Rightarrow> ((nat \<times> tq_event list) \<times> int \<times> 's tqueue) checked" where
  "read_pending p env offset0 limit tq0 =
     (let tq = (if offset0 < 0 then snd (tq_clear (ue_ops env) (up_tqueue_id p) (negated_offset offset0) tq0) else tq0);
          offset = (if offset0 \<le> 0 then get_head (up_tqueue_id p) tq else offset0);
          get = (\<lambda>from. tq_get (ue_ops env) (up_tqueue_id p) from True (ue_unix_time env) limit)
      in if offset \<le> 0 then Checked ((0, []), offset, tq)
         else (let first = (case from_int32 offset of
                  Inl e \<Rightarrow> Checked (Inl e, tq)
                | Inr from \<Rightarrow> get from tq)
               in and_then first (\<lambda>(r, tq1).
                    case r of
                      Inr x \<Rightarrow> Checked (x, offset, tq1)
                    | Inl _ \<Rightarrow>
                        and_then (get (get_head (up_tqueue_id p) tq1) tq1) (\<lambda>(r2, tq2).
                          case r2 of Inl _ \<Rightarrow> CheckFailed | Inr x \<Rightarrow> Checked (x, offset, tq2)))))"

text \<open>The bookkeeping of the number of pending updates.\<close>

definition next_pending_count :: "nat \<Rightarrow> nat \<Rightarrow> nat" where
  "next_pending_count n c =
     (if n \<le> MIN_PENDING_UPDATES_WARNING div 2
      then (if c > MIN_PENDING_UPDATES_WARNING then MIN_PENDING_UPDATES_WARNING else c)
      else if n \<ge> c then double_until n c else c)"

definition do_get_updates ::
  "upd_params \<Rightarrow> 's upd_env \<Rightarrow> int \<Rightarrow> int \<Rightarrow> int \<Rightarrow> server_query \<Rightarrow> 's upd_client \<Rightarrow> 's upd_client checked" where
  "do_get_updates p env offset0 limit timeout q s0 =
     and_then (read_pending p env offset0 (min TQUEUE_EVENT_BUFFER_SIZE (nat limit)) (cu_tqueue s0))
       (\<lambda>((total, updates), offset, tq).
          check (total \<ge> length updates)
            (let total_size = total - length updates;
                 s1 = s0\<lparr>cu_tqueue := tq, cu_last_pending_count := next_pending_count total_size (cu_last_pending_count s0)\<rparr>
             in if timeout \<noteq> 0 \<and> updates = []
                then Checked ((abort_long_poll env False s1)
                       \<lparr>cu_long_poll_offset := offset, cu_long_poll_limit := limit, cu_long_poll_query := Some q,
                        cu_long_poll_was_wakeup := False, cu_long_poll_hard_timeout := ue_cached env + of_int timeout,
                        cu_long_poll_slot := Some (ue_cached env + of_int timeout)\<rparr>)
                else (let s2 = s1\<lparr>cu_previous_finish_time := ue_now env,
                                  cu_next_warning_time := ue_now env + BOT_UPDATES_WARNING_DELAY\<rparr>;
                          s3 = (if total_size = length updates \<and> cu_was_warning s2
                                then (cu_request (SetBotUpdatesStatus 0 []) s2)\<lparr>cu_was_warning := False\<rparr> else s2)
                      in Checked (cu_send (AnswerUpdates (sq_id q) (written_updates 4194304 updates)) s3))))"

text \<open>The warning sent to TDLib when updates pile up.\<close>

definition pending_warning :: "upd_params \<Rightarrow> 's upd_env \<Rightarrow> string \<Rightarrow> 's upd_client \<Rightarrow> 's upd_client" where
  "pending_warning p env message s =
     (let n = get_pending_update_count p s
      in if n \<ge> MIN_PENDING_UPDATES_WARNING \<and> ue_now env > cu_next_warning_time s
         then (cu_request (SetBotUpdatesStatus (int n) message) s)
                \<lparr>cu_next_warning_time := ue_cached env + BOT_UPDATES_WARNING_DELAY, cu_was_warning := True\<rparr>
         else s)"

definition long_poll_wakeup :: "upd_params \<Rightarrow> 's upd_env \<Rightarrow> bool \<Rightarrow> 's upd_client \<Rightarrow> 's upd_client checked" where
  "long_poll_wakeup p env force_flag s =
     (case cu_long_poll_query s of
        None \<Rightarrow> Checked (pending_warning p env ''The getUpdates method is not called for too long'' s)
      | Some q \<Rightarrow>
          (if force_flag
           then do_get_updates p env (cu_long_poll_offset s) (cu_long_poll_limit s) 0 q (s\<lparr>cu_long_poll_query := None\<rparr>)
           else (let now = ue_now env;
                     s1 = (if \<not> cu_long_poll_was_wakeup s
                           then s\<lparr>cu_long_poll_hard_timeout := min (now + LONG_POLL_MAX_DELAY) (cu_long_poll_hard_timeout s),
                                  cu_long_poll_was_wakeup := True\<rparr>
                           else s)
                 in Checked (s1\<lparr>cu_long_poll_slot := Some (min (now + LONG_POLL_WAIT_AFTER) (cu_long_poll_hard_timeout s1))\<rparr>))))"

text \<open>\<^verbatim>\<open>raw_event\<close>: the slot of the long poll expired.\<close>

definition raw_event_expired :: "upd_params \<Rightarrow> 's upd_env \<Rightarrow> 's upd_client \<Rightarrow> 's upd_client checked" where
  "raw_event_expired p env s = long_poll_wakeup p env True (s\<lparr>cu_long_poll_slot := None\<rparr>)"

definition process_get_updates_query ::
  "upd_params \<Rightarrow> 's upd_env \<Rightarrow> server_query \<Rightarrow> 's upd_client \<Rightarrow> 's upd_client checked" where
  "process_get_updates_query p env q s =
     (if cu_url s \<noteq> [] \<or> cu_set_query s \<noteq> None \<or> cu_active_query s \<noteq> None
      then Checked (fail_query_conflict env
             (''Conflict: can'' @ [CHR 0x27] @ ''t use getUpdates method while webhook is active; '' @
              ''use deleteWebhook to delete the webhook first'') q s)
      else (let offset = get_integer_arg q ''offset'' 0 int32_min int32_max;
                limit0 = get_integer_arg q ''limit'' 100 1 100;
                timeout0 = get_integer_arg q ''timeout'' 0 0 LONG_POLL_MAX_TIMEOUT;
                s1 = snd (update_allowed_update_types q s);
                now = ue_cached env;
                timeout = (if offset = cu_previous_offset s1 \<and> timeout0 < 3 \<and> now < cu_previous_start_time s1 + 3
                           then 3 else timeout0);
                limit = (if offset = cu_previous_offset s1 \<and> now < cu_previous_start_time s1 + 1 / 2 then 1 else limit0)
            in do_get_updates p env offset limit timeout q
                 (s1\<lparr>cu_previous_offset := offset, cu_previous_start_time := now\<rparr>)))"

section \<open>Setting a webhook\<close>

definition save_webhook_db :: "'s upd_client \<Rightarrow> 's upd_client" where
  "save_webhook_db s = cu_send (DbSet (save_webhook DEFAULT_ALLOWED_UPDATE_TYPES (cu_webhook s))) s"

definition clear_tqueue :: "upd_params \<Rightarrow> 's upd_env \<Rightarrow> 's upd_client \<Rightarrow> 's upd_client checked" where
  "clear_tqueue p env s =
     check (cu_webhook_id s = None)
       (Checked (s\<lparr>cu_tqueue := snd (tq_clear (ue_ops env) (up_tqueue_id p) 0 (cu_tqueue s))\<rparr>))"

definition finish_set_webhook :: "upd_params \<Rightarrow> 's upd_env \<Rightarrow> server_query \<Rightarrow> 's upd_client \<Rightarrow> 's upd_client checked" where
  "finish_set_webhook p env q s =
     check (cu_active_query s = None) (check (cu_set_query s = None) (check (cu_url s = [])
       (if cu_stopping s then fail_query_closing env q s
        else (let new_url = sq_arg ''url'' q
              in check (new_url \<noteq> [])
                   (let w = (cu_webhook s)\<lparr>wh_url := new_url, wh_max_connections := get_webhook_max_connections p q,
                              wh_secret_token := sq_arg ''secret_token'' q, webhook_settings.wh_ip_address := sq_arg ''ip_address'' q,
                              wh_fix_ip_address := get_webhook_fix_ip_address q\<rparr>;
                        s1 = snd (update_allowed_update_types q
                               (s\<lparr>cu_webhook := w, cu_webhook_set_time := ue_now env, cu_last_error_date := 0,
                                  cu_last_error := None\<rparr>))
                    in and_then (parse_url (ue_inet env) new_url Https) (\<lambda>r.
                         case r of
                           Inl _ \<Rightarrow> CheckFailed
                         | Inr url \<Rightarrow>
                             Checked ((cu_send (WebhookCreate (cu_generation s1) url
                                         (if wh_has_certificate w then get_webhook_certificate_path p else [])
                                         (wh_max_connections w) (sq_is_internal q) (webhook_settings.wh_ip_address w) (wh_fix_ip_address w)
                                         (wh_secret_token w)) s1)
                                        \<lparr>cu_webhook_id := Some (cu_generation s1), cu_query_type := Verify,
                                         cu_set_query := Some q\<rparr>)))))))"

text \<open>The URL a query asks for: only \<^verbatim>\<open>setWebhook\<close> has one, \<^verbatim>\<open>deleteWebhook\<close> runs the same code.\<close>

definition requested_url :: "server_query \<Rightarrow> string" where
  "requested_url q = (if sq_method q = ''setwebhook'' then sq_arg ''url'' q else [])"

definition do_set_webhook :: "upd_params \<Rightarrow> 's upd_env \<Rightarrow> server_query \<Rightarrow> bool \<Rightarrow> 's upd_client \<Rightarrow> 's upd_client checked" where
  "do_set_webhook p env q was_deleted s0 =
     check (cu_url s0 = [])
       (if cu_stopping s0 then fail_query_closing env q s0
        else and_then (if to_bool (sq_arg ''drop_pending_updates'' q) then clear_tqueue p env s0 else Checked s0) (\<lambda>s.
          let new_url = requested_url q
          in if new_url = []
             then Checked (cu_send (AnswerTrue (sq_id q)
                    (if was_deleted then ''Webhook was deleted'' else ''Webhook is already deleted'')) s)
             else and_then (parse_url (ue_inet env) new_url Https) (\<lambda>url.
               if \<not> is_ok url then Checked (cu_send (Failed (sq_id q) 400 ''Bad Request: invalid webhook URL specified'') s)
               else if length (sq_arg ''secret_token'' q) > 256
               then Checked (cu_send (Failed (sq_id q) 400 ''Bad Request: secret token is too long'') s)
               else if \<not> is_base64url_characters (sq_arg ''secret_token'' q)
               then Checked (cu_send (Failed (sq_id q) 400 ''Bad Request: secret token contains unallowed characters'') s)
               else if cu_active_query s \<noteq> None then Checked (cu_send (RetryAfter (sq_id q) 1) s)
               else check (\<not> wh_has_certificate (cu_webhook s))
                 (if sq_is_internal q
                  then finish_set_webhook p env q
                         (s\<lparr>cu_webhook := (cu_webhook s)\<lparr>wh_has_certificate := (sq_arg ''certificate'' q = ''previous'')\<rparr>\<rparr>)
                  else (case get_webhook_certificate q of
                      None \<Rightarrow> finish_set_webhook p env q s
                    | Some file \<Rightarrow>
                        if hf_size file > MAX_CERTIFICATE_FILE_SIZE
                        then Checked (cu_send (Failed (sq_id q) 400
                               (''Bad Request: certificate size is too big ('' @ print_int 64 (hf_size file) @ '' bytes)'')) s)
                        else check (cu_set_query s = None)
                          (Checked (s\<lparr>cu_active_query := Some q,
                              cu_jobs := cu_jobs s @ [CopyCertificate (hf_temp_file_name file)
                                           (get_webhook_certificate_path p) (hf_size file)]\<rparr>)))))))"

definition on_webhook_certificate_copied ::
  "upd_params \<Rightarrow> 's upd_env \<Rightarrow> status option \<Rightarrow> 's upd_client \<Rightarrow> 's upd_client checked" where
  "on_webhook_certificate_copied p env err s =
     (case cu_active_query s of
        None \<Rightarrow> CheckFailed
      | Some q \<Rightarrow>
          (let s1 = s\<lparr>cu_active_query := None\<rparr>
           in if err \<noteq> None
              then Checked (cu_send (Failed (sq_id q) 500 ''Internal Server Error: failed to save certificate'') s1)
              else finish_set_webhook p env q
                     (s1\<lparr>cu_webhook := (cu_webhook s1)\<lparr>wh_has_certificate := True\<rparr>\<rparr>)))"

definition on_webhook_closed :: "upd_params \<Rightarrow> 's upd_env \<Rightarrow> status \<Rightarrow> 's upd_client \<Rightarrow> 's upd_client checked" where
  "on_webhook_closed p env st s =
     (let w = (cu_webhook s)\<lparr>wh_url := [], wh_has_certificate := False, wh_max_connections := 0, webhook_settings.wh_ip_address := [],
                wh_fix_ip_address := False, wh_secret_token := []\<rparr>;
          s1 = cu_send DbErase (s\<lparr>cu_webhook_id := None, cu_webhook := w, cu_webhook_set_time := ue_now env,
                 cu_last_error_date := 0, cu_last_error := None\<rparr>)
      in case cu_set_query s1 of
           None \<Rightarrow> Checked s1
         | Some q \<Rightarrow>
             (let s2 = s1\<lparr>cu_set_query := None\<rparr>
              in if cu_query_type s2 = Verify
                 then Checked (cu_send (Failed (sq_id q) 400 (''Bad Request: bad webhook: '' @ status_message st)) s2)
                 else do_set_webhook p env q True s2))"

definition webhook_closed :: "upd_params \<Rightarrow> 's upd_env \<Rightarrow> status \<Rightarrow> 's upd_client \<Rightarrow> 's upd_client checked" where
  "webhook_closed p env st s =
     (if wh_has_certificate (cu_webhook s)
      then Checked (s\<lparr>cu_jobs := cu_jobs s @ [UnlinkCertificate (get_webhook_certificate_path p) st]\<rparr>)
      else on_webhook_closed p env st s)"

definition cu_hangup_shared :: "upd_params \<Rightarrow> 's upd_env \<Rightarrow> 's upd_client \<Rightarrow> 's upd_client checked" where
  "cu_hangup_shared p env s = webhook_closed p env (Status 0 ''Unknown'') s"

definition webhook_verified :: "nat \<Rightarrow> string \<Rightarrow> 's upd_client \<Rightarrow> 's upd_client" where
  "webhook_verified token cached_ip_address s =
     (if token \<noteq> cu_generation s then s
      else (let need_save = (cu_set_query s \<noteq> None \<or> cached_ip_address \<noteq> webhook_settings.wh_ip_address (cu_webhook s));
                s1 = s\<lparr>cu_webhook := (cu_webhook s)\<lparr>webhook_settings.wh_ip_address := cached_ip_address\<rparr>\<rparr>;
                s2 = (case cu_set_query s1 of
                        None \<Rightarrow> s1
                      | Some q \<Rightarrow> cu_send (AnswerTrue (sq_id q) ''Webhook was set'') (s1\<lparr>cu_set_query := None\<rparr>))
            in if need_save then save_webhook_db s2 else s2))"

definition webhook_success :: "'s upd_env \<Rightarrow> 's upd_client \<Rightarrow> 's upd_client" where
  "webhook_success env s =
     (let s1 = s\<lparr>cu_next_warning_time := ue_now env + BOT_UPDATES_WARNING_DELAY\<rparr>
      in if cu_was_warning s1 then (cu_request (SetBotUpdatesStatus 0 []) s1)\<lparr>cu_was_warning := False\<rparr> else s1)"

definition webhook_error :: "upd_params \<Rightarrow> 's upd_env \<Rightarrow> status \<Rightarrow> 's upd_client \<Rightarrow> 's upd_client" where
  "webhook_error p env st s =
     pending_warning p env (''Webhook error. '' @ status_message st)
       (s\<lparr>cu_last_error_date := ue_unix_time env, cu_last_error := Some st\<rparr>)"

text \<open>The test whether a query changes nothing.\<close>

definition is_not_modified :: "upd_params \<Rightarrow> server_query \<Rightarrow> 's upd_client \<Rightarrow> bool" where
  "is_not_modified p q s \<longleftrightarrow>
     (let new_url = requested_url q; w = cu_webhook s;
          new_has_certificate = (new_url \<noteq> [] \<and> (get_webhook_certificate q \<noteq> None \<or>
            sq_is_internal q \<and> sq_arg ''certificate'' q = ''previous''));
          new_fix_ip_address = (new_url \<noteq> [] \<and> get_webhook_fix_ip_address q)
      in wh_url w = new_url \<and> \<not> wh_has_certificate w \<and> \<not> new_has_certificate \<and>
         (if new_url = [] then 0 else get_webhook_max_connections p q) = wh_max_connections w \<and>
         new_fix_ip_address = wh_fix_ip_address w \<and>
         (if new_url = [] then [] else sq_arg ''secret_token'' q) = wh_secret_token w \<and>
         (\<not> new_fix_ip_address \<or> (if new_url = [] then [] else sq_arg ''ip_address'' q) = webhook_settings.wh_ip_address w) \<and>
         \<not> to_bool (sq_arg ''drop_pending_updates'' q))"

definition answer_not_modified :: "'s upd_env \<Rightarrow> server_query \<Rightarrow> 's upd_client \<Rightarrow> 's upd_client" where
  "answer_not_modified env q s =
     (let (changed, s1) = update_allowed_update_types q s;
          s2 = (if changed then save_webhook_db s1
                else if ue_cached env > cu_next_not_modified_time s1
                then s1\<lparr>cu_next_not_modified_time := ue_cached env + 300\<rparr> else s1)
      in cu_send (AnswerTrue (sq_id q) (if requested_url q = [] then ''Webhook is already deleted'' else ''Webhook is already set'')) s2)"

text \<open>What follows when the query is to be carried out: the old webhook is closed first.\<close>

definition change_webhook :: "upd_params \<Rightarrow> 's upd_env \<Rightarrow> server_query \<Rightarrow> 's upd_client \<Rightarrow> 's upd_client checked" where
  "change_webhook p env q s0 =
     (let s1 = (if ue_cached env > cu_next_logging_time s0 \<or> cu_url s0 \<noteq> requested_url q
                then s0\<lparr>cu_next_logging_time := ue_cached env + 300\<rparr> else s0);
          s2 = (if requested_url q \<noteq> [] then abort_long_poll env True s1 else s1);
          s3 = s2\<lparr>cu_generation := cu_generation s2 + 1\<rparr>
      in if cu_url s3 \<noteq> []
         then (let s4 = (case cu_webhook_id s3 of
                           None \<Rightarrow> s3
                         | Some gen \<Rightarrow> cu_send (WebhookClose gen) (s3\<lparr>cu_webhook_id := None\<rparr>))
               in check (cu_active_query s4 = None) (Checked (s4\<lparr>cu_query_type := Cancel, cu_set_query := Some q\<rparr>)))
         else do_set_webhook p env q False s3)"

definition process_set_webhook_query ::
  "upd_params \<Rightarrow> 's upd_env \<Rightarrow> server_query \<Rightarrow> 's upd_client \<Rightarrow> 's upd_client checked" where
  "process_set_webhook_query p env q s0 =
     (let now = ue_cached env; limited = (requested_url q \<noteq> [] \<and> \<not> sq_is_internal q)
      in if limited \<and> now < cu_next_set_webhook_time s0 then Checked (cu_send (RetryAfter (sq_id q) 1) s0)
         else (let s1 = (if limited then s0\<lparr>cu_next_set_webhook_time := now + 1\<rparr> else s0);
                   s = s1\<lparr>cu_next_warning_time := max (cu_next_warning_time s1) (now + BOT_UPDATES_WARNING_DELAY)\<rparr>
               in case cu_set_query s of
                    Some old \<Rightarrow>
                      change_webhook p env q (fail_query_conflict env ''Conflict: terminated by other setWebhook'' old
                        (s\<lparr>cu_set_query := None\<rparr>))
                  | None \<Rightarrow>
                      (if cu_active_query s \<noteq> None then Checked (cu_send (RetryAfter (sq_id q) 1) s)
                       else if is_not_modified p q s then Checked (answer_not_modified env q s)
                       else change_webhook p env q s)))"

section \<open>Updates, commands and closing\<close>

text \<open>
  \<^verbatim>\<open>add_update_impl\<close> for an update of the type \<open>ty\<close> whose JSON text is \<open>json\<close>; \<open>None\<close> stands for a loop of the queue
  that does not end.
\<close>

definition add_update_impl ::
  "upd_params \<Rightarrow> 's upd_env \<Rightarrow> nat \<Rightarrow> string \<Rightarrow> int \<Rightarrow> int \<Rightarrow> 's upd_client \<Rightarrow> 's upd_client checked option" where
  "add_update_impl p env ty json timeout webhook_queue_id s =
     (if \<not> bit (wh_allowed_update_types (cu_webhook s)) ty then Some (Checked s)
      else (case tq_push (ue_ops env) (ue_random env) (up_tqueue_id p)
                   (quoted (update_type_names ! ty) @ '':'' @ json) (ue_unix_time env + timeout) webhook_queue_id 0 (cu_tqueue s) of
        None \<Rightarrow> None
      | Some CheckFailed \<Rightarrow> Some CheckFailed
      | Some (Checked (r, tq)) \<Rightarrow>
          (let s1 = s\<lparr>cu_tqueue := tq\<rparr>
           in Some (if \<not> is_ok r then Checked s1
                    else if cu_url s1 = [] then long_poll_wakeup p env False s1
                    else Checked (cu_send (WebhookUpdate (cu_webhook_id s1)) s1)))))"

text \<open>\<^verbatim>\<open>on_cmd\<close> for the methods of this theory.\<close>

definition on_updates_cmd :: "upd_params \<Rightarrow> 's upd_env \<Rightarrow> server_query \<Rightarrow> 's upd_client \<Rightarrow> 's upd_client checked" where
  "on_updates_cmd p env q s =
     (if cu_stopping s then fail_query_closing env q s
      else if sq_method q = ''getupdates'' then process_get_updates_query p env q s
      else process_set_webhook_query p env q s)"

text \<open>The part of \<^verbatim>\<open>on_closed\<close> that is about updates and webhooks.\<close>

definition fail_held :: "'s upd_env \<Rightarrow> server_query option \<Rightarrow> 's upd_client \<Rightarrow> 's upd_client checked" where
  "fail_held env q s = (case q of None \<Rightarrow> Checked s | Some q \<Rightarrow> fail_query_closing env q s)"

definition on_closed :: "upd_params \<Rightarrow> 's upd_env \<Rightarrow> 's upd_client \<Rightarrow> 's upd_client checked" where
  "on_closed p env s0 =
     check (cu_stopping s0) (check (cu_td_open s0)
       (and_then (fail_held env (cu_set_query s0) (s0\<lparr>cu_td_open := False, cu_set_query := None\<rparr>)) (\<lambda>s1.
        and_then (fail_held env (cu_active_query s1) (s1\<lparr>cu_active_query := None\<rparr>)) (\<lambda>s2.
          let s3 = (if cu_url s2 \<noteq> []
                    then (case cu_webhook_id s2 of
                            None \<Rightarrow> s2
                          | Some gen \<Rightarrow> cu_send (WebhookHangup gen) (s2\<lparr>cu_webhook_id := None\<rparr>))
                    else s2)
          in and_then (if cu_long_poll_query s3 \<noteq> None then long_poll_wakeup p env True s3 else Checked s3) (\<lambda>s4.
               check (cu_long_poll_query s4 = None)
                 (Checked (if cu_logging_out s4 then cu_send DbErase s4 else s4)))))))"

definition finish_closing :: "upd_params \<Rightarrow> 's upd_env \<Rightarrow> 's upd_client \<Rightarrow> 's upd_client checked" where
  "finish_closing p env s =
     (if cu_clear_tqueue s \<and> cu_logging_out s then clear_tqueue p env s else Checked s)"

text \<open>A job of the scheduler has ended; it is taken off the list and its message is handled.\<close>

definition remove_nth :: "nat \<Rightarrow> 'a list \<Rightarrow> 'a list" where
  "remove_nth i xs = take i xs @ drop (Suc i) xs"

definition job_done :: "upd_params \<Rightarrow> 's upd_env \<Rightarrow> nat \<Rightarrow> status option \<Rightarrow> 's upd_client \<Rightarrow> 's upd_client checked" where
  "job_done p env i err s =
     (let s1 = s\<lparr>cu_jobs := remove_nth i (cu_jobs s)\<rparr>
      in case cu_jobs s ! i of
           CopyCertificate _ _ _ \<Rightarrow> on_webhook_certificate_copied p env err s1
         | UnlinkCertificate _ st \<Rightarrow> on_webhook_closed p env st s1)"

end
