(* ===== verification/ClientUpdatesInv.thy ===== *)
theory ClientUpdatesInv
  imports ClientUpdates
begin

text \<open>
  The invariant of the updates and the webhook of a client, and that every handler returns, keeps the invariant and
  loses or answers no query twice.
\<close>

section \<open>Reading the queue\<close>

lemma parse_url_total: "\<exists>r. parse_url os url d = Checked r"
proof -
  have v6: "is_ipv6 a" if "init_ipv6_port os h n = Inr a" for h n a
    using that by (auto simp: init_ipv6_port_def get_ipv6_address_def is_ipv6_def Let_def split: if_splits sum.splits option.splits)
  then have "\<exists>r. finish_url os p u h n q = Checked r" for p u h n q
    by (cases "init_ipv6_port os h 1") (auto simp: finish_url_def Let_def split: sum.splits)
  then show ?thesis by (auto simp: parse_url_def Let_def split: sum.splits prod.splits)
qed

lemma read_pending_ok:
  assumes "tq_inv tq"
  shows "\<exists>m us off tq'. read_pending p env offset limit tq = Checked ((m, us), off, tq') \<and> tq_inv tq' \<and>
    length us \<le> m \<and> length us \<le> limit"
proof -
  define tq0 where "tq0 = (if offset < 0 then snd (tq_clear (ue_ops env) (up_tqueue_id p) (negated_offset offset) tq) else tq)"
  define off where "off = (if offset \<le> 0 then get_head (up_tqueue_id p) tq0 else offset)"
  let ?get = "\<lambda>from. tq_get (ue_ops env) (up_tqueue_id p) from True (ue_unix_time env) limit"
  have inv: "tq_inv tq0" using assms by (simp add: tq0_def clear_inv)
  have g: "\<exists>r tq'. ?get from t = Checked (r, tq') \<and> tq_inv tq' \<and> (\<forall>m got. r = Ok (m, got) \<longrightarrow> length got \<le> m \<and> length got \<le> limit)"
    if "tq_inv t" for "from" t
    using tq_get_effect [OF that, of "ue_ops env" "up_tqueue_id p" "from" True "ue_unix_time env" limit] by auto
  show ?thesis
  proof (cases "off \<le> 0")
    case True
    then show ?thesis using inv by (simp add: read_pending_def Let_def tq0_def [symmetric] off_def [symmetric])
  next
    case False
    define first where "first = (case from_int32 off of Inl e \<Rightarrow> Checked (Inl e, tq0) | Inr from \<Rightarrow> ?get from tq0)"
    obtain r tq1 where f: "first = Checked (r, tq1)" "tq_inv tq1"
      "\<forall>m got. r = Ok (m, got) \<longrightarrow> length got \<le> m \<and> length got \<le> limit"
    proof (cases "from_int32 off")
      case (Inl e)
      then show ?thesis using that [of "Inl e" tq0] inv by (simp add: first_def)
    next
      case (Inr b)
      then show ?thesis using that g [OF inv, of b] by (auto simp: first_def)
    qed
    obtain r2 tq2 where h: "?get (get_head (up_tqueue_id p) tq1) tq1 = Checked (r2, tq2)" "tq_inv tq2"
      "\<forall>m got. r2 = Ok (m, got) \<longrightarrow> length got \<le> m \<and> length got \<le> limit"
      using g [OF f(2)] by blast
    have ok: "is_ok r2" using get_from_head [OF f(2) h(1)] .
    have eq: "read_pending p env offset limit tq =
        (case r of Inr x \<Rightarrow> Checked (x, off, tq1) | Inl _ \<Rightarrow> (case r2 of Inl _ \<Rightarrow> CheckFailed | Inr x \<Rightarrow> Checked (x, off, tq2)))"
      unfolding read_pending_def Let_def tq0_def [symmetric] off_def [symmetric] first_def [symmetric]
      using False f(1) h(1) by (cases r) simp_all
    show ?thesis using eq f h ok by (cases r; cases r2) auto
  qed
qed

section \<open>Queries are answered once\<close>

fun answers_to :: "nat \<Rightarrow> upd_msg \<Rightarrow> bool" where
  "answers_to i (AnswerTrue j _) = (i = j)"
| "answers_to i (AnswerUpdates j _) = (i = j)"
| "answers_to i (Failed j _ _) = (i = j)"
| "answers_to i (RetryAfter j _) = (i = j)"
| "answers_to i (DelayedConflict j _) = (i = j)"
| "answers_to i _ = False"

definition owes :: "nat \<Rightarrow> server_query \<Rightarrow> nat" where
  "owes i q = (if sq_id q = i then 1 else 0)"

definition owes_held :: "nat \<Rightarrow> server_query option \<Rightarrow> nat" where
  "owes_held i h = (case h of None \<Rightarrow> 0 | Some q \<Rightarrow> owes i q)"

text \<open>The answers to the query \<open>i\<close> so far, and whether it is held.\<close>

definition account :: "nat \<Rightarrow> 's upd_client \<Rightarrow> nat" where
  "account i s = length (filter (answers_to i) (cu_log s)) + owes_held i (cu_set_query s) +
     owes_held i (cu_active_query s) + owes_held i (cu_long_poll_query s)"

lemma owes_held_simps [simp]: "owes_held i None = 0" "owes_held i (Some q) = owes i q"
  by (simp_all add: owes_held_def)

text \<open>The tokens of the webhook actors created so far.\<close>

fun create_token :: "upd_msg \<Rightarrow> nat option" where
  "create_token (WebhookCreate g _ _ _ _ _ _ _) = Some g"
| "create_token _ = None"

definition created :: "'s upd_client \<Rightarrow> nat list" where
  "created s = List.map_filter create_token (cu_log s)"

lemma created_append [simp]:
  "List.map_filter f (xs @ [x]) = List.map_filter f xs @ (case f x of None \<Rightarrow> [] | Some y \<Rightarrow> [y])"
  by (simp add: map_filter_def split: option.split)

lemma created_frame [simp]:
  "created (s\<lparr>cu_tqueue := x1\<rparr>) = created s"
  "created (s\<lparr>cu_webhook := x2\<rparr>) = created s"
  "created (s\<lparr>cu_webhook_id := x3\<rparr>) = created s"
  "created (s\<lparr>cu_generation := x4\<rparr>) = created s"
  "created (s\<lparr>cu_query_type := x5\<rparr>) = created s"
  "created (s\<lparr>cu_set_query := x6\<rparr>) = created s"
  "created (s\<lparr>cu_active_query := x7\<rparr>) = created s"
  "created (s\<lparr>cu_webhook_set_time := x8\<rparr>) = created s"
  "created (s\<lparr>cu_last_error_date := x9\<rparr>) = created s"
  "created (s\<lparr>cu_last_error := x10\<rparr>) = created s"
  "created (s\<lparr>cu_long_poll_query := x11\<rparr>) = created s"
  "created (s\<lparr>cu_long_poll_offset := x12\<rparr>) = created s"
  "created (s\<lparr>cu_long_poll_limit := x13\<rparr>) = created s"
  "created (s\<lparr>cu_long_poll_was_wakeup := x14\<rparr>) = created s"
  "created (s\<lparr>cu_long_poll_hard_timeout := x15\<rparr>) = created s"
  "created (s\<lparr>cu_long_poll_slot := x16\<rparr>) = created s"
  "created (s\<lparr>cu_previous_offset := x17\<rparr>) = created s"
  "created (s\<lparr>cu_previous_start_time := x18\<rparr>) = created s"
  "created (s\<lparr>cu_previous_finish_time := x19\<rparr>) = created s"
  "created (s\<lparr>cu_next_conflict_time := x20\<rparr>) = created s"
  "created (s\<lparr>cu_next_set_webhook_time := x21\<rparr>) = created s"
  "created (s\<lparr>cu_next_logging_time := x22\<rparr>) = created s"
  "created (s\<lparr>cu_next_not_modified_time := x23\<rparr>) = created s"
  "created (s\<lparr>cu_next_warning_time := x24\<rparr>) = created s"
  "created (s\<lparr>cu_last_pending_count := x25\<rparr>) = created s"
  "created (s\<lparr>cu_was_warning := x26\<rparr>) = created s"
  "created (s\<lparr>cu_logging_out := x27\<rparr>) = created s"
  "created (s\<lparr>cu_closing := x28\<rparr>) = created s"
  "created (s\<lparr>cu_is_api_id_invalid := x29\<rparr>) = created s"
  "created (s\<lparr>cu_next_authorization_time := x30\<rparr>) = created s"
  "created (s\<lparr>cu_clear_tqueue := x31\<rparr>) = created s"
  "created (s\<lparr>cu_td_open := x32\<rparr>) = created s"
  "created (s\<lparr>cu_jobs := x33\<rparr>) = created s"
  by (simp_all add: created_def)

lemma created_sent [simp]: "created (cu_send m s) = created s @ (case create_token m of None \<Rightarrow> [] | Some g \<Rightarrow> [g])"
  by (simp add: created_def cu_send_def map_filter_def split: option.split)

lemma cu_send_frame:
  "cu_tqueue (cu_send m s) = cu_tqueue s"
  "cu_webhook (cu_send m s) = cu_webhook s"
  "cu_webhook_id (cu_send m s) = cu_webhook_id s"
  "cu_generation (cu_send m s) = cu_generation s"
  "cu_query_type (cu_send m s) = cu_query_type s"
  "cu_set_query (cu_send m s) = cu_set_query s"
  "cu_active_query (cu_send m s) = cu_active_query s"
  "cu_webhook_set_time (cu_send m s) = cu_webhook_set_time s"
  "cu_last_error_date (cu_send m s) = cu_last_error_date s"
  "cu_last_error (cu_send m s) = cu_last_error s"
  "cu_long_poll_query (cu_send m s) = cu_long_poll_query s"
  "cu_long_poll_offset (cu_send m s) = cu_long_poll_offset s"
  "cu_long_poll_limit (cu_send m s) = cu_long_poll_limit s"
  "cu_long_poll_was_wakeup (cu_send m s) = cu_long_poll_was_wakeup s"
  "cu_long_poll_hard_timeout (cu_send m s) = cu_long_poll_hard_timeout s"
  "cu_long_poll_slot (cu_send m s) = cu_long_poll_slot s"
  "cu_previous_offset (cu_send m s) = cu_previous_offset s"
  "cu_previous_start_time (cu_send m s) = cu_previous_start_time s"
  "cu_previous_finish_time (cu_send m s) = cu_previous_finish_time s"
  "cu_next_conflict_time (cu_send m s) = cu_next_conflict_time s"
  "cu_next_set_webhook_time (cu_send m s) = cu_next_set_webhook_time s"
  "cu_next_logging_time (cu_send m s) = cu_next_logging_time s"
  "cu_next_not_modified_time (cu_send m s) = cu_next_not_modified_time s"
  "cu_next_warning_time (cu_send m s) = cu_next_warning_time s"
  "cu_last_pending_count (cu_send m s) = cu_last_pending_count s"
  "cu_was_warning (cu_send m s) = cu_was_warning s"
  "cu_logging_out (cu_send m s) = cu_logging_out s"
  "cu_closing (cu_send m s) = cu_closing s"
  "cu_is_api_id_invalid (cu_send m s) = cu_is_api_id_invalid s"
  "cu_next_authorization_time (cu_send m s) = cu_next_authorization_time s"
  "cu_clear_tqueue (cu_send m s) = cu_clear_tqueue s"
  "cu_td_open (cu_send m s) = cu_td_open s"
  "cu_jobs (cu_send m s) = cu_jobs s"
  "cu_log (cu_send m s) = cu_log s @ [m]"
  "cu_stopping (cu_send m s) = cu_stopping s"
  by (simp_all add: cu_send_def cu_stopping_def)

lemma answer_creates_nothing: "answers_to i m \<Longrightarrow> create_token m = None"
  by (cases m) auto

definition is_copy :: "cert_job \<Rightarrow> bool" where
  "is_copy j = (case j of CopyCertificate _ _ _ \<Rightarrow> True | _ \<Rightarrow> False)"

definition acceptable :: "inet \<Rightarrow> server_query \<Rightarrow> bool" where
  "acceptable os q \<longleftrightarrow> requested_url q \<noteq> [] \<and> (\<exists>u. parse_url os (requested_url q) Https = Checked (Ok u))"

definition tokens_ok ::
  "server_query option \<Rightarrow> webhook_query_type \<Rightarrow> string \<Rightarrow> nat option \<Rightarrow> nat \<Rightarrow> nat list \<Rightarrow> bool" where
  "tokens_ok h ty url wid generation tokens \<longleftrightarrow>
     (\<forall>q. h = Some q \<longrightarrow> ty = Verify \<longrightarrow> url = sq_arg ''url'' q \<and> wid = Some generation) \<and>
     (h \<noteq> None \<longrightarrow> ty = Cancel \<longrightarrow> generation \<notin> set tokens) \<and>
     (\<forall>g \<in> set tokens. g \<le> generation)"

text \<open>
  The invariant.  A query waits for a webhook only while there is one; a certificate is copied only while there is none;
  a long poll and a webhook exclude each other.  A query that waits for the verification waits for the webhook of its own
  URL, which has the current generation; while a query waits for the old webhook to close, no webhook has it.
\<close>

definition upd_inv :: "inet \<Rightarrow> 's upd_client \<Rightarrow> bool" where
  "upd_inv os s \<longleftrightarrow>
     tq_inv (cu_tqueue s) \<and>
     (cu_set_query s \<noteq> None \<longrightarrow> cu_url s \<noteq> []) \<and>
     (cu_webhook_id s \<noteq> None \<longrightarrow> cu_url s \<noteq> []) \<and>
     (\<forall>q. cu_active_query s = Some q \<longrightarrow> cu_url s = [] \<and> \<not> wh_has_certificate (cu_webhook s) \<and> acceptable os q) \<and>
     (cu_long_poll_query s \<noteq> None \<longrightarrow> cu_url s = [] \<and> cu_active_query s = None \<and> cu_long_poll_slot s \<noteq> None) \<and>
     (cu_url s = [] \<longrightarrow> wh_has_certificate (cu_webhook s) \<longrightarrow> cu_stopping s) \<and>
     (\<not> cu_td_open s \<longrightarrow> cu_webhook_id s = None \<and> cu_stopping s) \<and>
     length (filter is_copy (cu_jobs s)) = (if cu_active_query s = None then 0 else 1) \<and>
     tokens_ok (cu_set_query s) (cu_query_type s) (cu_url s) (cu_webhook_id s) (cu_generation s) (created s)"

lemma tokens_ok_None [simp]: "tokens_ok None ty url wid g cs \<longleftrightarrow> (\<forall>c \<in> set cs. c \<le> g)"
  by (auto simp: tokens_ok_def)

lemma tokens_bound: "tokens_ok h ty url wid g cs \<Longrightarrow> c \<in> set cs \<Longrightarrow> c \<le> g"
  by (simp add: tokens_ok_def)

lemma tokens_ok_verify: "tokens_ok None ty url wid g cs \<Longrightarrow> tokens_ok (Some q) Verify (sq_arg ''url'' q) (Some g) g (cs @ [g])"
  by (auto simp: tokens_ok_def)

text \<open>What an operation that was given the query \<open>q\<close> achieves.\<close>

definition settles :: "inet \<Rightarrow> server_query \<Rightarrow> 's upd_client \<Rightarrow> 's upd_client checked \<Rightarrow> bool" where
  "settles os q s r \<longleftrightarrow> (\<exists>s'. r = Checked s' \<and> upd_inv os s' \<and> (\<forall>i. account i s' = account i s + owes i q))"

text \<open>What every other operation achieves.\<close>

definition keeps :: "inet \<Rightarrow> 's upd_client \<Rightarrow> 's upd_client checked \<Rightarrow> bool" where
  "keeps os s r \<longleftrightarrow> (\<exists>s'. r = Checked s' \<and> upd_inv os s' \<and> (\<forall>i. account i s' = account i s))"

lemma settlesI: "r = Checked s' \<Longrightarrow> upd_inv os s' \<Longrightarrow> (\<And>i. account i s' = account i s + owes i q) \<Longrightarrow> settles os q s r"
  by (auto simp: settles_def)

lemma keepsI: "r = Checked s' \<Longrightarrow> upd_inv os s' \<Longrightarrow> (\<And>i. account i s' = account i s) \<Longrightarrow> keeps os s r"
  by (auto simp: keeps_def)

lemma settles_answer:
  assumes "upd_inv os s" "\<And>i. answers_to i m \<longleftrightarrow> sq_id q = i"
  shows "settles os q s (Checked (cu_send m s))"
proof (rule settlesI [OF refl])
  have "create_token m = None" using assms(2) answer_creates_nothing by blast
  then show "upd_inv os (cu_send m s)" using assms(1) by (simp add: upd_inv_def cu_send_def cu_stopping_def created_def)
  show "account i (cu_send m s) = account i s + owes i q" for i
    using assms(2) by (simp add: cu_send_def account_def owes_def)
qed

lemma inv_quiet:
  assumes "upd_inv os s" "\<And>i. \<not> answers_to i m" "create_token m = None"
  shows "upd_inv os (cu_send m s)" "account i (cu_send m s) = account i s"
  using assms by (auto simp: upd_inv_def cu_send_def account_def cu_stopping_def created_def)

lemma request_quiet:
  assumes "upd_inv os s" "\<And>i. \<not> answers_to i m" "create_token m = None"
  shows "upd_inv os (cu_request m s)" "account i (cu_request m s) = account i s"
  using assms inv_quiet [OF assms] by (auto simp: cu_request_def)

lemma conflict_settles:
  assumes "upd_inv os s"
  shows "settles os q s (Checked (fail_query_conflict env m q s))"
  by (rule settlesI [OF refl])
    (use assms in \<open>auto simp: fail_query_conflict_def upd_inv_def cu_send_def account_def owes_def cu_stopping_def created_def\<close>)

lemma closing_settles:
  assumes "upd_inv os s" "cu_stopping s"
  shows "settles os q s (fail_query_closing env q s)"
  using assms by (auto simp: fail_query_closing_def Let_def intro!: settles_answer)

section \<open>Long polling keeps the invariant\<close>

lemma abort_keeps:
  assumes "upd_inv os s"
  shows "upd_inv os (abort_long_poll env b s)" "account i (abort_long_poll env b s) = account i s"
    "cu_long_poll_query (abort_long_poll env b s) = None" "cu_webhook (abort_long_poll env b s) = cu_webhook s"
    "cu_set_query (abort_long_poll env b s) = cu_set_query s"
    "cu_active_query (abort_long_poll env b s) = cu_active_query s"
    "cu_webhook_id (abort_long_poll env b s) = cu_webhook_id s"
    "cu_logging_out (abort_long_poll env b s) = cu_logging_out s" "cu_closing (abort_long_poll env b s) = cu_closing s"
    "cu_td_open (abort_long_poll env b s) = cu_td_open s" "cu_jobs (abort_long_poll env b s) = cu_jobs s"
    "cu_tqueue (abort_long_poll env b s) = cu_tqueue s" "cu_generation (abort_long_poll env b s) = cu_generation s"
    "cu_query_type (abort_long_poll env b s) = cu_query_type s" "created (abort_long_poll env b s) = created s"
  using assms
  by (cases "cu_long_poll_query s";
      auto simp: abort_long_poll_def fail_query_conflict_def cu_send_def account_def owes_def upd_inv_def cu_stopping_def created_def)+

lemma do_get_updates_settles:
  assumes "upd_inv os s" "cu_url s = []" "cu_active_query s = None" 
  shows "settles os q s (do_get_updates p env offset limit timeout q s)"
    "timeout = 0 \<Longrightarrow> cu_long_poll_query s = None \<Longrightarrow>
      (\<exists>s'. do_get_updates p env offset limit timeout q s = Checked s' \<and> cu_long_poll_query s' = None)"
proof -
  obtain m us off tq where r: "read_pending p env offset (min TQUEUE_EVENT_BUFFER_SIZE (nat limit)) (cu_tqueue s) = Checked ((m, us), off, tq)"
    "tq_inv tq" "length us \<le> m"
    using read_pending_ok [of "cu_tqueue s" p env offset] assms(1) unfolding upd_inv_def by blast
  define s1 where "s1 = s\<lparr>cu_tqueue := tq, cu_last_pending_count := next_pending_count (m - length us) (cu_last_pending_count s)\<rparr>"
  have s1: "upd_inv os s1" "account i s1 = account i s" "cu_url s1 = []" "cu_active_query s1 = None" "cu_set_query s1 = None"
    "cu_long_poll_query s1 = cu_long_poll_query s" for i
    using assms r(2) by (auto simp: s1_def upd_inv_def account_def cu_stopping_def created_def)
  define s3 where "s3 = (let s2 = s1\<lparr>cu_previous_finish_time := ue_now env, cu_next_warning_time := ue_now env + BOT_UPDATES_WARNING_DELAY\<rparr>
      in if m - length us = length us \<and> cu_was_warning s2
         then (cu_request (SetBotUpdatesStatus 0 []) s2)\<lparr>cu_was_warning := False\<rparr> else s2)"
  have quiet: "upd_inv os (s1\<lparr>cu_previous_finish_time := a, cu_next_warning_time := b\<rparr>)"
    "account i (s1\<lparr>cu_previous_finish_time := a, cu_next_warning_time := b\<rparr>) = account i s" for a b i
    using s1(1,2) unfolding upd_inv_def account_def cu_stopping_def created_def by simp_all
  have warned: "upd_inv os (t\<lparr>cu_was_warning := False\<rparr>) = upd_inv os t" "account i (t\<lparr>cu_was_warning := False\<rparr>) = account i t" for t i
    unfolding upd_inv_def account_def cu_stopping_def created_def by simp_all
  have s3: "upd_inv os s3" "account i s3 = account i s" "cu_long_poll_query s3 = cu_long_poll_query s" for i
    using request_quiet [OF quiet(1), of "SetBotUpdatesStatus 0 []"] quiet s1(6)
    by (simp_all add: s3_def Let_def warned cu_request_def cu_send_def)
  let ?held = "(abort_long_poll env False s1)\<lparr>cu_long_poll_offset := off, cu_long_poll_limit := limit, cu_long_poll_query := Some q,
      cu_long_poll_was_wakeup := False, cu_long_poll_hard_timeout := ue_cached env + of_int timeout,
      cu_long_poll_slot := Some (ue_cached env + of_int timeout)\<rparr>"
  have eq: "do_get_updates p env offset limit timeout q s =
      (if timeout \<noteq> 0 \<and> us = [] then Checked ?held
       else Checked (cu_send (AnswerUpdates (sq_id q) (written_updates 4194304 us)) s3))"
    using r by (auto simp: do_get_updates_def Let_def s1_def s3_def)
  have "upd_inv os ?held" using abort_keeps [OF s1(1)] s1 by (auto simp: upd_inv_def cu_stopping_def created_def)
  moreover have "account i ?held = account i s + owes i q" for i
    using abort_keeps(2) [OF s1(1), of i env False] abort_keeps(3,5,6) [OF s1(1)] s1(2) [of i] by (simp add: account_def)
  ultimately have "settles os q s (Checked ?held)" by (auto simp: settles_def)
  moreover have "settles os q s (Checked (cu_send (AnswerUpdates (sq_id q) (written_updates 4194304 us)) s3))"
    using settles_answer [OF s3(1), of "AnswerUpdates (sq_id q) (written_updates 4194304 us)" q] s3(2)
    by (auto simp: settles_def)
  ultimately show "settles os q s (do_get_updates p env offset limit timeout q s)" using eq by simp
  show "timeout = 0 \<Longrightarrow> cu_long_poll_query s = None \<Longrightarrow>
      (\<exists>s'. do_get_updates p env offset limit timeout q s = Checked s' \<and> cu_long_poll_query s' = None)"
    using eq s3(3) by (simp add: cu_send_def)
qed

lemma pending_warning_keeps:
  assumes "upd_inv os s"
  shows "upd_inv os (pending_warning p env m s)" "account i (pending_warning p env m s) = account i s"
    "cu_long_poll_query (pending_warning p env m s) = cu_long_poll_query s"
  using assms
  by (auto simp: pending_warning_def Let_def cu_request_def cu_send_def upd_inv_def account_def cu_stopping_def created_def)

lemma release_long_poll:
  assumes "upd_inv os s" "cu_long_poll_query s = Some q"
  shows "upd_inv os (s\<lparr>cu_long_poll_query := None\<rparr>)"
    "account i (s\<lparr>cu_long_poll_query := None\<rparr>) + owes i q = account i s"
    "cu_url s = []" "cu_active_query s = None"
  using assms by (auto simp: upd_inv_def account_def cu_stopping_def created_def)

lemma long_poll_wakeup_keeps:
  assumes "upd_inv os s"
  shows "keeps os s (long_poll_wakeup p env force_flag s)"
    "force_flag \<Longrightarrow> \<exists>s'. long_poll_wakeup p env force_flag s = Checked s' \<and> cu_long_poll_query s' = None"
proof -
  show "keeps os s (long_poll_wakeup p env force_flag s)"
  proof (cases "cu_long_poll_query s")
    case None
    then show ?thesis using pending_warning_keeps [OF assms] by (auto simp: long_poll_wakeup_def keeps_def)
  next
    case (Some q)
    show ?thesis
    proof (cases force_flag)
      case True
      let ?s = "s\<lparr>cu_long_poll_query := None\<rparr>"
      note free = release_long_poll [OF assms Some]
      have "settles os q ?s (do_get_updates p env (cu_long_poll_offset s) (cu_long_poll_limit s) 0 q ?s)"
        using do_get_updates_settles(1) [OF free(1)] free(3,4) by simp
      then obtain s' where s': "do_get_updates p env (cu_long_poll_offset s) (cu_long_poll_limit s) 0 q ?s = Checked s'"
        "upd_inv os s'" "\<And>i. account i s' = account i ?s + owes i q" by (auto simp: settles_def)
      have a: "account i s' = account i s" for i unfolding s'(3) by (rule free(2))
      have w: "long_poll_wakeup p env force_flag s = Checked s'" unfolding long_poll_wakeup_def Some using s'(1) True by simp
      show ?thesis unfolding w by (rule keepsI [OF refl s'(2) a])
    next
      case False
      then show ?thesis
        using assms Some
        by (auto simp: keeps_def long_poll_wakeup_def Let_def upd_inv_def account_def cu_stopping_def created_def)
    qed
  qed
  show "force_flag \<Longrightarrow> \<exists>s'. long_poll_wakeup p env force_flag s = Checked s' \<and> cu_long_poll_query s' = None"
    using do_get_updates_settles(2) [OF release_long_poll(1) [OF assms], of _ 0 p env] release_long_poll(3,4) [OF assms]
      pending_warning_keeps(3) [OF assms]
    by (cases "cu_long_poll_query s") (auto simp: long_poll_wakeup_def)
qed

section \<open>Setting a webhook keeps the invariant\<close>

lemma update_allowed_frame:
  "cu_tqueue (snd (update_allowed_update_types q s)) = cu_tqueue s"
  "cu_url (snd (update_allowed_update_types q s)) = cu_url s"
  "wh_has_certificate (cu_webhook (snd (update_allowed_update_types q s))) = wh_has_certificate (cu_webhook s)"
  "cu_webhook_id (snd (update_allowed_update_types q s)) = cu_webhook_id s"
  "cu_set_query (snd (update_allowed_update_types q s)) = cu_set_query s"
  "cu_active_query (snd (update_allowed_update_types q s)) = cu_active_query s"
  "cu_long_poll_query (snd (update_allowed_update_types q s)) = cu_long_poll_query s"
  "cu_long_poll_slot (snd (update_allowed_update_types q s)) = cu_long_poll_slot s"
  "cu_stopping (snd (update_allowed_update_types q s)) = cu_stopping s"
  "cu_td_open (snd (update_allowed_update_types q s)) = cu_td_open s"
  "cu_jobs (snd (update_allowed_update_types q s)) = cu_jobs s"
  "cu_generation (snd (update_allowed_update_types q s)) = cu_generation s"
  "cu_query_type (snd (update_allowed_update_types q s)) = cu_query_type s"
  "created (snd (update_allowed_update_types q s)) = created s"
  "filter (answers_to i) (cu_log (snd (update_allowed_update_types q s))) = filter (answers_to i) (cu_log s)"
  by (simp_all add: update_allowed_update_types_def cu_request_def cu_send_def cu_stopping_def created_def Let_def)

lemma update_allowed_keeps:
  assumes "upd_inv os s"
  shows "upd_inv os (snd (update_allowed_update_types q s))" "account i (snd (update_allowed_update_types q s)) = account i s"
  using assms by (simp_all add: upd_inv_def account_def update_allowed_frame)

lemma requested_arg: "requested_url q \<noteq> [] \<Longrightarrow> sq_arg ''url'' q = requested_url q"
  by (simp add: requested_url_def split: if_splits)

lemma finish_set_webhook_settles:
  fixes s :: "'s upd_client" and env :: "'s upd_env" and b :: bool
  assumes "upd_inv os s" "cu_url s = []" "cu_active_query s = None" "cu_long_poll_query s = None" "acceptable os q"
    "ue_inet env = os"
  defines "s0 \<equiv> s\<lparr>cu_webhook := (cu_webhook s)\<lparr>wh_has_certificate := b\<rparr>\<rparr>"
  shows "settles os q s (finish_set_webhook p env q s0)"
proof -
  have free: "cu_set_query s = None" "cu_webhook_id s = None" using assms(1,2) by (auto simp: upd_inv_def)
  have url: "sq_arg ''url'' q \<noteq> []" "\<exists>u. parse_url os (sq_arg ''url'' q) Https = Checked (Ok u)"
    using assms(5) requested_arg by (auto simp: acceptable_def)
  show ?thesis
  proof (cases "cu_stopping s")
    case True
    then have "upd_inv os s0" "cu_stopping s0" "account i s0 = account i s" for i
      using assms(1,3) by (auto simp: s0_def upd_inv_def cu_stopping_def account_def)
    then have "settles os q s (fail_query_closing env q s0)" using closing_settles [of os s0 q env] by (auto simp: settles_def)
    then show ?thesis using True free assms(2,3) by (simp add: finish_set_webhook_def s0_def cu_stopping_def)
  next
    case False
    define w where "w = (cu_webhook s0)\<lparr>wh_url := sq_arg ''url'' q, wh_max_connections := get_webhook_max_connections p q,
        wh_secret_token := sq_arg ''secret_token'' q, webhook_settings.wh_ip_address := sq_arg ''ip_address'' q,
        wh_fix_ip_address := get_webhook_fix_ip_address q\<rparr>"
    define s1 where "s1 = snd (update_allowed_update_types q (s0\<lparr>cu_webhook := w, cu_webhook_set_time := ue_now env,
        cu_last_error_date := 0, cu_last_error := None\<rparr>))"
    obtain u where u: "parse_url os (sq_arg ''url'' q) Https = Checked (Ok u)" using url(2) by blast
    let ?m = "WebhookCreate (cu_generation s1) u (if wh_has_certificate w then get_webhook_certificate_path p else [])
        (wh_max_connections w) (sq_is_internal q) (webhook_settings.wh_ip_address w) (wh_fix_ip_address w) (wh_secret_token w)"
    let ?s' = "(cu_send ?m s1)\<lparr>cu_webhook_id := Some (cu_generation s1), cu_query_type := Verify, cu_set_query := Some q\<rparr>"
    have "finish_set_webhook p env q s0 = Checked ?s'"
      unfolding finish_set_webhook_def Let_def w_def [symmetric] s1_def [symmetric] assms(6)
      using False free url(1) u assms(2,3) by (simp add: s0_def cu_stopping_def)
    moreover have "upd_inv os ?s'"
      using assms(1-4) free url(1) False
      by (auto simp: upd_inv_def s1_def update_allowed_frame w_def s0_def cu_send_frame cu_stopping_def intro: tokens_ok_verify)
    moreover have "account i ?s' = account i s + owes i q" for i
      using free assms(3,4) by (simp add: account_def cu_send_def s1_def update_allowed_frame s0_def)
    ultimately show ?thesis by (auto simp: settles_def)
  qed
qed

lemma clear_tqueue_keeps:
  assumes "upd_inv os s" "cu_webhook_id s = None"
  obtains s' where "clear_tqueue p env s = Checked s'" "upd_inv os s'" "\<And>i. account i s' = account i s"
    "s' = s\<lparr>cu_tqueue := cu_tqueue s'\<rparr>"
proof
  let ?s = "s\<lparr>cu_tqueue := snd (tq_clear (ue_ops env) (up_tqueue_id p) 0 (cu_tqueue s))\<rparr>"
  show "clear_tqueue p env s = Checked ?s" using assms(2) by (simp add: clear_tqueue_def)
  show "upd_inv os ?s" using assms(1) by (simp add: upd_inv_def cu_stopping_def clear_inv)
  show "account i ?s = account i s" for i by (simp add: account_def)
qed simp

lemma do_set_webhook_settles:
  fixes s :: "'s upd_client" and env :: "'s upd_env"
  assumes "upd_inv os s" "cu_url s = []" "cu_active_query s = None"
    "requested_url q \<noteq> [] \<Longrightarrow> cu_long_poll_query s = None" "ue_inet env = os"
  shows "settles os q s (do_set_webhook p env q was_deleted s)"
proof (cases "cu_stopping s")
  case True
  then show ?thesis using closing_settles [OF assms(1)] assms(2) by (simp add: do_set_webhook_def)
next
  case False
  have free: "cu_set_query s = None" "cu_webhook_id s = None" "\<not> wh_has_certificate (cu_webhook s)"
    using assms(1,2) False by (auto simp: upd_inv_def)
  obtain s1 where s1: "(if to_bool (sq_arg ''drop_pending_updates'' q) then clear_tqueue p env s else Checked s) = Checked s1"
    "upd_inv os s1" "\<And>i. account i s1 = account i s" "s1 = s\<lparr>cu_tqueue := cu_tqueue s1\<rparr>"
  proof (cases "to_bool (sq_arg ''drop_pending_updates'' q)")
    case True
    show ?thesis by (rule clear_tqueue_keeps [OF assms(1) free(2), of p env], rule that) (use True in simp_all)
  next
    case False
    then show ?thesis using that [of s] assms(1) by simp
  qed
  have c: "cu_set_query s1 = None" "cu_webhook_id s1 = None" "\<not> wh_has_certificate (cu_webhook s1)" "cu_url s1 = []"
    "cu_active_query s1 = None" "cu_long_poll_query s1 = cu_long_poll_query s" "\<not> cu_stopping s1"
    using free assms(2,3) False by (subst s1(4), simp add: cu_stopping_def)+
  have ans: "settles os q s (Checked (cu_send m s1))" if "\<And>i. answers_to i m \<longleftrightarrow> sq_id q = i" for m
    using settles_answer [OF s1(2) that] s1(3) by (auto simp: settles_def)
  have fin: "settles os q s (finish_set_webhook p env q (s1\<lparr>cu_webhook := (cu_webhook s1)\<lparr>wh_has_certificate := b\<rparr>\<rparr>))"
    if "acceptable os q" for b
    using finish_set_webhook_settles [OF s1(2) c(4,5) _ that assms(5)] that assms(4) c(6) s1(3)
    by (auto simp: settles_def acceptable_def)
  obtain r where r: "parse_url os (requested_url q) Https = Checked r" using parse_url_total by blast
  show ?thesis
  proof (cases "requested_url q \<noteq> [] \<and> is_ok r \<and> \<not> length (sq_arg ''secret_token'' q) > 256 \<and>
      is_base64url_characters (sq_arg ''secret_token'' q)")
    case True
    then have acc: "acceptable os q" using r by (auto simp: acceptable_def is_ok_iff)
    have job: "settles os q s (Checked (s1\<lparr>cu_active_query := Some q, cu_jobs := cu_jobs s1 @ [CopyCertificate x y z]\<rparr>))" for x y z
      using s1(2,3) c acc True assms(4) by (auto simp: settles_def upd_inv_def account_def cu_stopping_def is_copy_def)
    have eq: "do_set_webhook p env q was_deleted s =
        (if sq_is_internal q
         then finish_set_webhook p env q (s1\<lparr>cu_webhook := (cu_webhook s1)\<lparr>wh_has_certificate := (sq_arg ''certificate'' q = ''previous'')\<rparr>\<rparr>)
         else (case get_webhook_certificate q of
             None \<Rightarrow> finish_set_webhook p env q s1
           | Some file \<Rightarrow> if hf_size file > MAX_CERTIFICATE_FILE_SIZE
               then Checked (cu_send (Failed (sq_id q) 400
                      (''Bad Request: certificate size is too big ('' @ print_int 64 (hf_size file) @ '' bytes)'')) s1)
               else Checked (s1\<lparr>cu_active_query := Some q, cu_jobs := cu_jobs s1 @ [CopyCertificate (hf_temp_file_name file)
                      (get_webhook_certificate_path p) (hf_size file)]\<rparr>)))"
      using True False s1(1) c r assms(2,5) unfolding do_set_webhook_def Let_def by (simp split: option.split)
    have "(cu_webhook s1)\<lparr>wh_has_certificate := False\<rparr> = cu_webhook s1" using c(3) by (cases "cu_webhook s1") simp
    then have fin0: "settles os q s (finish_set_webhook p env q s1)" using fin [OF acc, of False] by simp
    show ?thesis unfolding eq using fin0 fin [OF acc] job by (auto intro!: ans split: option.split)
  next
    case no: False
    have failed: "settles os q s (Checked (cu_send (Failed (sq_id q) k m) s1))" for k m by (rule ans) auto
    have true: "settles os q s (Checked (cu_send (AnswerTrue (sq_id q) m) s1))" for m by (rule ans) auto
    show ?thesis
      unfolding do_set_webhook_def Let_def s1(1) assms(2,5) using no False r
      by (cases "requested_url q = []"; cases "is_ok r"; cases "length (sq_arg ''secret_token'' q) > 256")
        (simp_all add: failed true)
  qed
qed

lemma filter_remove_nth:
  assumes "i < length xs"
  shows "length (filter P xs) = length (filter P (remove_nth i xs)) + (if P (xs ! i) then 1 else 0)"
proof -
  have "filter P xs = filter P (take i xs @ xs ! i # drop (Suc i) xs)" using assms by (simp add: id_take_nth_drop [symmetric])
  then show ?thesis by (simp add: remove_nth_def)
qed

lemma copied_keeps:
  fixes s :: "'s upd_client" and env :: "'s upd_env"
  assumes "upd_inv os s" "i < length (cu_jobs s)" "is_copy (cu_jobs s ! i)" "ue_inet env = os"
  shows "keeps os s (on_webhook_certificate_copied p env err (s\<lparr>cu_jobs := remove_nth i (cu_jobs s)\<rparr>))"
proof -
  have n: "length (filter is_copy (cu_jobs s)) = length (filter is_copy (remove_nth i (cu_jobs s))) + 1"
    using filter_remove_nth [OF assms(2)] assms(3) by simp
  then obtain q where q: "cu_active_query s = Some q" using assms(1) by (auto simp: upd_inv_def split: if_splits)
  define s1 where "s1 = s\<lparr>cu_jobs := remove_nth i (cu_jobs s), cu_active_query := None\<rparr>"
  have s1: "upd_inv os s1" "account j s1 + owes j q = account j s" "cu_url s1 = []" "cu_active_query s1 = None" 
    "cu_long_poll_query s1 = None" "acceptable os q" for j
    using assms(1) q n by (auto simp: s1_def upd_inv_def account_def cu_stopping_def)
  have k: "keeps os s r" if "settles os q s1 r" for r
    using that s1(2) by (auto simp: settles_def keeps_def)
  have eq: "on_webhook_certificate_copied p env err (s\<lparr>cu_jobs := remove_nth i (cu_jobs s)\<rparr>) =
      (if err \<noteq> None then Checked (cu_send (Failed (sq_id q) 500 ''Internal Server Error: failed to save certificate'') s1)
       else finish_set_webhook p env q (s1\<lparr>cu_webhook := (cu_webhook s1)\<lparr>wh_has_certificate := True\<rparr>\<rparr>))"
    using q by (simp add: on_webhook_certificate_copied_def s1_def)
  have "settles os q s1 (Checked (cu_send (Failed (sq_id q) 500 ''Internal Server Error: failed to save certificate'') s1))"
    by (rule settles_answer [OF s1(1)]) auto
  then show ?thesis
    unfolding eq using finish_set_webhook_settles [OF s1(1,3,4,5,6) assms(4)] by (auto intro: k)
qed

lemma on_webhook_closed_keeps:
  fixes s :: "'s upd_client" and env :: "'s upd_env"
  assumes "upd_inv os s" "ue_inet env = os"
  shows "keeps os s (on_webhook_closed p env st s)"
proof -
  define w where "w = (cu_webhook s)\<lparr>wh_url := [], wh_has_certificate := False, wh_max_connections := 0,
      webhook_settings.wh_ip_address := [], wh_fix_ip_address := False, wh_secret_token := []\<rparr>"
  define s1 where "s1 = cu_send DbErase (s\<lparr>cu_webhook_id := None, cu_webhook := w, cu_webhook_set_time := ue_now env,
      cu_last_error_date := 0, cu_last_error := None\<rparr>)"
  have eq: "on_webhook_closed p env st s = (case cu_set_query s1 of
           None \<Rightarrow> Checked s1
         | Some q \<Rightarrow>
             (let s2 = s1\<lparr>cu_set_query := None\<rparr>
              in if cu_query_type s2 = Verify
                 then Checked (cu_send (Failed (sq_id q) 400 (''Bad Request: bad webhook: '' @ status_message st)) s2)
                 else do_set_webhook p env q True s2))"
    unfolding on_webhook_closed_def Let_def s1_def w_def by (rule refl)
  show ?thesis
  proof (cases "cu_set_query s")
    case None
    then have "cu_set_query s1 = None" by (simp add: s1_def cu_send_frame)
    moreover have "upd_inv os s1" "\<And>i. account i s1 = account i s"
      using assms(1) None by (auto simp: s1_def w_def cu_send_frame upd_inv_def account_def cu_stopping_def)
    ultimately show ?thesis unfolding eq by (auto simp: keeps_def)
  next
    case (Some q)
    define s2 where "s2 = s1\<lparr>cu_set_query := None\<rparr>"
    have s2: "upd_inv os s2" "cu_url s2 = []" "cu_active_query s2 = None" "cu_long_poll_query s2 = None"
      "account i s2 + owes i q = account i s" for i
    proof -
      note inv = assms(1) [unfolded upd_inv_def Some]
      show "upd_inv os s2" using inv tokens_bound
        by (auto simp: s2_def s1_def w_def cu_send_frame upd_inv_def cu_stopping_def)
      show "cu_url s2 = []" "cu_active_query s2 = None" "cu_long_poll_query s2 = None" "account i s2 + owes i q = account i s"
        using inv Some by (auto simp: s2_def s1_def w_def cu_send_frame account_def)
    qed
    have k: "keeps os s r" if "settles os q s2 r" for r using that s2(5) by (auto simp: settles_def keeps_def)
    have "cu_set_query s1 = Some q" using Some by (simp add: s1_def cu_send_frame)
    moreover have "settles os q s2 (Checked (cu_send (Failed (sq_id q) 400 m) s2))" for m
      by (rule settles_answer [OF s2(1)]) auto
    ultimately show ?thesis
      unfolding eq using do_set_webhook_settles [OF s2(1-3) s2(4) assms(2)] k by (simp add: s2_def [symmetric] Let_def)
  qed
qed

lemma job_done_keeps:
  fixes s :: "'s upd_client" and env :: "'s upd_env"
  assumes "upd_inv os s" "i < length (cu_jobs s)" "ue_inet env = os"
  shows "keeps os s (job_done p env i err s)"
proof (cases "cu_jobs s ! i")
  case (CopyCertificate x y z)
  then show ?thesis using copied_keeps [OF assms(1,2) _ assms(3)] by (simp add: job_done_def is_copy_def)
next
  case (UnlinkCertificate x st)
  let ?s = "s\<lparr>cu_jobs := remove_nth i (cu_jobs s)\<rparr>"
  have "upd_inv os ?s" "\<And>j. account j ?s = account j s"
    using assms(1) filter_remove_nth [OF assms(2), of is_copy] UnlinkCertificate
    by (simp_all add: upd_inv_def account_def cu_stopping_def is_copy_def)
  then show ?thesis
    using on_webhook_closed_keeps [of os ?s env p st] assms(3) UnlinkCertificate by (auto simp: job_done_def keeps_def)
qed

lemma webhook_closed_keeps:
  fixes s :: "'s upd_client" and env :: "'s upd_env"
  assumes "upd_inv os s" "ue_inet env = os"
  shows "keeps os s (webhook_closed p env st s)"
proof (cases "wh_has_certificate (cu_webhook s)")
  case True
  then show ?thesis
    using assms(1) by (auto simp: webhook_closed_def keeps_def upd_inv_def account_def cu_stopping_def is_copy_def)
qed (use on_webhook_closed_keeps [OF assms] in \<open>simp add: webhook_closed_def\<close>)

lemma webhook_verified_keeps:
  assumes "upd_inv os s"
  shows "keeps os s (Checked (webhook_verified token ip s))"
  using assms
  by (cases "cu_set_query s")
    (auto simp: webhook_verified_def Let_def save_webhook_db_def cu_send_frame keeps_def upd_inv_def account_def cu_stopping_def owes_def
      dest: tokens_bound)

lemma webhook_success_keeps:
  assumes "upd_inv os s"
  shows "keeps os s (Checked (webhook_success env s))"
  using assms
  by (auto simp: webhook_success_def Let_def cu_request_def cu_send_frame keeps_def upd_inv_def account_def cu_stopping_def)

lemma webhook_error_keeps:
  assumes "upd_inv os s"
  shows "keeps os s (Checked (webhook_error p env st s))"
proof -
  let ?s = "s\<lparr>cu_last_error_date := ue_unix_time env, cu_last_error := Some st\<rparr>"
  have "upd_inv os ?s" "\<And>i. account i ?s = account i s" using assms by (auto simp: upd_inv_def account_def cu_stopping_def)
  then show ?thesis using pending_warning_keeps [of os ?s] by (auto simp: webhook_error_def keeps_def)
qed

section \<open>Commands\<close>

lemma change_webhook_settles:
  fixes s :: "'s upd_client" and env :: "'s upd_env"
  assumes "upd_inv os s" "cu_set_query s = None" "cu_active_query s = None" "ue_inet env = os" "cu_td_open s"
  shows "settles os q s (change_webhook p env q s)"
proof -
  define s1 where "s1 = (if ue_cached env > cu_next_logging_time s \<or> cu_url s \<noteq> requested_url q
      then s\<lparr>cu_next_logging_time := ue_cached env + 300\<rparr> else s)"
  define s3 where "s3 = (let s2 = (if requested_url q \<noteq> [] then abort_long_poll env True s1 else s1)
      in s2\<lparr>cu_generation := cu_generation s2 + 1\<rparr>)"
  have s1: "upd_inv os s1" "\<And>i. account i s1 = account i s" "cu_set_query s1 = None" "cu_active_query s1 = None" "cu_td_open s1"
    using assms by (auto simp: s1_def upd_inv_def account_def cu_stopping_def)
  have s3: "upd_inv os s3" "\<And>i. account i s3 = account i s" "cu_set_query s3 = None" "cu_active_query s3 = None"
      "requested_url q \<noteq> [] \<Longrightarrow> cu_long_poll_query s3 = None" "cu_td_open s3"
    using s1 abort_keeps [OF s1(1)]
    by (auto simp: s3_def Let_def upd_inv_def account_def cu_stopping_def)
  have "\<forall>c\<in>set (created s1). c \<le> cu_generation s1" using s1(1) tokens_bound unfolding upd_inv_def by blast
  then have fresh: "\<forall>c\<in>set (created s3). c < cu_generation s3" using abort_keeps(13,15) [OF s1(1)] by (auto simp: s3_def Let_def le_imp_less_Suc)
  then have fresh': "tokens_ok (Some q) Cancel url None (cu_generation s3) (created s3)" for url by (auto simp: tokens_ok_def)
  have eq: "change_webhook p env q s =
      (if cu_url s3 \<noteq> []
       then (let s4 = (case cu_webhook_id s3 of
                         None \<Rightarrow> s3
                       | Some gen \<Rightarrow> cu_send (WebhookClose gen) (s3\<lparr>cu_webhook_id := None\<rparr>))
             in check (cu_active_query s4 = None) (Checked (s4\<lparr>cu_query_type := Cancel, cu_set_query := Some q\<rparr>)))
       else do_set_webhook p env q False s3)"
    unfolding change_webhook_def Let_def s3_def s1_def by (rule refl)
  show ?thesis
  proof (cases "cu_url s3 = []")
    case True
    have "settles os q s3 (do_set_webhook p env q False s3)"
      using do_set_webhook_settles [OF s3(1) True s3(4) s3(5) assms(4)] by simp
    then show ?thesis using eq True s3(2) by (auto simp: settles_def)
  next
    case False
    have "upd_inv os (s3\<lparr>cu_webhook_id := None\<rparr>)" using s3(1,3) by (auto simp: upd_inv_def cu_stopping_def)
    then show ?thesis
      using eq False s3 fresh'
      by (cases "cu_webhook_id s3") (auto simp: settles_def upd_inv_def account_def cu_send_frame cu_stopping_def)
  qed
qed

lemma answer_not_modified_settles:
  assumes "upd_inv os s"
  shows "settles os q s (Checked (answer_not_modified env q s))"
proof -
  define s1 where "s1 = snd (update_allowed_update_types q s)"
  define s2 where "s2 = (if fst (update_allowed_update_types q s) then save_webhook_db s1
      else if ue_cached env > cu_next_not_modified_time s1 then s1\<lparr>cu_next_not_modified_time := ue_cached env + 300\<rparr> else s1)"
  have s1: "upd_inv os s1" "account i s1 = account i s" for i using update_allowed_keeps [OF assms] by (simp_all add: s1_def)
  have s2: "upd_inv os s2" "account i s2 = account i s" for i
    using s1 inv_quiet [OF s1(1), of "DbSet _"] by (auto simp: s2_def save_webhook_db_def upd_inv_def account_def cu_stopping_def)
  have "answer_not_modified env q s =
      cu_send (AnswerTrue (sq_id q) (if requested_url q = [] then ''Webhook is already deleted'' else ''Webhook is already set'')) s2"
    unfolding answer_not_modified_def s2_def s1_def Let_def by (cases "update_allowed_update_types q s") simp
  moreover have "settles os q s2 (Checked (cu_send (AnswerTrue (sq_id q) m) s2))" for m
    by (rule settles_answer [OF s2(1)]) auto
  ultimately show ?thesis using s2(2) by (auto simp: settles_def)
qed

lemma process_set_webhook_query_settles:
  fixes s :: "'s upd_client" and env :: "'s upd_env"
  assumes "upd_inv os s" "ue_inet env = os" "\<not> cu_stopping s"
  shows "settles os q s (process_set_webhook_query p env q s)"
proof -
  define limited where "limited \<longleftrightarrow> requested_url q \<noteq> [] \<and> \<not> sq_is_internal q"
  define s2 where "s2 = (let s1 = (if limited then s\<lparr>cu_next_set_webhook_time := ue_cached env + 1\<rparr> else s)
     in s1\<lparr>cu_next_warning_time := max (cu_next_warning_time s1) (ue_cached env + BOT_UPDATES_WARNING_DELAY)\<rparr>)"
  have open_td: "cu_td_open s" using assms(1,3) by (auto simp: upd_inv_def)
  have s2: "upd_inv os s2" "account i s2 = account i s" "cu_td_open s2" for i
    using assms(1) open_td by (auto simp: s2_def Let_def upd_inv_def account_def cu_stopping_def)
  have lift: "settles os q s r" if "settles os q s2 r" for r using that s2(2) by (auto simp: settles_def)
  have retry: "settles os q t (Checked (cu_send (RetryAfter (sq_id q) 1) t))" if "upd_inv os t" for t :: "'s upd_client"
    by (rule settles_answer [OF that]) auto
  have eq: "process_set_webhook_query p env q s =
      (if limited \<and> ue_cached env < cu_next_set_webhook_time s then Checked (cu_send (RetryAfter (sq_id q) 1) s)
       else case cu_set_query s2 of
              Some old \<Rightarrow>
                change_webhook p env q (fail_query_conflict env ''Conflict: terminated by other setWebhook'' old
                  (s2\<lparr>cu_set_query := None\<rparr>))
            | None \<Rightarrow>
                (if cu_active_query s2 \<noteq> None then Checked (cu_send (RetryAfter (sq_id q) 1) s2)
                 else if is_not_modified p q s2 then Checked (answer_not_modified env q s2)
                 else change_webhook p env q s2))"
    unfolding process_set_webhook_query_def Let_def limited_def s2_def by (rule refl)
  show ?thesis
  proof (cases "cu_set_query s2")
    case None
    have "settles os q s2 (change_webhook p env q s2)" if "cu_active_query s2 = None"
      using change_webhook_settles [OF s2(1) None that assms(2) s2(3)] .
    then show ?thesis
      unfolding eq using None retry [OF assms(1)] retry [OF s2(1)] answer_not_modified_settles [OF s2(1)] lift by simp
  next
    case (Some old)
    let ?s3 = "s2\<lparr>cu_set_query := None\<rparr>"
    define s4 where "s4 = fail_query_conflict env ''Conflict: terminated by other setWebhook'' old ?s3"
    have s3: "upd_inv os ?s3" "account i ?s3 + owes i old = account i s2" "cu_active_query s2 = None" for i
      using s2(1) Some by (auto simp: upd_inv_def account_def cu_stopping_def dest: tokens_bound)
    have s4: "upd_inv os s4" "account i s4 = account i s2" for i
      using conflict_settles [OF s3(1), of old env "''Conflict: terminated by other setWebhook''"] s3(2)
      by (auto simp: settles_def s4_def)
    have "cu_set_query s4 = None" "cu_active_query s4 = None" "cu_td_open s4"
      using s3(3) s2(3) by (auto simp: s4_def fail_query_conflict_def cu_send_frame)
    then have "settles os q s4 (change_webhook p env q s4)"
      using change_webhook_settles [OF s4(1) _ _ assms(2)] by simp
    then have "settles os q s2 (change_webhook p env q s4)" using s4(2) by (auto simp: settles_def)
    then show ?thesis unfolding eq s4_def using Some retry [OF assms(1)] lift by simp
  qed
qed

lemma process_get_updates_query_settles:
  fixes s :: "'s upd_client" and env :: "'s upd_env"
  assumes "upd_inv os s"
  shows "settles os q s (process_get_updates_query p env q s)"
proof (cases "cu_url s \<noteq> [] \<or> cu_set_query s \<noteq> None \<or> cu_active_query s \<noteq> None")
  case True
  then show ?thesis using conflict_settles [OF assms] by (simp add: process_get_updates_query_def)
next
  case False
  define offset where "offset = get_integer_arg q ''offset'' 0 int32_min int32_max"
  define s1 where "s1 = (snd (update_allowed_update_types q s))\<lparr>cu_previous_offset := offset, cu_previous_start_time := ue_cached env\<rparr>"
  have s1: "upd_inv os s1" "account i s1 = account i s" "cu_url s1 = []" "cu_active_query s1 = None" for i
    using update_allowed_keeps [OF assms] False
    by (auto simp: s1_def upd_inv_def account_def cu_stopping_def update_allowed_frame)
  have "\<exists>l t. process_get_updates_query p env q s = do_get_updates p env offset l t q s1"
    using False unfolding process_get_updates_query_def Let_def offset_def s1_def by auto
  then show ?thesis using do_get_updates_settles(1) [OF s1(1,3,4)] s1(2) by (auto simp: settles_def)
qed

lemma on_updates_cmd_settles:
  fixes s :: "'s upd_client" and env :: "'s upd_env"
  assumes "upd_inv os s" "ue_inet env = os"
  shows "settles os q s (on_updates_cmd p env q s)"
  using closing_settles [OF assms(1)] process_get_updates_query_settles [OF assms(1)]
    process_set_webhook_query_settles [OF assms]
  by (simp add: on_updates_cmd_def)

lemma add_update_keeps:
  fixes s :: "'s upd_client" and env :: "'s upd_env"
  assumes "upd_inv os s" "fresh_id (ue_random env) 0"
  shows "\<exists>r. add_update_impl p env ty json timeout qid s = Some r \<and> keeps os s r"
proof (cases "bit (wh_allowed_update_types (cu_webhook s)) ty")
  case True
  obtain r tq where push: "tq_push (ue_ops env) (ue_random env) (up_tqueue_id p) (quoted (update_type_names ! ty) @ '':'' @ json)
      (ue_unix_time env + timeout) qid 0 (cu_tqueue s) = Some (Checked (r, tq))" "tq_inv tq"
    using push_inv [OF _ assms(2)] assms(1) unfolding upd_inv_def by blast
  let ?s = "s\<lparr>cu_tqueue := tq\<rparr>"
  have s: "upd_inv os ?s" "account i ?s = account i s" for i
    using assms(1) push(2) by (auto simp: upd_inv_def account_def cu_stopping_def)
  have "keeps os ?s (long_poll_wakeup p env False ?s)" by (rule long_poll_wakeup_keeps(1) [OF s(1)])
  moreover have "keeps os ?s (Checked (cu_send (WebhookUpdate x) ?s))" for x
    using inv_quiet [OF s(1)] by (auto simp: keeps_def)
  moreover have "keeps os ?s (Checked ?s)" using s(1) by (auto simp: keeps_def)
  ultimately show ?thesis using True push(1) s(2) by (auto simp: add_update_impl_def Let_def keeps_def)
qed (use assms(1) in \<open>auto simp: add_update_impl_def keeps_def\<close>)

lemma fail_held_keeps:
  assumes "upd_inv os s" "cu_stopping s"
  obtains s' where "fail_held env h s = Checked s'" "upd_inv os s'" "\<And>i. account i s' = account i s + owes_held i h"
    "\<exists>l. s' = s\<lparr>cu_log := l\<rparr>"
proof (cases h)
  case None
  show ?thesis by (rule that [of s]) (use None assms in \<open>auto simp: fail_held_def intro: exI [of _ "cu_log s"]\<close>)
next
  case (Some q)
  obtain s' where "fail_query_closing env q s = Checked s'" "upd_inv os s'" "\<And>i. account i s' = account i s + owes i q"
    using closing_settles [OF assms, of q env] unfolding settles_def by blast
  moreover have "\<exists>l. s' = s\<lparr>cu_log := l\<rparr>"
    using calculation(1) assms(2) by (auto simp: fail_query_closing_def Let_def cu_send_def split: if_splits)
  ultimately show ?thesis using Some that by (auto simp: fail_held_def)
qed

lemma do_get_updates_frame:
  "do_get_updates p env offset limit timeout q s = Checked s' \<Longrightarrow>
   cu_set_query s' = cu_set_query s \<and> cu_active_query s' = cu_active_query s \<and> cu_logging_out s' = cu_logging_out s"
  by (cases "cu_long_poll_query s")
    (auto simp: do_get_updates_def and_then_def check_def Let_def abort_long_poll_def fail_query_conflict_def cu_send_frame
      cu_request_def cu_stopping_def split: checked.splits prod.splits if_splits)

lemma on_closed_keeps:
  fixes s :: "'s upd_client" and env :: "'s upd_env"
  assumes "upd_inv os s" "cu_stopping s" "cu_td_open s" "cu_active_query s = None"
  shows "keeps os s (on_closed p env s)"
    "\<exists>s'. on_closed p env s = Checked s' \<and> cu_set_query s' = None \<and> cu_active_query s' = None \<and> cu_long_poll_query s' = None"
proof -
  define t0 where "t0 = s\<lparr>cu_set_query := None\<rparr>"
  have t0: "upd_inv os t0" "account i t0 + owes_held i (cu_set_query s) = account i s" "cu_stopping t0" for i
    using assms by (auto simp: t0_def upd_inv_def account_def cu_stopping_def dest: tokens_bound)
  obtain t1 l where t1: "fail_held env (cu_set_query s) t0 = Checked t1" "upd_inv os t1"
    "\<And>i. account i t1 = account i t0 + owes_held i (cu_set_query s)" "t1 = t0\<lparr>cu_log := l\<rparr>"
    using fail_held_keeps [OF t0(1,3), of env "cu_set_query s"] by metis
  have log: "fail_held env h (x\<lparr>cu_td_open := b\<rparr>) =
      (case fail_held env h x of CheckFailed \<Rightarrow> CheckFailed | Checked y \<Rightarrow> Checked (y\<lparr>cu_td_open := b\<rparr>))" for h b and x :: "'s upd_client"
    by (cases h) (auto simp: fail_held_def fail_query_closing_def check_def closing_view_def cu_send_def cu_stopping_def Let_def)
  define s2 where "s2 = t1\<lparr>cu_td_open := False\<rparr>"
  define s3 where "s3 = (if cu_url s2 \<noteq> []
      then (case cu_webhook_id s2 of None \<Rightarrow> s2 | Some gen \<Rightarrow> cu_send (WebhookHangup gen) (s2\<lparr>cu_webhook_id := None\<rparr>)) else s2)"
  have t1c: "cu_active_query t1 = None" "cu_set_query t1 = None" "cu_stopping t1" "cu_webhook_id t1 \<noteq> None \<Longrightarrow> cu_url t1 \<noteq> []"
    using assms t1(2) by (auto simp: t1(4) t0_def upd_inv_def cu_stopping_def)
  have s3: "upd_inv os s3" "cu_active_query s3 = None" "cu_set_query s3 = None" "cu_stopping s3"
    using t1(2) t1c by (auto simp: s3_def s2_def upd_inv_def cu_send_frame cu_stopping_def split: option.split)
  have s3a: "account i s3 = account i s" for i
    using t1(3) [of i] t0(2) [of i] by (auto simp: s3_def s2_def account_def cu_send_frame split: option.split)
  obtain s4 where s4: "(if cu_long_poll_query s3 \<noteq> None then long_poll_wakeup p env True s3 else Checked s3) = Checked s4"
      "upd_inv os s4" "\<And>i. account i s4 = account i s3" "cu_long_poll_query s4 = None"
  proof (cases "cu_long_poll_query s3")
    case None
    then show ?thesis using that [of s3] s3(1) by simp
  next
    case (Some q)
    obtain s4 where "long_poll_wakeup p env True s3 = Checked s4" "upd_inv os s4" "\<And>i. account i s4 = account i s3"
      using long_poll_wakeup_keeps(1) [OF s3(1)] unfolding keeps_def by blast
    moreover have "cu_long_poll_query s4 = None"
      using long_poll_wakeup_keeps(2) [OF s3(1), of True p env] calculation(1) by simp
    ultimately show ?thesis using that Some by simp
  qed
  have frame: "cu_set_query s4 = None" "cu_active_query s4 = None"
    using s4(1) s3(2,3) by (auto simp: long_poll_wakeup_def split: option.splits if_splits dest!: do_get_updates_frame)
  let ?s5 = "if cu_logging_out s4 then cu_send DbErase s4 else s4"
  have s5: "upd_inv os ?s5" "account i ?s5 = account i s" for i
    using s4(2,3) s3a inv_quiet [OF s4(2), of DbErase] by auto
  have none: "fail_held env None x = Checked x" for x :: "'s upd_client" by (simp add: fail_held_def)
  have "(s\<lparr>cu_td_open := False, cu_set_query := None\<rparr>) = t0\<lparr>cu_td_open := False\<rparr>" by (simp add: t0_def)
  then have e1: "fail_held env (cu_set_query s) (s\<lparr>cu_td_open := False, cu_set_query := None\<rparr>) = Checked s2"
    using t1(1) by (simp add: log s2_def)
  have "cu_active_query s2 = None" using t1c(1) by (simp add: s2_def)
  then have e2: "fail_held env (cu_active_query s2) (s2\<lparr>cu_active_query := None\<rparr>) = Checked s2"
    by (cases s2) (simp add: none)
  have "on_closed p env s = Checked ?s5"
    unfolding on_closed_def e1 and_then_simps e2 Let_def s3_def [symmetric] s4(1) using assms(2,3) s4(4) by simp
  then show "keeps os s (on_closed p env s)"
    "\<exists>s'. on_closed p env s = Checked s' \<and> cu_set_query s' = None \<and> cu_active_query s' = None \<and> cu_long_poll_query s' = None"
    using s5 frame s4(4) by (auto simp: keeps_def cu_send_frame)
qed

lemma finish_closing_keeps:
  fixes s :: "'s upd_client" and env :: "'s upd_env"
  assumes "upd_inv os s" "\<not> cu_td_open s"
  shows "keeps os s (finish_closing p env s)"
proof -
  have "cu_webhook_id s = None" using assms by (auto simp: upd_inv_def)
  then obtain s' where "clear_tqueue p env s = Checked s'" "upd_inv os s'" "\<And>i. account i s' = account i s"
    using clear_tqueue_keeps [OF assms(1)] by metis
  then show ?thesis using assms(1) by (auto simp: finish_closing_def keeps_def)
qed

end
