(* ===== verification/ClientUpdatesProps.thy ===== *)
theory ClientUpdatesProps
  imports ClientUpdatesInv
begin

text \<open>
  The runs of a client: the events it handles in any order, the reachable states, and the properties of
  \<^verbatim>\<open>getUpdates\<close>, \<^verbatim>\<open>setWebhook\<close> and the restored webhook.
\<close>

section \<open>Runs of a client\<close>

text \<open>The members of a new \<^verbatim>\<open>Client\<close> with the values \<^verbatim>\<open>Client.h\<close> gives them; \<open>start\<close> is the time of \<^verbatim>\<open>start_up\<close>.\<close>

definition new_upd_client :: "'s tqueue \<Rightarrow> real \<Rightarrow> 's upd_client" where
  "new_upd_client tq start =
     \<lparr>cu_tqueue = tq,
      cu_webhook = \<lparr>wh_has_certificate = False, wh_max_connections = 0, wh_ip_address = [], wh_fix_ip_address = False,
        wh_secret_token = [], wh_allowed_update_types = DEFAULT_ALLOWED_UPDATE_TYPES, wh_url = []\<rparr>,
      cu_webhook_id = None, cu_generation = 1, cu_query_type = Cancel, cu_set_query = None, cu_active_query = None,
      cu_webhook_set_time = 0, cu_last_error_date = 0, cu_last_error = None, cu_long_poll_query = None,
      cu_long_poll_offset = 0, cu_long_poll_limit = 0, cu_long_poll_was_wakeup = False, cu_long_poll_hard_timeout = 0,
      cu_long_poll_slot = None, cu_previous_offset = - 1, cu_previous_start_time = 0, cu_previous_finish_time = 0,
      cu_next_conflict_time = 0, cu_next_set_webhook_time = 0, cu_next_logging_time = 0, cu_next_not_modified_time = 0,
      cu_next_warning_time = start + 600, cu_last_pending_count = MIN_PENDING_UPDATES_WARNING, cu_was_warning = False,
      cu_logging_out = False, cu_closing = False, cu_is_api_id_invalid = False, cu_next_authorization_time = 0,
      cu_clear_tqueue = False, cu_td_open = True, cu_jobs = [], cu_log = []\<rparr>"

text \<open>
  What happens to a client: a query for one of the three methods, the messages of the webhook actor, the end of a job, the
  expiry of the slot of the long poll, an update of the type \<open>ty\<close>, and the steps of logging out and closing.
\<close>

datatype upd_event =
    EvCommand server_query
  | EvVerified nat string
  | EvWebhookClosed status
  | EvHangup
  | EvSuccess
  | EvError status
  | EvJobDone nat "status option"
  | EvSlot
  | EvUpdate nat string int int
  | EvLoggingOut
  | EvClosing
  | EvTdClosed
  | EvFinishClosing

fun upd_step :: "upd_params \<Rightarrow> 's upd_env \<Rightarrow> upd_event \<Rightarrow> 's upd_client \<Rightarrow> 's upd_client checked option" where
  "upd_step p env (EvCommand q) s = Some (on_updates_cmd p env q s)"
| "upd_step p env (EvVerified token ip) s = Some (Checked (webhook_verified token ip s))"
| "upd_step p env (EvWebhookClosed st) s = Some (webhook_closed p env st s)"
| "upd_step p env EvHangup s = Some (cu_hangup_shared p env s)"
| "upd_step p env EvSuccess s = Some (Checked (webhook_success env s))"
| "upd_step p env (EvError st) s = Some (Checked (webhook_error p env st s))"
| "upd_step p env (EvJobDone i err) s = Some (job_done p env i err s)"
| "upd_step p env EvSlot s = Some (raw_event_expired p env s)"
| "upd_step p env (EvUpdate ty json timeout qid) s = add_update_impl p env ty json timeout qid s"
| "upd_step p env EvLoggingOut s = Some (Checked (s\<lparr>cu_logging_out := True\<rparr>))"
| "upd_step p env EvClosing s = Some (Checked (s\<lparr>cu_closing := True\<rparr>))"
| "upd_step p env EvTdClosed s = Some (on_closed p env s)"
| "upd_step p env EvFinishClosing s = Some (finish_closing p env s)"

text \<open>
  When an event can happen.  A webhook reports only after it was created; \<^verbatim>\<open>TDLib\<close> closes after it was told to; the last
  condition of \<open>EvTdClosed\<close> excludes the case of a certificate being copied, for which the code has no answer.
\<close>

fun upd_enabled :: "upd_event \<Rightarrow> 's upd_client \<Rightarrow> bool" where
  "upd_enabled (EvVerified token ip) s \<longleftrightarrow> token \<in> set (created s)"
| "upd_enabled (EvJobDone i err) s \<longleftrightarrow> i < length (cu_jobs s)"
| "upd_enabled EvSlot s \<longleftrightarrow> cu_long_poll_slot s \<noteq> None"
| "upd_enabled (EvUpdate ty json timeout qid) s \<longleftrightarrow> ty < 28"
| "upd_enabled EvTdClosed s \<longleftrightarrow> cu_stopping s \<and> cu_td_open s \<and> cu_active_query s = None"
| "upd_enabled EvFinishClosing s \<longleftrightarrow> \<not> cu_td_open s"
| "upd_enabled _ s \<longleftrightarrow> True"

fun queries_of :: "upd_event \<Rightarrow> nat list" where
  "queries_of (EvCommand q) = [sq_id q]"
| "queries_of _ = []"

text \<open>The address functions are those of the run, and the random identifiers those that \<^verbatim>\<open>TQueue\<close> asks for.\<close>

definition env_ok :: "inet \<Rightarrow> 's upd_env \<Rightarrow> bool" where
  "env_ok os env \<longleftrightarrow> ue_inet env = os \<and> fresh_id (ue_random env) 0"

text \<open>
  The states a client gets to, with the identities of the queries it was given.  The queues are shared with the webhook
  actor, which changes them between the events of the client.
\<close>

inductive upd_reach :: "upd_params \<Rightarrow> inet \<Rightarrow> nat list \<Rightarrow> 's upd_client \<Rightarrow> bool" for p os where
  reach_new: "tq_inv tq \<Longrightarrow> upd_reach p os [] (new_upd_client tq start)"
| reach_event: "upd_reach p os ids s \<Longrightarrow> env_ok os env \<Longrightarrow> upd_enabled ev s \<Longrightarrow>
    upd_step p env ev s = Some (Checked s') \<Longrightarrow> upd_reach p os (ids @ queries_of ev) s'"
| reach_queue: "upd_reach p os ids s \<Longrightarrow> tq_inv tq \<Longrightarrow> upd_reach p os ids (s\<lparr>cu_tqueue := tq\<rparr>)"

lemma new_upd_client_inv: "tq_inv tq \<Longrightarrow> upd_inv os (new_upd_client tq start)"
  by (simp add: upd_inv_def new_upd_client_def created_def cu_stopping_def map_filter_simps)

lemma new_upd_client_account: "account i (new_upd_client tq start) = 0"
  by (simp add: account_def new_upd_client_def)

lemma slot_keeps:
  fixes s :: "'s upd_client" and env :: "'s upd_env"
  assumes "upd_inv os s"
  shows "keeps os s (raw_event_expired p env s)"
proof (cases "cu_long_poll_query s")
  case None
  let ?s = "s\<lparr>cu_long_poll_slot := None\<rparr>"
  have "upd_inv os ?s" "\<And>i. account i ?s = account i s" using assms None by (auto simp: upd_inv_def account_def cu_stopping_def)
  then show ?thesis using long_poll_wakeup_keeps(1) [of os ?s p env True] by (auto simp: raw_event_expired_def keeps_def)
next
  case (Some q)
  let ?s = "s\<lparr>cu_long_poll_slot := None, cu_long_poll_query := None\<rparr>"
  have s: "upd_inv os ?s" "\<And>i. account i ?s + owes i q = account i s" "cu_url ?s = []" "cu_active_query ?s = None"
    using assms Some by (auto simp: upd_inv_def account_def cu_stopping_def)
  have "settles os q ?s (do_get_updates p env (cu_long_poll_offset s) (cu_long_poll_limit s) 0 q ?s)"
    by (rule do_get_updates_settles(1) [OF s(1,3,4)])
  then show ?thesis using Some s(2) by (auto simp: raw_event_expired_def long_poll_wakeup_def settles_def keeps_def)
qed

lemma stopping_keeps:
  assumes "upd_inv os s"
  shows "keeps os s (Checked (s\<lparr>cu_logging_out := True\<rparr>))" "keeps os s (Checked (s\<lparr>cu_closing := True\<rparr>))"
  using assms by (auto simp: keeps_def upd_inv_def account_def cu_stopping_def)

definition step_ok :: "inet \<Rightarrow> nat list \<Rightarrow> 's upd_client \<Rightarrow> 's upd_client checked option \<Rightarrow> bool" where
  "step_ok os ids s r \<longleftrightarrow>
     (\<exists>s'. r = Some (Checked s') \<and> upd_inv os s' \<and> (\<forall>i. account i s' = account i s + count_list ids i))"

lemma keeps_step_ok: "keeps os s r \<Longrightarrow> step_ok os [] s (Some r)"
  by (auto simp: keeps_def step_ok_def)

lemma settles_step_ok: "settles os q s r \<Longrightarrow> step_ok os [sq_id q] s (Some r)"
  by (auto simp: settles_def step_ok_def owes_def)

lemma upd_step_ok:
  fixes s :: "'s upd_client" and env :: "'s upd_env"
  assumes inv: "upd_inv os s" and env: "env_ok os env" and en: "upd_enabled ev s"
  shows "step_ok os (queries_of ev) s (upd_step p env ev s)"
proof -
  note os = env [unfolded env_ok_def, THEN conjunct1]
  show ?thesis
  proof (cases ev)
    case (EvCommand q)
    then show ?thesis using settles_step_ok [OF on_updates_cmd_settles [OF inv os]] by simp
  next
    case (EvVerified token ip)
    then show ?thesis using keeps_step_ok [OF webhook_verified_keeps [OF inv]] by simp
  next
    case (EvWebhookClosed st)
    then show ?thesis using keeps_step_ok [OF webhook_closed_keeps [OF inv os]] by simp
  next
    case EvHangup
    then show ?thesis using keeps_step_ok [OF webhook_closed_keeps [OF inv os]] by (simp add: cu_hangup_shared_def)
  next
    case EvSuccess
    then show ?thesis using keeps_step_ok [OF webhook_success_keeps [OF inv]] by simp
  next
    case (EvError st)
    then show ?thesis using keeps_step_ok [OF webhook_error_keeps [OF inv]] by simp
  next
    case (EvJobDone i err)
    then show ?thesis using keeps_step_ok [OF job_done_keeps [OF inv _ os]] en by simp
  next
    case EvSlot
    then show ?thesis using keeps_step_ok [OF slot_keeps [OF inv]] by simp
  next
    case (EvUpdate ty json timeout qid)
    then obtain r where "add_update_impl p env ty json timeout qid s = Some r" "keeps os s r"
      using add_update_keeps [OF inv, of env p ty json timeout qid] env by (auto simp: env_ok_def)
    then show ?thesis using EvUpdate keeps_step_ok by simp
  next
    case EvLoggingOut
    then show ?thesis using keeps_step_ok [OF stopping_keeps(1) [OF inv]] by simp
  next
    case EvClosing
    then show ?thesis using keeps_step_ok [OF stopping_keeps(2) [OF inv]] by simp
  next
    case EvTdClosed
    then show ?thesis using keeps_step_ok [OF on_closed_keeps(1) [OF inv]] en by simp
  next
    case EvFinishClosing
    then show ?thesis using keeps_step_ok [OF finish_closing_keeps [OF inv]] en by simp
  qed
qed

lemma upd_reach_inv:
  "upd_reach p os ids s \<Longrightarrow> upd_inv os s \<and> (\<forall>i. account i s = count_list ids i)"
proof (induction rule: upd_reach.induct)
  case (reach_new tq start)
  then show ?case by (simp add: new_upd_client_inv new_upd_client_account)
next
  case (reach_event ids s env ev s')
  then show ?case using upd_step_ok [of os s env ev p] by (auto simp: step_ok_def)
next
  case (reach_queue ids s tq)
  then show ?case by (auto simp: upd_inv_def account_def cu_stopping_def)
qed

section \<open>Properties\<close>

text \<open>The answers to a query, and the queries a client still holds.\<close>

definition answer_count :: "nat \<Rightarrow> 's upd_client \<Rightarrow> nat" where
  "answer_count i s = length (filter (answers_to i) (cu_log s))"

definition holds :: "nat \<Rightarrow> 's upd_client \<Rightarrow> nat" where
  "holds i s = owes_held i (cu_set_query s) + owes_held i (cu_active_query s) + owes_held i (cu_long_poll_query s)"

lemma account_split: "account i s = answer_count i s + holds i s"
  by (simp add: account_def answer_count_def holds_def)

lemma written_prefix: "\<exists>n. written_updates l us = take n us"
proof (induction us arbitrary: l)
  case (Cons u us)
  obtain n where "written_updates (l - (50 + int (length (te_data u)))) us = take n us" using Cons by blast
  then show ?case by (cases "l - (50 + int (length (te_data u))) \<le> 0") (auto simp: Let_def intro: exI [of _ 0] exI [of _ "Suc n"])
qed simp

text \<open>The identifier from which \<^verbatim>\<open>getUpdates\<close> reads: an offset too far from the queue is replaced by its head.\<close>

definition effective_offset :: "int \<Rightarrow> int \<Rightarrow> 's tqueue \<Rightarrow> int" where
  "effective_offset qid offset tq =
     (if is_valid_id offset \<and>
         (case tq_queues tq qid of
            None \<Rightarrow> True
          | Some q \<Rightarrow> get_queue_head q - int MAX_QUEUE_EVENTS \<le> offset \<and> offset \<le> tq_tail_id q + 10)
      then offset else get_head qid tq)"

definition due_from :: "int \<Rightarrow> int \<Rightarrow> int \<Rightarrow> 's tqueue \<Rightarrow> raw_event list" where
  "due_from qid from now tq = filter (due now) (filter (\<lambda>e. from \<le> ev_id e) (tq_events (queue_at tq qid)))"

lemma get_ok_iff:
  "tq_get ops qid from f now n tq = Checked (r, tq') \<Longrightarrow>
   is_ok r \<longleftrightarrow> (case tq_queues tq qid of
            None \<Rightarrow> True
          | Some q \<Rightarrow> get_queue_head q - int MAX_QUEUE_EVENTS \<le> from \<and> from \<le> tq_tail_id q + 10)"
  by (auto simp: tq_get_def is_ok_def split: option.splits if_splits checked.splits prod.splits)

lemma read_pending_due:
  assumes inv: "tq_inv tq" and pos: "0 < offset"
  shows "\<exists>m tq'. read_pending p env offset n tq =
    Checked ((m, map to_event (take n (due_from (up_tqueue_id p) (effective_offset (up_tqueue_id p) offset tq) (ue_unix_time env) tq))),
      offset, tq')"
proof -
  let ?qid = "up_tqueue_id p"
  let ?get = "\<lambda>from. tq_get (ue_ops env) ?qid from True (ue_unix_time env) n tq"
  have got: "\<exists>r tq'. ?get from = Checked (r, tq') \<and>
      (\<forall>m us. r = Ok (m, us) \<longrightarrow> us = map to_event (take n (due_from ?qid from (ue_unix_time env) tq)))" for "from"
    using tq_get_effect [OF inv, of "ue_ops env" ?qid "from" True "ue_unix_time env" n] by (auto simp: due_from_def)
  obtain r tq1 where head: "?get (get_head ?qid tq) = Checked (r, tq1)"
    "\<forall>m us. r = Ok (m, us) \<longrightarrow> us = map to_event (take n (due_from ?qid (get_head ?qid tq) (ue_unix_time env) tq))"
    using got by blast
  have "is_ok r" using get_from_head [OF inv head(1)] .
  then obtain m us where r: "r = Ok (m, us)" by (cases r) auto
  show ?thesis
  proof (cases "is_valid_id offset")
    case False
    then show ?thesis
      using pos head r by (simp add: read_pending_def Let_def from_int32_def effective_offset_def)
  next
    case True
    obtain r2 tq2 where o: "?get offset = Checked (r2, tq2)"
      "\<forall>m us. r2 = Ok (m, us) \<longrightarrow> us = map to_event (take n (due_from ?qid offset (ue_unix_time env) tq))"
      using got by blast
    have e: "effective_offset ?qid offset tq = (if is_ok r2 then offset else get_head ?qid tq)"
      using True get_ok_iff [OF o(1)] by (simp add: effective_offset_def)
    show ?thesis
    proof (cases r2)
      case (Inl x)
      then have "tq2 = tq" using o(1) tq_get_error by blast
      then show ?thesis using Inl True pos o e head r by (simp add: read_pending_def Let_def from_int32_def)
    next
      case (Inr y)
      then show ?thesis using True pos o e by (cases y) (simp add: read_pending_def Let_def from_int32_def)
    qed
  qed
qed

lemma written_first: "us \<noteq> [] \<Longrightarrow> int (length (te_data (hd us))) + 50 < l \<Longrightarrow> written_updates l us = hd us # tl (written_updates l us)"
  by (cases us) (auto simp: Let_def)

text \<open>An environment, a client with two pending updates and queries for the witnesses.\<close>

definition demo_upd_params :: upd_params where
  "demo_upd_params = \<lparr>up_tqueue_id = 7, up_local_mode = False, up_default_max_connections = 40, up_dir = ''d/''\<rparr>"

definition demo_upd_env :: "real \<Rightarrow> mem_storage upd_env" where
  "demo_upd_env t = \<lparr>ue_ops = mem_ops, ue_inet = demo_os, ue_cached = t, ue_now = t, ue_unix_time = 50, ue_random = (\<lambda>_. 5)\<rparr>"

definition demo_query :: "nat \<Rightarrow> string \<Rightarrow> (string \<times> string) list \<Rightarrow> server_query" where
  "demo_query i m args = \<lparr>sq_id = i, sq_method = m, sq_args = args, sq_files = [], sq_is_internal = False\<rparr>"

definition demo_upd_client :: "mem_storage upd_client" where
  "demo_upd_client = new_upd_client demo_tq 0"

text \<open>A run of commands at the times given, from the client of the demo.\<close>

fun demo_run :: "(real \<times> upd_event) list \<Rightarrow> mem_storage upd_client \<Rightarrow> mem_storage upd_client" where
  "demo_run [] s = s"
| "demo_run ((t, ev) # evs) s =
     (case upd_step demo_upd_params (demo_upd_env t) ev s of Some (Checked s') \<Rightarrow> demo_run evs s' | _ \<Rightarrow> s)"

fun demo_enabled :: "(real \<times> upd_event) list \<Rightarrow> mem_storage upd_client \<Rightarrow> bool" where
  "demo_enabled [] s \<longleftrightarrow> True"
| "demo_enabled ((t, ev) # evs) s \<longleftrightarrow> upd_enabled ev s \<and>
     (case upd_step demo_upd_params (demo_upd_env t) ev s of Some (Checked s') \<Rightarrow> demo_enabled evs s' | _ \<Rightarrow> False)"

lemma demo_tq_inv: "tq_inv demo_tq"
  using tq_steps_inv [OF demo_reach] new_tqueue_inv unfolding demo_tq0_def by blast

lemma demo_run_reach:
  "upd_reach demo_upd_params demo_os ids s \<Longrightarrow> demo_enabled evs s \<Longrightarrow>
   upd_reach demo_upd_params demo_os (ids @ concat (map (queries_of \<circ> snd) evs)) (demo_run evs s)"
proof (induction evs s arbitrary: ids rule: demo_run.induct)
  case (2 t ev evs s)
  then obtain s' where s': "upd_step demo_upd_params (demo_upd_env t) ev s = Some (Checked s')" "demo_enabled evs s'"
    by (auto split: option.splits checked.splits)
  then have "upd_reach demo_upd_params demo_os (ids @ queries_of ev) s'"
    using 2(2,3) by (auto intro: reach_event [where env = "demo_upd_env t"] simp: demo_upd_env_def env_ok_def demo_fresh)
  from 2(1) [OF s'(1) refl this s'(2)] show ?case using s'(1) by (simp add: comp_def)
qed simp

lemma demo_client_reach: "upd_reach demo_upd_params demo_os [] demo_upd_client"
  unfolding demo_upd_client_def by (rule reach_new [OF demo_tq_inv])

lemma do_get_updates_held:
  "do_get_updates p env offset limit timeout q s = Checked s' \<Longrightarrow> cu_long_poll_query s = None \<Longrightarrow> cu_long_poll_query s' \<noteq> None \<Longrightarrow>
   cu_long_poll_slot s' = Some (ue_cached env + of_int timeout)"
  by (auto simp: do_get_updates_def and_then_def check_def Let_def cu_send_def cu_request_def cu_stopping_def
      split: checked.splits prod.splits if_splits)



text \<open>
  Long polling and webhooks exclude each other: while a \<^verbatim>\<open>getUpdates\<close> query is held there is no webhook, none is being
  set and none is waiting for its certificate, and the expiry of the slot is pending; a webhook has its URL.
\<close>

theorem long_poll_excludes_webhook:
  assumes "upd_reach p os ids s"
  shows "(cu_long_poll_query s = None \<or>
      cu_url s = [] \<and> cu_webhook_id s = None \<and> cu_set_query s = None \<and> cu_active_query s = None \<and> cu_long_poll_slot s \<noteq> None) \<and>
    (cu_webhook_id s = None \<or> cu_url s \<noteq> [])"
  using upd_reach_inv [OF assms] by (auto simp: upd_inv_def)

text \<open>
  C21: ''Webhook was set'' is the answer to the query whose URL was verified: when a webhook created before reports that it
  is verified and this answers a query, the query asked for the URL that is now set, and the webhook is the current one.
\<close>

theorem verified_answers_its_query:
  assumes "upd_reach p os ids s" "token \<in> set (created s)" "AnswerTrue i text \<in> set (drop (length (cu_log s)) (cu_log (webhook_verified token ip s)))"
  shows "\<exists>q. cu_set_query s = Some q \<and> sq_id q = i \<and> sq_arg ''url'' q = cu_url s \<and> cu_webhook_id s = Some token \<and>
    cu_set_query (webhook_verified token ip s) = None \<and> cu_url (webhook_verified token ip s) = sq_arg ''url'' q"
proof -
  have inv: "tokens_ok (cu_set_query s) (cu_query_type s) (cu_url s) (cu_webhook_id s) (cu_generation s) (created s)"
    using upd_reach_inv [OF assms(1)] by (simp add: upd_inv_def)
  have tok: "token = cu_generation s" using assms(3) by (auto simp: webhook_verified_def split: if_splits)
  then obtain q where q: "cu_set_query s = Some q" "sq_id q = i"
    using assms(3) by (cases "cu_set_query s") (auto simp: webhook_verified_def Let_def save_webhook_db_def cu_send_def split: if_splits)
  have "cu_query_type s = Verify" using inv q(1) assms(2) tok by (cases "cu_query_type s") (auto simp: tokens_ok_def)
  then show ?thesis using inv q tok by (auto simp: tokens_ok_def webhook_verified_def Let_def save_webhook_db_def cu_send_def)
qed



section \<open>The restored webhook\<close>

lemma decode_print_uint: "json_decode (print_uint n) = Ok (JNumber (print_uint n))"
proof -
  have d: "number_char c \<and> number_start c" if "c \<in> set (print_uint n)" for c
    using print_uint_digits [OF that] by (auto simp: number_char_def number_start_def)
  then have "good_number (print_uint n)" by (auto simp: good_number_def list_all_iff)
  then have "good_value (JNumber (print_uint n))" by simp
  from json_decode_text [OF this _ _ blank_layout(2), of None] show ?thesis by simp
qed

text \<open>The settings a client can have stored.\<close>

definition storable :: "upd_params \<Rightarrow> inet \<Rightarrow> webhook_settings \<Rightarrow> bool" where
  "storable p os w \<longleftrightarrow>
     CHR ''/'' \<notin> set (webhook_settings.wh_ip_address w) \<and> \<not> begins_with (wh_url w) ''#'' \<and> wh_url w \<noteq> [] \<and>
     (case parse_url os (wh_url w) Https of Checked r \<Rightarrow> is_ok r | CheckFailed \<Rightarrow> False) \<and>
     length (wh_secret_token w) \<le> 256 \<and> is_base64url_characters (wh_secret_token w) \<and>
     1 \<le> wh_max_connections w \<and> wh_max_connections w \<le> (if up_local_mode p then 100000 else 100) \<and>
     0 < wh_allowed_update_types w \<and> wh_allowed_update_types w < 2 ^ 64"

definition restore_query :: "nat \<Rightarrow> string \<Rightarrow> string \<Rightarrow> server_query" where
  "restore_query i token info =
     (let b = get_webhook_restore_query token info
      in \<lparr>sq_id = i, sq_method = q_method b, sq_args = q_args b, sq_files = [], sq_is_internal = True\<rparr>)"

lemma base64url_no_slash: "is_base64url_characters t \<Longrightarrow> CHR ''/'' \<notin> set t"
proof -
  have "get_character_table True (CHR ''/'') = 64" by code_simp
  then show "is_base64url_characters t \<Longrightarrow> CHR ''/'' \<notin> set t"
    by (auto simp: is_base64url_characters_def is_base64_characters_impl_def)
qed

lemma restored_arg:
  assumes "sq_args q = restored_args d w"
  shows "sq_arg ''certificate'' q = (if wh_has_certificate w then ''previous'' else [])"
    "sq_arg ''max_connections'' q = print_signed (wh_max_connections w)"
    "sq_arg ''ip_address'' q = webhook_settings.wh_ip_address w"
    "sq_has_arg ''fix_ip_address'' q = wh_fix_ip_address w"
    "sq_arg ''secret_token'' q = wh_secret_token w"
    "sq_arg ''allowed_updates'' q = (if wh_allowed_update_types w = d then [] else print_uint (wh_allowed_update_types w))"
    "sq_arg ''url'' q = wh_url w" "sq_arg ''drop_pending_updates'' q = []"
  using assms by (simp_all add: sq_arg_def sq_has_arg_def find_key_def restored_args_def)

lemma restored_types:
  assumes "sq_args q = restored_args d w" "sq_is_internal q" "wh_allowed_update_types w < 2 ^ 64" "0 < wh_allowed_update_types w"
  shows "get_allowed_update_types (sq_arg ''allowed_updates'' q) (sq_is_internal q) =
    (if wh_allowed_update_types w = d then 0 else wh_allowed_update_types w)"
  using assms(2-4) to_integer_safe_unsigned_iff [of 64 "print_uint (wh_allowed_update_types w)" "wh_allowed_update_types w"]
  by (simp add: restored_arg(6) [OF assms(1)] get_allowed_update_types_def decode_print_uint)

text \<open>An internal \<^verbatim>\<open>setwebhook\<close> query to a new client gets to \<^verbatim>\<open>finish_set_webhook\<close> at once.\<close>

lemma new_client_sets_webhook:
  fixes tq :: "'s tqueue" and env :: "'s upd_env"
  assumes q: "sq_method q = ''setwebhook''" "sq_is_internal q" "sq_arg ''url'' q \<noteq> []"
    "parse_url (ue_inet env) (sq_arg ''url'' q) Https = Checked (Ok u)" "length (sq_arg ''secret_token'' q) \<le> 256"
    "is_base64url_characters (sq_arg ''secret_token'' q)" "\<not> to_bool (sq_arg ''drop_pending_updates'' q)"
  obtains s where "on_updates_cmd p env q (new_upd_client tq start) = finish_set_webhook p env q
      (s\<lparr>cu_webhook := (cu_webhook s)\<lparr>wh_has_certificate := (sq_arg ''certificate'' q = ''previous'')\<rparr>\<rparr>)"
    "\<not> cu_stopping s" "cu_set_query s = None" "cu_active_query s = None" "cu_url s = []" "cu_generation s = 2"
    "wh_allowed_update_types (cu_webhook s) = DEFAULT_ALLOWED_UPDATE_TYPES"
proof
  define s0 where "s0 = new_upd_client tq start"
  let ?s = "s0\<lparr>cu_next_warning_time := max (cu_next_warning_time s0) (ue_cached env + BOT_UPDATES_WARNING_DELAY),
      cu_next_logging_time := ue_cached env + 300, cu_generation := 2\<rparr>"
  have s0: "\<not> cu_stopping s0" "cu_set_query s0 = None" "cu_active_query s0 = None" "cu_long_poll_query s0 = None" "cu_url s0 = []"
      "\<not> wh_has_certificate (cu_webhook s0)" "cu_generation s0 = 1" "wh_allowed_update_types (cu_webhook s0) = DEFAULT_ALLOWED_UPDATE_TYPES"
    by (simp_all add: s0_def new_upd_client_def cu_stopping_def)
  have url: "requested_url q = sq_arg ''url'' q" using q(1) by (simp add: requested_url_def)
  have mod: "\<not> is_not_modified p q s" if "cu_url s = []" for s :: "'s upd_client"
    using that q(3) by (simp add: is_not_modified_def url Let_def)
  have "on_updates_cmd p env q s0 = do_set_webhook p env q False ?s"
    using s0 q(1-3) mod
    by (simp add: on_updates_cmd_def process_set_webhook_query_def change_webhook_def abort_long_poll_def url Let_def numeral_2_eq_2)
  moreover have "\<not> cu_stopping ?s" using s0(1) by (simp add: cu_stopping_def)
  ultimately show "on_updates_cmd p env q (new_upd_client tq start) = finish_set_webhook p env q
      (?s\<lparr>cu_webhook := (cu_webhook ?s)\<lparr>wh_has_certificate := (sq_arg ''certificate'' q = ''previous'')\<rparr>\<rparr>)"
    using s0 q by (simp add: do_set_webhook_def Let_def url s0_def [symmetric])
  show "\<not> cu_stopping ?s" "cu_set_query ?s = None" "cu_active_query ?s = None" "cu_url ?s = []" "cu_generation ?s = 2"
    "wh_allowed_update_types (cu_webhook ?s) = DEFAULT_ALLOWED_UPDATE_TYPES" using s0 by (simp_all add: cu_stopping_def)
qed

text \<open>
  C22: a webhook survives a restart: the text that \<^verbatim>\<open>save_webhook\<close> stored, turned by the client manager into an internal
  \<^verbatim>\<open>setwebhook\<close> query and given to a new client, sets exactly the stored webhook and creates its actor.
\<close>

theorem webhook_survives_restart:
  fixes tq :: "'s tqueue" and env :: "'s upd_env"
  assumes "storable p os w" "ue_inet env = os"
  shows "\<exists>s' u. upd_step p env (EvCommand (restore_query i token (save_webhook DEFAULT_ALLOWED_UPDATE_TYPES w))) (new_upd_client tq start) =
      Some (Checked s') \<and> cu_webhook s' = w \<and> cu_webhook_id s' = Some 2 \<and> parse_url os (wh_url w) Https = Checked (Ok u) \<and>
    last (cu_log s') = WebhookCreate 2 u (if wh_has_certificate w then get_webhook_certificate_path p else []) (wh_max_connections w)
      True (webhook_settings.wh_ip_address w) (wh_fix_ip_address w) (wh_secret_token w)"
proof -
  define q where "q = restore_query i token (save_webhook DEFAULT_ALLOWED_UPDATE_TYPES w)"
  have args: "sq_args q = restored_args DEFAULT_ALLOWED_UPDATE_TYPES w"
    using webhook_restore [of w token DEFAULT_ALLOWED_UPDATE_TYPES] assms(1) base64url_no_slash
    by (simp add: q_def restore_query_def storable_def Let_def)
  have q: "sq_method q = ''setwebhook''" "sq_is_internal q"
    by (simp_all add: q_def restore_query_def Let_def get_webhook_restore_query_def split: prod.split)
  note arg = restored_arg [OF args]
  obtain u where u: "parse_url os (wh_url w) Https = Checked (Ok u)"
    using assms(1) parse_url_total [of os "wh_url w" Https] by (auto simp: storable_def is_ok_iff)
  have max: "get_webhook_max_connections p q = wh_max_connections w"
    using assms(1) to_integer_print [of 32 "wh_max_connections w"]
    by (auto simp: get_webhook_max_connections_def get_integer_arg_def arg storable_def clamp_def in_signed_def Let_def print_signed_def split: if_splits)
  have fixip: "get_webhook_fix_ip_address q = wh_fix_ip_address w" using q by (simp add: get_webhook_fix_ip_address_def arg)
  have types: "get_allowed_update_types (sq_arg ''allowed_updates'' q) (sq_is_internal q) =
      (if wh_allowed_update_types w = DEFAULT_ALLOWED_UPDATE_TYPES then 0 else wh_allowed_update_types w)"
    using restored_types [OF args q(2)] assms(1) by (simp add: storable_def)
  have drop: "\<not> to_bool (sq_arg ''drop_pending_updates'' q)" by (simp add: arg to_bool_def) code_simp
  have ok: "wh_url w \<noteq> []" "length (wh_secret_token w) \<le> 256" "is_base64url_characters (wh_secret_token w)" "0 < wh_allowed_update_types w"
    using assms(1) by (simp_all add: storable_def)
  obtain s where s: "on_updates_cmd p env q (new_upd_client tq start) = finish_set_webhook p env q
      (s\<lparr>cu_webhook := (cu_webhook s)\<lparr>wh_has_certificate := (sq_arg ''certificate'' q = ''previous'')\<rparr>\<rparr>)"
    "\<not> cu_stopping s" "cu_set_query s = None" "cu_active_query s = None" "cu_url s = []" "cu_generation s = 2"
    "wh_allowed_update_types (cu_webhook s) = DEFAULT_ALLOWED_UPDATE_TYPES"
    by (rule new_client_sets_webhook [OF q, of env u p tq start]) (use ok u drop assms(2) in \<open>simp_all add: arg\<close>)
  have "\<exists>s'. finish_set_webhook p env q (s\<lparr>cu_webhook := (cu_webhook s)\<lparr>wh_has_certificate := wh_has_certificate w\<rparr>\<rparr>) = Checked s' \<and>
    cu_webhook s' = w \<and> cu_webhook_id s' = Some 2 \<and>
    last (cu_log s') = WebhookCreate 2 u (if wh_has_certificate w then get_webhook_certificate_path p else []) (wh_max_connections w)
      True (webhook_settings.wh_ip_address w) (wh_fix_ip_address w) (wh_secret_token w)"
    using s(2-) q ok u assms(2) types
    by (simp add: finish_set_webhook_def Let_def arg cu_stopping_def max fixip update_allowed_update_types_def cu_request_def cu_send_def)
  moreover have "(sq_arg ''certificate'' q = ''previous'') = wh_has_certificate w" by (simp add: arg)
  ultimately show ?thesis using s(1) u by (simp add: q_def [symmetric])
qed


definition demo_get :: "(real \<times> upd_event) list" where
  "demo_get = [(10, EvCommand (demo_query 1 ''getupdates'' [(''offset'', ''7''), (''timeout'', ''20'')]))]"

definition demo_set :: "(real \<times> upd_event) list" where
  "demo_set = [(10, EvCommand (demo_query 1 ''setwebhook'' [(''url'', ''https://a.b/c'')]))]"

definition demo_cert :: "(real \<times> upd_event) list" where
  "demo_cert = [(10, EvCommand ((demo_query 1 ''setwebhook'' [(''url'', ''https://a.b/c'')])
     \<lparr>sq_files := [\<lparr>hf_field_name = ''certificate'', hf_size = 5, hf_temp_file_name = ''t''\<rparr>]\<rparr>)), (11, EvLoggingOut)]"

lemma demo_runs_enabled:
  "demo_enabled demo_get demo_upd_client" "demo_enabled demo_set demo_upd_client" "demo_enabled demo_cert demo_upd_client"
  by code_simp+

lemmas demo_reached = demo_run_reach [OF demo_client_reach demo_runs_enabled(1), simplified]
  demo_run_reach [OF demo_client_reach demo_runs_enabled(2), simplified]
  demo_run_reach [OF demo_client_reach demo_runs_enabled(3), simplified]

lemma demo_env_ok: "env_ok demo_os (demo_upd_env t)"
  by (simp add: env_ok_def demo_upd_env_def demo_fresh)



theorem long_poll_excludes_webhook_witness:
  "cu_url (demo_run demo_get demo_upd_client) = [] \<and> cu_webhook_id (demo_run demo_get demo_upd_client) = None"
proof -
  have "cu_long_poll_query (demo_run demo_get demo_upd_client) \<noteq> None" by code_simp
  then show ?thesis using long_poll_excludes_webhook [OF demo_reached(1)] by auto
qed

theorem verified_answers_its_query_witness:
  "\<exists>q. cu_set_query (demo_run demo_set demo_upd_client) = Some q \<and> sq_id q = 1 \<and> sq_arg ''url'' q = ''https://a.b/c''"
proof -
  have "2 \<in> set (created (demo_run demo_set demo_upd_client))"
    "AnswerTrue 1 ''Webhook was set'' \<in> set (drop (length (cu_log (demo_run demo_set demo_upd_client)))
       (cu_log (webhook_verified 2 ''1.2.3.4'' (demo_run demo_set demo_upd_client))))" by code_simp+
  moreover have "cu_url (demo_run demo_set demo_upd_client) = ''https://a.b/c''" by code_simp
  ultimately show ?thesis using verified_answers_its_query [OF demo_reached(2)] by metis
qed



theorem webhook_survives_restart_witness:
  "\<exists>s'. upd_step demo_upd_params (demo_upd_env 10)
     (EvCommand (restore_query 1 ''12:ab'' (save_webhook DEFAULT_ALLOWED_UPDATE_TYPES demo_webhook))) (new_upd_client demo_tq 0) =
       Some (Checked s') \<and> cu_webhook s' = demo_webhook"
proof -
  have "storable demo_upd_params demo_os demo_webhook" by code_simp
  moreover have "ue_inet (demo_upd_env 10) = demo_os" by (simp add: demo_upd_env_def)
  ultimately show ?thesis using webhook_survives_restart by blast
qed


end
