(* ===== verification/Spec2Isabelle.thy ===== *)
theory Spec2Isabelle
  imports HttpConn ClientStreams StreamCleanup WebhookProps ClientUpdatesProps
begin

text \<open>
  A verification library of the file streaming Bot API server: the HTTP server of \<^verbatim>\<open>src/server\<close>, which adds
  \<^verbatim>\<open>/file/bot<token>/stream/<file_id>\<close> to the Telegram Bot API, and the parts of TDLib (\<^verbatim>\<open>src/td\<close>) its own logic
  rests on.

  \<^bold>\<open>How the program is put together.\<close>  \<^verbatim>\<open>HttpConnection\<close> receives a request and answers it with an error, creates a
  \<^verbatim>\<open>Query\<close> for a Bot API method, or creates a \<^verbatim>\<open>FileStreamConnection\<close>.  Queries and streams go to \<^verbatim>\<open>ClientManager\<close>,
  which admits them (token, limits, flood control) and passes them to the \<^verbatim>\<open>Client\<close> of the bot.  The client resolves the
  file, starts the download and sends \<^verbatim>\<open>on_file_ready\<close>, \<^verbatim>\<open>on_file_progress\<close> and \<^verbatim>\<open>on_file_error\<close> to the stream, which
  reads the local file along its cursor and writes the requested range to the HTTP connection.  While it reads, it holds the
  file in \<^verbatim>\<open>WorkdirCleanupManager\<close>, which deletes cached files when the working directory grows too large.  Updates for
  the bots are kept in \<^verbatim>\<open>TQueue\<close> and read by \<^verbatim>\<open>getUpdates\<close> (long polling), or, after \<^verbatim>\<open>setWebhook\<close>, delivered by a \<^verbatim>\<open>WebhookActor\<close> to the web server of the
  bot.  All of these are actors: they exchange messages and
  process one message at a time.  An actor is modelled by a record and one function per handler; the messages and
  bytes that it sends are appended to a log in its state, and the order of the messages it receives is arbitrary (a list of
  events, or a step relation with its reachable states).

  \<^bold>\<open>The theories.\<close>
  \<^item> \<open>Prelude\<close>: results (\<^verbatim>\<open>Status\<close>, \<^verbatim>\<open>Result\<close>) as sums, \<open>checked\<close> values for code with \<^verbatim>\<open>CHECK\<close> (a failed check
    aborts the process and is the value \<open>CheckFailed\<close>), and shared lemmas on lists.
  \<^item> \<open>Td_Misc\<close>, \<open>Td_Parser\<close>, \<open>Td_Builder\<close>, \<open>Td_Json\<close>, \<open>Td_Http\<close>, \<open>Td_PathView\<close>, \<open>Td_Net\<close>, \<open>Td_Flood\<close>,
    \<open>Td_Container\<close>, \<open>Td_Base64\<close>, \<open>Td_HttpUrl\<close>: the utilities of \<^verbatim>\<open>td/tdutils\<close> and \<^verbatim>\<open>td/tdnet\<close> of these names: integer conversion at the
    width of the type, codecs with their round trips, the parser, the memory safety of \<^verbatim>\<open>StringBuilder\<close>, JSON escaping and
    UTF-8, HTTP headers, path components, IP prefixes, the rate bound of the flood control, the generations of
    \<^verbatim>\<open>Container\<close>, base64 and the URLs that are accepted.
  \<^item> \<open>Td_TQueue\<close>, \<open>Td_TQueueInv\<close>, \<open>Td_TQueueStore\<close>: \<^verbatim>\<open>td/tddb/td/db/TQueue.cpp\<close>.  All operations keep the invariant of
    the queues, \<^verbatim>\<open>get\<close> returns the pending updates, garbage collection ends, and the storage (a locale, interpreted for
    \<^verbatim>\<open>TQueueMemoryStorage\<close>) always restores the queues.
  \<^item> \<open>FileStreamCursor\<close>, \<open>FileStreamRoute\<close>: \<^verbatim>\<open>FileStreamCursor.cpp\<close> and \<^verbatim>\<open>FileStreamRoute.cpp\<close>: the position in the
    range at \<^verbatim>\<open>int64\<close>, and the parsing of routes, ranges and the allow-list.
  \<^item> \<open>FileStreamConn\<close>, \<open>FileStreamProofs\<close>, \<open>FileStreamHolds\<close>, \<open>FileStreamReply\<close>: \<^verbatim>\<open>FileStream.cpp\<close>, its invariant, the
    balance of the files it retains and releases, and the reply that it writes: a stream that ends successfully has written
    exactly the requested bytes.
  \<^item> \<open>HttpConn\<close>: \<^verbatim>\<open>HttpConnection.cpp\<close>, \<^verbatim>\<open>Query.cpp\<close>, \<^verbatim>\<open>HttpQuery.cpp\<close>: every request leaves the connection in exactly
    one way.
  \<^item> \<open>Td_JsonReader\<close>, \<open>Td_JsonRoundtrip\<close>: the JSON reader of \<^verbatim>\<open>JsonBuilder.cpp\<close> and the accessors of \<^verbatim>\<open>JsonObject\<close>.  What
    the writer writes is read back, skipping a value ends where reading it ends, a decoded string fits into the place of its source,
    and typed fields have their type.
  \<^item> \<open>ClientErrors\<close>: \<^verbatim>\<open>answer_query\<close>, \<^verbatim>\<open>fail_query\<close> and \<^verbatim>\<open>Client::fail_query_with_error\<close>: every error is answered.
  \<^item> \<open>ClientUpdates\<close>, \<open>ClientUpdatesInv\<close>, \<open>ClientUpdatesProps\<close>: the updates and the webhook of a \<^verbatim>\<open>Client\<close>: \<^verbatim>\<open>getUpdates\<close> with
    long polling, \<^verbatim>\<open>setWebhook\<close> and \<^verbatim>\<open>deleteWebhook\<close>, certificates, the callbacks of the webhook actor, new updates and
    closing, over any order of events: every query is answered exactly once, no \<^verbatim>\<open>CHECK\<close> fails (except after a certificate copy that outlives TDLib, which is shown to
    abort), the due updates are returned, a stored webhook is restored by a new client.
  \<^item> \<open>ClientManager\<close>, \<open>ClientStreams\<close>: \<^verbatim>\<open>ClientManager.cpp\<close> and the stream handlers of \<^verbatim>\<open>Client.cpp\<close>: limits and
    consistency of the tables in every reachable state, and the webhook settings that are saved and restored.
  \<^item> \<open>WebhookActor\<close>, \<open>WebhookTables\<close>, \<open>WebhookInv\<close>, \<open>WebhookEvents\<close>, \<open>WebhookProps\<close>: \<^verbatim>\<open>WebhookActor.cpp\<close>.  The abstract
    state of the delivery and its steps, the invariant of the actor over every event and any interleaving with other
    users of the \<^verbatim>\<open>TQueue\<close>: updates of a chat are delivered in order, none gets stuck, none is given up without
    reason, the limits hold and no \<^verbatim>\<open>CHECK\<close> fails.
  \<^item> \<open>WorkdirCleanup\<close>, \<open>StreamCleanup\<close>: \<^verbatim>\<open>WorkdirCleanupManager.cpp\<close>, and its composition with any number of streams whose
    messages arrive in any interleaving.  This theory closes with the theorem that spans them: no file in use is deleted.

  \<^bold>\<open>Interfaces.\<close>  Locales state what one component relies on from another: \<open>block_cursor\<close> (blocks read along a position
  cover a range), \<open>refcount\<close> (files retained and released), \<open>event_storage\<close> (the storage of the queues), \<open>id_table\<close>
  (objects reached through identifiers, for the connections of a webhook) and \<open>codec\<close> (decoding after encoding); each is interpreted on the definitions of the model in the theory that provides them.

  \<^bold>\<open>Bounds and fuel.\<close>  Integers that may overflow are kept at their width (\<open>int64\<close> arithmetic with range checks, \<open>word\<close> for
  addresses, masks and generations, \<open>mod 2 ^ 64\<close> for \<^verbatim>\<open>size_t\<close>).  Four loops carry fuel: the search for an identifier in
  \<^verbatim>\<open>TQueue::push\<close> has fuel 2, since the second round starts with a fresh identifier that has a successor, and
  \<^verbatim>\<open>run_gc\<close> has one unit more than there are scheduled queues; that both suffice is part of the theorems.  The loops of a webhook that
  open connections and send updates have as fuel the number of needed connections and one more than the ready connections; \<open>create_loop_ok\<close> and
  \<open>send_loop_ok\<close> show that more fuel changes nothing.

  \<^bold>\<open>Parameters.\<close>  Code outside the sources is a parameter: file system calls, clock readings, random numbers, the answers of
  TDLib, \<^verbatim>\<open>inet_pton\<close> and \<^verbatim>\<open>inet_ntop\<close>.  What a theorem needs of them is one of its hypotheses, and its witness shows
  that the hypotheses can hold.

  \<^bold>\<open>Not modelled.\<close>  The translation of Bot API methods to TDLib requests and of TDLib objects to JSON in
  \<^verbatim>\<open>Client.cpp\<close> (glue over generated types), TDLib itself, MTProto, SQLite and the actor scheduler (replaced by arbitrary
  orders of events), sockets, TLS and \<^verbatim>\<open>HttpReader\<close> (buffers and temporary files), logging and statistics, option parsing, and
  the JSON fields of type \<^verbatim>\<open>double\<close>.
\<close>


definition demo_active :: stream_conn where
  "demo_active = run_stream demo_io (take 2 demo_events) (demo_start False)"

definition demo_manager :: cleanup_manager where
  "demo_manager = retain_file ''/w/f'' (cm_start_up 0 (new_cleanup_manager demo_cleanup))"

definition demo_files :: "walk_entry list" where
  "demo_files = [\<lparr>we_path = ''/w/f'', we_regular = True, we_stat = Some (True, 20, 1)\<rparr>, \<lparr>we_path = ''/w/g'', we_regular = True, we_stat = Some (True, 20, 2)\<rparr>]"

end
